(* ===== verification/Flash_Prelude.thy ===== *)
theory Flash_Prelude
  imports Main "HOL-Library.Word" "HOL-Library.Monad_Syntax"
begin

text \<open>
  What every theory of the development shares.

  \<^item> The widths of the C integers: \<open>u8\<close> to \<open>u64\<close> are unsigned words, and an \<open>int32_t\<close>
    is a 32-bit word read with \<^term>\<open>sint\<close>.
  \<^item> The reading of a C function: it is a HOL function into \<open>option\<close>, written with the
    \<open>do\<close> notation, that passes the state explicitly. \<^const>\<open>None\<close> is a run without a
    defined result: an access outside the bounds of an array or buffer (undefined in C), or
    a loop that does not end. A C function that returns an error code returns it as a value
    inside \<^const>\<open>Some\<close>.
  \<^item> \<open>returns m Q\<close>: the run \<open>m\<close> has a defined result and it satisfies \<open>Q\<close> (total
    correctness), with the rules that compute it through a \<open>do\<close> block.
  \<^item> Arrays and byte buffers with checked access, and little-endian encoding.
  \<^item> Lemmas on words used as loop counters.
\<close>

unbundle bit_operations_syntax

type_synonym u8 = "8 word"
type_synonym u16 = "16 word"
type_synonym u32 = "32 word"
type_synonym u64 = "64 word"

section \<open>Runs with a defined result\<close>

named_theorems returns_simps "the rules that compute returns through a program"

definition returns :: "'a option \<Rightarrow> ('a \<Rightarrow> bool) \<Rightarrow> bool" where
  "returns m Q = (case m of None \<Rightarrow> False | Some x \<Rightarrow> Q x)"

lemma returns_Some [simp, returns_simps]: "returns (Some x) Q = Q x"
  by (simp add: returns_def)

lemma returns_None [simp, returns_simps]: "returns None Q = False"
  by (simp add: returns_def)

lemma returns_bind [simp, returns_simps]:
  "returns (Option.bind m f) Q = returns m (\<lambda>x. returns (f x) Q)"
  by (cases m) simp_all

lemma returns_if [returns_simps]:
  "returns (if b then m else m') Q = (if b then returns m Q else returns m' Q)"
  by simp

lemma returns_mono:
  assumes "returns m P" and "\<And>x. P x \<Longrightarrow> Q x"
  shows "returns m Q"
  using assms by (cases m) simp_all

lemma returns_conj: "returns m P \<Longrightarrow> returns m Q \<Longrightarrow> returns m (\<lambda>x. P x \<and> Q x)"
  by (cases m) simp_all

lemma returns_eq: "returns m Q \<longleftrightarrow> (\<exists>x. m = Some x \<and> Q x)"
  by (cases m) simp_all

lemma returnsD: "m = Some x \<Longrightarrow> returns m Q \<Longrightarrow> Q x"
  by simp

section \<open>Arrays with checked access\<close>

definition arr_get :: "'a list \<Rightarrow> nat \<Rightarrow> 'a option" where
  "arr_get xs i = (if i < length xs then Some (xs ! i) else None)"

definition arr_set :: "'a list \<Rightarrow> nat \<Rightarrow> 'a \<Rightarrow> 'a list option" where
  "arr_set xs i v = (if i < length xs then Some (xs[i := v]) else None)"

text \<open>\<open>memcpy\<close> out of, and into, a buffer at an offset.\<close>

definition buf_get :: "'a list \<Rightarrow> nat \<Rightarrow> nat \<Rightarrow> 'a list option" where
  "buf_get b off n = (if off + n \<le> length b then Some (take n (drop off b)) else None)"

definition buf_put :: "'a list \<Rightarrow> nat \<Rightarrow> 'a list \<Rightarrow> 'a list option" where
  "buf_put b off d =
     (if off + length d \<le> length b
      then Some (take off b @ d @ drop (off + length d) b) else None)"

lemma returns_arr_get [returns_simps]:
  "returns (arr_get xs i) Q \<longleftrightarrow> i < length xs \<and> Q (xs ! i)"
  by (simp add: arr_get_def)

lemma returns_arr_set [returns_simps]:
  "returns (arr_set xs i v) Q \<longleftrightarrow> i < length xs \<and> Q (xs[i := v])"
  by (simp add: arr_set_def)

lemma returns_buf_get [returns_simps]:
  "returns (buf_get b off n) Q \<longleftrightarrow> off + n \<le> length b \<and> Q (take n (drop off b))"
  by (simp add: buf_get_def)

lemma returns_buf_put [returns_simps]:
  "returns (buf_put b off d) Q \<longleftrightarrow>
     off + length d \<le> length b \<and> Q (take off b @ d @ drop (off + length d) b)"
  by (simp add: buf_put_def)

lemma buf_put_length: "buf_put b off d = Some b' \<Longrightarrow> length b' = length b"
  by (auto simp: buf_put_def split: if_splits)

lemma buf_get_put_same: "buf_put b off d = Some b' \<Longrightarrow> buf_get b' off (length d) = Some d"
  by (auto simp: buf_put_def buf_get_def split: if_splits)

lemma buf_get_put_other:
  assumes "buf_put b off d = Some b'" and "off' + n \<le> off \<or> off + length d \<le> off'"
  shows "buf_get b' off' n = buf_get b off' n"
proof -
  from assms(1) have b': "b' = take off b @ d @ drop (off + length d) b"
    and le: "off + length d \<le> length b"
    by (auto simp: buf_put_def split: if_splits)
  from assms(2) show ?thesis
  proof
    assume "off' + n \<le> off"
    then show ?thesis using le by (auto simp: b' buf_get_def take_drop min_def)
  next
    assume "off + length d \<le> off'"
    then show ?thesis using le by (auto simp: b' buf_get_def)
  qed
qed

lemma buf_put_ok: "off + length d \<le> length b \<Longrightarrow> \<exists>b'. buf_put b off d = Some b' \<and> length b' = length b"
  by (simp add: buf_put_def)

lemma buf_get_ok: "off + n \<le> length b \<Longrightarrow> \<exists>d. buf_get b off n = Some d \<and> length d = n"
  by (simp add: buf_get_def)

lemma buf_put_take: "buf_put b off d = Some b' \<Longrightarrow> n \<le> off \<Longrightarrow> take n b' = take n b"
  by (auto simp: buf_put_def min_def split: if_splits)

lemma buf_put_drop: "buf_put b off d = Some b' \<Longrightarrow> off + length d \<le> n \<Longrightarrow> drop n b' = drop n b"
  by (auto simp: buf_put_def split: if_splits)

section \<open>Little-endian words\<close>

fun le_val :: "u8 list \<Rightarrow> 'a::len word" where
  "le_val [] = 0"
| "le_val (b # bs) = ucast b OR push_bit 8 (le_val bs)"

fun le_bytes :: "nat \<Rightarrow> 'a::len word \<Rightarrow> u8 list" where
  "le_bytes 0 w = []"
| "le_bytes (Suc n) w = ucast w # le_bytes n (drop_bit 8 w)"

lemma length_le_bytes [simp]: "length (le_bytes n w) = n"
  by (induction n arbitrary: w) simp_all


lemma le_val_le_bytes: "le_val (le_bytes n w) = take_bit (8 * n) (w :: 'a::len word)"
proof (induction n arbitrary: w)
  case 0
  show ?case by simp
next
  case (Suc n)
  have "le_val (le_bytes (Suc n) w) =
      ucast (ucast w :: u8) OR push_bit 8 (take_bit (8 * n) (drop_bit 8 w))"
    by (simp add: Suc.IH)
  also have "\<dots> = take_bit (8 * Suc n) w"
    by (rule bit_word_eqI) (auto simp: bit_simps)
  finally show ?case .
qed

lemma le_val_le_bytes_full: "LENGTH('a) \<le> 8 * n \<Longrightarrow> le_val (le_bytes n w) = (w :: 'a::len word)"
  by (simp add: le_val_le_bytes take_bit_word_eq_self)

abbreviation le32 :: "u32 \<Rightarrow> u8 list" where
  "le32 w \<equiv> le_bytes 4 w"

abbreviation le64 :: "u64 \<Rightarrow> u8 list" where
  "le64 w \<equiv> le_bytes 8 w"

lemma le_val_le32 [simp]: "le_val (le32 w) = w"
  by (rule le_val_le_bytes_full) simp

lemma le_val_le64 [simp]: "le_val (le64 w) = w"
  by (rule le_val_le_bytes_full) simp

text \<open>An array of 32-bit integers as the bytes it occupies, and back.\<close>

definition words_bytes :: "u32 list \<Rightarrow> u8 list" where
  "words_bytes ws = concat (map (le_bytes 4) ws)"

fun bytes_words :: "u8 list \<Rightarrow> u32 list" where
  "bytes_words (a # b # c # d # bs) = le_val [a, b, c, d] # bytes_words bs"
| "bytes_words _ = []"

lemma length_words_bytes [simp]: "length (words_bytes ws) = 4 * length ws"
  by (induction ws) (simp_all add: words_bytes_def)

lemma bytes_words_append4:
  assumes "length bs = 4"
  shows "bytes_words (bs @ cs) = le_val bs # bytes_words cs"
proof -
  from assms obtain a b c d where "bs = [a, b, c, d]"
    by (auto simp: numeral_eq_Suc length_Suc_conv)
  then show ?thesis by simp
qed

lemma bytes_words_words_bytes [simp]: "bytes_words (words_bytes ws) = ws"
  by (induction ws) (simp_all add: words_bytes_def bytes_words_append4)

lemma length_bytes_words [simp]: "length (bytes_words bs) = length bs div 4"
  by (induction bs rule: bytes_words.induct) auto

section \<open>Words as loop counters\<close>

lemma unat_inc: "a < b \<Longrightarrow> unat (a + 1) = Suc (unat (a :: 'a::len word))"
  by unat_arith

lemma unat_dec: "b < a \<Longrightarrow> unat (a - 1) = unat (a :: 'a::len word) - 1"
  by (metis unat_minus_one word_not_simps(1))

lemma unat_less: "(a :: 'a::len word) < b \<longleftrightarrow> unat a < unat b"
  by (simp add: word_less_nat_alt)

lemma unat_le: "(a :: 'a::len word) \<le> b \<longleftrightarrow> unat a \<le> unat b"
  by (simp add: word_le_nat_alt)

lemma unat_sub_le: "b \<le> a \<Longrightarrow> unat (a - b) = unat (a :: 'a::len word) - unat b"
  by (simp add: unat_sub)

text \<open>Widths.\<close>

lemma unat32_bound: "unat (w :: u32) < 2 ^ 32"
  using unsigned_less [where 'a = nat, of w] by simp

lemma unat_u32_u64 [simp]: "unat (ucast (w :: u32) :: u64) = unat w"
  using unat32_bound [of w] by (simp add: unsigned_ucast_eq take_bit_nat_eq_self)

lemma unat_u16_u32 [simp]: "unat (ucast (w :: u16) :: u32) = unat w"
  using unsigned_less [where 'a = nat, of w] by (simp add: unsigned_ucast_eq take_bit_nat_eq_self)

lemma unat_of_nat32: "n < 2 ^ 32 \<Longrightarrow> unat (of_nat n :: u32) = n"
  by (simp add: unsigned_of_nat take_bit_nat_eq_self)

text \<open>Signed reading of a counter below \<open>2 ^ 31\<close>.\<close>

lemma sint_small:
  assumes "unat c < 2147483648"
  shows "sint (c :: u32) = int (unat c)"
proof -
  from assms have "int (unat c) < int 2147483648" by (rule of_nat_less_iff [THEN iffD2])
  then have "uint c < 2 ^ 31" by simp
  then have "signed_take_bit 31 (uint c) = uint c"
    by (intro signed_take_bit_int_eq_self) (auto intro: order_trans [OF _ uint_nonnegative])
  then show ?thesis by (simp add: sint_uint)
qed

lemma sint_pred_neg: "unat c < 2147483648 \<Longrightarrow> sint (c - 1 :: u32) < 0 \<longleftrightarrow> c = 0"
proof (cases "c = 0")
  case False
  assume c: "unat c < 2147483648"
  have "unat (c - 1) = unat c - 1" using False by (simp add: unat_minus_one)
  then have "sint (c - 1) = int (unat c - 1)" using c by (simp add: sint_small)
  then show ?thesis using False by simp
qed simp

end
