(* ===== verification/Mtd_Device.thy ===== *)
theory Mtd_Device
  imports Flash_Prelude
begin

text \<open>
  The NAND chip below the bad block managers. \<open>mtk_bmt_attach\<close> saves the chip's operations
  (\<open>_read_oob\<close>, \<open>_write_oob\<close>, \<open>_erase\<close>, \<open>_block_isbad\<close>, \<open>_block_markbad\<close>) and its geometry
  in \<open>struct bmt_desc bmtd\<close>. The chip driver is code of the kernel, not of this repository:
  it is the parameter of the model, five functions on an arbitrary type \<open>'d\<close> of chip
  states. What is fixed after attach (the operations and the geometry) is the record
  \<open>bmtd\<close>; the chip state itself is passed explicitly.

  \<open>dev_steps\<close> relates two chip states by a sequence of chip operations of which the ones that
  modify the chip (program, erase, mark bad) only cover addresses of a given set. The chip
  \<open>sim_nand\<close> at the end is an instance that never fails, used to show that hypotheses on the
  driver can hold.
\<close>

section \<open>Error numbers\<close>

abbreviation EIO :: int where "EIO \<equiv> 5"
abbreviation ENOMEM :: int where "ENOMEM \<equiv> 12"
abbreviation ENODEV :: int where "ENODEV \<equiv> 19"
abbreviation EINVAL :: int where "EINVAL \<equiv> 22"
abbreviation ENOSPC :: int where "ENOSPC \<equiv> 28"
abbreviation EBADMSG :: int where "EBADMSG \<equiv> 74"
abbreviation EUCLEAN :: int where "EUCLEAN \<equiv> 117"

section \<open>The chip's operations and geometry\<close>

text \<open>
  What an operation returns: the C return value, and, for reads, the bytes stored at the
  front of \<open>datbuf\<close> and of \<open>oobbuf\<close>, so that \<open>ops.retlen\<close> and \<open>ops.oobretlen\<close> are their
  numbers. A request has its address, \<open>ops.len\<close>, \<open>ops.ooblen\<close> and \<open>ops.ooboffs\<close>; its mode is
  \<open>MTD_OPS_PLACE_OOB\<close> everywhere.
\<close>

record rd_res =
  rd_ret :: int
  rd_dat :: "u8 list"
  rd_oob :: "u8 list"

record wr_res =
  wr_ret :: int
  wr_retlen :: nat
  wr_oobretlen :: nat

record 'd bmtd =
  drv_read_oob :: "'d \<Rightarrow> u64 \<Rightarrow> nat \<Rightarrow> nat \<Rightarrow> nat \<Rightarrow> rd_res \<times> 'd"
  drv_write_oob :: "'d \<Rightarrow> u64 \<Rightarrow> u8 list \<Rightarrow> u8 list \<Rightarrow> nat \<Rightarrow> wr_res \<times> 'd"
  drv_erase :: "'d \<Rightarrow> u64 \<Rightarrow> u64 \<Rightarrow> int \<times> 'd"
  drv_block_isbad :: "'d \<Rightarrow> u64 \<Rightarrow> int \<times> 'd"
  drv_block_markbad :: "'d \<Rightarrow> u64 \<Rightarrow> int \<times> 'd"
  blk_shift :: u16
  pg_shift :: u16
  blk_size :: u32
  pg_size :: u32
  total_blks :: u16
  erasesize :: u32
  oobsize :: u32
  bitflip_threshold :: u32
  ecc_strength :: u32
  oobavail :: nat
  remap_range :: "(u32 \<times> u32) list option"
  crc32_le :: "u32 \<Rightarrow> u8 list \<Rightarrow> u32"

text \<open>
  \<open>remap_range\<close> is the device tree's \<open>mediatek,bmt-remap-range\<close>, pairs of byte addresses,
  \<^const>\<open>None\<close> when it is absent;
  \<open>oobavail\<close> is the value of \<open>mtd_oobavail(bmtd.mtd, &ops)\<close> and \<open>crc32_le\<close> the kernel's CRC;
  both are code outside the repository.

  The documented contract of a chip driver: a read stores at most the bytes asked for.
  The documented law of a streaming CRC: running it over two pieces in turn is running it
  over their concatenation.
\<close>

definition drv_bounded :: "'d bmtd \<Rightarrow> bool" where
  "drv_bounded env \<longleftrightarrow>
     (\<forall>d a l ol oo. length (rd_dat (fst (drv_read_oob env d a l ol oo))) \<le> l \<and>
        length (rd_oob (fst (drv_read_oob env d a l ol oo))) \<le> ol)"

definition crc_streams :: "'d bmtd \<Rightarrow> bool" where
  "crc_streams env \<longleftrightarrow>
     (\<forall>c xs ys. crc32_le env (crc32_le env c xs) ys = crc32_le env c (xs @ ys))"

text \<open>
  The geometry \<open>mtk_bmt_attach\<close> computes: sizes are the powers of two of the shifts, a page
  fits a block, and page sizes and spare areas are those of real chips (a page below
  64 KiB, a block below 16 MiB, an out-of-band area below 64 KiB).
\<close>

definition geom_ok :: "'d bmtd \<Rightarrow> bool" where
  "geom_ok env \<longleftrightarrow>
     unat (pg_shift env) \<le> 16 \<and> unat (blk_shift env) \<le> 24 \<and>
     unat (pg_shift env) \<le> unat (blk_shift env) \<and>
     unat (pg_size env) = 2 ^ unat (pg_shift env) \<and>
     unat (blk_size env) = 2 ^ unat (blk_shift env) \<and> erasesize env = blk_size env \<and>
     unat (oobsize env) \<le> 65536 \<and> 0 < total_blks env"

section \<open>Which addresses a run modifies\<close>

text \<open>The \<open>n\<close> bytes from address \<open>a\<close> on, and \<open>a\<close> itself, lie in \<open>A\<close>.\<close>

definition spans :: "(u64 \<Rightarrow> bool) \<Rightarrow> u64 \<Rightarrow> nat \<Rightarrow> bool" where
  "spans A a n \<longleftrightarrow> A a \<and> (\<forall>x. unat (x - a) < n \<longrightarrow> A x)"

lemma spans_mono: "spans A a n \<Longrightarrow> (\<And>a. A a \<Longrightarrow> B a) \<Longrightarrow> spans B a n"
  by (simp add: spans_def)

lemma spans_first: "spans A a n \<Longrightarrow> A a"
  by (simp add: spans_def)

inductive dev_step :: "'d bmtd \<Rightarrow> (u64 \<Rightarrow> bool) \<Rightarrow> 'd \<Rightarrow> 'd \<Rightarrow> bool"
  for env :: "'d bmtd" and A :: "u64 \<Rightarrow> bool" where
  step_read: "dev_step env A d (snd (drv_read_oob env d a l ol oo))"
| step_isbad: "dev_step env A d (snd (drv_block_isbad env d a))"
| step_write: "spans A a (length dat) \<Longrightarrow> dev_step env A d (snd (drv_write_oob env d a dat oob oo))"
| step_erase: "spans A a (unat n) \<Longrightarrow> dev_step env A d (snd (drv_erase env d a n))"
| step_markbad: "A a \<Longrightarrow> dev_step env A d (snd (drv_block_markbad env d a))"

inductive dev_steps :: "'d bmtd \<Rightarrow> (u64 \<Rightarrow> bool) \<Rightarrow> 'd \<Rightarrow> 'd \<Rightarrow> bool"
  for env :: "'d bmtd" and A :: "u64 \<Rightarrow> bool" where
  steps_refl: "dev_steps env A d d"
| steps_step: "dev_steps env A d d' \<Longrightarrow> dev_step env A d' d'' \<Longrightarrow> dev_steps env A d d''"

lemma dev_steps_trans:
  assumes "dev_steps env A d d'" and "dev_steps env A d' d''"
  shows "dev_steps env A d d''"
  using assms(2,1) by (induction rule: dev_steps.induct) (auto intro: steps_step)

lemma dev_steps_single: "dev_step env A d d' \<Longrightarrow> dev_steps env A d d'"
  by (rule steps_step [OF steps_refl])

lemma dev_step_mono: "dev_step env A d d' \<Longrightarrow> (\<And>a. A a \<Longrightarrow> B a) \<Longrightarrow> dev_step env B d d'"
  by (induction rule: dev_step.induct) (auto intro: dev_step.intros spans_mono)

lemma dev_steps_mono:
  assumes "dev_steps env A d d'" and "\<And>a. A a \<Longrightarrow> B a"
  shows "dev_steps env B d d'"
  using assms(1)
  by (induction rule: dev_steps.induct) (auto intro: steps_refl steps_step dev_step_mono assms(2))

text \<open>
  What a run over modifying addresses in \<open>A\<close> cannot change: any predicate of the chip that
  reads and bad-block queries keep and that programs, erases and markings at addresses of
  \<open>A\<close> keep.
\<close>

definition chip_keeps :: "'d bmtd \<Rightarrow> (u64 \<Rightarrow> bool) \<Rightarrow> ('d \<Rightarrow> bool) \<Rightarrow> bool" where
  "chip_keeps env A I \<longleftrightarrow> (\<forall>d d'. dev_step env A d d' \<longrightarrow> I d \<longrightarrow> I d')"

lemma dev_steps_keep: "dev_steps env A d d' \<Longrightarrow> chip_keeps env A I \<Longrightarrow> I d \<Longrightarrow> I d'"
  by (induction rule: dev_steps.induct) (auto simp: chip_keeps_def)

text \<open>The addresses of the erase blocks \<open>lo\<close> up to, not including, \<open>hi\<close>.\<close>

definition in_blocks :: "'d bmtd \<Rightarrow> u32 \<Rightarrow> u32 \<Rightarrow> u64 \<Rightarrow> bool" where
  "in_blocks env lo hi a \<longleftrightarrow>
     unat lo \<le> unat a div 2 ^ unat (blk_shift env) \<and>
     unat a div 2 ^ unat (blk_shift env) < unat hi"

lemma in_blocks_mono:
  "in_blocks env lo hi a \<Longrightarrow> lo' \<le> lo \<Longrightarrow> hi \<le> hi' \<Longrightarrow> in_blocks env lo' hi' a"
  by (auto simp: in_blocks_def unat_le)

section \<open>A chip that never fails\<close>

record sim_nand =
  cells :: "u64 \<Rightarrow> u8"
  marked :: "u64 list"

definition sim_read :: "sim_nand \<Rightarrow> u64 \<Rightarrow> nat \<Rightarrow> nat \<Rightarrow> nat \<Rightarrow> rd_res \<times> sim_nand" where
  "sim_read d a l ol oo =
     (\<lparr>rd_ret = 0, rd_dat = map (\<lambda>i. cells d (a + of_nat i)) [0..<l],
       rd_oob = replicate ol 0xFF\<rparr>, d)"

definition sim_write :: "sim_nand \<Rightarrow> u64 \<Rightarrow> u8 list \<Rightarrow> u8 list \<Rightarrow> nat \<Rightarrow> wr_res \<times> sim_nand" where
  "sim_write d a dat oob oo =
     (\<lparr>wr_ret = 0, wr_retlen = length dat, wr_oobretlen = length oob\<rparr>,
      d\<lparr>cells := (\<lambda>x. if unat (x - a) < length dat then dat ! unat (x - a) else cells d x)\<rparr>)"

definition sim_erase :: "sim_nand \<Rightarrow> u64 \<Rightarrow> u64 \<Rightarrow> int \<times> sim_nand" where
  "sim_erase d a n = (0, d\<lparr>cells := (\<lambda>x. if x - a < n then 0xFF else cells d x)\<rparr>)"

definition sim_isbad :: "sim_nand \<Rightarrow> u64 \<Rightarrow> int \<times> sim_nand" where
  "sim_isbad d a = ((if a \<in> set (marked d) then 1 else 0), d)"

definition sim_markbad :: "sim_nand \<Rightarrow> u64 \<Rightarrow> int \<times> sim_nand" where
  "sim_markbad d a = (0, d\<lparr>marked := a # marked d\<rparr>)"

text \<open>A chip of sixteen 128-byte blocks of 64-byte pages, and an additive checksum.\<close>

definition sim_bmtd :: "sim_nand bmtd" where
  "sim_bmtd =
     \<lparr>drv_read_oob = sim_read, drv_write_oob = sim_write, drv_erase = sim_erase,
      drv_block_isbad = sim_isbad, drv_block_markbad = sim_markbad,
      blk_shift = 7, pg_shift = 6, blk_size = 128, pg_size = 64, total_blks = 16,
      erasesize = 128, oobsize = 16, bitflip_threshold = 1, ecc_strength = 4, oobavail = 16,
      remap_range = None, crc32_le = (\<lambda>c xs. fold (\<lambda>x c. c + ucast x) xs c)\<rparr>"

definition sim_blank :: sim_nand where
  "sim_blank = \<lparr>cells = (\<lambda>_. 0xFF), marked = []\<rparr>"

lemma sim_drv_bounded: "drv_bounded sim_bmtd"
  by (simp add: drv_bounded_def sim_bmtd_def sim_read_def)

lemma sim_crc_streams: "crc_streams sim_bmtd"
  by (simp add: crc_streams_def sim_bmtd_def)

lemma sim_geom_ok: "geom_ok sim_bmtd"
  by (simp add: geom_ok_def sim_bmtd_def)

text \<open>What the chip's operations keep: a cell outside the addresses they cover.\<close>

lemma sim_keeps_cell: "\<not> A x \<Longrightarrow> chip_keeps sim_bmtd A (\<lambda>d. cells d x = v)"
  unfolding chip_keeps_def
  by (auto elim!: dev_step.cases
      simp: sim_bmtd_def sim_read_def sim_write_def sim_erase_def sim_isbad_def sim_markbad_def
        spans_def unat_less)

end
