(* ===== verification/Cell_Table.thy ===== *)
theory Cell_Table
  imports Flash_Prelude
begin

text \<open>
  The interface between a packed table of small cells and the code that keeps one cell per
  erase block: reading a cell after writing it gives the (truncated) value written, and no
  other cell changes. Proved here from the interface: what a table holds after many writes,
  and that turning cells from a value \<open>g\<close> to another one decreases the number of cells with
  value \<open>g\<close>, the measure of every retry loop that retires blocks.

  Two tables of the code satisfy it: the two-bit block states of NMBM and the two-bit marks
  of the BBT scheme.
\<close>

locale cell_table =
  fixes get :: "'t \<Rightarrow> nat \<Rightarrow> 'v"
    and put :: "'t \<Rightarrow> nat \<Rightarrow> 'v \<Rightarrow> 't"
    and slots :: "'t \<Rightarrow> nat"
    and clip :: "'v \<Rightarrow> 'v"
  assumes slots_put: "slots (put t n v) = slots t"
    and get_put_same: "n < slots t \<Longrightarrow> get (put t n v) n = clip v"
    and get_put_other: "n < slots t \<Longrightarrow> m < slots t \<Longrightarrow> m \<noteq> n \<Longrightarrow> get (put t n v) m = get t m"
begin

lemma get_put:
  "n < slots t \<Longrightarrow> m < slots t \<Longrightarrow> get (put t n v) m = (if m = n then clip v else get t m)"
  by (simp add: get_put_same get_put_other)

lemma slots_fold_put: "slots (fold (\<lambda>n t. put t n v) ns t) = slots t"
  by (induction ns arbitrary: t) (simp_all add: slots_put)

lemma get_fold_put:
  assumes "\<forall>n\<in>set ns. n < slots t" and "m < slots t"
  shows "get (fold (\<lambda>n t. put t n v) ns t) m = (if m \<in> set ns then clip v else get t m)"
  using assms
proof (induction ns arbitrary: t)
  case Nil
  then show ?case by simp
next
  case (Cons n ns)
  then have "get (fold (\<lambda>n t. put t n v) ns (put t n v)) m =
      (if m \<in> set ns then clip v else get (put t n v) m)"
    by (simp add: slots_put)
  then show ?case using Cons.prems by (simp add: get_put)
qed

lemma count_put_less:
  assumes "n < N" and "N \<le> slots t" and "get t n = g" and "clip v \<noteq> g"
  shows "card {k. k < N \<and> get (put t n v) k = g} < card {k. k < N \<and> get t k = g}"
proof (rule psubset_card_mono)
  show "finite {k. k < N \<and> get t k = g}" by simp
  show "{k. k < N \<and> get (put t n v) k = g} \<subset> {k. k < N \<and> get t k = g}"
  proof
    show "{k. k < N \<and> get (put t n v) k = g} \<subseteq> {k. k < N \<and> get t k = g}"
      using assms by (auto simp: get_put split: if_splits)
    have "n \<in> {k. k < N \<and> get t k = g}" and "n \<notin> {k. k < N \<and> get (put t n v) k = g}"
      using assms by (auto simp: get_put)
    then show "{k. k < N \<and> get (put t n v) k = g} \<noteq> {k. k < N \<and> get t k = g}" by blast
  qed
qed

lemma count_put_le:
  assumes "n < slots t" and "N \<le> slots t" and "clip v \<noteq> g"
  shows "card {k. k < N \<and> get (put t n v) k = g} \<le> card {k. k < N \<and> get t k = g}"
  by (rule card_mono) (use assms in \<open>auto simp: get_put split: if_splits\<close>)

end

end
