(* ===== verification/Nmbm_Base.thy ===== *)
theory Nmbm_Base
  imports Mtd_Device Cell_Table
begin

text \<open>
  \<open>mtk_bmt_nmbm.c\<close>, first part: the on-flash structures with their checksum, the instance
  \<open>struct nmbm_instance\<close>, address conversion, the block state table (two bits per block) and
  the walks over good blocks.

  The record \<open>nmbm\<close> has the members of \<open>struct nmbm_instance\<close> under their C names and, as
  \<open>dev\<close>, the state of the chip reached through \<open>bmtd\<close>. \<open>block_state\<close>, \<open>block_mapping\<close>,
  \<open>info_table_cache\<close> and \<open>page_cache\<close> are separate memory in the code (the first three are
  carved one after the other out of the allocation, the last is \<open>bmtd.data_buf\<close>), so lists in
  the record; an access beyond one of them is a run without a defined result. Structures are
  stored little-endian, the byte order of the supported MediaTek CPUs.
\<close>

section \<open>Structures\<close>

abbreviation NMBM_MAGIC_SIGNATURE :: u32 where "NMBM_MAGIC_SIGNATURE \<equiv> 0x304d4d4e"
abbreviation NMBM_MAGIC_INFO_TABLE :: u32 where "NMBM_MAGIC_INFO_TABLE \<equiv> 0x314d4d4e"
abbreviation NMBM_VER :: u32 where "NMBM_VER \<equiv> 1"
abbreviation NMBM_TRY_COUNT :: nat where "NMBM_TRY_COUNT \<equiv> 3"
abbreviation NMBM_MGMT_DIV :: u32 where "NMBM_MGMT_DIV \<equiv> 16"

abbreviation BLOCK_ST_BAD :: u32 where "BLOCK_ST_BAD \<equiv> 0"
abbreviation BLOCK_ST_NEED_REMAP :: u32 where "BLOCK_ST_NEED_REMAP \<equiv> 2"
abbreviation BLOCK_ST_GOOD :: u32 where "BLOCK_ST_GOOD \<equiv> 3"
abbreviation BLOCK_ST_MASK :: u32 where "BLOCK_ST_MASK \<equiv> 3"

record nmbm_header =
  h_magic :: u32
  h_version :: u32
  h_size :: u32
  h_checksum :: u32

text \<open>
  \<open>padding\<close> of the signature holds the three declared bytes and the four the compiler adds
  to align the structure to 8 bytes, so that its size is 48.
\<close>

record nmbm_signature =
  sig_header :: nmbm_header
  nand_size :: u64
  block_size :: u32
  page_size :: u32
  spare_size :: u32
  mgmt_start_pb :: u32
  max_try_count :: u8
  sig_padding :: "u8 list"

record nmbm_info_table_header =
  it_header :: nmbm_header
  write_count :: u32
  state_table_off :: u32
  mapping_table_off :: u32
  it_padding :: u32

definition header_bytes :: "nmbm_header \<Rightarrow> u8 list" where
  "header_bytes h = le32 (h_magic h) @ le32 (h_version h) @ le32 (h_size h) @ le32 (h_checksum h)"

definition header_of :: "u8 list \<Rightarrow> nmbm_header" where
  "header_of bs =
     \<lparr>h_magic = le_val (take 4 bs), h_version = le_val (take 4 (drop 4 bs)),
      h_size = le_val (take 4 (drop 8 bs)), h_checksum = le_val (take 4 (drop 12 bs))\<rparr>"

definition signature_bytes :: "nmbm_signature \<Rightarrow> u8 list" where
  "signature_bytes g =
     header_bytes (sig_header g) @ le64 (nand_size g) @ le32 (block_size g) @
     le32 (page_size g) @ le32 (spare_size g) @ le32 (mgmt_start_pb g) @
     [max_try_count g] @ sig_padding g"

definition signature_of :: "u8 list \<Rightarrow> nmbm_signature" where
  "signature_of bs =
     \<lparr>sig_header = header_of bs, nand_size = le_val (take 8 (drop 16 bs)),
      block_size = le_val (take 4 (drop 24 bs)), page_size = le_val (take 4 (drop 28 bs)),
      spare_size = le_val (take 4 (drop 32 bs)), mgmt_start_pb = le_val (take 4 (drop 36 bs)),
      max_try_count = le_val (take 1 (drop 40 bs)), sig_padding = take 7 (drop 41 bs)\<rparr>"

definition info_table_bytes :: "nmbm_info_table_header \<Rightarrow> u8 list" where
  "info_table_bytes t =
     header_bytes (it_header t) @ le32 (write_count t) @ le32 (state_table_off t) @
     le32 (mapping_table_off t) @ le32 (it_padding t)"

definition info_table_of :: "u8 list \<Rightarrow> nmbm_info_table_header" where
  "info_table_of bs =
     \<lparr>it_header = header_of bs, write_count = le_val (take 4 (drop 16 bs)),
      state_table_off = le_val (take 4 (drop 20 bs)),
      mapping_table_off = le_val (take 4 (drop 24 bs)),
      it_padding = le_val (take 4 (drop 28 bs))\<rparr>"

abbreviation SIGNATURE_SIZE :: nat where "SIGNATURE_SIZE \<equiv> 48"
abbreviation INFO_TABLE_HEADER_SIZE :: nat where "INFO_TABLE_HEADER_SIZE \<equiv> 32"

record 'd nmbm =
  rawpage_size :: u32
  rawblock_size :: u32
  rawchip_size :: u32
  signature :: nmbm_signature
  info_table_cache :: "u8 list"
  info_table_size :: u32
  info_table_spare_blocks :: u32
  info_table :: nmbm_info_table_header
  block_state :: "u32 list"
  block_state_changed :: u32
  state_table_size :: u32
  block_mapping :: "u32 list"
  block_mapping_changed :: u32
  mapping_table_size :: u32
  page_cache :: "u8 list"
  protected :: bool
  block_count :: u32
  data_block_count :: u32
  mgmt_start_ba :: u32
  main_table_ba :: u32
  backup_table_ba :: u32
  mapping_blocks_ba :: u32
  mapping_blocks_top_ba :: u32
  signature_ba :: u32
  max_ratio :: u32
  max_reserved_blocks :: u32
  empty_page_ecc_ok :: bool
  force_create :: bool
  dev :: 'd

section \<open>Checksum, addresses\<close>

function nmbm_crc32 :: "'d bmtd \<Rightarrow> u32 \<Rightarrow> u8 list \<Rightarrow> u32" where
  "nmbm_crc32 env crcval buf =
     (if buf = [] then crcval
      else nmbm_crc32 env (crc32_le env crcval (take 4294967295 buf)) (drop 4294967295 buf))"
  by pat_completeness auto
termination
  by (relation "measure (\<lambda>(env, c, b). length b)") auto

declare nmbm_crc32.simps [simp del]

definition ba2addr :: "'d bmtd \<Rightarrow> u32 \<Rightarrow> u64" where
  "ba2addr env ba = push_bit (unat (blk_shift env)) (ucast ba)"

definition size2blk :: "'d bmtd \<Rightarrow> u64 \<Rightarrow> u32" where
  "size2blk env sz = ucast (drop_bit (unat (blk_shift env)) (sz + ucast (blk_size env) - 1))"

definition nmbm_check_header :: "'d bmtd \<Rightarrow> u8 list \<Rightarrow> u32 \<Rightarrow> bool option" where
  "nmbm_check_header env data sz = do {
     hb \<leftarrow> buf_get data 0 16;
     let header = header_of hb;
     if h_size header > sz then Some False
     else do {
       let nhdr = header\<lparr>h_checksum := 0\<rparr>;
       let new_checksum = nmbm_crc32 env 0 (header_bytes nhdr);
       new_checksum \<leftarrow>
         (if h_size header > 16
          then do {
            rest \<leftarrow> buf_get data 16 (unat (h_size header) - 16);
            Some (nmbm_crc32 env new_checksum rest)
          }
          else Some new_checksum);
       Some (h_checksum header = new_checksum)
     }
   }"

definition nmbm_update_checksum :: "'d bmtd \<Rightarrow> u8 list \<Rightarrow> u8 list option" where
  "nmbm_update_checksum env data = do {
     hb \<leftarrow> buf_get data 0 16;
     let header = header_of hb;
     data \<leftarrow> buf_put data 0 (header_bytes (header\<lparr>h_checksum := 0\<rparr>));
     body \<leftarrow> buf_get data 0 (unat (h_size header));
     buf_put data 12 (le32 (nmbm_crc32 env 0 body))
   }"

definition nmbm_get_spare_block_count :: "u32 \<Rightarrow> u32" where
  "nmbm_get_spare_block_count blocks =
     (let val = (blocks + 1) div 2 * 1 in if val < 2 then 2 else val)"

section \<open>The block state table\<close>

definition nmbm_get_block_state_raw :: "u32 list \<Rightarrow> u32 \<Rightarrow> u32 option" where
  "nmbm_get_block_state_raw bst ba = do {
     w \<leftarrow> arr_get bst (unat (ba div 16));
     Some (drop_bit (unat (ba mod 16 * 2)) w AND BLOCK_ST_MASK)
   }"

definition nmbm_get_block_state :: "'d nmbm \<Rightarrow> u32 \<Rightarrow> u32 option" where
  "nmbm_get_block_state s ba = nmbm_get_block_state_raw (block_state s) ba"

definition nmbm_set_block_state :: "'d nmbm \<Rightarrow> u32 \<Rightarrow> u32 \<Rightarrow> (bool \<times> 'd nmbm) option" where
  "nmbm_set_block_state s ba state = do {
     let unit = unat (ba div 16);
     let shift = unat (ba mod 16 * 2);
     w \<leftarrow> arr_get (block_state s) unit;
     let orig = drop_bit shift w AND BLOCK_ST_MASK;
     let state = state AND BLOCK_ST_MASK;
     let uv = (w AND NOT (push_bit shift BLOCK_ST_MASK)) OR push_bit shift state;
     bst \<leftarrow> arr_set (block_state s) unit uv;
     let s = s\<lparr>block_state := bst\<rparr>;
     if orig \<noteq> state
     then Some (True, s\<lparr>block_state_changed := block_state_changed s + 1\<rparr>)
     else Some (False, s)
   }"

section \<open>Walks over good blocks\<close>

text \<open>\<open>nblock\<close> is an \<open>int32_t\<close>; the kernel is built with wrapping signed arithmetic.\<close>

function nmbm_walk_asc_loop :: "u32 list \<Rightarrow> u32 \<Rightarrow> u32 \<Rightarrow> u32 \<Rightarrow> u32 option option" where
  "nmbm_walk_asc_loop bst ba nblock limit =
     (if ba < limit then do {
        st \<leftarrow> nmbm_get_block_state_raw bst ba;
        let nblock = (if st = BLOCK_ST_GOOD then nblock - 1 else nblock);
        if sint nblock < 0 then Some (Some ba)
        else nmbm_walk_asc_loop bst (ba + 1) nblock limit
      }
      else Some None)"
  by pat_completeness auto
termination
  by (relation "measure (\<lambda>(bst, ba, nblock, limit). unat limit - unat ba)")
    (auto simp: unat_inc unat_less)

definition nmbm_block_walk_asc :: "'d nmbm \<Rightarrow> u32 \<Rightarrow> u32 \<Rightarrow> u32 \<Rightarrow> u32 option option" where
  "nmbm_block_walk_asc s ba count limit =
     (let limit = (if limit \<ge> block_count s then block_count s - 1 else limit)
      in nmbm_walk_asc_loop (block_state s) ba count limit)"

function nmbm_walk_desc_loop :: "u32 list \<Rightarrow> u32 \<Rightarrow> u32 \<Rightarrow> u32 \<Rightarrow> u32 option option" where
  "nmbm_walk_desc_loop bst ba nblock limit =
     (if ba > limit then do {
        st \<leftarrow> nmbm_get_block_state_raw bst ba;
        let nblock = (if st = BLOCK_ST_GOOD then nblock - 1 else nblock);
        if sint nblock < 0 then Some (Some ba)
        else nmbm_walk_desc_loop bst (ba - 1) nblock limit
      }
      else Some None)"
  by pat_completeness auto
termination
  by (relation "measure (\<lambda>(bst, ba, nblock, limit). unat ba)") (auto simp: unat_dec unat_less)

definition nmbm_block_walk_desc :: "'d nmbm \<Rightarrow> u32 \<Rightarrow> u32 \<Rightarrow> u32 \<Rightarrow> u32 option option" where
  "nmbm_block_walk_desc s ba count limit =
     (let limit = (if limit \<ge> block_count s then block_count s - 1 else limit)
      in nmbm_walk_desc_loop (block_state s) ba count limit)"

definition nmbm_block_walk :: "'d nmbm \<Rightarrow> bool \<Rightarrow> u32 \<Rightarrow> u32 \<Rightarrow> u32 \<Rightarrow> u32 option option" where
  "nmbm_block_walk s ascending ba count limit =
     (if ascending then nmbm_block_walk_asc s ba count limit
      else nmbm_block_walk_desc s ba count limit)"

declare nmbm_walk_asc_loop.simps [simp del] nmbm_walk_desc_loop.simps [simp del]

section \<open>The state table as a table of cells\<close>

text \<open>
  \<open>bst_get\<close> and \<open>bst_put\<close> are what the bit operations of the getter and setter compute, on
  block numbers; together they are a \<open>cell_table\<close>.
\<close>

definition bst_get :: "u32 list \<Rightarrow> nat \<Rightarrow> u32" where
  "bst_get bst n = drop_bit (n mod 16 * 2) (bst ! (n div 16)) AND BLOCK_ST_MASK"

definition bst_put :: "u32 list \<Rightarrow> nat \<Rightarrow> u32 \<Rightarrow> u32 list" where
  "bst_put bst n v =
     bst[n div 16 := (bst ! (n div 16) AND NOT (push_bit (n mod 16 * 2) BLOCK_ST_MASK)) OR
                     push_bit (n mod 16 * 2) (v AND BLOCK_ST_MASK)]"

lemma three_mask: "(3 :: u32) = mask 2"
  by (simp add: mask_eq_exp_minus_1)

lemma cell_in_word_same:
  assumes "i < 16"
  shows "drop_bit (i * 2) ((w AND NOT (push_bit (i * 2) (3::u32))) OR push_bit (i * 2) (v AND 3)) AND 3 = v AND 3"
  using assms unfolding three_mask
  by (intro bit_word_eqI) (auto simp: bit_simps)

lemma cell_in_word_other:
  assumes "i < 16" "j < 16" "i \<noteq> j"
  shows "drop_bit (j * 2) ((w AND NOT (push_bit (i * 2) (3::u32))) OR push_bit (i * 2) (v AND 3)) AND 3 = drop_bit (j * 2) w AND 3"
  using assms unfolding three_mask
  by (intro bit_word_eqI) (auto simp: bit_simps)

interpretation nst: cell_table bst_get bst_put "\<lambda>t. 16 * length t" "\<lambda>v. v AND BLOCK_ST_MASK"
proof unfold_locales
  fix t :: "u32 list" and n and v :: u32
  show "16 * length (bst_put t n v) = 16 * length t" by (simp add: bst_put_def)
next
  fix n and t :: "u32 list" and v :: u32
  assume "n < 16 * length t"
  then have "n div 16 < length t" by simp
  then show "bst_get (bst_put t n v) n = v AND BLOCK_ST_MASK"
    unfolding bst_get_def bst_put_def
    by (subst nth_list_update_eq) (simp_all only: cell_in_word_same pos_mod_bound mod_less_divisor zero_less_numeral)
next
  fix n m and t :: "u32 list" and v :: u32
  assume *: "n < 16 * length t" "m < 16 * length t" "m \<noteq> n"
  then have l: "n div 16 < length t" "m div 16 < length t" by simp_all
  show "bst_get (bst_put t n v) m = bst_get t m"
  proof (cases "m div 16 = n div 16")
    case True
    then have "n mod 16 \<noteq> m mod 16" using * by (metis div_mult_mod_eq)
    then show ?thesis unfolding bst_get_def bst_put_def True
      using l(1) by (simp only: nth_list_update_eq) (rule cell_in_word_other, auto)
  next
    case False
    then show ?thesis using l by (simp add: bst_get_def bst_put_def)
  qed
qed

lemma unat_div16: "unat (ba div 16 :: u32) = unat ba div 16"
  by (simp add: unat_div)

lemma unat_mod16: "unat (ba mod 16 * 2 :: u32) = unat ba mod 16 * 2"
  by (simp add: unat_word_ariths unat_mod)

lemma get_raw_eq:
  "nmbm_get_block_state_raw bst ba =
     (if unat ba < 16 * length bst then Some (bst_get bst (unat ba)) else None)"
  by (auto simp: nmbm_get_block_state_raw_def bst_get_def arr_get_def unat_div16 unat_mod16)

lemma set_block_state_eq:
  "nmbm_set_block_state s ba v =
     (if unat ba < 16 * length (block_state s)
      then let s' = s\<lparr>block_state := bst_put (block_state s) (unat ba) v\<rparr>
           in if bst_get (block_state s) (unat ba) \<noteq> v AND BLOCK_ST_MASK
              then Some (True, s'\<lparr>block_state_changed := block_state_changed s' + 1\<rparr>)
              else Some (False, s')
      else None)"
  by (auto simp: nmbm_set_block_state_def bst_get_def bst_put_def arr_get_def arr_set_def unat_div16 unat_mod16 Let_def)

section \<open>What the walks return\<close>

abbreviation blk_good :: "u32 list \<Rightarrow> nat \<Rightarrow> bool" where
  "blk_good bst n \<equiv> bst_get bst n = BLOCK_ST_GOOD"

lemma walk_asc_loop_eq:
  assumes "unat limit \<le> 16 * length bst" and "unat cnt < 2147483648"
  shows "nmbm_walk_asc_loop bst ba cnt limit =
    Some (let gs = filter (blk_good bst) [unat ba..<unat limit]
          in if unat cnt < length gs then Some (of_nat (gs ! unat cnt)) else None)"
  using assms
proof (induction bst ba cnt limit rule: nmbm_walk_asc_loop.induct)
  case (1 bst ba cnt limit)
  show ?case
  proof (cases "ba < limit")
    case False
    then show ?thesis by (subst nmbm_walk_asc_loop.simps) (simp add: unat_less)
  next
    case True
    let ?n = "unat ba"
    have n: "?n < unat limit" "?n < 16 * length bst" using True "1.prems" by (auto simp: unat_less)
    have up: "[?n..<unat limit] = ?n # [unat (ba + 1)..<unat limit]"
      using n True by (simp add: upt_conv_Cons unat_inc)
    have raw: "nmbm_get_block_state_raw bst ba = Some (bst_get bst ?n)"
      using n by (simp add: get_raw_eq)
    show ?thesis
    proof (cases "blk_good bst ?n")
      case good: True
      show ?thesis
      proof (cases "cnt = 0")
        case True
        then show ?thesis using \<open>ba < limit\<close> raw good up
          by (subst nmbm_walk_asc_loop.simps) (simp add: Let_def)
      next
        case False
        then have u: "unat (cnt - 1) = unat cnt - 1" "0 < unat cnt"
          by (simp_all add: unat_minus_one unat_gt_0)
        have neg: "\<not> sint (cnt - 1) < 0" using False "1.prems"(2) by (simp add: sint_pred_neg)
        have ih: "nmbm_walk_asc_loop bst (ba + 1) (cnt - 1) limit =
           Some (let gs = filter (blk_good bst) [unat (ba + 1)..<unat limit]
             in if unat (cnt - 1) < length gs then Some (of_nat (gs ! unat (cnt - 1))) else None)"
          using "1.IH" [OF True raw] good neg "1.prems" u by simp
        show ?thesis using True raw good neg ih up u
          by (subst nmbm_walk_asc_loop.simps) (auto simp: Let_def nth_Cons')
      qed
    next
      case bad: False
      have neg: "\<not> sint cnt < 0" using "1.prems"(2) by (simp add: sint_small)
      show ?thesis using True raw bad neg "1.IH" [OF True raw] "1.prems" up
        by (subst nmbm_walk_asc_loop.simps) (simp add: Let_def)
    qed
  qed
qed

lemma walk_desc_loop_eq:
  assumes "unat ba < 16 * length bst" and "unat cnt < 2147483648"
  shows "nmbm_walk_desc_loop bst ba cnt limit =
    Some (let gs = filter (blk_good bst) (rev [Suc (unat limit)..<Suc (unat ba)])
          in if unat cnt < length gs then Some (of_nat (gs ! unat cnt)) else None)"
  using assms
proof (induction bst ba cnt limit rule: nmbm_walk_desc_loop.induct)
  case (1 bst ba cnt limit)
  show ?case
  proof (cases "ba > limit")
    case False
    then show ?thesis by (subst nmbm_walk_desc_loop.simps) (simp add: unat_less)
  next
    case True
    let ?n = "unat ba"
    have n: "unat limit < ?n" using True by (simp add: unat_less)
    have dec: "unat (ba - 1) = ?n - 1" using True by (rule unat_dec)
    have down: "rev [Suc (unat limit)..<Suc ?n] = ?n # rev [Suc (unat limit)..<Suc (unat (ba - 1))]"
      using n dec by (simp add: less_Suc_eq_le)
    have raw: "nmbm_get_block_state_raw bst ba = Some (bst_get bst ?n)"
      using "1.prems" by (simp add: get_raw_eq)
    have len: "unat (ba - 1) < 16 * length bst" using "1.prems" dec by simp
    show ?thesis
    proof (cases "blk_good bst ?n")
      case good: True
      show ?thesis
      proof (cases "cnt = 0")
        case True
        then show ?thesis using \<open>ba > limit\<close> raw good down
          by (subst nmbm_walk_desc_loop.simps) (simp add: Let_def)
      next
        case False
        then have u: "unat (cnt - 1) = unat cnt - 1" "0 < unat cnt"
          by (simp_all add: unat_minus_one unat_gt_0)
        have neg: "\<not> sint (cnt - 1) < 0" using False "1.prems"(2) by (simp add: sint_pred_neg)
        have ih: "nmbm_walk_desc_loop bst (ba - 1) (cnt - 1) limit =
           Some (let gs = filter (blk_good bst) (rev [Suc (unat limit)..<Suc (unat (ba - 1))])
             in if unat (cnt - 1) < length gs then Some (of_nat (gs ! unat (cnt - 1))) else None)"
          using "1.IH" [OF True raw] good neg "1.prems" u len by simp
        show ?thesis using True raw good neg ih u unfolding down
          by (subst nmbm_walk_desc_loop.simps) (auto simp: Let_def nth_Cons')
      qed
    next
      case bad: False
      have neg: "\<not> sint cnt < 0" using "1.prems"(2) by (simp add: sint_small)
      show ?thesis using True raw bad neg "1.IH" [OF True raw] "1.prems" len unfolding down
        by (subst nmbm_walk_desc_loop.simps) (simp add: Let_def)
    qed
  qed
qed

end
