(* ===== verification/Nmbm_Io.thy ===== *)
theory Nmbm_Io
  imports Nmbm_Base
begin

text \<open>
  \<open>mtk_bmt_nmbm.c\<close>, second part: page and block operations on the chip with retry, and the
  writers that place data in good blocks, retiring the blocks that fail.

  A destination of a read is the memory from the pointer to the end of its buffer; the new
  contents are returned. A loop whose end depends on the geometry or the chip is a
  \<^theory_text>\<open>partial_function\<close>; that it ends is proved below for the geometries of \<^const>\<open>geom_ok\<close>.
\<close>

section \<open>Pages and blocks with retry\<close>

text \<open>Bytes the driver stored through a pointer: nothing may be stored through \<open>NULL\<close>.\<close>

definition store_at :: "u8 list option \<Rightarrow> u8 list \<Rightarrow> u8 list option option" where
  "store_at buf bs =
     (case buf of
        None \<Rightarrow> (if bs = [] then Some None else None)
      | Some b \<Rightarrow> map_option Some (buf_put b 0 bs))"

fun nmbm_read_tries ::
  "nat \<Rightarrow> 'd bmtd \<Rightarrow> u64 \<Rightarrow> u8 list option \<Rightarrow> u8 list option \<Rightarrow> int \<Rightarrow> 'd nmbm \<Rightarrow>
   (int \<times> u8 list option \<times> u8 list option \<times> 'd nmbm) option" where
  "nmbm_read_tries 0 env addr dat oob ret s = Some (ret, dat, oob, s)"
| "nmbm_read_tries (Suc tries) env addr dat oob ret s = do {
     let (res, d) = drv_read_oob env (dev s) addr
       (if dat = None then 0 else unat (pg_size env))
       (if oob = None then 0 else oobavail env) 0;
     let s = s\<lparr>dev := d\<rparr>;
     dat \<leftarrow> store_at dat (rd_dat res);
     oob \<leftarrow> store_at oob (rd_oob res);
     let ret = rd_ret res;
     if ret = - EUCLEAN
     then Some (sint (min (bitflip_threshold env + 1) (ecc_strength env)), dat, oob, s)
     else if ret \<ge> 0 then Some (0, dat, oob, s)
     else nmbm_read_tries tries env addr dat oob ret s
   }"

definition nmbm_read_phys_page ::
  "'d bmtd \<Rightarrow> u64 \<Rightarrow> u8 list option \<Rightarrow> u8 list option \<Rightarrow> 'd nmbm \<Rightarrow>
   (int \<times> u8 list option \<times> u8 list option \<times> 'd nmbm) option" where
  "nmbm_read_phys_page env addr dat oob s = nmbm_read_tries NMBM_TRY_COUNT env addr dat oob 0 s"

text \<open>The two ways the page reader is called: into other memory, and into \<open>page_cache\<close>.\<close>

definition read_page_to ::
  "'d bmtd \<Rightarrow> u64 \<Rightarrow> u8 list \<Rightarrow> 'd nmbm \<Rightarrow> (int \<times> u8 list \<times> 'd nmbm) option" where
  "read_page_to env addr buf s = do {
     (ret, dat, _, s) \<leftarrow> nmbm_read_phys_page env addr (Some buf) None s;
     b \<leftarrow> dat;
     Some (ret, b, s)
   }"

definition read_page_cache :: "'d bmtd \<Rightarrow> u64 \<Rightarrow> 'd nmbm \<Rightarrow> (int \<times> 'd nmbm) option" where
  "read_page_cache env addr s = do {
     (ret, b, s) \<leftarrow> read_page_to env addr (page_cache s) s;
     Some (ret, s\<lparr>page_cache := b\<rparr>)
   }"

fun nmbm_write_tries ::
  "nat \<Rightarrow> 'd bmtd \<Rightarrow> u64 \<Rightarrow> u8 list \<Rightarrow> u8 list \<Rightarrow> 'd nmbm \<Rightarrow> bool \<times> 'd nmbm" where
  "nmbm_write_tries 0 env addr dat oob s = (False, s)"
| "nmbm_write_tries (Suc tries) env addr dat oob s =
     (let (res, d) = drv_write_oob env (dev s) addr dat oob 0;
          s = s\<lparr>dev := d\<rparr>
      in if wr_ret res = 0 then (True, s) else nmbm_write_tries tries env addr dat oob s)"

definition nmbm_write_phys_page ::
  "'d bmtd \<Rightarrow> u64 \<Rightarrow> u8 list option \<Rightarrow> u8 list option \<Rightarrow> 'd nmbm \<Rightarrow> (bool \<times> 'd nmbm) option" where
  "nmbm_write_phys_page env addr data oob s = do {
     dat \<leftarrow> (case data of None \<Rightarrow> Some [] | Some b \<Rightarrow> buf_get b 0 (unat (pg_size env)));
     o' \<leftarrow> (case oob of None \<Rightarrow> Some [] | Some b \<Rightarrow> buf_get b 0 (oobavail env));
     Some (nmbm_write_tries NMBM_TRY_COUNT env addr dat o' s)
   }"

fun nmbm_erase_tries :: "nat \<Rightarrow> 'd bmtd \<Rightarrow> u64 \<Rightarrow> 'd nmbm \<Rightarrow> bool \<times> 'd nmbm" where
  "nmbm_erase_tries 0 env addr s = (False, s)"
| "nmbm_erase_tries (Suc tries) env addr s =
     (let (ret, d) = drv_erase env (dev s) addr (ucast (erasesize env));
          s = s\<lparr>dev := d\<rparr>
      in if ret = 0 then (True, s) else nmbm_erase_tries tries env addr s)"

definition nmbm_erase_phys_block :: "'d bmtd \<Rightarrow> u64 \<Rightarrow> 'd nmbm \<Rightarrow> (bool \<times> 'd nmbm) option" where
  "nmbm_erase_phys_block env addr s = Some (nmbm_erase_tries NMBM_TRY_COUNT env addr s)"

definition nmbm_check_bad_phys_block :: "'d bmtd \<Rightarrow> u32 \<Rightarrow> 'd nmbm \<Rightarrow> (bool \<times> 'd nmbm) option" where
  "nmbm_check_bad_phys_block env ba s =
     (let (ret, d) = drv_block_isbad env (dev s) (ba2addr env ba)
      in Some (ret \<noteq> 0, s\<lparr>dev := d\<rparr>))"

definition nmbm_mark_phys_bad_block :: "'d bmtd \<Rightarrow> u32 \<Rightarrow> 'd nmbm \<Rightarrow> (int \<times> 'd nmbm) option" where
  "nmbm_mark_phys_bad_block env ba s =
     (let (ret, d) = drv_block_markbad env (dev s) (ba2addr env ba)
      in Some (ret, s\<lparr>dev := d\<rparr>))"

text \<open>The code at the label \<open>skip_bad_block\<close>: mark on the chip, then in the table.\<close>

definition nmbm_retire_block :: "'d bmtd \<Rightarrow> u32 \<Rightarrow> 'd nmbm \<Rightarrow> 'd nmbm option" where
  "nmbm_retire_block env ba s = do {
     (_, s) \<leftarrow> nmbm_mark_phys_bad_block env ba s;
     (_, s) \<leftarrow> nmbm_set_block_state s ba BLOCK_ST_BAD;
     Some s
   }"

section \<open>Scanning and the initial mapping\<close>

function nmbm_scan_loop :: "'d bmtd \<Rightarrow> u32 \<Rightarrow> u32 \<Rightarrow> 'd nmbm \<Rightarrow> 'd nmbm option" where
  "nmbm_scan_loop env ba n s =
     (if ba < n then do {
        (bad, s) \<leftarrow> nmbm_check_bad_phys_block env ba s;
        s \<leftarrow> (if bad then do {
               (_, s) \<leftarrow> nmbm_set_block_state s ba BLOCK_ST_BAD;
               Some s
             } else Some s);
        nmbm_scan_loop env (ba + 1) n s
      }
      else Some s)"
  by pat_completeness auto
termination
  by (relation "measure (\<lambda>(env, ba, n, s). unat n - unat ba)") (auto simp: unat_inc unat_less)

definition nmbm_scan_badblocks :: "'d bmtd \<Rightarrow> 'd nmbm \<Rightarrow> 'd nmbm option" where
  "nmbm_scan_badblocks env s = nmbm_scan_loop env 0 (block_count s) s"

function nmbm_map_good_loop ::
  "u32 list \<Rightarrow> u32 \<Rightarrow> u32 \<Rightarrow> u32 \<Rightarrow> u32 list \<Rightarrow> (u32 \<times> u32 list) option" where
  "nmbm_map_good_loop bst pb n lb bmap =
     (if pb < n then do {
        st \<leftarrow> nmbm_get_block_state_raw bst pb;
        if st = BLOCK_ST_BAD then nmbm_map_good_loop bst (pb + 1) n lb bmap
        else do {
          bmap \<leftarrow> arr_set bmap (unat lb) pb;
          nmbm_map_good_loop bst (pb + 1) n (lb + 1) bmap
        }
      }
      else Some (lb, bmap))"
  by pat_completeness auto
termination
  by (relation "measure (\<lambda>(bst, pb, n, lb, bmap). unat n - unat pb)")
    (auto simp: unat_inc unat_less)

function nmbm_unmap_loop :: "u32 \<Rightarrow> u32 \<Rightarrow> u32 list \<Rightarrow> u32 list option" where
  "nmbm_unmap_loop pb n bmap =
     (if pb < n then do {
        bmap \<leftarrow> arr_set bmap (unat pb) (- 1);
        nmbm_unmap_loop (pb + 1) n bmap
      }
      else Some bmap)"
  by pat_completeness auto
termination
  by (relation "measure (\<lambda>(pb, n, bmap). unat n - unat pb)") (auto simp: unat_inc unat_less)

definition nmbm_build_mapping_table :: "'d nmbm \<Rightarrow> 'd nmbm option" where
  "nmbm_build_mapping_table s = do {
     (lb, bmap) \<leftarrow> nmbm_map_good_loop (block_state s) 0 (mgmt_start_ba s) 0 (block_mapping s);
     bmap \<leftarrow> nmbm_unmap_loop lb (block_count s) bmap;
     Some (s\<lparr>data_block_count := lb, block_mapping := bmap\<rparr>)
   }"

declare nmbm_scan_loop.simps [simp del] nmbm_map_good_loop.simps [simp del]
  nmbm_unmap_loop.simps [simp del]

section \<open>Erasing\<close>

partial_function (option) nmbm_check_erased_loop ::
  "'d bmtd \<Rightarrow> u64 \<Rightarrow> u64 \<Rightarrow> 'd nmbm \<Rightarrow> (bool \<times> 'd nmbm) option" where
  "nmbm_check_erased_loop env addr off s =
     (if off < ucast (blk_size env) then do {
        (ret, s) \<leftarrow> read_page_cache env (addr + off) s;
        if ret = - EBADMSG then Some (False, s)
        else nmbm_check_erased_loop env addr (off + ucast (pg_size env)) s
      }
      else Some (True, s))"

definition nmbm_erase_block_and_check ::
  "'d bmtd \<Rightarrow> u32 \<Rightarrow> 'd nmbm \<Rightarrow> (bool \<times> 'd nmbm) option" where
  "nmbm_erase_block_and_check env ba s = do {
     (success, s) \<leftarrow> nmbm_erase_phys_block env (ba2addr env ba) s;
     if \<not> success then Some (False, s)
     else if \<not> empty_page_ecc_ok s then Some (True, s)
     else nmbm_check_erased_loop env (ba2addr env ba) 0 s
   }"

function nmbm_erase_range :: "'d bmtd \<Rightarrow> u32 \<Rightarrow> u32 \<Rightarrow> 'd nmbm \<Rightarrow> 'd nmbm option" where
  "nmbm_erase_range env ba limit s =
     (if ba < limit then do {
        st \<leftarrow> nmbm_get_block_state s ba;
        s \<leftarrow> (if st \<noteq> BLOCK_ST_GOOD then Some s
             else do {
               (bad, s) \<leftarrow> nmbm_check_bad_phys_block env ba s;
               if bad then do {
                 (_, s) \<leftarrow> nmbm_set_block_state s ba BLOCK_ST_BAD;
                 Some s
               }
               else do {
                 (success, s) \<leftarrow> nmbm_erase_block_and_check env ba s;
                 if success then Some s else nmbm_retire_block env ba s
               }
             });
        nmbm_erase_range env (ba + 1) limit s
      }
      else Some s)"
  by pat_completeness auto
termination
  by (relation "measure (\<lambda>(env, ba, limit, s). unat limit - unat ba)")
    (auto simp: unat_inc unat_less)

declare nmbm_erase_range.simps [simp del]

end
