(* ===== verification/Nmbm_Write.thy ===== *)
theory Nmbm_Write
  imports Nmbm_Io
begin

text \<open>
  \<open>mtk_bmt_nmbm.c\<close>, third part: data of the manager on flash. The signature is repeated in
  every page of one block; info tables are written to consecutive good blocks with
  read-back verification of every page.
\<close>

section \<open>The signature block\<close>

partial_function (option) nmbm_write_repeated_loop ::
  "'d bmtd \<Rightarrow> u64 \<Rightarrow> u64 \<Rightarrow> u8 list \<Rightarrow> u32 \<Rightarrow> 'd nmbm \<Rightarrow> (bool \<times> 'd nmbm) option" where
  "nmbm_write_repeated_loop env addr off data sz s =
     (if off < ucast (blk_size env) then do {
        d \<leftarrow> buf_get data 0 (unat sz);
        pc \<leftarrow> buf_put (page_cache s) 0 d;
        pc \<leftarrow> buf_put pc (unat sz) (replicate (unat (rawpage_size s - sz)) 0xFF);
        let s = s\<lparr>page_cache := pc\<rparr>;
        (success, s) \<leftarrow> nmbm_write_phys_page env (addr + off) (Some (page_cache s)) None s;
        if \<not> success then Some (False, s)
        else do {
          (ret, s) \<leftarrow> read_page_cache env (addr + off) s;
          if ret < 0 then Some (False, s)
          else do {
            got \<leftarrow> buf_get (page_cache s) 0 (unat sz);
            if got \<noteq> d then Some (False, s)
            else nmbm_write_repeated_loop env addr (off + ucast (pg_size env)) data sz s
          }
        }
      }
      else Some (True, s))"

definition nmbm_write_repeated_data ::
  "'d bmtd \<Rightarrow> u32 \<Rightarrow> u8 list \<Rightarrow> u32 \<Rightarrow> 'd nmbm \<Rightarrow> (bool \<times> 'd nmbm) option" where
  "nmbm_write_repeated_data env ba data sz s =
     (if sz > pg_size env then Some (False, s)
      else nmbm_write_repeated_loop env (ba2addr env ba) 0 data sz s)"

function nmbm_write_signature_loop ::
  "'d bmtd \<Rightarrow> u32 \<Rightarrow> u32 \<Rightarrow> u8 list \<Rightarrow> 'd nmbm \<Rightarrow> (u32 option \<times> 'd nmbm) option" where
  "nmbm_write_signature_loop env ba limit data s =
     (if ba > limit then do {
        st \<leftarrow> nmbm_get_block_state s ba;
        (found, s) \<leftarrow>
          (if st \<noteq> BLOCK_ST_GOOD then Some (False, s)
           else do {
             (bad, s) \<leftarrow> nmbm_check_bad_phys_block env ba s;
             if bad then do {
               (_, s) \<leftarrow> nmbm_set_block_state s ba BLOCK_ST_BAD;
               Some (False, s)
             }
             else do {
               (success, s) \<leftarrow> nmbm_erase_block_and_check env ba s;
               (success, s) \<leftarrow>
                 (if success
                  then nmbm_write_repeated_data env ba data (of_nat SIGNATURE_SIZE) s
                  else Some (False, s));
               if success then Some (True, s)
               else do {
                 s \<leftarrow> nmbm_retire_block env ba s;
                 Some (False, s)
               }
             }
           });
        if found then Some (Some ba, s)
        else nmbm_write_signature_loop env (ba - 1) limit data s
      }
      else Some (None, s))"
  by pat_completeness auto
termination
  by (relation "measure (\<lambda>(env, ba, limit, data, s). unat ba)") (auto simp: unat_dec unat_less)

definition nmbm_write_signature ::
  "'d bmtd \<Rightarrow> u32 \<Rightarrow> nmbm_signature \<Rightarrow> 'd nmbm \<Rightarrow> (u32 option \<times> 'd nmbm) option" where
  "nmbm_write_signature env limit sig s =
     nmbm_write_signature_loop env (block_count s - 1) limit (signature_bytes sig) s"

declare nmbm_write_signature_loop.simps [simp del]

section \<open>Data ranges\<close>

text \<open>
  \<open>mem\<close> is the memory from the pointer \<open>data\<close> on, \<open>ptr\<close> the progress in it. A chunk that is
  a whole page goes straight to the destination, any other through \<open>page_cache\<close>.
\<close>

partial_function (option) nmbn_read_data_loop ::
  "'d bmtd \<Rightarrow> u64 \<Rightarrow> nat \<Rightarrow> u32 \<Rightarrow> u8 list \<Rightarrow> 'd nmbm \<Rightarrow> (int \<times> u8 list \<times> 'd nmbm) option" where
  "nmbn_read_data_loop env off ptr sizeremain mem s =
     (if sizeremain \<noteq> 0 then do {
        let leading = (ucast (off AND ucast (pg_size env - 1)) :: u32);
        let chunksize = pg_size env - leading;
        let chunksize = (if chunksize > sizeremain then sizeremain else chunksize);
        (ret, mem, s) \<leftarrow>
          (if chunksize = pg_size env then do {
             (ret, dst, s) \<leftarrow> read_page_to env (off - ucast leading) (drop ptr mem) s;
             Some (ret, take ptr mem @ dst, s)
           }
           else do {
             (ret, s) \<leftarrow> read_page_cache env (off - ucast leading) s;
             if ret < 0 then Some (ret, mem, s)
             else do {
               got \<leftarrow> buf_get (page_cache s) (unat leading) (unat chunksize);
               mem \<leftarrow> buf_put mem ptr got;
               Some (ret, mem, s)
             }
           });
        if ret < 0 then Some (ret, mem, s)
        else nmbn_read_data_loop env (off + ucast chunksize) (ptr + unat chunksize)
               (sizeremain - chunksize) mem s
      }
      else Some (0, mem, s))"

definition nmbn_read_data ::
  "'d bmtd \<Rightarrow> u64 \<Rightarrow> u8 list \<Rightarrow> u32 \<Rightarrow> 'd nmbm \<Rightarrow> (int \<times> u8 list \<times> 'd nmbm) option" where
  "nmbn_read_data env addr mem sz s = nmbn_read_data_loop env addr 0 sz mem s"

partial_function (option) nmbn_write_verify_loop ::
  "'d bmtd \<Rightarrow> u64 \<Rightarrow> nat \<Rightarrow> u32 \<Rightarrow> u8 list \<Rightarrow> 'd nmbm \<Rightarrow> (bool \<times> 'd nmbm) option" where
  "nmbn_write_verify_loop env off ptr sizeremain data s =
     (if sizeremain \<noteq> 0 then do {
        let leading = (ucast (off AND ucast (pg_size env - 1)) :: u32);
        let chunksize = pg_size env - leading;
        let chunksize = (if chunksize > sizeremain then sizeremain else chunksize);
        pc \<leftarrow> buf_put (page_cache s) 0 (replicate (unat (rawpage_size s)) 0xFF);
        d \<leftarrow> buf_get data ptr (unat chunksize);
        pc \<leftarrow> buf_put pc (unat leading) d;
        let s = s\<lparr>page_cache := pc\<rparr>;
        (success, s) \<leftarrow>
          nmbm_write_phys_page env (off - ucast leading) (Some (page_cache s)) None s;
        if \<not> success then Some (False, s)
        else do {
          (ret, s) \<leftarrow> read_page_cache env (off - ucast leading) s;
          if ret < 0 then Some (False, s)
          else do {
            got \<leftarrow> buf_get (page_cache s) (unat leading) (unat chunksize);
            if got \<noteq> d then Some (False, s)
            else nmbn_write_verify_loop env (off + ucast chunksize) (ptr + unat chunksize)
                   (sizeremain - chunksize) data s
          }
        }
      }
      else Some (True, s))"

definition nmbn_write_verify_data ::
  "'d bmtd \<Rightarrow> u64 \<Rightarrow> u8 list \<Rightarrow> u32 \<Rightarrow> 'd nmbm \<Rightarrow> (bool \<times> 'd nmbm) option" where
  "nmbn_write_verify_data env addr data sz s = nmbn_write_verify_loop env addr 0 sz data s"

text \<open>
  One iteration of the loop of \<open>nmbm_write_mgmt_range\<close> at block \<open>ba\<close>: whether the chunk at
  \<open>ptr\<close> was written to it.
\<close>

definition nmbm_write_mgmt_block ::
  "'d bmtd \<Rightarrow> u32 \<Rightarrow> u8 list \<Rightarrow> nat \<Rightarrow> u32 \<Rightarrow> 'd nmbm \<Rightarrow> (bool \<times> 'd nmbm) option" where
  "nmbm_write_mgmt_block env ba data ptr chunksize s = do {
     st \<leftarrow> nmbm_get_block_state s ba;
     if st \<noteq> BLOCK_ST_GOOD then Some (False, s)
     else do {
       (bad, s) \<leftarrow> nmbm_check_bad_phys_block env ba s;
       if bad then do {
         (_, s) \<leftarrow> nmbm_set_block_state s ba BLOCK_ST_BAD;
         Some (False, s)
       }
       else do {
         (success, s) \<leftarrow> nmbm_erase_block_and_check env ba s;
         (success, s) \<leftarrow>
           (if success
            then nmbn_write_verify_data env (ba2addr env ba) (drop ptr data) chunksize s
            else Some (False, s));
         if success then Some (True, s)
         else do {
           s \<leftarrow> nmbm_retire_block env ba s;
           Some (False, s)
         }
       }
     }
   }"

text \<open>
  The result \<open>Some (start, end)\<close> is \<open>true\<close> with \<open>*actual_start_ba\<close> and \<open>*actual_end_ba\<close>; the
  start is set when the first chunk is written. With nothing to write the callers' start
  would be an indeterminate value.
\<close>

function nmbm_write_mgmt_loop ::
  "'d bmtd \<Rightarrow> u8 list \<Rightarrow> u32 \<Rightarrow> u32 \<Rightarrow> u32 \<Rightarrow> nat \<Rightarrow> u32 \<Rightarrow> u32 option \<Rightarrow> 'd nmbm \<Rightarrow>
   ((u32 \<times> u32) option \<times> 'd nmbm) option" where
  "nmbm_write_mgmt_loop env data sz limit ba ptr sizeremain start s =
     (if sizeremain \<noteq> 0 \<and> ba < limit then do {
        let chunksize = (if sizeremain > blk_size env then blk_size env else sizeremain);
        (written, s) \<leftarrow> nmbm_write_mgmt_block env ba data ptr chunksize s;
        if written
        then nmbm_write_mgmt_loop env data sz limit (ba + 1) (ptr + unat chunksize)
               (sizeremain - chunksize) (if sizeremain = sz then Some ba else start) s
        else nmbm_write_mgmt_loop env data sz limit (ba + 1) ptr sizeremain start s
      }
      else if sizeremain \<noteq> 0 then Some (None, s)
      else do {
        st \<leftarrow> start;
        Some (Some (st, ba), s)
      })"
  by pat_completeness auto
termination
  by (relation "measure (\<lambda>(env, data, sz, limit, ba, ptr, sizeremain, start, s). unat limit - unat ba)")
    (auto simp: unat_inc unat_less)

definition nmbm_write_mgmt_range ::
  "'d bmtd \<Rightarrow> u32 \<Rightarrow> u32 \<Rightarrow> u8 list \<Rightarrow> u32 \<Rightarrow> 'd nmbm \<Rightarrow>
   ((u32 \<times> u32) option \<times> 'd nmbm) option" where
  "nmbm_write_mgmt_range env ba limit data sz s =
     nmbm_write_mgmt_loop env data sz limit ba 0 sz None s"

declare nmbm_write_mgmt_loop.simps [simp del]

end
