(* ===== verification/Nmbm_Table.thy ===== *)
theory Nmbm_Table
  imports Nmbm_Write
begin

text \<open>
  \<open>mtk_bmt_nmbm.c\<close>, fourth part: the main and backup info tables. Each holds the block state
  table and the mapping table with a write count; an update writes the backup first and then
  the main table, and falls back to rescue procedures and a rebuild when the blocks of a
  table fail.

  Results \<open>Some (start, end)\<close> stand for \<open>true\<close> with the two output parameters. The logging
  calls have no model.
\<close>

definition nmbm_generate_info_table_cache :: "'d bmtd \<Rightarrow> 'd nmbm \<Rightarrow> (bool \<times> 'd nmbm) option" where
  "nmbm_generate_info_table_cache env s = do {
     cache \<leftarrow> buf_put (info_table_cache s) 0 (replicate (unat (info_table_size s)) 0xFF);
     states \<leftarrow> buf_get (words_bytes (block_state s)) 0 (unat (state_table_size s));
     cache \<leftarrow> buf_put cache (unat (state_table_off (info_table s))) states;
     maps \<leftarrow> buf_get (words_bytes (block_mapping s)) 0 (unat (mapping_table_size s));
     cache \<leftarrow> buf_put cache (unat (mapping_table_off (info_table s))) maps;
     let it = info_table s;
     let it = it\<lparr>it_header := (it_header it)\<lparr>h_magic := NMBM_MAGIC_INFO_TABLE,
                h_version := NMBM_VER, h_size := info_table_size s\<rparr>\<rparr>;
     let changed = (block_state_changed s \<noteq> 0 \<or> block_mapping_changed s \<noteq> 0);
     let it = (if changed then it\<lparr>write_count := write_count it + 1\<rparr> else it);
     cache \<leftarrow> buf_put cache 0 (info_table_bytes it);
     cache \<leftarrow> nmbm_update_checksum env cache;
     Some (changed, s\<lparr>info_table := it, info_table_cache := cache\<rparr>)
   }"

definition nmbm_write_info_table ::
  "'d bmtd \<Rightarrow> u32 \<Rightarrow> u32 \<Rightarrow> 'd nmbm \<Rightarrow> ((u32 \<times> u32) option \<times> 'd nmbm) option" where
  "nmbm_write_info_table env ba limit s =
     nmbm_write_mgmt_range env ba limit (info_table_cache s) (info_table_size s) s"

definition nmbm_mark_tables_clean :: "'d nmbm \<Rightarrow> 'd nmbm" where
  "nmbm_mark_tables_clean s = s\<lparr>block_state_changed := 0, block_mapping_changed := 0\<rparr>"

text \<open>\<open>nblocks\<close> and \<open>min_count\<close> are signed; the callers pass 0 as the minimum.\<close>

function nmbm_try_reserve_loop ::
  "'d nmbm \<Rightarrow> u32 \<Rightarrow> int \<Rightarrow> int \<Rightarrow> u32 \<Rightarrow> u32 option option" where
  "nmbm_try_reserve_loop s ba nblocks min_count limit =
     (if nblocks \<ge> min_count then do {
        r \<leftarrow> nmbm_block_walk s True ba (word_of_int nblocks) limit;
        (case r of
           Some nba \<Rightarrow> Some (Some nba)
         | None \<Rightarrow> nmbm_try_reserve_loop s ba (nblocks - 1) min_count limit)
      }
      else Some None)"
  by pat_completeness auto
termination
  by (relation "measure (\<lambda>(s, ba, nblocks, min_count, limit). nat (nblocks - min_count + 1))") auto

definition nmbm_try_reserve_blocks ::
  "'d nmbm \<Rightarrow> u32 \<Rightarrow> u32 \<Rightarrow> int \<Rightarrow> u32 \<Rightarrow> u32 option option" where
  "nmbm_try_reserve_blocks s ba count min_count limit =
     nmbm_try_reserve_loop s ba (sint count) min_count limit"

declare nmbm_try_reserve_loop.simps [simp del]

text \<open>The reservation the rescue procedures make after \<open>ba\<close>, with its limit.\<close>

definition nmbm_reserve_after :: "'d bmtd \<Rightarrow> u32 \<Rightarrow> 'd nmbm \<Rightarrow> u32 option option" where
  "nmbm_reserve_after env ba s =
     nmbm_try_reserve_blocks s ba (info_table_spare_blocks s) 0
       (mapping_blocks_top_ba s - size2blk env (ucast (info_table_size s)))"

text \<open>
  The loop \<open>while (write_ba >= lowest) {... write_ba--; }\<close> the rescue procedures share: try to
  write the table at \<open>write_ba\<close>, then at lower addresses. Entering it below \<open>lowest\<close> would use
  an indeterminate start and end.
\<close>

partial_function (option) nmbm_write_down_loop ::
  "'d bmtd \<Rightarrow> u32 \<Rightarrow> u32 \<Rightarrow> 'd nmbm \<Rightarrow> ((u32 \<times> u32) option \<times> 'd nmbm) option" where
  "nmbm_write_down_loop env write_ba lowest s =
     (if write_ba \<ge> lowest then do {
        (r, s) \<leftarrow> nmbm_write_info_table env write_ba (mapping_blocks_top_ba s) s;
        if r \<noteq> None then Some (r, s)
        else nmbm_write_down_loop env (write_ba - 1) lowest s
      }
      else Some (None, s))"

definition nmbm_write_down ::
  "'d bmtd \<Rightarrow> u32 \<Rightarrow> u32 \<Rightarrow> 'd nmbm \<Rightarrow> ((u32 \<times> u32) option \<times> 'd nmbm) option" where
  "nmbm_write_down env write_ba lowest s =
     (if write_ba < lowest then None else nmbm_write_down_loop env write_ba lowest s)"

section \<open>Building and rescuing tables\<close>

definition nmbm_rebuild_info_table :: "'d bmtd \<Rightarrow> 'd nmbm \<Rightarrow> (bool \<times> 'd nmbm) option" where
  "nmbm_rebuild_info_table env s = do {
     let s = s\<lparr>main_table_ba := 0, backup_table_ba := 0,
               mapping_blocks_ba := mapping_blocks_top_ba s\<rparr>;
     (r, s) \<leftarrow> nmbm_write_info_table env (mgmt_start_ba s) (mapping_blocks_top_ba s) s;
     (case r of
        None \<Rightarrow> Some (False, s\<lparr>protected := True\<rparr>)
      | Some (table_start_ba, main_table_end_ba) \<Rightarrow> do {
          let s = s\<lparr>main_table_ba := table_start_ba, mapping_blocks_ba := main_table_end_ba\<rparr>;
          let s = nmbm_mark_tables_clean s;
          next_start \<leftarrow> nmbm_reserve_after env main_table_end_ba s;
          (case next_start of
             None \<Rightarrow> Some (True, s)
           | Some next_start_ba \<Rightarrow> do {
               (r, s) \<leftarrow> nmbm_write_info_table env next_start_ba (mapping_blocks_top_ba s) s;
               (case r of
                  None \<Rightarrow> Some (True, s)
                | Some (table_start_ba, table_end_ba) \<Rightarrow> do {
                    let s = s\<lparr>backup_table_ba := table_start_ba,
                              mapping_blocks_ba := table_end_ba\<rparr>;
                    s \<leftarrow> nmbm_erase_range env main_table_end_ba (backup_table_ba s) s;
                    Some (True, s)
                  })
             })
        })
   }"

definition nmbm_rescue_single_info_table :: "'d bmtd \<Rightarrow> 'd nmbm \<Rightarrow> (bool \<times> 'd nmbm) option" where
  "nmbm_rescue_single_info_table env s = do {
     (r, s) \<leftarrow> nmbm_write_info_table env (mgmt_start_ba s) (main_table_ba s) s;
     (case r of
        Some (table_start_ba, table_end_ba) \<Rightarrow> do {
          let s = s\<lparr>backup_table_ba := main_table_ba s, main_table_ba := table_start_ba\<rparr>;
          let s = nmbm_mark_tables_clean s;
          s \<leftarrow> nmbm_erase_range env table_end_ba (backup_table_ba s) s;
          Some (True, s)
        }
      | None \<Rightarrow> do {
          w \<leftarrow> nmbm_reserve_after env (mapping_blocks_ba s) s;
          (case w of
             None \<Rightarrow> Some (False, s)
           | Some write_ba \<Rightarrow> do {
               (r, s) \<leftarrow> nmbm_write_down env write_ba (mapping_blocks_ba s) s;
               (case r of
                  Some (table_start_ba, table_end_ba) \<Rightarrow> do {
                    s \<leftarrow> nmbm_erase_range env (mapping_blocks_ba s) table_start_ba s;
                    let s = s\<lparr>backup_table_ba := table_start_ba,
                              mapping_blocks_ba := table_end_ba\<rparr>;
                    Some (True, nmbm_mark_tables_clean s)
                  }
                | None \<Rightarrow> Some (False, s))
             })
        })
   }"

definition nmbm_update_single_info_table ::
  "'d bmtd \<Rightarrow> bool \<Rightarrow> 'd nmbm \<Rightarrow> (bool \<times> 'd nmbm) option" where
  "nmbm_update_single_info_table env update_main_table s = do {
     let write_start_ba = (if update_main_table then main_table_ba s else backup_table_ba s);
     let write_limit = (if update_main_table then backup_table_ba s else mapping_blocks_top_ba s);
     (r, s) \<leftarrow> nmbm_write_info_table env write_start_ba write_limit s;
     (case r of
        Some (table_start_ba, table_end_ba) \<Rightarrow> do {
          let s = (if update_main_table then s\<lparr>main_table_ba := table_start_ba\<rparr>
                   else s\<lparr>backup_table_ba := table_start_ba, mapping_blocks_ba := table_end_ba\<rparr>);
          Some (True, nmbm_mark_tables_clean s)
        }
      | None \<Rightarrow>
          (if update_main_table
           then nmbm_rescue_single_info_table env
                  (s\<lparr>main_table_ba := backup_table_ba s, backup_table_ba := 0\<rparr>)
           else Some (False, s\<lparr>mapping_blocks_ba := backup_table_ba s, backup_table_ba := 0\<rparr>)))
   }"

text \<open>
  The end of \<open>nmbm_rescue_main_info_table\<close>, from the point where the main table has
  overwritten the temporary one: reserve space after it and write a new backup.
\<close>

definition nmbm_rescue_new_backup :: "'d bmtd \<Rightarrow> u32 \<Rightarrow> 'd nmbm \<Rightarrow> (bool \<times> 'd nmbm) option" where
  "nmbm_rescue_new_backup env main_table_end_ba s = do {
     let s = s\<lparr>mapping_blocks_ba := main_table_end_ba\<rparr>;
     w \<leftarrow> nmbm_reserve_after env main_table_end_ba s;
     (case w of
        None \<Rightarrow> Some (True, s\<lparr>backup_table_ba := 0\<rparr>)
      | Some write_ba \<Rightarrow> do {
          (r, s) \<leftarrow> nmbm_write_down env write_ba main_table_end_ba s;
          (case r of
             None \<Rightarrow> Some (True, s\<lparr>backup_table_ba := 0\<rparr>)
           | Some (tmp_table_start_ba, tmp_table_end_ba) \<Rightarrow> do {
               let s = s\<lparr>backup_table_ba := tmp_table_start_ba,
                         mapping_blocks_ba := tmp_table_end_ba\<rparr>;
               s \<leftarrow> nmbm_erase_range env main_table_end_ba (backup_table_ba s) s;
               Some (True, s)
             })
        })
   }"

definition nmbm_rescue_main_info_table :: "'d bmtd \<Rightarrow> 'd nmbm \<Rightarrow> (bool \<times> 'd nmbm) option" where
  "nmbm_rescue_main_info_table env s = do {
     w \<leftarrow> nmbm_reserve_after env (mapping_blocks_ba s) s;
     (case w of
        None \<Rightarrow> Some (True, s\<lparr>main_table_ba := backup_table_ba s, backup_table_ba := 0\<rparr>)
      | Some write_ba \<Rightarrow> do {
          (r, s) \<leftarrow> nmbm_write_down env write_ba (mapping_blocks_ba s) s;
          (case r of
             None \<Rightarrow> Some (True, s\<lparr>main_table_ba := backup_table_ba s, backup_table_ba := 0\<rparr>)
           | Some (tmp_table_start_ba, tmp_table_end_ba) \<Rightarrow> do {
               let s = s\<lparr>mapping_blocks_ba := tmp_table_end_ba\<rparr>;
               (r, s) \<leftarrow> nmbm_write_info_table env (mgmt_start_ba s) tmp_table_start_ba s;
               (case r of
                  None \<Rightarrow> do {
                    let s = s\<lparr>main_table_ba := tmp_table_start_ba, backup_table_ba := 0\<rparr>;
                    Some (True, nmbm_mark_tables_clean s)
                  }
                | Some (main_table_start_ba, main_table_end_ba) \<Rightarrow> do {
                    let s = s\<lparr>main_table_ba := main_table_start_ba\<rparr>;
                    let s = nmbm_mark_tables_clean s;
                    if main_table_end_ba \<le> tmp_table_start_ba
                    then Some (True, s\<lparr>backup_table_ba := tmp_table_start_ba\<rparr>)
                    else nmbm_rescue_new_backup env main_table_end_ba s
                  })
             })
        })
   }"

section \<open>Updating the tables\<close>

text \<open>The code from the label \<open>write_main_table\<close> on, with its limit.\<close>

definition nmbm_update_main_table :: "'d bmtd \<Rightarrow> u32 \<Rightarrow> 'd nmbm \<Rightarrow> (bool \<times> 'd nmbm) option" where
  "nmbm_update_main_table env main_table_limit s =
     (if main_table_ba s = 0 then nmbm_rebuild_info_table env s
      else do {
        (r, s) \<leftarrow> nmbm_write_info_table env (main_table_ba s) main_table_limit s;
        (case r of
           None \<Rightarrow>
             (if backup_table_ba s = 0 then nmbm_rebuild_info_table env s
              else nmbm_rescue_main_info_table env s)
         | Some (table_start_ba, table_end_ba) \<Rightarrow> do {
             let s = s\<lparr>main_table_ba := table_start_ba\<rparr>;
             let s = (if backup_table_ba s = 0 then s\<lparr>mapping_blocks_ba := table_end_ba\<rparr> else s);
             Some (True, nmbm_mark_tables_clean s)
           })
      })"

definition nmbm_update_info_table_once ::
  "'d bmtd \<Rightarrow> bool \<Rightarrow> 'd nmbm \<Rightarrow> (bool \<times> 'd nmbm) option" where
  "nmbm_update_info_table_once env force s = do {
     (changed, s) \<leftarrow> nmbm_generate_info_table_cache env s;
     if \<not> changed \<and> \<not> force then Some (True, s)
     else if backup_table_ba s = 0
     then nmbm_update_main_table env (mapping_blocks_top_ba s) s
     else do {
       (r, s) \<leftarrow> nmbm_write_info_table env (backup_table_ba s) (mapping_blocks_top_ba s) s;
       (case r of
          None \<Rightarrow> do {
            let s = s\<lparr>mapping_blocks_ba := backup_table_ba s, backup_table_ba := 0\<rparr>;
            nmbm_update_main_table env (mapping_blocks_top_ba s) s
          }
        | Some (table_start_ba, table_end_ba) \<Rightarrow> do {
            let s = s\<lparr>backup_table_ba := table_start_ba, mapping_blocks_ba := table_end_ba\<rparr>;
            let s = nmbm_mark_tables_clean s;
            nmbm_update_main_table env (backup_table_ba s) s
          })
     }
   }"

partial_function (option) nmbm_update_loop :: "'d bmtd \<Rightarrow> 'd nmbm \<Rightarrow> (bool \<times> 'd nmbm) option" where
  "nmbm_update_loop env s =
     (if block_state_changed s \<noteq> 0 \<or> block_mapping_changed s \<noteq> 0 then do {
        (success, s) \<leftarrow> nmbm_update_info_table_once env False s;
        if \<not> success then Some (False, s) else nmbm_update_loop env s
      }
      else Some (True, s))"

definition nmbm_update_info_table :: "'d bmtd \<Rightarrow> 'd nmbm \<Rightarrow> (bool \<times> 'd nmbm) option" where
  "nmbm_update_info_table env s =
     (if protected s then Some (True, s) else nmbm_update_loop env s)"

end
