(* ===== verification/Bmt_Nand.thy ===== *)
theory Bmt_Nand
  imports Mtd_Device
begin

text \<open>
  The chip operations all three bad block schemes share: \<open>mtk_bmt.h\<close> (\<open>blk_pg\<close>,
  \<open>bbt_nand_read\<close>, \<open>bbt_nand_erase\<close>, \<open>write_bmt\<close>) and, from \<open>mtk_bmt.c\<close>, \<open>bbt_nand_copy\<close> and
  \<open>mapping_block_in_range\<close>. Their state is the chip; the buffers they read into are passed
  and returned. Shifts of a block or page number happen at the 32 bits of \<open>int\<close> or \<open>u32\<close>
  unless the code casts to \<open>loff_t\<close> first.
\<close>

abbreviation OOB_SIGNATURE_OFFSET :: nat where "OOB_SIGNATURE_OFFSET \<equiv> 1"

definition blk_pg :: "'d bmtd \<Rightarrow> u16 \<Rightarrow> u32" where
  "blk_pg env block =
     push_bit (unat (blk_shift env) - unat (pg_shift env)) (ucast block :: u32)"

definition blk_addr :: "'d bmtd \<Rightarrow> u32 \<Rightarrow> u64" where
  "blk_addr env block = push_bit (unat (blk_shift env)) (ucast block)"

definition bbt_nand_read ::
  "'d bmtd \<Rightarrow> u8 \<Rightarrow> u32 \<Rightarrow> u8 list \<Rightarrow> nat \<Rightarrow> u8 list \<Rightarrow> nat \<Rightarrow> 'd \<Rightarrow>
   (int \<times> u8 list \<times> u8 list \<times> 'd) option" where
  "bbt_nand_read env oob_offset page dat dat_len fdm fdm_len d = do {
     let (res, d) = drv_read_oob env d (ucast (push_bit (unat (pg_shift env)) page))
                      dat_len fdm_len (unat oob_offset);
     dat \<leftarrow> buf_put dat 0 (rd_dat res);
     fdm \<leftarrow> buf_put fdm 0 (rd_oob res);
     Some (if rd_ret res < 0 then rd_ret res else 0, dat, fdm, d)
   }"

definition bbt_nand_erase :: "'d bmtd \<Rightarrow> u16 \<Rightarrow> 'd \<Rightarrow> int \<times> 'd" where
  "bbt_nand_erase env block d =
     drv_erase env d (blk_addr env (ucast block)) (ucast (blk_size env))"

text \<open>\<open>sig\<close> is \<open>bmtd.ops->sig\<close> and \<open>bmt_pgs\<close> the number of pages of the table.\<close>

definition write_bmt ::
  "'d bmtd \<Rightarrow> u8 \<Rightarrow> u8 list \<Rightarrow> u32 \<Rightarrow> u16 \<Rightarrow> u8 list \<Rightarrow> 'd \<Rightarrow> (int \<times> 'd) option" where
  "write_bmt env oob_offset sig bmt_pgs block dat d = do {
     b \<leftarrow> buf_get dat 0 (unat (push_bit (unat (pg_shift env)) bmt_pgs));
     let (res, d) = drv_write_oob env d (blk_addr env (ucast block)) b sig
                      (OOB_SIGNATURE_OFFSET + unat oob_offset);
     Some (wr_ret res, d)
   }"

text \<open>
  \<open>bbt_nand_copy\<close>: \<open>data_buf\<close> is \<open>bmtd.data_buf\<close>, \<open>max_offset\<close> an \<open>loff_t\<close>. The write's
  \<open>ooblen\<close> is assigned after the write and its request is rebuilt in the next iteration, so
  every write has \<open>ooblen\<close> 0.
\<close>

fun bbt_nand_copy_loop ::
  "nat \<Rightarrow> 'd bmtd \<Rightarrow> u64 \<Rightarrow> u64 \<Rightarrow> int \<Rightarrow> int \<Rightarrow> nat \<Rightarrow> u8 list \<Rightarrow> u8 list \<Rightarrow> 'd \<Rightarrow>
   (int \<times> u8 list \<times> 'd) option" where
  "bbt_nand_copy_loop 0 env dest src max_offset offset pages oob data_buf d = Some (0, data_buf, d)"
| "bbt_nand_copy_loop (Suc n) env dest src max_offset offset pages oob data_buf d =
     (if offset \<ge> max_offset then Some (0, data_buf, d)
      else do {
        let (rd, d) = drv_read_oob env d (src + word_of_int offset) (unat (pg_size env))
                        (min (unat (oobsize env) div pages) 64) 0;
        data_buf \<leftarrow> buf_put data_buf 0 (rd_dat rd);
        oob \<leftarrow> buf_put oob 0 (rd_oob rd);
        if rd_ret rd < 0 \<and> rd_ret rd \<noteq> - EUCLEAN then Some (rd_ret rd, data_buf, d)
        else if rd_dat rd = [] then Some (0, data_buf, d)
        else do {
          page \<leftarrow> buf_get data_buf 0 (unat (pg_size env));
          let (wr, d) = drv_write_oob env d (dest + word_of_int offset) page [] 0;
          if wr_ret wr < 0 then Some (wr_ret wr, data_buf, d)
          else bbt_nand_copy_loop n env dest src max_offset
                 (offset + int (length (rd_dat rd))) pages oob data_buf d
        }
      })"

definition bbt_nand_copy ::
  "'d bmtd \<Rightarrow> u16 \<Rightarrow> u16 \<Rightarrow> int \<Rightarrow> u8 list \<Rightarrow> 'd \<Rightarrow> (int \<times> u8 list \<times> 'd) option" where
  "bbt_nand_copy env dest_blk src_blk max_offset data_buf d =
     (let pages = unat (drop_bit (unat (pg_shift env)) (blk_size env))
      in bbt_nand_copy_loop pages env (blk_addr env (ucast dest_blk)) (blk_addr env (ucast src_blk))
           max_offset 0 pages (replicate 64 0) data_buf d)"

text \<open>
  The range of \<open>remap_range\<close> the block's address is in: the result is \<open>*start\<close> and \<open>*end\<close>.
  \<open>block << blk_shift\<close> is a 32-bit shift.
\<close>

fun in_remap_range :: "(u32 \<times> u32) list \<Rightarrow> u32 \<Rightarrow> (u32 \<times> u32) option" where
  "in_remap_range [] addr = None"
| "in_remap_range ((lo, hi) # rs) addr =
     (if addr < lo \<or> addr \<ge> hi then in_remap_range rs addr else Some (lo, hi))"

definition mapping_block_in_range :: "'d bmtd \<Rightarrow> u32 \<Rightarrow> (u32 \<times> u32) option" where
  "mapping_block_in_range env block =
     (let addr = push_bit (unat (blk_shift env)) block in
      case remap_range env of
        None \<Rightarrow> Some (0, ucast (total_blks env))
      | Some [] \<Rightarrow> Some (0, ucast (total_blks env))
      | Some rs \<Rightarrow> in_remap_range rs addr)"

end
