(* ===== verification/Flash_Addr.thy ===== *)
theory Flash_Addr
  imports Bmt_Nand
begin

text \<open>
  The byte addresses of erase blocks, shared by the bad block managers: no block's addresses
  wrap for the geometries of \<open>geom_ok\<close>, and a request inside a block covers addresses of that
  block only.
\<close>

section \<open>Addresses of blocks\<close>

lemma blk_pow_le: "geom_ok env \<Longrightarrow> (2 :: nat) ^ unat (blk_shift env) \<le> 16777216"
  using power_increasing [of "unat (blk_shift env)" 24 "2 :: nat"] by (simp add: geom_ok_def)

lemma pg_pow_le: "geom_ok env \<Longrightarrow> (2 :: nat) ^ unat (pg_shift env) \<le> 65536"
  using power_increasing [of "unat (pg_shift env)" 16 "2 :: nat"] by (simp add: geom_ok_def)

lemma unat_blk_addr:
  assumes "geom_ok env"
  shows "unat (blk_addr env ba) = unat ba * 2 ^ unat (blk_shift env)"
proof -
  have "unat ba * 2 ^ unat (blk_shift env) < 2 ^ 32 * 2 ^ unat (blk_shift env)"
    by (rule mult_strict_right_mono) (use unat32_bound [of ba] in simp_all)
  also have "\<dots> \<le> 2 ^ 32 * 2 ^ 24"
    using blk_pow_le [OF assms] by simp
  also have "\<dots> < (2 ^ 64 :: nat)" by simp
  finally have "unat ba * 2 ^ unat (blk_shift env) < 2 ^ 64" .
  moreover have "unat (blk_addr env ba) = take_bit 64 (unat ba * 2 ^ unat (blk_shift env))"
    unfolding blk_addr_def unsigned_push_bit_eq
    by (simp only: push_bit_eq_mult) (simp add: unsigned_ucast_eq take_bit_nat_eq_self unat32_bound [THEN less_le_trans])
  ultimately show ?thesis by (simp add: take_bit_nat_eq_self)
qed

text \<open>The addresses of block \<open>ba\<close>.\<close>

definition block_addrs :: "'d bmtd \<Rightarrow> u32 \<Rightarrow> u64 \<Rightarrow> bool" where
  "block_addrs env ba a \<longleftrightarrow> unat a div 2 ^ unat (blk_shift env) = unat ba"

lemma block_addrs_in: "block_addrs env ba a \<Longrightarrow> lo \<le> ba \<Longrightarrow> ba < hi \<Longrightarrow> in_blocks env lo hi a"
  by (simp add: block_addrs_def in_blocks_def unat_le unat_less)

lemma block_addrs_range:
  "block_addrs env ba a \<longleftrightarrow>
     unat ba * 2 ^ unat (blk_shift env) \<le> unat a \<and> unat a < Suc (unat ba) * 2 ^ unat (blk_shift env)"
proof -
  have "unat a div 2 ^ unat (blk_shift env) = unat ba \<longleftrightarrow>
      unat ba * 2 ^ unat (blk_shift env) \<le> unat a \<and>
      unat a < unat ba * 2 ^ unat (blk_shift env) + 2 ^ unat (blk_shift env)"
    by (metis add.commute div_nat_eqI dividend_less_times_div mult.commute mult_Suc_right times_div_less_eq_dividend zero_less_numeral zero_less_power)
  then show ?thesis by (simp add: block_addrs_def algebra_simps)
qed

lemma block_addr_start: "geom_ok env \<Longrightarrow> block_addrs env ba (blk_addr env ba)"
  by (simp add: block_addrs_def unat_blk_addr)

text \<open>A block's addresses end below \<open>2 ^ 57\<close>, so nothing wraps.\<close>

lemma block_end_bound:
  assumes "geom_ok env"
  shows "Suc (unat (ba :: u32)) * 2 ^ unat (blk_shift env) \<le> 2 ^ 57"
proof -
  have "Suc (unat ba) * 2 ^ unat (blk_shift env) \<le> 2 ^ 32 * 2 ^ unat (blk_shift env)"
    by (rule mult_right_mono) (use unat32_bound [of ba] in \<open>simp_all add: Suc_le_eq\<close>)
  also have "\<dots> \<le> 2 ^ 32 * 2 ^ 24"
    using blk_pow_le [OF assms] by simp
  finally show ?thesis by simp
qed

text \<open>A byte range inside block \<open>ba\<close> covers addresses of the block only.\<close>

lemma spans_block:
  assumes "geom_ok env" and "unat ba * 2 ^ unat (blk_shift env) \<le> unat a"
    and "unat a + n \<le> Suc (unat ba) * 2 ^ unat (blk_shift env)" and "0 < n"
  shows "spans (block_addrs env ba) a n"
proof -
  note bound = block_end_bound [OF assms(1), of ba]
  have x: "unat x = unat a + unat (x - a)" if "unat (x - a) < n" for x
  proof -
    have "unat a + unat (x - a) < 2 ^ 64" using that assms(3) bound by simp
    moreover have "unat x = (unat a + unat (x - a)) mod 2 ^ 64"
      using unat_word_ariths(1) [of a "x - a"] by simp
    ultimately show ?thesis by simp
  qed
  have "block_addrs env ba a" using assms(2-4) by (simp add: block_addrs_range)
  moreover have "block_addrs env ba x" if "unat (x - a) < n" for x
    using x [OF that] assms(2,3) that by (simp add: block_addrs_range)
  ultimately show ?thesis by (simp add: spans_def)
qed

lemma spans_whole_block:
  "geom_ok env \<Longrightarrow> spans (block_addrs env ba) (blk_addr env ba) (unat (erasesize env))"
  by (rule spans_block) (auto simp: unat_blk_addr geom_ok_def)

definition env_ok :: "'d bmtd \<Rightarrow> bool" where
  "env_ok env \<longleftrightarrow> geom_ok env \<and> drv_bounded env"

end
