(* ===== verification/Nmbm_Steps.thy ===== *)
theory Nmbm_Steps
  imports Nmbm_Write Flash_Addr
begin

text \<open>
  What a run of the chip-level routines of \<open>mtk_bmt_nmbm.c\<close> can do to the instance and the
  chip. \<open>chip_step\<close>: only \<open>page_cache\<close> and the chip change. \<open>io_step\<close>: in addition good
  blocks may have been retired, and the number of good blocks has decreased whenever the
  state table changed. Both bound the addresses that were programmed, erased or marked. For
  every routine there is a lemma that it has a defined result (no access outside a buffer,
  every loop ends) and which step it makes.
\<close>

section \<open>Addresses of blocks\<close>

lemma ba2addr_blk_addr: "ba2addr env ba = blk_addr env ba"
  by (simp add: ba2addr_def blk_addr_def)

lemma unat_ba2addr: "geom_ok env \<Longrightarrow> unat (ba2addr env ba) = unat ba * 2 ^ unat (blk_shift env)"
  by (simp add: ba2addr_blk_addr unat_blk_addr)

lemma ba2addr_start: "geom_ok env \<Longrightarrow> block_addrs env ba (ba2addr env ba)"
  by (simp add: ba2addr_blk_addr block_addr_start)

lemma ba2addr_whole:
  "geom_ok env \<Longrightarrow> spans (block_addrs env ba) (ba2addr env ba) (unat (erasesize env))"
  by (simp add: ba2addr_blk_addr spans_whole_block)

section \<open>Steps on the chip\<close>

definition buf_ok :: "'d bmtd \<Rightarrow> 'd nmbm \<Rightarrow> bool" where
  "buf_ok env s \<longleftrightarrow> length (page_cache s) = unat (rawpage_size s) \<and>
     unat (rawpage_size s) = unat (pg_size env) + unat (oobsize env)"

definition chip_step :: "'d bmtd \<Rightarrow> (u64 \<Rightarrow> bool) \<Rightarrow> 'd nmbm \<Rightarrow> 'd nmbm \<Rightarrow> bool" where
  "chip_step env A s s' \<longleftrightarrow>
     (\<exists>p d. s' = s\<lparr>page_cache := p, dev := d\<rparr> \<and> length p = length (page_cache s) \<and>
        dev_steps env A (dev s) d)"

lemma chip_step_refl [simp]: "chip_step env A s s"
  unfolding chip_step_def
  by (rule exI [of _ "page_cache s"], rule exI [of _ "dev s"]) (simp add: steps_refl)

lemma chip_step_trans:
  "chip_step env A s s' \<Longrightarrow> chip_step env A s' s'' \<Longrightarrow> chip_step env A s s''"
  unfolding chip_step_def
proof (elim exE conjE)
  fix p d p' d'
  assume "s' = s\<lparr>page_cache := p, dev := d\<rparr>" and "s'' = s'\<lparr>page_cache := p', dev := d'\<rparr>"
    and "length p = length (page_cache s)" and "length p' = length (page_cache s')"
    and "dev_steps env A (dev s) d" and "dev_steps env A (dev s') d'"
  then show "\<exists>p d. s'' = s\<lparr>page_cache := p, dev := d\<rparr> \<and> length p = length (page_cache s) \<and>
      dev_steps env A (dev s) d"
    by (intro exI [of _ p'] exI [of _ d']) (auto intro: dev_steps_trans)
qed

lemma chip_step_mono: "chip_step env A s s' \<Longrightarrow> (\<And>a. A a \<Longrightarrow> B a) \<Longrightarrow> chip_step env B s s'"
  unfolding chip_step_def by (blast intro: dev_steps_mono)

lemma chip_step_dev: "dev_step env A (dev s) d \<Longrightarrow> chip_step env A s (s\<lparr>dev := d\<rparr>)"
  unfolding chip_step_def
  by (rule exI [of _ "page_cache s"], rule exI [of _ d]) (simp add: dev_steps_single)

lemma chip_step_cache: "length p = length (page_cache s) \<Longrightarrow> chip_step env A s (s\<lparr>page_cache := p\<rparr>)"
  unfolding chip_step_def
  by (rule exI [of _ p], rule exI [of _ "dev s"]) (simp add: steps_refl)

lemma chip_step_buf_ok: "chip_step env A s s' \<Longrightarrow> buf_ok env s' \<longleftrightarrow> buf_ok env s"
  by (auto simp: chip_step_def buf_ok_def)

lemma chip_step_simps:
  assumes "chip_step env A s s'"
  shows "block_state s' = block_state s" "block_state_changed s' = block_state_changed s"
    "length (page_cache s') = length (page_cache s)" "rawpage_size s' = rawpage_size s"
    "empty_page_ecc_ok s' = empty_page_ecc_ok s" "info_table_cache s' = info_table_cache s"
    "block_count s' = block_count s"
  using assms by (auto simp: chip_step_def)

lemma store_at_Some:
  "length bs \<le> length b \<Longrightarrow> \<exists>b'. store_at (Some b) bs = Some (Some b') \<and> length b' = length b"
  by (simp add: store_at_def buf_put_def)

lemma read_tries_spec:
  assumes "drv_bounded env" and "unat (pg_size env) \<le> length buf"
  shows "returns (nmbm_read_tries n env addr (Some buf) None ret s)
    (\<lambda>(r, dat, oob, s'). \<exists>b d. dat = Some b \<and> length b = length buf \<and>
       s' = s\<lparr>dev := d\<rparr> \<and> dev_steps env A (dev s) d)"
  using assms(2)
proof (induction n arbitrary: buf ret s)
  case 0
  then show ?case
    by simp (rule exI [of _ "dev s"], simp add: steps_refl)
next
  case (Suc n)
  obtain res d where rd: "drv_read_oob env (dev s) addr (unat (pg_size env)) 0 0 = (res, d)"
    by (cases "drv_read_oob env (dev s) addr (unat (pg_size env)) 0 0")
  have "length (rd_dat res) \<le> unat (pg_size env)" and no_oob: "rd_oob res = []"
    using assms(1) rd unfolding drv_bounded_def by (metis fst_conv, metis fst_conv le_zero_eq length_0_conv)
  then obtain b where b: "store_at (Some buf) (rd_dat res) = Some (Some b)" "length b = length buf"
    using store_at_Some Suc.prems by (metis le_trans)
  have st: "dev_steps env A (dev s) d"
    using step_read [of env A "dev s" addr "unat (pg_size env)" 0 0] rd
    by (simp add: dev_steps_single)
  show ?case
  proof (cases "rd_ret res = - EUCLEAN \<or> rd_ret res \<ge> 0")
    case True
    then show ?thesis using rd b st no_oob by (auto simp: store_at_def)
  next
    case False
    have "returns (nmbm_read_tries n env addr (Some b) None (rd_ret res) (s\<lparr>dev := d\<rparr>))
      (\<lambda>(r, dat, oob, s'). \<exists>b' d'. dat = Some b' \<and> length b' = length b \<and>
         s' = s\<lparr>dev := d, dev := d'\<rparr> \<and> dev_steps env A d d')"
      using Suc.IH [of b "rd_ret res" "s\<lparr>dev := d\<rparr>"] Suc.prems b(2) by simp
    then show ?thesis using rd b no_oob False
      by (auto simp: store_at_def elim!: returns_mono intro: dev_steps_trans [OF st])
  qed
qed

lemma read_page_to_spec:
  assumes "drv_bounded env" and "unat (pg_size env) \<le> length buf"
  shows "returns (read_page_to env addr buf s)
    (\<lambda>(r, b, s'). length b = length buf \<and> (\<exists>d. s' = s\<lparr>dev := d\<rparr> \<and> dev_steps env A (dev s) d))"
  unfolding read_page_to_def nmbm_read_phys_page_def returns_bind
  by (rule returns_mono [OF read_tries_spec [OF assms]]) auto

lemma read_page_cache_spec:
  assumes "drv_bounded env" and "unat (pg_size env) \<le> length (page_cache s)"
  shows "returns (read_page_cache env addr s) (\<lambda>(r, s'). chip_step env A s s')"
  unfolding read_page_cache_def returns_bind
proof (rule returns_mono [OF read_page_to_spec [OF assms, where A = A]], clarsimp)
  fix b :: "u8 list" and d
  assume "length b = length (page_cache s)" and "dev_steps env A (dev s) d"
  then show "chip_step env A s (s\<lparr>dev := d, page_cache := b\<rparr>)"
    unfolding chip_step_def
    by (intro exI [of _ b] exI [of _ d]) simp
qed

lemma write_tries_step:
  "spans A addr (length dat) \<Longrightarrow> chip_step env A s (snd (nmbm_write_tries n env addr dat oob s))"
proof (induction n arbitrary: s)
  case (Suc n)
  obtain res d where wr: "drv_write_oob env (dev s) addr dat oob 0 = (res, d)"
    by (cases "drv_write_oob env (dev s) addr dat oob 0")
  have "chip_step env A s (s\<lparr>dev := d\<rparr>)"
    using step_write [where A = A and a = addr and dat = dat and env = env and d = "dev s" and oob = oob and oo = 0] Suc.prems wr by (simp add: chip_step_dev)
  then show ?case using Suc.IH [of "s\<lparr>dev := d\<rparr>"] Suc.prems wr
    by (auto simp: Let_def intro: chip_step_trans)
qed simp

lemma write_phys_page_spec:
  assumes "spans A addr (unat (pg_size env))" and "unat (pg_size env) \<le> length buf"
  shows "returns (nmbm_write_phys_page env addr (Some buf) None s) (\<lambda>(ok, s'). chip_step env A s s')"
  using write_tries_step [of A addr "take (unat (pg_size env)) buf" env s NMBM_TRY_COUNT "[]"] assms
  by (auto simp: nmbm_write_phys_page_def returns_buf_get split: prod.splits)

lemma erase_tries_step: "spans A addr (unat (erasesize env)) \<Longrightarrow> chip_step env A s (snd (nmbm_erase_tries n env addr s))"
proof (induction n arbitrary: s)
  case (Suc n)
  obtain ret d where er: "drv_erase env (dev s) addr (ucast (erasesize env)) = (ret, d)"
    by (cases "drv_erase env (dev s) addr (ucast (erasesize env))")
  have "chip_step env A s (s\<lparr>dev := d\<rparr>)"
    using step_erase [of A addr "ucast (erasesize env)" env "dev s"] Suc.prems er
    by (simp add: chip_step_dev)
  then show ?case using Suc.IH [of "s\<lparr>dev := d\<rparr>"] Suc.prems er
    by (auto simp: Let_def intro: chip_step_trans)
qed simp

lemma erase_phys_block_spec:
  "spans A addr (unat (erasesize env)) \<Longrightarrow> returns (nmbm_erase_phys_block env addr s) (\<lambda>(ok, s'). chip_step env A s s')"
  using erase_tries_step [of A addr env s NMBM_TRY_COUNT]
  by (auto simp: nmbm_erase_phys_block_def split: prod.splits)

lemma check_bad_spec:
  "returns (nmbm_check_bad_phys_block env ba s) (\<lambda>(bad, s'). chip_step env A s s')"
  using step_isbad [of env A "dev s" "ba2addr env ba"]
  by (auto simp add: nmbm_check_bad_phys_block_def chip_step_dev split: prod.splits)

lemma mark_bad_spec:
  "A (ba2addr env ba) \<Longrightarrow> returns (nmbm_mark_phys_bad_block env ba s) (\<lambda>(r, s'). chip_step env A s s')"
  using step_markbad [of A "ba2addr env ba" env "dev s"]
  by (auto simp add: nmbm_mark_phys_bad_block_def chip_step_dev split: prod.splits)

section \<open>Steps that retire blocks\<close>

definition good_count :: "u32 list \<Rightarrow> nat" where
  "good_count bst = card {k. k < 16 * length bst \<and> blk_good bst k}"

definition retired :: "u32 list \<Rightarrow> u32 list \<Rightarrow> bool" where
  "retired bs bs' \<longleftrightarrow> length bs' = length bs \<and>
     (\<forall>k < 16 * length bs. bst_get bs' k = bst_get bs k \<or>
        blk_good bs k \<and> bst_get bs' k = BLOCK_ST_BAD)"

lemma retired_refl [simp]: "retired bs bs"
  by (simp add: retired_def)

lemma retired_trans: "retired bs bs' \<Longrightarrow> retired bs' bs'' \<Longrightarrow> retired bs bs''"
  unfolding retired_def by (metis (no_types, lifting))

lemma retired_good: "retired bs bs' \<Longrightarrow> k < 16 * length bs \<Longrightarrow> blk_good bs' k \<Longrightarrow> blk_good bs k"
  unfolding retired_def by auto

lemma retired_put:
  assumes "k < 16 * length bs" and "blk_good bs k"
  shows "retired bs (bst_put bs k BLOCK_ST_BAD)"
proof -
  have "length (bst_put bs k BLOCK_ST_BAD) = length bs" by (simp add: bst_put_def)
  then show ?thesis using assms by (auto simp: retired_def nst.get_put)
qed

lemma good_count_put:
  assumes "k < 16 * length bs" and "blk_good bs k"
  shows "good_count (bst_put bs k BLOCK_ST_BAD) < good_count bs"
proof -
  have "length (bst_put bs k BLOCK_ST_BAD) = length bs" by (simp add: bst_put_def)
  then show ?thesis
    using nst.count_put_less [of k "16 * length bs" bs BLOCK_ST_GOOD BLOCK_ST_BAD] assms
    by (simp add: good_count_def)
qed

definition io_step :: "'d bmtd \<Rightarrow> (u64 \<Rightarrow> bool) \<Rightarrow> 'd nmbm \<Rightarrow> 'd nmbm \<Rightarrow> bool" where
  "io_step env A s s' \<longleftrightarrow>
     (\<exists>bs c p d. s' = s\<lparr>block_state := bs, block_state_changed := c, page_cache := p, dev := d\<rparr> \<and>
        length p = length (page_cache s) \<and> dev_steps env A (dev s) d \<and>
        retired (block_state s) bs \<and>
        (bs = block_state s \<and> c = block_state_changed s \<or> good_count bs < good_count (block_state s)))"

lemma chip_io_step: "chip_step env A s s' \<Longrightarrow> io_step env A s s'"
  unfolding chip_step_def io_step_def
proof (elim exE conjE)
  fix p d
  assume "s' = s\<lparr>page_cache := p, dev := d\<rparr>" and "length p = length (page_cache s)"
    and "dev_steps env A (dev s) d"
  then show "\<exists>bs c p d. s' = s\<lparr>block_state := bs, block_state_changed := c, page_cache := p, dev := d\<rparr> \<and>
        length p = length (page_cache s) \<and> dev_steps env A (dev s) d \<and>
        retired (block_state s) bs \<and>
        (bs = block_state s \<and> c = block_state_changed s \<or> good_count bs < good_count (block_state s))"
    by (intro exI [of _ "block_state s"] exI [of _ "block_state_changed s"] exI [of _ p] exI [of _ d]) simp
qed

lemma io_step_refl [simp]: "io_step env A s s"
  by (rule chip_io_step) simp

lemma io_step_trans:
  "io_step env A s s' \<Longrightarrow> io_step env A s' s'' \<Longrightarrow> io_step env A s s''"
  unfolding io_step_def
proof (elim exE conjE)
  fix bs c p d bs' c' p' d'
  assume 1: "s' = s\<lparr>block_state := bs, block_state_changed := c, page_cache := p, dev := d\<rparr>"
    and "s'' = s'\<lparr>block_state := bs', block_state_changed := c', page_cache := p', dev := d'\<rparr>"
    and "length p = length (page_cache s)" and "length p' = length (page_cache s')"
    and "dev_steps env A (dev s) d" and "dev_steps env A (dev s') d'"
    and "retired (block_state s) bs" and "retired (block_state s') bs'"
    and "bs = block_state s \<and> c = block_state_changed s \<or> good_count bs < good_count (block_state s)"
    and "bs' = block_state s' \<and> c' = block_state_changed s' \<or> good_count bs' < good_count (block_state s')"
  then show "\<exists>bs c p d. s'' = s\<lparr>block_state := bs, block_state_changed := c, page_cache := p, dev := d\<rparr> \<and>
        length p = length (page_cache s) \<and> dev_steps env A (dev s) d \<and>
        retired (block_state s) bs \<and>
        (bs = block_state s \<and> c = block_state_changed s \<or> good_count bs < good_count (block_state s))"
    by (intro exI [of _ bs'] exI [of _ c'] exI [of _ p'] exI [of _ d'])
      (auto intro: dev_steps_trans retired_trans)
qed

lemma io_step_mono: "io_step env A s s' \<Longrightarrow> (\<And>a. A a \<Longrightarrow> B a) \<Longrightarrow> io_step env B s s'"
  unfolding io_step_def by (blast intro: dev_steps_mono)

lemma io_step_buf_ok: "io_step env A s s' \<Longrightarrow> buf_ok env s' \<longleftrightarrow> buf_ok env s"
  by (auto simp: io_step_def buf_ok_def)

text \<open>The fields a step keeps.\<close>

lemma io_step_simps:
  assumes "io_step env A s s'"
  shows "length (block_state s') = length (block_state s)" "retired (block_state s) (block_state s')"
    "length (page_cache s') = length (page_cache s)" "rawpage_size s' = rawpage_size s"
    "empty_page_ecc_ok s' = empty_page_ecc_ok s" "info_table_cache s' = info_table_cache s"
    "block_count s' = block_count s"
  using assms by (auto simp: io_step_def retired_def)

lemma io_step_retire:
  assumes "unat ba < 16 * length (block_state s)" and "blk_good (block_state s) (unat ba)"
  shows "returns (nmbm_set_block_state s ba BLOCK_ST_BAD) (\<lambda>(ch, s'). io_step env A s s')"
  using assms unfolding set_block_state_eq
  apply (simp add: Let_def)
  unfolding io_step_def
  by (intro exI [of _ "bst_put (block_state s) (unat ba) BLOCK_ST_BAD"]
      exI [of _ "block_state_changed s + 1"] exI [of _ "page_cache s"] exI [of _ "dev s"])
    (simp add: retired_put good_count_put steps_refl)

section \<open>Specifications of the block routines\<close>

lemma env_okD: "env_ok env \<Longrightarrow> geom_ok env" "env_ok env \<Longrightarrow> drv_bounded env"
  by (simp_all add: env_ok_def)

lemma pg_size_pos: "geom_ok env \<Longrightarrow> 0 < unat (pg_size env)"
  by (simp add: geom_ok_def)

lemma pg_size_le: "geom_ok env \<Longrightarrow> unat (pg_size env) \<le> 65536"
  using pg_pow_le by (fastforce simp: geom_ok_def)

lemma blk_size_le: "geom_ok env \<Longrightarrow> unat (blk_size env) \<le> 16777216"
  using blk_pow_le by (fastforce simp: geom_ok_def)

lemma buf_ok_page: "buf_ok env s \<Longrightarrow> unat (pg_size env) \<le> length (page_cache s)"
  by (simp add: buf_ok_def)

lemma chip_then_io: "chip_step env A s s' \<Longrightarrow> io_step env A s' s'' \<Longrightarrow> io_step env A s s''"
  by (blast intro: chip_io_step io_step_trans)

lemma unat_off_page:
  assumes "geom_ok env" and "unat (off :: u64) < unat (blk_size env)"
  shows "unat (off + ucast (pg_size env)) = unat off + unat (pg_size env)"
  using pg_size_le [OF assms(1)] blk_size_le [OF assms(1)] assms(2)
  by (simp add: unat_word_ariths )

lemma check_erased_spec:
  assumes "env_ok env" and "buf_ok env s"
  shows "returns (nmbm_check_erased_loop env addr off s) (\<lambda>(ok, s'). chip_step env A s s')"
  using assms(2)
proof (induction "unat (blk_size env) - unat off" arbitrary: off s rule: less_induct)
  case less
  note env = env_okD [OF assms(1)]
  show ?case
  proof (cases "off < ucast (blk_size env)")
    case False
    then show ?thesis by (subst nmbm_check_erased_loop.simps) simp
  next
    case True
    then have lt: "unat off < unat (blk_size env)" by (simp add: unat_less)
    have smaller: "unat (blk_size env) - unat (off + ucast (pg_size env)) < unat (blk_size env) - unat off"
      using unat_off_page [OF env(1) lt] pg_size_pos [OF env(1)] lt by simp
    have "returns (read_page_cache env (addr + off) s) (\<lambda>(r, s'). chip_step env A s s')"
      by (rule read_page_cache_spec [OF env(2) buf_ok_page [OF less.prems]])
    then show ?thesis using True
      apply (subst nmbm_check_erased_loop.simps)
      apply simp
      apply (erule returns_mono)
      apply clarsimp
      subgoal for r s'
        using less.hyps [OF smaller, of s'] less.prems
        by (auto simp: chip_step_buf_ok elim!: returns_mono intro: chip_step_trans)
      done
  qed
qed

lemma erase_and_check_spec:
  assumes "env_ok env" and "buf_ok env s"
  shows "returns (nmbm_erase_block_and_check env ba s)
    (\<lambda>(ok, s'). chip_step env (block_addrs env ba) s s')"
proof -
  have "returns (nmbm_erase_phys_block env (ba2addr env ba) s)
      (\<lambda>(ok, s'). chip_step env (block_addrs env ba) s s')"
    by (rule erase_phys_block_spec) (simp add: ba2addr_whole env_okD [OF assms(1)])
  then show ?thesis unfolding nmbm_erase_block_and_check_def
    apply simp
    apply (erule returns_mono)
    apply clarsimp
    subgoal for r s'
      using check_erased_spec [OF assms(1), of s' "ba2addr env ba" 0 "block_addrs env ba"] assms(2)
      by (auto simp: chip_step_buf_ok elim!: returns_mono intro: chip_step_trans)
    done
qed

lemma retire_spec:
  assumes "env_ok env" and "unat ba < 16 * length (block_state s)"
    and "blk_good (block_state s) (unat ba)"
  shows "returns (nmbm_retire_block env ba s) (\<lambda>s'. io_step env (block_addrs env ba) s s')"
proof -
  have "returns (nmbm_mark_phys_bad_block env ba s) (\<lambda>(r, s'). chip_step env (block_addrs env ba) s s')"
    by (rule mark_bad_spec) (simp add: ba2addr_start env_okD [OF assms(1)])
  then show ?thesis unfolding nmbm_retire_block_def
    apply simp
    apply (erule returns_mono)
    apply clarsimp
    subgoal for s'
      using io_step_retire [of ba s' env "block_addrs env ba"] assms
      by (auto simp: chip_step_simps elim!: returns_mono intro: chip_then_io)
    done
qed

text \<open>The range below a limit that the table covers.\<close>

definition covers :: "'d nmbm \<Rightarrow> u32 \<Rightarrow> bool" where
  "covers s limit \<longleftrightarrow> unat limit \<le> 16 * length (block_state s)"

lemma io_step_covers: "io_step env A s s' \<Longrightarrow> covers s' limit = covers s limit"
  by (simp add: covers_def io_step_simps)

lemma chip_step_covers: "chip_step env A s s' \<Longrightarrow> covers s' limit = covers s limit"
  by (simp add: covers_def chip_step_simps)

lemma get_state_spec:
  "unat ba < 16 * length (block_state s) \<Longrightarrow>
   nmbm_get_block_state s ba = Some (bst_get (block_state s) (unat ba))"
  by (simp add: nmbm_get_block_state_def get_raw_eq)

lemmas io_intros = chip_then_io chip_io_step chip_step_trans
lemmas io_keeps = io_step_simps io_step_covers io_step_buf_ok chip_step_simps chip_step_covers
  chip_step_buf_ok

text \<open>One block of \<open>nmbm_erase_range\<close>: what is done with a block whose state is good.\<close>

definition erase_one :: "'d bmtd \<Rightarrow> u32 \<Rightarrow> 'd nmbm \<Rightarrow> 'd nmbm option" where
  "erase_one env ba s = do {
     st \<leftarrow> nmbm_get_block_state s ba;
     if st \<noteq> BLOCK_ST_GOOD then Some s
     else do {
       (bad, s) \<leftarrow> nmbm_check_bad_phys_block env ba s;
       if bad then do {
         (_, s) \<leftarrow> nmbm_set_block_state s ba BLOCK_ST_BAD;
         Some s
       }
       else do {
         (success, s) \<leftarrow> nmbm_erase_block_and_check env ba s;
         if success then Some s else nmbm_retire_block env ba s
       }
     }
   }"

lemma erase_range_step:
  "nmbm_erase_range env ba limit s =
     (if ba < limit then do { s \<leftarrow> erase_one env ba s; nmbm_erase_range env (ba + 1) limit s }
      else Some s)"
  by (subst nmbm_erase_range.simps)
    (auto simp: erase_one_def Option.bind_assoc intro!: Option.bind_cong split: prod.splits)

lemma erase_one_spec:
  assumes "env_ok env" and "buf_ok env s" and "unat ba < 16 * length (block_state s)"
  shows "returns (erase_one env ba s) (\<lambda>s'. io_step env (block_addrs env ba) s s')"
proof (cases "blk_good (block_state s) (unat ba)")
  case False
  then show ?thesis using assms(3) by (simp add: erase_one_def get_state_spec)
next
  case True
  have "returns (nmbm_check_bad_phys_block env ba s) (\<lambda>(bad, s'). chip_step env (block_addrs env ba) s s')"
    by (rule check_bad_spec)
  then show ?thesis using True assms(3) unfolding erase_one_def
    apply (simp add: get_state_spec)
    apply (erule returns_mono)
    apply clarsimp
    subgoal for bad s1
      apply (intro conjI impI)
      subgoal using io_step_retire [of ba s1 env "block_addrs env ba"]
        by (auto simp: chip_step_simps elim!: returns_mono intro: io_intros)
      subgoal using erase_and_check_spec [OF assms(1), of s1 ba] assms(2)
        apply (simp add: chip_step_buf_ok)
        apply (erule returns_mono)
        apply clarsimp
        subgoal for ok s2
          using retire_spec [OF assms(1), of ba s2]
          by (auto simp: chip_step_simps elim!: returns_mono intro: io_intros)
        done
      done
    done
qed

lemma erase_range_spec:
  assumes "env_ok env" and "buf_ok env s" and "covers s limit" and "lo \<le> ba" and "limit \<le> hi"
  shows "returns (nmbm_erase_range env ba limit s) (\<lambda>s'. io_step env (in_blocks env lo hi) s s')"
  using assms
proof (induction "unat limit - unat ba" arbitrary: ba s rule: less_induct)
  case less
  show ?case
  proof (cases "ba < limit")
    case False
    then show ?thesis by (subst erase_range_step) simp
  next
    case True
    have smaller: "unat limit - unat (ba + 1) < unat limit - unat ba" and lo: "lo \<le> ba + 1"
      using True less.prems(4) by (auto simp: unat_inc unat_less unat_le)
    have here: "block_addrs env ba a \<Longrightarrow> in_blocks env lo hi a" for a
      using True less.prems by (intro block_addrs_in) auto
    have "unat ba < 16 * length (block_state s)"
      using True less.prems by (simp add: covers_def unat_less)
    from erase_one_spec [OF less.prems(1,2) this] True show ?thesis
      apply (subst erase_range_step)
      apply simp
      apply (erule returns_mono)
      subgoal for s'
        using less.hyps [OF smaller, of s'] less.prems lo
        by (auto simp: io_keeps elim!: returns_mono intro: io_step_trans io_step_mono [OF _ here])
      done
  qed
qed

section \<open>Reading and writing data ranges\<close>

lemma page_mask: "geom_ok env \<Longrightarrow> pg_size env - 1 = mask (unat (pg_shift env))"
proof -
  assume g: "geom_ok env"
  have "pg_size env = of_nat (unat (pg_size env))" by simp
  also have "\<dots> = 2 ^ unat (pg_shift env)" using g by (simp add: geom_ok_def)
  finally have "pg_size env = 2 ^ unat (pg_shift env)" .
  then show ?thesis by (simp add: mask_eq_exp_minus_1)
qed

text \<open>The offset in its page, and the bytes of a chunk.\<close>

definition page_lead :: "'d bmtd \<Rightarrow> u64 \<Rightarrow> u32" where
  "page_lead env off = ucast (off AND ucast (pg_size env - 1))"

definition page_chunk :: "'d bmtd \<Rightarrow> u64 \<Rightarrow> u32 \<Rightarrow> u32" where
  "page_chunk env off sz =
     (if pg_size env - page_lead env off > sz then sz else pg_size env - page_lead env off)"

lemma unat_page_lead:
  assumes "geom_ok env"
  shows "unat (page_lead env off) = unat off mod unat (pg_size env)"
proof -
  have e: "(ucast (mask (unat (pg_shift env)) :: u32) :: u64) = mask (unat (pg_shift env))"
    using assms by (intro bit_word_eqI) (auto simp: bit_simps geom_ok_def)
  have "unat (off AND mask (unat (pg_shift env))) = unat off mod 2 ^ unat (pg_shift env)"
    by (metis take_bit_eq_mask unsigned_take_bit_eq take_bit_eq_mod)
  moreover have "unat off mod 2 ^ unat (pg_shift env) < 2 ^ 32"
    using pg_pow_le [OF assms] by (intro less_le_trans [OF mod_less_divisor]) auto
  moreover have "unat (pg_size env) = 2 ^ unat (pg_shift env)" using assms by (simp add: geom_ok_def)
  ultimately show ?thesis unfolding page_lead_def page_mask [OF assms] e
    by (simp add: unsigned_ucast_eq take_bit_nat_eq_self)
qed

text \<open>What one iteration of the reading and writing loops computes.\<close>

lemma chunk_facts:
  fixes env :: "'d bmtd" and off sz
  defines "lead \<equiv> page_lead env off" and "chunk \<equiv> page_chunk env off sz"
  assumes "geom_ok env" and "sz \<noteq> 0"
  shows "unat lead = unat off mod unat (pg_size env)" "0 < unat chunk" "unat chunk \<le> unat sz"
    "unat lead + unat chunk \<le> unat (pg_size env)" "unat (sz - chunk) = unat sz - unat chunk"
proof -
  show l: "unat lead = unat off mod unat (pg_size env)"
    unfolding lead_def by (rule unat_page_lead [OF assms(3)])
  then have lt: "unat lead < unat (pg_size env)" using pg_size_pos [OF assms(3)] by simp
  then have sub: "unat (pg_size env - lead) = unat (pg_size env) - unat lead"
    by (intro unat_sub_le) (simp add: unat_le)
  have pos: "0 < unat sz" using assms(4) by (simp add: unat_gt_0)
  have c: "chunk = (if pg_size env - lead > sz then sz else pg_size env - lead)"
    by (simp add: chunk_def lead_def page_chunk_def)
  show 1: "0 < unat chunk" and 2: "unat chunk \<le> unat sz"
    and 3: "unat lead + unat chunk \<le> unat (pg_size env)"
    using lt sub pos by (auto simp: c unat_less)
  show "unat (sz - chunk) = unat sz - unat chunk" using 2 by (intro unat_sub_le) (simp add: unat_le)
qed

text \<open>A byte range inside block \<open>ba\<close>.\<close>

definition in_block :: "'d bmtd \<Rightarrow> u32 \<Rightarrow> u64 \<Rightarrow> nat \<Rightarrow> bool" where
  "in_block env ba off n \<longleftrightarrow>
     unat ba * unat (blk_size env) \<le> unat off \<and>
     unat off + n \<le> Suc (unat ba) * unat (blk_size env)"

lemma in_block_start:
  "geom_ok env \<Longrightarrow> n \<le> unat (blk_size env) \<Longrightarrow> in_block env ba (ba2addr env ba) n"
  by (simp add: in_block_def unat_ba2addr) (simp add: geom_ok_def)

lemma in_block_next:
  assumes "geom_ok env" and "in_block env ba off n" and "unat chunk \<le> n" 
  shows "in_block env ba (off + ucast (chunk :: u32)) (n - unat chunk)"
    and "unat (off + ucast chunk) = unat off + unat chunk"
proof -
  have "Suc (unat ba) * unat (blk_size env) \<le> 2 ^ 57"
    using block_end_bound [OF assms(1)] assms(1) by (simp add: geom_ok_def)
  then have "unat off + unat chunk < 2 ^ 64" using assms(2,3) by (simp add: in_block_def)
  then show e: "unat (off + ucast chunk) = unat off + unat chunk" by (simp add: unat_word_ariths)
  show "in_block env ba (off + ucast chunk) (n - unat chunk)"
    using assms(2,3) unfolding in_block_def e by linarith
qed

lemma in_block_page:
  assumes "geom_ok env" and "in_block env ba off n" and "0 < n"
    and "unat lead = unat off mod unat (pg_size env)"
  shows "spans (block_addrs env ba) (off - ucast (lead :: u32)) (unat (pg_size env))"
proof -
  let ?P = "unat (pg_size env)" and ?B = "unat (blk_size env)"
  have B: "?B = 2 ^ unat (blk_shift env)" using assms(1) by (simp add: geom_ok_def)
  have dvd: "?P dvd ?B"
    using assms(1) le_imp_power_dvd [of "unat (pg_shift env)" "unat (blk_shift env)" "2::nat"]
    by (simp add: geom_ok_def)
  have "(ucast lead :: u64) \<le> off" using assms(4) by (simp add: unat_le)
  then have e: "unat (off - ucast lead) = ?P * (unat off div ?P)"
    using assms(4) by (simp add: unat_sub_le minus_mod_eq_mult_div)
  obtain k where k: "unat ba * ?B = ?P * k" using dvd by (metis dvd_def dvd_mult)
  obtain m where m: "Suc (unat ba) * ?B = ?P * m" using dvd by (metis dvd_def dvd_mult)
  note pos = pg_size_pos [OF assms(1)]
  have "?P * k \<le> unat off" using assms(2) k by (simp add: in_block_def)
  then have 1: "k \<le> unat off div ?P"
    using pos by (simp add: less_eq_div_iff_mult_less_eq mult.commute)
  have "unat off < ?P * m" using assms(2,3) m unfolding in_block_def by linarith
  then have 2: "Suc (unat off div ?P) \<le> m"
    using pos by (simp add: Suc_le_eq div_less_iff_less_mult mult.commute)
  show ?thesis
  proof (rule spans_block [OF assms(1) _ _ pos])
    show "unat ba * 2 ^ unat (blk_shift env) \<le> unat (off - ucast lead)"
      using mult_le_mono2 [OF 1, of ?P] k B e by simp
    show "unat (off - ucast lead) + ?P \<le> Suc (unat ba) * 2 ^ unat (blk_shift env)"
      using mult_le_mono2 [OF 2, of ?P] m B e by simp
  qed
qed

definition read_chunk ::
  "'d bmtd \<Rightarrow> u64 \<Rightarrow> nat \<Rightarrow> u32 \<Rightarrow> u32 \<Rightarrow> u8 list \<Rightarrow> 'd nmbm \<Rightarrow>
   (int \<times> u8 list \<times> 'd nmbm) option" where
  "read_chunk env off ptr lead chunk mem s =
     (if chunk = pg_size env then do {
        (ret, dst, s) \<leftarrow> read_page_to env (off - ucast lead) (drop ptr mem) s;
        Some (ret, take ptr mem @ dst, s)
      }
      else do {
        (ret, s) \<leftarrow> read_page_cache env (off - ucast lead) s;
        if ret < 0 then Some (ret, mem, s)
        else do {
          got \<leftarrow> buf_get (page_cache s) (unat lead) (unat chunk);
          mem \<leftarrow> buf_put mem ptr got;
          Some (ret, mem, s)
        }
      })"

lemma read_data_step:
  "nmbn_read_data_loop env off ptr sz mem s =
     (if sz \<noteq> 0 then do {
        (ret, mem, s) \<leftarrow> read_chunk env off ptr (page_lead env off) (page_chunk env off sz) mem s;
        if ret < 0 then Some (ret, mem, s)
        else nmbn_read_data_loop env (off + ucast (page_chunk env off sz))
               (ptr + unat (page_chunk env off sz)) (sz - page_chunk env off sz) mem s
      }
      else Some (0, mem, s))"
  by (subst nmbn_read_data_loop.simps)
    (simp only: Let_def read_chunk_def page_chunk_def page_lead_def)

lemma chip_step_devs: "dev_steps env A (dev s) d \<Longrightarrow> chip_step env A s (s\<lparr>dev := d\<rparr>)"
  unfolding chip_step_def
  by (rule exI [of _ "page_cache s"], rule exI [of _ d]) simp

lemma read_chunk_spec:
  assumes "drv_bounded env" and "buf_ok env s" and "ptr + unat chunk \<le> length mem"
    and "unat lead + unat chunk \<le> unat (pg_size env)"
  shows "returns (read_chunk env off ptr lead chunk mem s)
    (\<lambda>(ret, mem', s'). length mem' = length mem \<and> chip_step env A s s')"
proof (cases "chunk = pg_size env")
  case True
  then have "unat (pg_size env) \<le> length (drop ptr mem)" using assms(3) by simp
  from read_page_to_spec [OF assms(1) this, where A = A, of "off - ucast lead" s] show ?thesis
    unfolding read_chunk_def if_P [OF True] returns_bind using True assms(3)
    by - (erule returns_mono, auto intro: chip_step_devs)
next
  case False
  from read_page_cache_spec [OF assms(1) buf_ok_page [OF assms(2)], where A = A, of "off - ucast lead"]
  show ?thesis
    unfolding read_chunk_def if_not_P [OF False] returns_bind
    using assms buf_ok_page [OF assms(2)]
    by - (erule returns_mono, auto simp: returns_simps chip_step_simps)
qed

lemma read_data_loop_spec:
  assumes "env_ok env" and "buf_ok env s" and "ptr + unat sz \<le> length mem"
  shows "returns (nmbn_read_data_loop env off ptr sz mem s)
    (\<lambda>(ret, mem', s'). length mem' = length mem \<and> ret \<le> 0 \<and> chip_step env A s s')"
  using assms(2,3)
proof (induction "unat sz" arbitrary: off ptr sz mem s rule: less_induct)
  case less
  note env = env_okD [OF assms(1)]
  show ?case
  proof (cases "sz = 0")
    case True
    then show ?thesis by (subst read_data_step) simp
  next
    case False
    note c = chunk_facts [OF env(1) False, of off]
    let ?chunk = "page_chunk env off sz"
    have "ptr + unat ?chunk \<le> length mem" using c less.prems by simp
    note rd = read_chunk_spec [OF env(2) less.prems(1) this c(4), where A = A]
    have ih: "returns (nmbn_read_data_loop env (off + ucast ?chunk) (ptr + unat ?chunk) (sz - ?chunk) m s1)
       (\<lambda>(ret, mem', s'). length mem' = length mem \<and> ret \<le> 0 \<and> chip_step env A s s')"
      if "length m = length mem" "chip_step env A s s1" for m s1
    proof -
      have "unat (sz - ?chunk) < unat sz" using c by simp
      from less.hyps [OF this, of s1 "ptr + unat ?chunk" m "off + ucast ?chunk"] show ?thesis
        using that less.prems c
        by (auto simp: chip_step_buf_ok elim!: returns_mono intro: chip_step_trans)
    qed
    show ?thesis using False
      by (subst read_data_step) (auto intro!: returns_mono [OF rd] ih)
  qed
qed

lemma read_data_spec:
  assumes "env_ok env" and "buf_ok env s" and "unat sz \<le> length mem"
  shows "returns (nmbn_read_data env addr mem sz s)
    (\<lambda>(ret, mem', s'). length mem' = length mem \<and> ret \<le> 0 \<and> chip_step env A s s')"
  unfolding nmbn_read_data_def by (rule read_data_loop_spec) (use assms in auto)

text \<open>Writing a page from \<open>page_cache\<close> and reading it back, as all writers do.\<close>

definition write_back ::
  "'d bmtd \<Rightarrow> u64 \<Rightarrow> u8 list \<Rightarrow> nat \<Rightarrow> 'd nmbm \<Rightarrow> (bool \<times> 'd nmbm) option" where
  "write_back env addr d at s = do {
     (success, s) \<leftarrow> nmbm_write_phys_page env addr (Some (page_cache s)) None s;
     if \<not> success then Some (False, s)
     else do {
       (ret, s) \<leftarrow> read_page_cache env addr s;
       if ret < 0 then Some (False, s)
       else do {
         got \<leftarrow> buf_get (page_cache s) at (length d);
         Some (got = d, s)
       }
     }
   }"

lemma write_back_spec:
  assumes "env_ok env" and "buf_ok env s" and "spans A addr (unat (pg_size env))" and "at + length d \<le> unat (pg_size env)"
  shows "returns (write_back env addr d at s) (\<lambda>(ok, s'). chip_step env A s s')"
proof -
  note env = env_okD [OF assms(1)]
  have "returns (nmbm_write_phys_page env addr (Some (page_cache s)) None s)
      (\<lambda>(ok, s'). chip_step env A s s')"
    by (rule write_phys_page_spec [of A, OF assms(3) buf_ok_page [OF assms(2)]])
  then show ?thesis unfolding write_back_def returns_bind
    apply (rule returns_mono)
    apply clarsimp
    subgoal for ok s1
      using read_page_cache_spec [OF env(2), of s1 addr A] buf_ok_page [of env s1] assms(2,4)
      apply (simp add: chip_step_buf_ok)
      apply (erule returns_mono)
      apply (auto simp: returns_simps chip_step_simps intro: chip_step_trans)
      done
    done
qed

lemma write_verify_step:
  "nmbn_write_verify_loop env off ptr sz data s =
     (if sz \<noteq> 0 then do {
        pc \<leftarrow> buf_put (page_cache s) 0 (replicate (unat (rawpage_size s)) 0xFF);
        d \<leftarrow> buf_get data ptr (unat (page_chunk env off sz));
        pc \<leftarrow> buf_put pc (unat (page_lead env off)) d;
        (ok, s) \<leftarrow> write_back env (off - ucast (page_lead env off)) d (unat (page_lead env off))
                    (s\<lparr>page_cache := pc\<rparr>);
        if \<not> ok then Some (False, s)
        else nmbn_write_verify_loop env (off + ucast (page_chunk env off sz))
               (ptr + unat (page_chunk env off sz)) (sz - page_chunk env off sz) data s
      }
      else Some (True, s))"
proof -
  have len: "buf_get data ptr n = Some d \<Longrightarrow> length d = n" for n d
    by (auto simp: buf_get_def split: if_splits)
  show ?thesis
    by (subst nmbn_write_verify_loop.simps)
      (auto simp: Let_def write_back_def page_chunk_def page_lead_def Option.bind_assoc len
        intro!: Option.bind_cong split: prod.splits)
qed

lemma write_verify_loop_spec:
  assumes "env_ok env" and "buf_ok env s" and "ptr + unat sz \<le> length data"
    and "in_block env ba off (unat sz)"
  shows "returns (nmbn_write_verify_loop env off ptr sz data s)
    (\<lambda>(ok, s'). chip_step env (block_addrs env ba) s s')"
  using assms(2,3,4)
proof (induction "unat sz" arbitrary: off ptr sz s rule: less_induct)
  case less
  note env = env_okD [OF assms(1)]
  show ?case
  proof (cases "sz = 0")
    case True
    then show ?thesis by (subst write_verify_step) simp
  next
    case False
    note c = chunk_facts [OF env(1) False, of off]
    let ?lead = "page_lead env off" and ?chunk = "page_chunk env off sz"
    let ?A = "block_addrs env ba"
    have A: "spans ?A (off - ucast ?lead) (unat (pg_size env))"
      using in_block_page [OF env(1) less.prems(3) _ c(1)] False by (simp add: unat_gt_0)
    have ih: "returns (nmbn_write_verify_loop env (off + ucast ?chunk) (ptr + unat ?chunk) (sz - ?chunk) data s1)
       (\<lambda>(ok, s'). chip_step env ?A s s')" if "chip_step env ?A s s1" for s1
    proof -
      have "unat (sz - ?chunk) < unat sz" using c by simp
      from less.hyps [OF this, of s1 "ptr + unat ?chunk" "off + ucast ?chunk"] show ?thesis
        using that less.prems c in_block_next [OF env(1) less.prems(3), of ?chunk]
        by (auto simp: chip_step_buf_ok elim!: returns_mono intro: chip_step_trans)
    qed
    have wb: "returns (write_back env (off - ucast ?lead) d (unat ?lead) (s\<lparr>page_cache := pc\<rparr>))
       (\<lambda>(ok, s'). chip_step env ?A s s')"
      if "length pc = length (page_cache s)" "length d = unat ?chunk" for pc d
    proof -
      have st: "chip_step env ?A s (s\<lparr>page_cache := pc\<rparr>)" using that(1) by (rule chip_step_cache)
      then have "buf_ok env (s\<lparr>page_cache := pc\<rparr>)" using less.prems(1) by (simp add: chip_step_buf_ok)
      from write_back_spec [where A = ?A, OF assms(1) this A, of "unat ?lead" d] show ?thesis
        using that c st by (auto elim!: returns_mono intro: chip_step_trans)
    qed
    obtain pc1 where pc1: "buf_put (page_cache s) 0 (replicate (unat (rawpage_size s)) 0xFF) = Some pc1"
      "length pc1 = length (page_cache s)"
      using buf_put_ok [of 0 "replicate (unat (rawpage_size s)) (0xFF :: u8)" "page_cache s"] less.prems(1)
      by (auto simp: buf_ok_def)
    obtain d where d: "buf_get data ptr (unat ?chunk) = Some d" "length d = unat ?chunk"
      using buf_get_ok [of ptr "unat ?chunk" data] less.prems(2) c by auto
    obtain pc2 where pc2: "buf_put pc1 (unat ?lead) d = Some pc2" "length pc2 = length (page_cache s)"
      using buf_put_ok [of "unat ?lead" d pc1] pc1(2) d(2) buf_ok_page [OF less.prems(1)] c(4) by auto
    show ?thesis using False
      by (subst write_verify_step)
        (auto simp: pc1 d pc2 simp del: c(1) intro!: returns_mono [OF wb [OF pc2(2) d(2)]] ih)
  qed
qed

lemma write_verify_spec:
  assumes "env_ok env" and "buf_ok env s" and "unat sz \<le> length data" and "sz \<le> blk_size env"
  shows "returns (nmbn_write_verify_data env (ba2addr env ba) data sz s)
    (\<lambda>(ok, s'). chip_step env (block_addrs env ba) s s')"
  unfolding nmbn_write_verify_data_def
  by (rule write_verify_loop_spec)
    (use assms in \<open>auto simp: unat_le intro: in_block_start env_okD\<close>)

section \<open>The range writer\<close>

lemma mgmt_block_spec:
  assumes "env_ok env" and "buf_ok env s" and "unat ba < 16 * length (block_state s)"
    and "ptr + unat chunk \<le> length data" and "chunk \<le> blk_size env"
  shows "returns (nmbm_write_mgmt_block env ba data ptr chunk s)
    (\<lambda>(ok, s'). io_step env (block_addrs env ba) s s' \<and>
       (ok \<longrightarrow> block_state s' = block_state s \<and> blk_good (block_state s) (unat ba)))"
proof (cases "blk_good (block_state s) (unat ba)")
  case False
  then show ?thesis using assms(3) by (simp add: nmbm_write_mgmt_block_def get_state_spec)
next
  case good: True
  let ?A = "block_addrs env ba"
  let ?Q = "\<lambda>(ok, s'). io_step env ?A s s' \<and> (ok \<longrightarrow> block_state s' = block_state s)"
  have fail: "returns (do { s \<leftarrow> nmbm_retire_block env ba s3; Some (False, s) }) ?Q"
    if "chip_step env ?A s s3" for s3
    using retire_spec [OF assms(1), of ba s3] that good assms(3)
    by (auto simp: chip_step_simps elim!: returns_mono intro: chip_then_io)
  have room: "unat chunk \<le> length data - ptr" using assms(4) by simp
  have ver: "returns (nmbn_write_verify_data env (ba2addr env ba) (drop ptr data) chunk s2)
      (\<lambda>(ok, s'). chip_step env ?A s s')"
    if "chip_step env ?A s s2" for s2
    using write_verify_spec [OF assms(1), of s2 chunk "drop ptr data" ba] that assms room
    by (auto simp: chip_step_buf_ok elim!: returns_mono intro: chip_step_trans)
  have wr: "returns (do {
         (success, s) \<leftarrow> nmbn_write_verify_data env (ba2addr env ba) (drop ptr data) chunk s2;
         if success then Some (True, s)
         else do { s \<leftarrow> nmbm_retire_block env ba s; Some (False, s) } }) ?Q"
    if "chip_step env ?A s s2" for s2
    apply (subst returns_bind)
    apply (rule returns_mono [OF ver [OF that]])
    apply (auto simp del: returns_bind simp: chip_step_simps intro: chip_io_step fail)
    done
  have rest: "returns (do {
         (success, s) \<leftarrow> nmbm_erase_block_and_check env ba s1;
         (success, s) \<leftarrow>
           (if success then nmbn_write_verify_data env (ba2addr env ba) (drop ptr data) chunk s
            else Some (False, s));
         if success then Some (True, s)
         else do { s \<leftarrow> nmbm_retire_block env ba s; Some (False, s) } }) ?Q"
    if st: "chip_step env ?A s s1" for s1
  proof -
    have "returns (nmbm_erase_block_and_check env ba s1) (\<lambda>(ok, s'). chip_step env ?A s s')"
      using erase_and_check_spec [OF assms(1), of s1 ba] assms(2) st
      by (auto simp: chip_step_buf_ok elim!: returns_mono intro: chip_step_trans)
    then show ?thesis unfolding returns_bind
      apply (rule returns_mono)
      apply (auto simp del: returns_bind intro!: wr fail)
      done
  qed
  have retire: "returns (do { (_, s) \<leftarrow> nmbm_set_block_state s1 ba BLOCK_ST_BAD; Some (False, s) }) ?Q"
    if "chip_step env ?A s s1" for s1
    using io_step_retire [of ba s1 env ?A] that good assms(3)
    by (auto simp: chip_step_simps elim!: returns_mono intro: chip_then_io)
  show ?thesis
    unfolding nmbm_write_mgmt_block_def get_state_spec [OF assms(3)] using good
    apply (simp del: returns_bind)
    apply (subst returns_bind)
    apply (rule returns_mono [OF check_bad_spec [where A = ?A]])
    apply (clarsimp simp del: returns_bind)
    apply (auto simp del: returns_bind intro: retire rest)
    done
qed

definition mgmt_span :: "u32 \<Rightarrow> u32 \<Rightarrow> (u32 \<times> u32) option \<Rightarrow> bool" where
  "mgmt_span ba limit r = (case r of None \<Rightarrow> True | Some (st, e) \<Rightarrow> ba \<le> st \<and> st < e \<and> e \<le> limit)"

lemma mgmt_loop_spec:
  assumes "env_ok env" and "buf_ok env s" and "covers s limit" and "lo \<le> ba" and "limit \<le> hi"
    and "ptr + unat sizeremain \<le> length data" and "lo \<le> first" and "first \<le> ba"
    and "start = None \<longleftrightarrow> sizeremain = sz" and "sz \<noteq> 0" and "sizeremain \<le> sz"
    and "\<And>st. start = Some st \<Longrightarrow> first \<le> st \<and> st < ba \<and> ba \<le> limit"
  shows "returns (nmbm_write_mgmt_loop env data sz limit ba ptr sizeremain start s)
    (\<lambda>(r, s'). io_step env (in_blocks env lo hi) s s' \<and> mgmt_span first limit r)"
  using assms(2-)
proof (induction "unat limit - unat ba" arbitrary: ba ptr sizeremain start s rule: less_induct)
  case less
  define chunk where "chunk = (if sizeremain > blk_size env then blk_size env else sizeremain)"
  show ?case
  proof (cases "sizeremain \<noteq> 0 \<and> ba < limit")
    case False
    then show ?thesis using less.prems
      by (subst nmbm_write_mgmt_loop.simps) (cases start, auto simp: mgmt_span_def)
  next
    case True
    have smaller: "unat limit - unat (ba + 1) < unat limit - unat ba"
      and ba1: "lo \<le> ba + 1" "first \<le> ba + 1" "ba + 1 \<le> limit" "ba < ba + 1"
      using True less.prems by (auto simp: unat_inc unat_less unat_le)
    have here: "block_addrs env ba a \<Longrightarrow> in_blocks env lo hi a" for a
      using True less.prems by (intro block_addrs_in) auto
    have chunk: "chunk \<le> blk_size env" "chunk \<le> sizeremain" "0 < chunk"
      using True pg_size_pos [OF env_okD(1) [OF assms(1)]] assms(1)
      by (auto simp: chunk_def unat_le unat_less env_ok_def geom_ok_def unat_gt_0)
    then have nat_chunk: "0 < unat chunk" "unat chunk \<le> unat sizeremain"
      "unat (sizeremain - chunk) = unat sizeremain - unat chunk"
      by (auto simp: unat_le unat_less unat_sub_le)
    have blk: "returns (nmbm_write_mgmt_block env ba data ptr chunk s)
      (\<lambda>(ok, s'). io_step env (block_addrs env ba) s s' \<and> (ok \<longrightarrow> block_state s' = block_state s))"
      using mgmt_block_spec [OF assms(1), of s ba ptr chunk data] less.prems True chunk nat_chunk
      by (auto simp: covers_def unat_less elim!: returns_mono)
    have ih: "returns (nmbm_write_mgmt_loop env data sz limit (ba + 1) ptr' rem' start' s1)
      (\<lambda>(r, s'). io_step env (in_blocks env lo hi) s s' \<and> mgmt_span first limit r)"
      if "io_step env (block_addrs env ba) s s1" "ptr' + unat rem' \<le> length data"
        "start' = None \<longleftrightarrow> rem' = sz" "rem' \<le> sz"
        "\<And>st. start' = Some st \<Longrightarrow> first \<le> st \<and> st < ba + 1" for ptr' rem' start' s1
    proof -
      have st: "io_step env (in_blocks env lo hi) s s1" using that(1) here by (rule io_step_mono)
      have "returns (nmbm_write_mgmt_loop env data sz limit (ba + 1) ptr' rem' start' s1)
        (\<lambda>(r, s'). io_step env (in_blocks env lo hi) s1 s' \<and> mgmt_span first limit r)"
        using less.prems that ba1 by (intro less.hyps [OF smaller]) (auto simp: io_keeps)
      then show ?thesis using st by (auto elim!: returns_mono intro: io_step_trans)
    qed
    have rem: "sizeremain - chunk < sz" "ptr + unat chunk + unat (sizeremain - chunk) \<le> length data"
      using less.prems nat_chunk by (auto simp: unat_le unat_less)
    show ?thesis
      apply (subst nmbm_write_mgmt_loop.simps)
      apply (simp only: True if_True Let_def returns_bind simp_thms flip: chunk_def)
      apply (rule returns_mono [OF blk])
      apply (clarsimp simp del: returns_bind)
      apply (intro conjI impI)
      subgoal using less.prems rem ba1(4) by (intro ih) auto
      subgoal using less.prems rem by (intro ih) (auto intro: less_trans [OF _ ba1(4)])
      subgoal using less.prems by (intro ih) (auto intro: less_trans [OF _ ba1(4)])
      subgoal using less.prems by (intro ih) (auto intro: less_trans [OF _ ba1(4)])
      done
  qed
qed

lemma write_mgmt_spec:
  assumes "env_ok env" and "buf_ok env s" and "covers s limit" and "lo \<le> ba" and "limit \<le> hi"
    and "unat sz \<le> length data" and "sz \<noteq> 0"
  shows "returns (nmbm_write_mgmt_range env ba limit data sz s)
    (\<lambda>(r, s'). io_step env (in_blocks env lo hi) s s' \<and> mgmt_span ba limit r)"
  unfolding nmbm_write_mgmt_range_def
  by (rule mgmt_loop_spec) (use assms in auto)

end
