(* ===== verification/Nmbm_Update.thy ===== *)
theory Nmbm_Update
  imports Nmbm_Table Nmbm_Steps
begin

text \<open>
  What an update of the info tables does: it has a defined result, keeps the instance
  well-formed, programs and erases only blocks between \<open>mgmt_start_ba\<close> and
  \<open>mapping_blocks_top_ba\<close>, and \<open>nmbm_update_info_table\<close>, whose loop repeats as long as an
  update itself changed block states, ends. The measure is the number of good blocks and,
  for an equal number, whether a backup table exists.
\<close>

section \<open>Well-formed instances and update steps\<close>

text \<open>
  The buffers have the sizes the geometry asks for, the tables fit the info table, and the
  block addresses of the tables lie in order between the start of the management area and
  the top of the spare blocks; 0 means that a table does not exist.
\<close>

definition cache_ok :: "'d nmbm \<Rightarrow> bool" where
  "cache_ok s \<longleftrightarrow>
     length (info_table_cache s) = unat (info_table_size s) \<and>
     INFO_TABLE_HEADER_SIZE \<le> unat (info_table_size s) \<and>
     unat (state_table_off (info_table s)) + unat (state_table_size s) \<le> unat (info_table_size s) \<and>
     unat (mapping_table_off (info_table s)) + unat (mapping_table_size s) \<le> unat (info_table_size s) \<and>
     unat (state_table_size s) \<le> 4 * length (block_state s) \<and>
     unat (mapping_table_size s) \<le> 4 * length (block_mapping s)"

definition areas_ok :: "'d nmbm \<Rightarrow> bool" where
  "areas_ok s \<longleftrightarrow>
     0 < mgmt_start_ba s \<and> mapping_blocks_top_ba s < block_count s \<and>
     mgmt_start_ba s \<le> mapping_blocks_ba s \<and> mapping_blocks_ba s \<le> mapping_blocks_top_ba s \<and>
     (main_table_ba s = 0 \<or> mgmt_start_ba s \<le> main_table_ba s \<and> main_table_ba s \<le> mapping_blocks_top_ba s) \<and>
     (backup_table_ba s = 0 \<or> mgmt_start_ba s \<le> backup_table_ba s \<and> backup_table_ba s \<le> mapping_blocks_top_ba s)"

definition tables_ok :: "'d bmtd \<Rightarrow> 'd nmbm \<Rightarrow> bool" where
  "tables_ok env s \<longleftrightarrow> buf_ok env s \<and> cache_ok s \<and> areas_ok s \<and> covers s (block_count s) \<and>
     unat (info_table_spare_blocks s) < 2147483648"

text \<open>What an update leaves alone, and the blocks it may modify.\<close>

definition same_map :: "'d nmbm \<Rightarrow> 'd nmbm \<Rightarrow> bool" where
  "same_map s s' \<longleftrightarrow>
     block_mapping s' = block_mapping s \<and> mapping_blocks_top_ba s' = mapping_blocks_top_ba s \<and>
     mgmt_start_ba s' = mgmt_start_ba s \<and> data_block_count s' = data_block_count s \<and>
     block_count s' = block_count s \<and> signature s' = signature s \<and>
     signature_ba s' = signature_ba s"

definition upd_step :: "'d bmtd \<Rightarrow> 'd nmbm \<Rightarrow> 'd nmbm \<Rightarrow> bool" where
  "upd_step env s s' \<longleftrightarrow> tables_ok env s' \<and> same_map s s' \<and>
     dev_steps env (in_blocks env (mgmt_start_ba s) (mapping_blocks_top_ba s)) (dev s) (dev s') \<and>
     retired (block_state s) (block_state s')"

definition tables_clean :: "'d nmbm \<Rightarrow> bool" where
  "tables_clean s \<longleftrightarrow> block_state_changed s = 0 \<and> block_mapping_changed s = 0"

definition fewer_good :: "'d nmbm \<Rightarrow> 'd nmbm \<Rightarrow> bool" where
  "fewer_good s s' \<longleftrightarrow> good_count (block_state s') < good_count (block_state s)"

lemma retired_good_count: "retired bs bs' \<Longrightarrow> good_count bs' \<le> good_count bs"
  unfolding good_count_def
  by (rule card_mono) (auto simp: retired_def)

lemma io_step_fields:
  assumes "io_step env A s s'"
  shows "mgmt_start_ba s' = mgmt_start_ba s" "mapping_blocks_top_ba s' = mapping_blocks_top_ba s"
    "main_table_ba s' = main_table_ba s" "backup_table_ba s' = backup_table_ba s"
    "mapping_blocks_ba s' = mapping_blocks_ba s" "info_table_spare_blocks s' = info_table_spare_blocks s"
    "info_table_size s' = info_table_size s" "block_mapping_changed s' = block_mapping_changed s"
  using assms by (auto simp: io_step_def)

lemma io_step_tables_ok: "io_step env A s s' \<Longrightarrow> tables_ok env s \<Longrightarrow> tables_ok env s'"
  unfolding io_step_def tables_ok_def cache_ok_def areas_ok_def buf_ok_def covers_def retired_def
  by auto

lemma upd_refl: "tables_ok env s \<Longrightarrow> upd_step env s s"
  by (simp add: upd_step_def same_map_def steps_refl)

lemma upd_trans: "upd_step env s s' \<Longrightarrow> upd_step env s' s'' \<Longrightarrow> upd_step env s s''"
  by (auto simp: upd_step_def same_map_def intro: retired_trans dev_steps_trans)

lemma upd_tables_ok: "upd_step env s s' \<Longrightarrow> tables_ok env s'"
  by (simp add: upd_step_def)

lemma upd_same: "upd_step env s s' \<Longrightarrow> mgmt_start_ba s' = mgmt_start_ba s"
  "upd_step env s s' \<Longrightarrow> mapping_blocks_top_ba s' = mapping_blocks_top_ba s"
  by (simp_all add: upd_step_def same_map_def)

lemma upd_io:
  assumes "upd_step env s s1"
    and "io_step env (in_blocks env (mgmt_start_ba s) (mapping_blocks_top_ba s)) s1 s2"
  shows "upd_step env s s2"
proof -
  have "tables_ok env s2" using assms by (auto simp: upd_step_def intro: io_step_tables_ok)
  moreover have "same_map s s2" using assms by (auto simp: upd_step_def io_step_def same_map_def)
  moreover have "dev_steps env (in_blocks env (mgmt_start_ba s) (mapping_blocks_top_ba s)) (dev s) (dev s2)"
    using assms by (auto simp: upd_step_def io_step_def intro: dev_steps_trans)
  moreover have "retired (block_state s) (block_state s2)"
    using assms by (auto simp: upd_step_def io_step_def intro: retired_trans)
  ultimately show ?thesis by (simp add: upd_step_def)
qed

text \<open>Moving the table addresses within the area.\<close>

abbreviation in_area :: "'d nmbm \<Rightarrow> u32 \<Rightarrow> bool" where
  "in_area s ba \<equiv> mgmt_start_ba s \<le> ba \<and> ba \<le> mapping_blocks_top_ba s"

lemma upd_main: "upd_step env s s1 \<Longrightarrow> x = 0 \<or> in_area s x \<Longrightarrow> upd_step env s (s1\<lparr>main_table_ba := x\<rparr>)"
  by (auto simp: upd_step_def tables_ok_def cache_ok_def areas_ok_def buf_ok_def covers_def same_map_def)

lemma upd_backup: "upd_step env s s1 \<Longrightarrow> x = 0 \<or> in_area s x \<Longrightarrow> upd_step env s (s1\<lparr>backup_table_ba := x\<rparr>)"
  by (auto simp: upd_step_def tables_ok_def cache_ok_def areas_ok_def buf_ok_def covers_def same_map_def)

lemma upd_mapping: "upd_step env s s1 \<Longrightarrow> in_area s x \<Longrightarrow> upd_step env s (s1\<lparr>mapping_blocks_ba := x\<rparr>)"
  by (auto simp: upd_step_def tables_ok_def cache_ok_def areas_ok_def buf_ok_def covers_def same_map_def)

lemma upd_protect: "upd_step env s s1 \<Longrightarrow> upd_step env s (s1\<lparr>protected := True\<rparr>)"
  by (auto simp: upd_step_def tables_ok_def cache_ok_def areas_ok_def buf_ok_def covers_def same_map_def)

lemma upd_clean: "upd_step env s s1 \<Longrightarrow> upd_step env s (nmbm_mark_tables_clean s1)"
  by (auto simp: upd_step_def tables_ok_def cache_ok_def areas_ok_def buf_ok_def covers_def same_map_def
      nmbm_mark_tables_clean_def)

lemmas upd_sets = upd_main upd_backup upd_mapping upd_protect upd_clean

lemma mark_clean_clean: "tables_clean (nmbm_mark_tables_clean s)"
  by (simp add: tables_clean_def nmbm_mark_tables_clean_def)

lemma mark_clean_fields [simp]:
  "main_table_ba (nmbm_mark_tables_clean s) = main_table_ba s"
  "backup_table_ba (nmbm_mark_tables_clean s) = backup_table_ba s"
  "mapping_blocks_ba (nmbm_mark_tables_clean s) = mapping_blocks_ba s"
  "mgmt_start_ba (nmbm_mark_tables_clean s) = mgmt_start_ba s"
  "mapping_blocks_top_ba (nmbm_mark_tables_clean s) = mapping_blocks_top_ba s"
  "block_state (nmbm_mark_tables_clean s) = block_state s"
  by (simp_all add: nmbm_mark_tables_clean_def)

text \<open>Once clean, an instance stays clean or loses a good block.\<close>

definition settled :: "'d nmbm \<Rightarrow> 'd nmbm \<Rightarrow> bool" where
  "settled s s' \<longleftrightarrow> tables_clean s' \<or> fewer_good s s'"

lemma settled_io: "settled s s1 \<Longrightarrow> io_step env A s1 s2 \<Longrightarrow> settled s s2"
  if "good_count (block_state s1) \<le> good_count (block_state s)"
  using that by (auto simp: settled_def tables_clean_def fewer_good_def io_step_def)

lemma upd_settled_io: "upd_step env s s1 \<Longrightarrow> settled s s1 \<Longrightarrow> io_step env A s1 s2 \<Longrightarrow> settled s s2"
  by (erule settled_io [rotated]) (auto simp: upd_step_def intro: retired_good_count)

lemma settled_clean: "settled s (nmbm_mark_tables_clean s1)"
  by (simp add: settled_def mark_clean_clean)

lemma settled_set [simp]:
  "settled s (s1\<lparr>main_table_ba := x\<rparr>) = settled s s1"
  "settled s (s1\<lparr>backup_table_ba := x\<rparr>) = settled s s1"
  "settled s (s1\<lparr>mapping_blocks_ba := x\<rparr>) = settled s s1"
  "settled s (s1\<lparr>protected := b\<rparr>) = settled s s1"
  by (simp_all add: settled_def tables_clean_def fewer_good_def)

section \<open>The steps of an update\<close>

lemma write_info_spec:
  assumes "env_ok env" and "upd_step env s s1" and "mgmt_start_ba s \<le> ba"
    and "limit \<le> mapping_blocks_top_ba s"
  shows "returns (nmbm_write_info_table env ba limit s1)
    (\<lambda>(r, s'). upd_step env s s' \<and> mgmt_span ba limit r \<and>
       io_step env (in_blocks env (mgmt_start_ba s) (mapping_blocks_top_ba s)) s1 s')"
proof -
  have ok: "tables_ok env s1" and same: "same_map s s1" using assms(2) by (auto simp: upd_step_def)
  have "returns (nmbm_write_info_table env ba limit s1)
    (\<lambda>(r, s'). io_step env (in_blocks env (mgmt_start_ba s) (mapping_blocks_top_ba s)) s1 s' \<and>
       mgmt_span ba limit r)"
    unfolding nmbm_write_info_table_def
    by (rule write_mgmt_spec)
      (use assms ok same in \<open>auto simp: tables_ok_def cache_ok_def areas_ok_def covers_def same_map_def
          unat_le unat_less simp flip: unat_0_iff\<close>)
  then show ?thesis by (auto elim!: returns_mono intro: upd_io [OF assms(2)])
qed

lemma erase_info_spec:
  assumes "env_ok env" and "upd_step env s s1" and "mgmt_start_ba s \<le> ba"
    and "limit \<le> mapping_blocks_top_ba s"
  shows "returns (nmbm_erase_range env ba limit s1)
    (\<lambda>s'. upd_step env s s' \<and>
       io_step env (in_blocks env (mgmt_start_ba s) (mapping_blocks_top_ba s)) s1 s')"
proof -
  have ok: "tables_ok env s1" and same: "same_map s s1" using assms(2) by (auto simp: upd_step_def)
  have "returns (nmbm_erase_range env ba limit s1)
    (\<lambda>s'. io_step env (in_blocks env (mgmt_start_ba s) (mapping_blocks_top_ba s)) s1 s')"
    by (rule erase_range_spec)
      (use assms ok same in \<open>auto simp: tables_ok_def areas_ok_def covers_def same_map_def unat_le unat_less\<close>)
  then show ?thesis by (auto elim!: returns_mono intro: upd_io [OF assms(2)])
qed

lemma walk_asc_spec:
  assumes "covers s (block_count s)" and "0 < block_count s" and "unat cnt < 2147483648"
  shows "returns (nmbm_block_walk s True ba cnt limit)
    (\<lambda>r. case r of None \<Rightarrow> True | Some nba \<Rightarrow> ba \<le> nba \<and> nba < block_count s)"
proof -
  define lim where "lim = (if limit \<ge> block_count s then block_count s - 1 else limit)"
  have lim: "lim < block_count s"
    using assms(2) unat_minus_one [of "block_count s"] by (cases "limit \<ge> block_count s") (auto simp: lim_def unat_less unat_gt_0 not_le)
  then have le: "unat lim \<le> 16 * length (block_state s)"
    using assms(1) by (simp add: covers_def unat_less)
  let ?gs = "filter (blk_good (block_state s)) [unat ba..<unat lim]"
  have eq: "nmbm_block_walk s True ba cnt limit =
     Some (if unat cnt < length ?gs then Some (of_nat (?gs ! unat cnt)) else None)"
    using walk_asc_loop_eq [OF le assms(3), of ba]
    by (simp add: nmbm_block_walk_def nmbm_block_walk_asc_def Let_def lim_def)
  show ?thesis
  proof (cases "unat cnt < length ?gs")
    case False
    then show ?thesis by (simp add: eq)
  next
    case True
    then have "?gs ! unat cnt \<in> set ?gs" by (rule nth_mem)
    then have m: "unat ba \<le> ?gs ! unat cnt" "?gs ! unat cnt < unat lim" by auto
    then have "unat (of_nat (?gs ! unat cnt) :: u32) = ?gs ! unat cnt"
      using unat32_bound [of lim] by (simp add: unat_of_nat32)
    then show ?thesis using True m lim by (simp add: eq unat_le unat_less)
  qed
qed

lemma sint_bounds: "sint (w :: u32) < 2147483648"
  using sint_lt [of w] by simp

lemma reserve_loop_spec:
  assumes "covers s (block_count s)" and "0 < block_count s" and "n < 2147483648"
  shows "returns (nmbm_try_reserve_loop s ba n 0 limit)
    (\<lambda>r. case r of None \<Rightarrow> True | Some nba \<Rightarrow> ba \<le> nba)"
  using assms(3)
proof (induction "nat (n + 1)" arbitrary: n rule: less_induct)
  case less
  show ?case
  proof (cases "n \<ge> 0")
    case False
    then show ?thesis by (subst nmbm_try_reserve_loop.simps) simp
  next
    case True
    have "uint (word_of_int n :: u32) = n"
      using True less.prems by (simp add: uint_word_of_int)
    then have "unat (word_of_int n :: u32) < 2147483648"
      using less.prems by (simp add: unat_eq_nat_uint)
    note walk = walk_asc_spec [OF assms(1,2) this, of ba limit]
    have "returns (nmbm_try_reserve_loop s ba (n - 1) 0 limit)
       (\<lambda>r. case r of None \<Rightarrow> True | Some nba \<Rightarrow> ba \<le> nba)"
      using less.hyps [of "n - 1"] less.prems True by simp
    then show ?thesis using True
      by (subst nmbm_try_reserve_loop.simps)
        (auto intro!: returns_mono [OF walk] split: option.splits)
  qed
qed

lemma reserve_spec:
  assumes "tables_ok env s"
  shows "returns (nmbm_reserve_after env ba s) (\<lambda>r. case r of None \<Rightarrow> True | Some nba \<Rightarrow> ba \<le> nba)"
  unfolding nmbm_reserve_after_def nmbm_try_reserve_blocks_def
  by (rule reserve_loop_spec)
    (use assms sint_bounds in \<open>auto simp: tables_ok_def areas_ok_def intro: le_less_trans\<close>)

lemma mgmt_span_mono: "mgmt_span w l r \<Longrightarrow> lo \<le> w \<Longrightarrow> mgmt_span lo l r"
  by (auto simp: mgmt_span_def split: option.splits)

lemma mgmt_span_None [simp]: "mgmt_span w l None"
  by (simp add: mgmt_span_def)

lemma write_down_spec:
  assumes "env_ok env" and "upd_step env s s1" and "mgmt_start_ba s \<le> lowest" and "lowest \<le> w"
  shows "returns (nmbm_write_down env w lowest s1)
    (\<lambda>(r, s'). upd_step env s s' \<and> mgmt_span lowest (mapping_blocks_top_ba s) r \<and>
       io_step env (in_blocks env (mgmt_start_ba s) (mapping_blocks_top_ba s)) s1 s')"
proof -
  let ?A = "in_blocks env (mgmt_start_ba s) (mapping_blocks_top_ba s)"
  have pos: "0 < lowest"
    using upd_tables_ok [OF assms(2)] upd_same [OF assms(2)] assms(3)
    by (auto simp: tables_ok_def areas_ok_def)
  have loop: "returns (nmbm_write_down_loop env w lowest s1)
    (\<lambda>(r, s'). upd_step env s s' \<and> mgmt_span lowest (mapping_blocks_top_ba s) r \<and> io_step env ?A s1 s')"
    using assms(2)
  proof (induction "unat w" arbitrary: w s1 rule: less_induct)
    case less
    show ?case
    proof (cases "w \<ge> lowest")
      case False
      then show ?thesis using less.prems
        by (subst nmbm_write_down_loop.simps) (simp add: mgmt_span_def)
    next
      case True
      have same: "mapping_blocks_top_ba s1 = mapping_blocks_top_ba s"
        by (rule upd_same [OF less.prems])
      have "w \<noteq> 0" using True pos by auto
      then have w: "unat (w - 1) < unat w" by (simp add: unat_minus_one unat_gt_0)
      have le: "mgmt_start_ba s \<le> w" using True assms(3) by simp
      have ih: "returns (nmbm_write_down_loop env (w - 1) lowest s2)
        (\<lambda>(r, s'). upd_step env s s' \<and> mgmt_span lowest (mapping_blocks_top_ba s) r \<and> io_step env ?A s1 s')"
        if "upd_step env s s2" "io_step env ?A s1 s2" for s2
        using less.hyps [OF w that(1)] that(2) by (auto elim!: returns_mono intro: io_step_trans)
      show ?thesis using True
        apply (subst nmbm_write_down_loop.simps)
        apply (simp add: same)
        apply (rule returns_mono [OF write_info_spec [OF assms(1) less.prems le order_refl]])
        apply clarsimp
        subgoal for r s2
          using True by (cases r) (auto intro: ih mgmt_span_mono)
        done
    qed
  qed
  show ?thesis unfolding nmbm_write_down_def using assms(4) loop by (simp add: not_less)
qed

lemma length_info_table_bytes [simp]: "length (info_table_bytes t) = 32"
  by (simp add: info_table_bytes_def header_bytes_def)

lemma length_header_bytes [simp]: "length (header_bytes h) = 16"
  by (simp add: header_bytes_def)

lemma header_of_bytes [simp]: "header_of (header_bytes h @ xs) = h"
  by (simp add: header_of_def header_bytes_def)

lemma update_checksum_spec:
  assumes "16 \<le> length data" and "unat (h_size (header_of (take 16 data))) \<le> length data"
  shows "returns (nmbm_update_checksum env data) (\<lambda>data'. length data' = length data)"
  using assms unfolding nmbm_update_checksum_def Let_def
  by (simp add: returns_simps)

lemma take16_info_table: "take 16 (info_table_bytes t) = header_bytes (it_header t)"
  by (simp add: info_table_bytes_def)

lemma header_of_bytes' [simp]: "header_of (header_bytes h) = h"
  using header_of_bytes [of h "[]"] by simp

lemma generate_spec:
  assumes "tables_ok env s"
  shows "returns (nmbm_generate_info_table_cache env s)
    (\<lambda>(changed, s'). changed = (\<not> tables_clean s) \<and> upd_step env s s' \<and>
       (\<exists>it cache. s' = s\<lparr>info_table := it, info_table_cache := cache\<rparr>))"
proof -
  have c: "cache_ok s" using assms by (simp add: tables_ok_def)
  let ?n = "unat (info_table_size s)"
  obtain c1 where c1: "buf_put (info_table_cache s) 0 (replicate ?n 0xFF) = Some c1" "length c1 = ?n"
    using buf_put_ok [of 0 "replicate ?n (0xFF :: u8)" "info_table_cache s"] c by (auto simp: cache_ok_def)
  obtain st where st: "buf_get (words_bytes (block_state s)) 0 (unat (state_table_size s)) = Some st"
    "length st = unat (state_table_size s)"
    using buf_get_ok [of 0 "unat (state_table_size s)" "words_bytes (block_state s)"] c
    by (auto simp: cache_ok_def)
  obtain c2 where c2: "buf_put c1 (unat (state_table_off (info_table s))) st = Some c2" "length c2 = ?n"
    using buf_put_ok [of "unat (state_table_off (info_table s))" st c1] c c1 st by (auto simp: cache_ok_def)
  obtain mp where mp: "buf_get (words_bytes (block_mapping s)) 0 (unat (mapping_table_size s)) = Some mp"
    "length mp = unat (mapping_table_size s)"
    using buf_get_ok [of 0 "unat (mapping_table_size s)" "words_bytes (block_mapping s)"] c
    by (auto simp: cache_ok_def)
  obtain c3 where c3: "buf_put c2 (unat (mapping_table_off (info_table s))) mp = Some c3" "length c3 = ?n"
    using buf_put_ok [of "unat (mapping_table_off (info_table s))" mp c2] c c2 mp by (auto simp: cache_ok_def)
  define it0 where "it0 = (info_table s)\<lparr>it_header := (it_header (info_table s))
     \<lparr>h_magic := NMBM_MAGIC_INFO_TABLE, h_version := NMBM_VER, h_size := info_table_size s\<rparr>\<rparr>"
  define it where "it = (if block_state_changed s \<noteq> 0 \<or> block_mapping_changed s \<noteq> 0
     then it0\<lparr>write_count := write_count it0 + 1\<rparr> else it0)"
  have it: "h_size (it_header it) = info_table_size s"
    "state_table_off it = state_table_off (info_table s)"
    "mapping_table_off it = mapping_table_off (info_table s)"
    by (simp_all add: it_def it0_def)
  obtain c4 where c4: "buf_put c3 0 (info_table_bytes it) = Some c4" "length c4 = ?n"
    "take 16 c4 = header_bytes (it_header it)"
    using c3(2) c by (auto simp: buf_put_def cache_ok_def take16_info_table)
  obtain c5 where c5: "nmbm_update_checksum env c4 = Some c5" "length c5 = ?n"
    using update_checksum_spec [of c4 env] c4 c it
    by (auto simp: returns_eq cache_ok_def)
  have run: "nmbm_generate_info_table_cache env s =
     Some (\<not> tables_clean s, s\<lparr>info_table := it, info_table_cache := c5\<rparr>)"
    unfolding nmbm_generate_info_table_cache_def
    using c1 st c2 mp c3 c4 c5
    by (simp add: Let_def flip: it0_def) (auto simp: it_def tables_clean_def)
  have "tables_ok env (s\<lparr>info_table := it, info_table_cache := c5\<rparr>)"
    using assms c5(2) it
    by (simp add: tables_ok_def cache_ok_def areas_ok_def buf_ok_def covers_def)
  then have "upd_step env s (s\<lparr>info_table := it, info_table_cache := c5\<rparr>)"
    by (simp add: upd_step_def same_map_def steps_refl)
  then show ?thesis unfolding run by auto
qed

section \<open>Rules for runs\<close>

abbreviation upd_area :: "'d bmtd \<Rightarrow> 'd nmbm \<Rightarrow> u64 \<Rightarrow> bool" where
  "upd_area env s \<equiv> in_blocks env (mgmt_start_ba s) (mapping_blocks_top_ba s)"

lemma upd_in_area: "upd_step env s s1 \<Longrightarrow> in_area s (mapping_blocks_ba s1)"
  "upd_step env s s1 \<Longrightarrow> in_area s (mapping_blocks_top_ba s)"
  "upd_step env s s1 \<Longrightarrow> main_table_ba s1 = 0 \<or> in_area s (main_table_ba s1)"
  "upd_step env s s1 \<Longrightarrow> backup_table_ba s1 = 0 \<or> in_area s (backup_table_ba s1)"
  "upd_step env s s1 \<Longrightarrow> 0 < mgmt_start_ba s"
  by (auto simp: upd_step_def tables_ok_def areas_ok_def same_map_def)

text \<open>What a later step needs to know of an earlier one.\<close>

definition after :: "'d nmbm \<Rightarrow> 'd nmbm \<Rightarrow> 'd nmbm \<Rightarrow> bool" where
  "after s s1 s2 \<longleftrightarrow> (settled s s1 \<longrightarrow> settled s s2) \<and>
     main_table_ba s2 = main_table_ba s1 \<and> backup_table_ba s2 = backup_table_ba s1 \<and>
     mapping_blocks_ba s2 = mapping_blocks_ba s1"

lemma after_io: "upd_step env s s1 \<Longrightarrow> io_step env A s1 s2 \<Longrightarrow> after s s1 s2"
  by (auto simp: after_def io_step_fields intro: upd_settled_io)

lemma after_simps:
  "after s s1 s2 \<Longrightarrow> main_table_ba s2 = main_table_ba s1"
  "after s s1 s2 \<Longrightarrow> backup_table_ba s2 = backup_table_ba s1"
  "after s s1 s2 \<Longrightarrow> mapping_blocks_ba s2 = mapping_blocks_ba s1"
  "after s s1 s2 \<Longrightarrow> settled s s1 \<Longrightarrow> settled s s2"
  by (simp_all add: after_def)

lemma write_info_bind:
  assumes "env_ok env" and "upd_step env s s1" and "mgmt_start_ba s \<le> ba"
    and "limit \<le> mapping_blocks_top_ba s"
    and "\<And>s2. upd_step env s s2 \<Longrightarrow> after s s1 s2 \<Longrightarrow> returns (f None s2) Q"
    and "\<And>st e s2. upd_step env s s2 \<Longrightarrow> after s s1 s2 \<Longrightarrow>
           in_area s st \<Longrightarrow> in_area s e \<Longrightarrow> ba \<le> st \<Longrightarrow> st < e \<Longrightarrow> e \<le> limit \<Longrightarrow>
           returns (f (Some (st, e)) s2) Q"
  shows "returns (nmbm_write_info_table env ba limit s1 \<bind> (\<lambda>(r, s). f r s)) Q"
  unfolding returns_bind
  apply (rule returns_mono [OF write_info_spec [OF assms(1-4)]])
  apply (clarsimp dest!: after_io [OF assms(2)])
  subgoal for r s2
    using assms(3,4) by (cases r) (auto simp: mgmt_span_def intro!: assms(5,6))
  done

lemma write_down_bind:
  assumes "env_ok env" and "upd_step env s s1" and "mgmt_start_ba s \<le> lowest" and "lowest \<le> w"
    and "\<And>s2. upd_step env s s2 \<Longrightarrow> after s s1 s2 \<Longrightarrow> returns (f None s2) Q"
    and "\<And>st e s2. upd_step env s s2 \<Longrightarrow> after s s1 s2 \<Longrightarrow>
           in_area s st \<Longrightarrow> in_area s e \<Longrightarrow> lowest \<le> st \<Longrightarrow> st < e \<Longrightarrow>
           returns (f (Some (st, e)) s2) Q"
  shows "returns (nmbm_write_down env w lowest s1 \<bind> (\<lambda>(r, s). f r s)) Q"
  unfolding returns_bind
  apply (rule returns_mono [OF write_down_spec [OF assms(1-4)]])
  apply (clarsimp dest!: after_io [OF assms(2)])
  subgoal for r s2
    using assms(3,4) by (cases r) (auto simp: mgmt_span_def intro!: assms(5,6))
  done

lemma erase_bind:
  assumes "env_ok env" and "upd_step env s s1" and "mgmt_start_ba s \<le> ba"
    and "limit \<le> mapping_blocks_top_ba s"
    and "\<And>s2. upd_step env s s2 \<Longrightarrow> after s s1 s2 \<Longrightarrow> returns (f s2) Q"
  shows "returns (nmbm_erase_range env ba limit s1 \<bind> f) Q"
  unfolding returns_bind
  by (rule returns_mono [OF erase_info_spec [OF assms(1-4)]]) (auto intro: assms(5) after_io [OF assms(2)])

lemma reserve_bind:
  assumes "upd_step env s s1"
    and "returns (f None) Q" and "\<And>n. ba \<le> n \<Longrightarrow> returns (f (Some n)) Q"
  shows "returns (nmbm_reserve_after env ba s1 \<bind> f) Q"
  unfolding returns_bind
  apply (rule returns_mono [OF reserve_spec [OF upd_tables_ok [OF assms(1)]]])
  subgoal for r using assms(2,3) by (cases r) auto
  done


lemmas run_simps = upd_sets upd_same upd_in_area settled_clean

section \<open>The procedures\<close>

lemma rebuild_spec:
  assumes "env_ok env" and "upd_step env s s1"
  shows "returns (nmbm_rebuild_info_table env s1)
    (\<lambda>(ok, s'). upd_step env s s' \<and> (ok \<longrightarrow> settled s s'))"
  unfolding nmbm_rebuild_info_table_def Let_def
  apply (rule write_info_bind [where s = s, OF assms(1)])
  using assms(2) upd_in_area [OF assms(2)]
  apply (simp_all add: run_simps del: returns_bind)
  subgoal for st e s2
    apply (rule reserve_bind [where s = s and env = env])
    apply (simp_all add: run_simps del: returns_bind)
    subgoal for n
      apply (rule write_info_bind [where s = s, OF assms(1)])
      apply (simp_all add: run_simps after_def del: returns_bind)
      subgoal by auto
      subgoal for st' e' s3
        by (rule erase_bind [where s = s, OF assms(1)]) (simp_all add: run_simps after_simps)
      done
    done
  done

lemma rescue_single_spec:
  assumes "env_ok env" and "upd_step env s s1" and "main_table_ba s1 \<noteq> 0"
  shows "returns (nmbm_rescue_single_info_table env s1)
    (\<lambda>(ok, s'). upd_step env s s' \<and> (ok \<longrightarrow> settled s s'))"
  unfolding nmbm_rescue_single_info_table_def Let_def
  apply (rule write_info_bind [where s = s, OF assms(1)])
  using assms(2,3) upd_in_area [OF assms(2)]
  apply (simp_all add: run_simps del: returns_bind)
  subgoal for s2
    apply (rule reserve_bind [where s = s and env = env])
    apply (simp_all add: run_simps del: returns_bind)
    subgoal for n
      apply (rule write_down_bind [where s = s, OF assms(1)])
      apply (simp_all add: run_simps after_def del: returns_bind)
      subgoal for st e s3
        by (rule erase_bind [where s = s, OF assms(1)]) (simp_all add: run_simps after_simps)
      done
    done
  subgoal for st e s2
    by (rule erase_bind [where s = s, OF assms(1)]) (simp_all add: run_simps after_simps)
  done

lemma update_single_spec:
  assumes "env_ok env" and "upd_step env s s1" and "main_table_ba s1 \<noteq> 0" and "backup_table_ba s1 \<noteq> 0"
  shows "returns (nmbm_update_single_info_table env b s1)
    (\<lambda>(ok, s'). upd_step env s s' \<and> (ok \<longrightarrow> settled s s'))"
  unfolding nmbm_update_single_info_table_def Let_def
  apply (rule write_info_bind [where s = s, OF assms(1)])
  using assms(2-) upd_in_area [OF assms(2)]
  apply (simp_all add: run_simps del: returns_bind)
  subgoal for s2
    by (auto simp: run_simps after_simps intro!: rescue_single_spec [OF assms(1)])
  done

lemma rescue_new_backup_spec:
  assumes "env_ok env" and "upd_step env s s1" and "in_area s e" and "settled s s1"
  shows "returns (nmbm_rescue_new_backup env e s1) (\<lambda>(ok, s'). upd_step env s s' \<and> settled s s')"
  unfolding nmbm_rescue_new_backup_def Let_def
  apply (rule reserve_bind [where s = s and env = env])
  using assms(2-) upd_in_area [OF assms(2)]
  apply (simp_all add: run_simps del: returns_bind)
  subgoal for n
    apply (rule write_down_bind [where s = s, OF assms(1)])
    apply (simp_all add: run_simps after_def del: returns_bind)
    subgoal for st e' s3
      by (rule erase_bind [where s = s, OF assms(1)]) (simp_all add: run_simps after_simps)
    done
  done

lemma rescue_main_spec:
  assumes "env_ok env" and "upd_step env s s1" and "backup_table_ba s1 \<noteq> 0"
  shows "returns (nmbm_rescue_main_info_table env s1)
    (\<lambda>(ok, s'). upd_step env s s' \<and> (settled s s' \<or> backup_table_ba s' = 0))"
  unfolding nmbm_rescue_main_info_table_def Let_def
  apply (rule reserve_bind [where s = s and env = env])
  using assms(2-) upd_in_area [OF assms(2)]
  apply (simp_all add: run_simps del: returns_bind)
  subgoal for n
    apply (rule write_down_bind [where s = s, OF assms(1)])
    apply (simp_all add: run_simps after_simps del: returns_bind)
    subgoal for st e s2
      apply (rule write_info_bind [where s = s, OF assms(1)])
      apply (simp_all add: run_simps after_def del: returns_bind)
      done
    done
  done


text \<open>
  One update. After it the tables are clean, or a good block was lost, or a backup table that
  existed has been given up.
\<close>

definition moved_on :: "'d nmbm \<Rightarrow> 'd nmbm \<Rightarrow> bool" where
  "moved_on s s' \<longleftrightarrow> settled s s' \<or> backup_table_ba s \<noteq> 0 \<and> backup_table_ba s' = 0"

lemma update_main_spec:
  assumes "env_ok env" and "upd_step env s s1" and "limit \<le> mapping_blocks_top_ba s"
  shows "returns (nmbm_update_main_table env limit s1)
    (\<lambda>(ok, s'). upd_step env s s' \<and> (ok \<longrightarrow> settled s s' \<or> backup_table_ba s1 \<noteq> 0 \<and> backup_table_ba s' = 0))"
proof (cases "main_table_ba s1 = 0")
  case True
  then show ?thesis
    by (auto simp: nmbm_update_main_table_def intro!: returns_mono [OF rebuild_spec [OF assms(1,2)]])
next
  case False
  then show ?thesis
    unfolding nmbm_update_main_table_def Let_def if_not_P [OF False]
    apply (intro write_info_bind [where s = s, OF assms(1)])
    using assms(2,3) upd_in_area [OF assms(2)]
    apply (simp_all add: run_simps del: returns_bind)
    subgoal for s2
      by (auto simp: run_simps after_simps intro!: returns_mono [OF rebuild_spec [OF assms(1)]]
          returns_mono [OF rescue_main_spec [OF assms(1)]])
    done
qed

lemma update_once_spec:
  assumes "env_ok env" and "tables_ok env s" and "\<not> tables_clean s"
  shows "returns (nmbm_update_info_table_once env force s)
    (\<lambda>(ok, s'). upd_step env s s' \<and> (ok \<longrightarrow> moved_on s s'))"
  unfolding nmbm_update_info_table_once_def returns_bind
  apply (rule returns_mono [OF generate_spec [OF assms(2)]])
  apply (clarsimp simp del: returns_bind simp: assms(3))
  subgoal for it cache
    apply (intro conjI impI)
    subgoal
      by (rule returns_mono [OF update_main_spec [OF assms(1), of s]]) (auto simp: moved_on_def upd_in_area)
    subgoal
      apply (intro write_info_bind [where s = s, OF assms(1)])
      using upd_in_area [OF upd_refl [OF assms(2)]]
      apply (simp_all add: run_simps del: returns_bind)
      subgoal for s2
        by (rule returns_mono [OF update_main_spec [OF assms(1), of s]])
          (auto simp: run_simps moved_on_def after_simps)
      subgoal for st e s2
        by (rule returns_mono [OF update_main_spec [OF assms(1), of s]])
          (auto simp: run_simps moved_on_def after_simps)
      done
    done
  done

lemma update_loop_clean: "tables_clean s \<Longrightarrow> nmbm_update_loop env s = Some (True, s)"
  by (subst nmbm_update_loop.simps) (simp add: tables_clean_def)

lemma update_loop_spec:
  assumes "env_ok env" and "tables_ok env s"
  shows "returns (nmbm_update_loop env s)
    (\<lambda>(ok, s'). upd_step env s s' \<and> (ok \<longrightarrow> tables_clean s'))"
  using assms(2)
proof (induction "2 * good_count (block_state s) + (if backup_table_ba s = 0 then 0 else 1)"
    arbitrary: s rule: less_induct)
  case less
  show ?case
  proof (cases "tables_clean s")
    case True
    then show ?thesis using less.prems by (simp add: update_loop_clean upd_refl)
  next
    case False
    have ih: "returns (nmbm_update_loop env s1)
        (\<lambda>(ok, s'). upd_step env s s' \<and> (ok \<longrightarrow> tables_clean s'))"
      if up: "upd_step env s s1" and mv: "moved_on s s1" for s1
    proof (cases "tables_clean s1")
      case True
      then show ?thesis using up by (simp add: update_loop_clean)
    next
      case False
      have "good_count (block_state s1) \<le> good_count (block_state s)"
        using up by (simp add: upd_step_def retired_good_count)
      then have "2 * good_count (block_state s1) + (if backup_table_ba s1 = 0 then 0 else 1)
          < 2 * good_count (block_state s) + (if backup_table_ba s = 0 then 0 else 1)"
        using False mv by (auto simp: moved_on_def settled_def fewer_good_def)
      from less.hyps [OF this upd_tables_ok [OF up]] show ?thesis
        by (auto elim!: returns_mono intro: upd_trans [OF up])
    qed
    have dirty: "block_state_changed s \<noteq> 0 \<or> block_mapping_changed s \<noteq> 0"
      using False by (simp add: tables_clean_def)
    show ?thesis
      by (subst nmbm_update_loop.simps, subst if_P [OF dirty])
        (auto intro!: returns_mono [OF update_once_spec [OF assms(1) less.prems False]] ih)
  qed
qed

lemma update_info_table_spec:
  assumes "env_ok env" and "tables_ok env s"
  shows "returns (nmbm_update_info_table env s)
    (\<lambda>(ok, s'). upd_step env s s' \<and> (ok \<longrightarrow> tables_clean s' \<or> protected s))"
  using update_loop_spec [OF assms] upd_refl [OF assms(2)]
  by (auto simp: nmbm_update_info_table_def elim!: returns_mono)

end
