(* ===== verification/Bmt_Core.thy ===== *)
theory Bmt_Core
  imports Bmt_Nand
begin

text \<open>
  \<open>mtk_bmt.c\<close>: the MTD operations the bad block managers put in place of the chip's
  (\<open>mtk_bmt_read\<close>, \<open>mtk_bmt_write\<close>, \<open>mtk_bmt_mtd_erase\<close>, \<open>mtk_bmt_block_isbad\<close>,
  \<open>mtk_bmt_block_markbad\<close>), the debugfs operations that use the scheme, and attaching and
  detaching.

  The operations are written once for every scheme. A scheme is the record \<open>bmt_ops\<close>, the
  C structure of function pointers \<open>struct mtk_bmt_ops\<close> on the state \<open>'s\<close> of the scheme; the
  chip state and the page buffer \<open>data_buf\<close> are parts of that state. The block argument of
  \<open>get_mapping_block\<close> is the bits of an \<open>int\<close>.
\<close>

section \<open>The operations a scheme provides\<close>

record ('s, 'd) bmt_ops =
  remap_block :: "u16 \<Rightarrow> u16 \<Rightarrow> int \<Rightarrow> 's \<Rightarrow> (bool \<times> 's) option"
  unmap_block :: "u16 \<Rightarrow> 's \<Rightarrow> 's option"
  get_mapping_block :: "u32 \<Rightarrow> 's \<Rightarrow> int option"
  chip_of :: "'s \<Rightarrow> 'd"
  set_chip :: "'d \<Rightarrow> 's \<Rightarrow> 's"
  page_buf :: "'s \<Rightarrow> u8 list"
  set_page_buf :: "u8 list \<Rightarrow> 's \<Rightarrow> 's"

definition mtk_bmt_remap_block ::
  "'d bmtd \<Rightarrow> ('s, 'd) bmt_ops \<Rightarrow> u32 \<Rightarrow> u32 \<Rightarrow> int \<Rightarrow> 's \<Rightarrow> (bool \<times> 's) option" where
  "mtk_bmt_remap_block env ops block mapped_block copy_len s =
     (case mapping_block_in_range env block of
        None \<Rightarrow> Some (False, s)
      | Some _ \<Rightarrow> remap_block ops (ucast block) (ucast mapped_block) copy_len s)"

section \<open>Reading and writing\<close>

text \<open>
  A request asks for \<open>rq_len\<close> bytes and \<open>rq_ooblen\<close> out-of-band bytes from \<open>rq_ooboffs\<close> on.
  What a read has stored so far is \<open>dat\<close> and \<open>oob\<close>, so \<open>ops->retlen\<close> and \<open>ops->oobretlen\<close> are
  their lengths; \<open>cur_ooblen\<close> and \<open>cur_ooboffs\<close> are the members of \<open>cur_ops\<close> that change. A
  driver that stores more than a request asks for writes outside the buffer.
\<close>

definition block_off :: "'d bmtd \<Rightarrow> u64 \<Rightarrow> u32" where
  "block_off env addr = ucast (addr AND ucast (blk_size env - 1))"

definition block_num :: "'d bmtd \<Rightarrow> u64 \<Rightarrow> u32" where
  "block_num env addr = ucast (drop_bit (unat (blk_shift env)) addr)"

definition cur_addr :: "'d bmtd \<Rightarrow> int \<Rightarrow> u32 \<Rightarrow> u64" where
  "cur_addr env cur_block offset =
     push_bit (unat (blk_shift env)) (word_of_int cur_block) + ucast offset"

partial_function (option) mtk_bmt_read_loop ::
  "'d bmtd \<Rightarrow> ('s, 'd) bmt_ops \<Rightarrow> nat \<Rightarrow> nat \<Rightarrow> u64 \<Rightarrow> nat \<Rightarrow> int \<Rightarrow> int \<Rightarrow> nat \<Rightarrow> nat \<Rightarrow>
   u8 list \<Rightarrow> u8 list \<Rightarrow> 's \<Rightarrow> (int \<times> u8 list \<times> u8 list \<times> 's) option" where
  "mtk_bmt_read_loop env ops rq_len rq_ooblen from retry ret max_bitflips cur_ooblen cur_ooboffs dat oob s =
     (if length dat < rq_len \<or> length oob < rq_ooblen then do {
        let offset = block_off env from;
        let block = block_num env from;
        cur_block \<leftarrow> get_mapping_block ops block s;
        if cur_block < 0 then Some (- EIO, dat, oob, s)
        else do {
          let len = min (erasesize env - offset) (of_nat (rq_len - length dat));
          let (res, d) = drv_read_oob env (chip_of ops s) (cur_addr env cur_block offset)
                           (unat len) cur_ooblen cur_ooboffs;
          let s = set_chip ops d s;
          let cur_ret = rd_ret res;
          let ret = (if cur_ret < 0 then cur_ret else ret);
          let max_bitflips = (if cur_ret < 0 then max_bitflips else max max_bitflips cur_ret);
          if cur_ret < 0 \<and> cur_ret \<noteq> - EUCLEAN then do {
            (remapped, s) \<leftarrow>
              mtk_bmt_remap_block env ops block (word_of_int cur_block) (uint (erasesize env)) s;
            if remapped \<and> retry < 10
            then mtk_bmt_read_loop env ops rq_len rq_ooblen from (retry + 1) ret max_bitflips
                   cur_ooblen cur_ooboffs dat oob s
            else Some (if ret < 0 then ret else max_bitflips, dat, oob, s)
          }
          else do {
            s \<leftarrow> (if bitflip_threshold env \<noteq> 0 \<and> word_of_int cur_ret \<ge> bitflip_threshold env
                 then do {
                   (_, s) \<leftarrow> mtk_bmt_remap_block env ops block (word_of_int cur_block)
                              (uint (erasesize env)) s;
                   Some s
                 } else Some s);
            if length (rd_dat res) > unat len \<or> length (rd_oob res) > cur_ooblen then None
            else do {
              let step = (if len = 0 then erasesize env - offset else len);
              mtk_bmt_read_loop env ops rq_len rq_ooblen (from + ucast step) 0 ret max_bitflips
                (cur_ooblen - length (rd_oob res)) 0 (dat @ rd_dat res) (oob @ rd_oob res) s
            }
          }
        }
      }
      else Some (if ret < 0 then ret else max_bitflips, dat, oob, s))"

definition mtk_bmt_read ::
  "'d bmtd \<Rightarrow> ('s, 'd) bmt_ops \<Rightarrow> u64 \<Rightarrow> nat \<Rightarrow> nat \<Rightarrow> nat \<Rightarrow> 's \<Rightarrow>
   (int \<times> u8 list \<times> u8 list \<times> 's) option" where
  "mtk_bmt_read env ops from rq_len rq_ooblen rq_ooboffs s =
     mtk_bmt_read_loop env ops rq_len rq_ooblen from 0 0 0 rq_ooblen rq_ooboffs [] [] s"

text \<open>A write: \<open>retlen\<close> and \<open>oobretlen\<close> count what has been written of \<open>dat\<close> and \<open>oob\<close>.\<close>

partial_function (option) mtk_bmt_write_loop ::
  "'d bmtd \<Rightarrow> ('s, 'd) bmt_ops \<Rightarrow> u8 list \<Rightarrow> u8 list \<Rightarrow> u64 \<Rightarrow> nat \<Rightarrow> nat \<Rightarrow> nat \<Rightarrow> nat \<Rightarrow> 's \<Rightarrow>
   (int \<times> nat \<times> nat \<times> 's) option" where
  "mtk_bmt_write_loop env ops dat oob to retry cur_ooboffs retlen oobretlen s =
     (if retlen < length dat \<or> oobretlen < length oob then do {
        let offset = block_off env to;
        let block = block_num env to;
        cur_block \<leftarrow> get_mapping_block ops block s;
        if cur_block < 0 then Some (- EIO, retlen, oobretlen, s)
        else do {
          let len = min (blk_size env - offset) (of_nat (length dat - retlen));
          d \<leftarrow> buf_get (drop retlen dat) 0 (unat len);
          let (res, c) = drv_write_oob env (chip_of ops s) (cur_addr env cur_block offset)
                           d (drop oobretlen oob) cur_ooboffs;
          let s = set_chip ops c s;
          if wr_ret res < 0 then do {
            (remapped, s) \<leftarrow>
              mtk_bmt_remap_block env ops block (word_of_int cur_block) (uint offset) s;
            if remapped \<and> retry < 10
            then mtk_bmt_write_loop env ops dat oob to (retry + 1) cur_ooboffs retlen oobretlen s
            else Some (wr_ret res, retlen, oobretlen, s)
          }
          else do {
            let step = (if len = 0 then erasesize env - offset else len);
            mtk_bmt_write_loop env ops dat oob (to + ucast step) 0 0 (retlen + wr_retlen res)
              (oobretlen + wr_oobretlen res) s
          }
        }
      }
      else Some (0, retlen, oobretlen, s))"

definition mtk_bmt_write ::
  "'d bmtd \<Rightarrow> ('s, 'd) bmt_ops \<Rightarrow> u64 \<Rightarrow> u8 list \<Rightarrow> u8 list \<Rightarrow> nat \<Rightarrow> 's \<Rightarrow>
   (int \<times> nat \<times> nat \<times> 's) option" where
  "mtk_bmt_write env ops to dat oob ooboffs s = mtk_bmt_write_loop env ops dat oob to 0 ooboffs 0 0 s"

section \<open>Erasing, bad block queries\<close>

text \<open>
  \<open>mtk_bmt_mtd_erase\<close>: \<open>~mtd->erasesize_mask\<close> is complemented at 32 bits and then widened.
  The result has \<open>instr->fail_addr\<close> when it was set. \<open>ret\<close> is indeterminate until a block has
  been erased, here \<^const>\<open>None\<close>; reading it is a run without a defined result.
\<close>

partial_function (option) mtk_bmt_erase_loop ::
  "'d bmtd \<Rightarrow> ('s, 'd) bmt_ops \<Rightarrow> u64 \<Rightarrow> u64 \<Rightarrow> nat \<Rightarrow> int option \<Rightarrow> 's \<Rightarrow>
   (int \<times> u64 option \<times> 's) option" where
  "mtk_bmt_erase_loop env ops start_addr end_addr retry ret s =
     (if start_addr < end_addr then do {
        let orig_block = (ucast (drop_bit (unat (blk_shift env)) start_addr) :: u16);
        block \<leftarrow> get_mapping_block ops (ucast orig_block) s;
        if block < 0 then Some (- EIO, None, s)
        else do {
          let (ret, d) = drv_erase env (chip_of ops s) (cur_addr env block 0) (ucast (blk_size env));
          let s = set_chip ops d s;
          if ret \<noteq> 0 then do {
            (remapped, s) \<leftarrow>
              mtk_bmt_remap_block env ops (ucast orig_block) (word_of_int block) 0 s;
            if remapped \<and> retry < 10
            then mtk_bmt_erase_loop env ops start_addr end_addr (retry + 1) (Some ret) s
            else Some (ret, Some start_addr, s)
          }
          else mtk_bmt_erase_loop env ops (start_addr + ucast (erasesize env)) end_addr 0 (Some ret) s
        }
      }
      else map_option (\<lambda>r. (r, None, s)) ret)"

definition mtk_bmt_mtd_erase ::
  "'d bmtd \<Rightarrow> ('s, 'd) bmt_ops \<Rightarrow> u64 \<Rightarrow> u64 \<Rightarrow> 's \<Rightarrow> (int \<times> u64 option \<times> 's) option" where
  "mtk_bmt_mtd_erase env ops addr len s =
     mtk_bmt_erase_loop env ops (addr AND ucast (NOT (erasesize env - 1))) (addr + len) 0 None s"

text \<open>\<open>mtk_bmt_block_isbad\<close>: the mapped block is stored in a \<open>u16\<close>, an error too.\<close>

function mtk_bmt_isbad_loop ::
  "'d bmtd \<Rightarrow> ('s, 'd) bmt_ops \<Rightarrow> u16 \<Rightarrow> nat \<Rightarrow> 's \<Rightarrow> (int \<times> 's) option" where
  "mtk_bmt_isbad_loop env ops orig_block retry s = do {
     m \<leftarrow> get_mapping_block ops (ucast orig_block) s;
     let block = (word_of_int m :: u16);
     let (ret, d) = drv_block_isbad env (chip_of ops s) (blk_addr env (ucast block));
     let s = set_chip ops d s;
     if ret \<noteq> 0 then do {
       (remapped, s) \<leftarrow>
         mtk_bmt_remap_block env ops (ucast orig_block) (ucast block) (uint (blk_size env)) s;
       if remapped \<and> retry < 10 then mtk_bmt_isbad_loop env ops orig_block (retry + 1) s
       else Some (ret, s)
     }
     else Some (ret, s)
   }"
  by pat_completeness auto
termination by (relation "measure (\<lambda>(env, ops, b, retry, s). 10 - retry)") auto

declare mtk_bmt_isbad_loop.simps [simp del]

definition mtk_bmt_block_isbad ::
  "'d bmtd \<Rightarrow> ('s, 'd) bmt_ops \<Rightarrow> u64 \<Rightarrow> 's \<Rightarrow> (int \<times> 's) option" where
  "mtk_bmt_block_isbad env ops ofs s =
     mtk_bmt_isbad_loop env ops (ucast (drop_bit (unat (blk_shift env)) ofs)) 0 s"

definition mtk_bmt_block_markbad ::
  "'d bmtd \<Rightarrow> ('s, 'd) bmt_ops \<Rightarrow> u64 \<Rightarrow> 's \<Rightarrow> (int \<times> 's) option" where
  "mtk_bmt_block_markbad env ops ofs s = do {
     let orig_block = (ucast (drop_bit (unat (blk_shift env)) ofs) :: u16);
     block \<leftarrow> get_mapping_block ops (ucast orig_block) s;
     if block < 0 then Some (- EIO, s)
     else do {
       (_, s) \<leftarrow> mtk_bmt_remap_block env ops (ucast orig_block) (word_of_int block)
                  (uint (blk_size env)) s;
       let (ret, d) = drv_block_markbad env (chip_of ops s) (cur_addr env block 0);
       Some (ret, set_chip ops d s)
     }
   }"

section \<open>The debugfs operations\<close>

definition mtk_bmt_debug_repair ::
  "'d bmtd \<Rightarrow> ('s, 'd) bmt_ops \<Rightarrow> u64 \<Rightarrow> 's \<Rightarrow> (int \<times> 's) option" where
  "mtk_bmt_debug_repair env ops val s = do {
     let block = block_num env val;
     prev_block \<leftarrow> get_mapping_block ops block s;
     if prev_block < 0 then Some (- EIO, s)
     else do {
       s \<leftarrow> unmap_block ops (ucast block) s;
       new_block \<leftarrow> get_mapping_block ops block s;
       if new_block < 0 then Some (- EIO, s)
       else if prev_block = new_block then Some (0, s)
       else do {
         let (_, d) = bbt_nand_erase env (word_of_int new_block) (chip_of ops s);
         (_, buf, d) \<leftarrow> bbt_nand_copy env (word_of_int new_block) (word_of_int prev_block)
                         (uint (blk_size env)) (page_buf ops s) d;
         Some (0, set_page_buf ops buf (set_chip ops d s))
       }
     }
   }"

definition mtk_bmt_debug_mark_good ::
  "'d bmtd \<Rightarrow> ('s, 'd) bmt_ops \<Rightarrow> u64 \<Rightarrow> 's \<Rightarrow> (int \<times> 's) option" where
  "mtk_bmt_debug_mark_good env ops val s = do {
     s \<leftarrow> unmap_block ops (ucast (drop_bit (unat (blk_shift env)) val)) s;
     Some (0, s)
   }"

definition mtk_bmt_debug_mark_bad ::
  "'d bmtd \<Rightarrow> ('s, 'd) bmt_ops \<Rightarrow> u64 \<Rightarrow> 's \<Rightarrow> (int \<times> 's) option" where
  "mtk_bmt_debug_mark_bad env ops val s = do {
     let block = block_num env val;
     cur_block \<leftarrow> get_mapping_block ops block s;
     if cur_block < 0 then Some (- EIO, s)
     else do {
       (_, s) \<leftarrow> mtk_bmt_remap_block env ops block (word_of_int cur_block) (uint (blk_size env)) s;
       Some (0, s)
     }
   }"

section \<open>The interface to a scheme\<close>

text \<open>
  What the core relies on in a scheme: it keeps a chip state, and its mapping does not depend on
  that state. The schemes interpret this interface where they define their operations.
\<close>

locale bmt_scheme =
  fixes ops :: "('s, 'd) bmt_ops"
  assumes chip_set: "chip_of ops (set_chip ops d s) = d"
    and set_same: "set_chip ops (chip_of ops s) s = s"
    and set_set: "set_chip ops d (set_chip ops d' s) = set_chip ops d s"
    and map_set: "get_mapping_block ops b (set_chip ops d s) = get_mapping_block ops b s"

end
