(* ===== verification/Nmbm_Map.thy ===== *)
theory Nmbm_Map
  imports Nmbm_Table Bmt_Core
begin

text \<open>
  \<open>mtk_bmt_nmbm.c\<close>, fifth part: mapping a logical block to a spare block, creating the tables
  on a new chip, and the \<open>mtk_bmt_ops\<close> of the scheme (\<open>remap_block_nmbm\<close>,
  \<open>get_mapping_block_index_nmbm\<close>, \<open>unmap_block_nmbm\<close>).
\<close>

definition nmbm_map_block :: "'d bmtd \<Rightarrow> u32 \<Rightarrow> 'd nmbm \<Rightarrow> (bool \<times> 'd nmbm) option" where
  "nmbm_map_block env lb s =
     (if mapping_blocks_ba s = mapping_blocks_top_ba s then Some (False, s)
      else do {
        r \<leftarrow> nmbm_block_walk s False (mapping_blocks_top_ba s) 0 (mapping_blocks_ba s);
        (case r of
           None \<Rightarrow> do {
             (_, s) \<leftarrow> nmbm_update_info_table env s;
             Some (False, s\<lparr>mapping_blocks_top_ba := mapping_blocks_ba s\<rparr>)
           }
         | Some pb \<Rightarrow> do {
             bmap \<leftarrow> arr_set (block_mapping s) (unat lb) pb;
             Some (True, s\<lparr>block_mapping := bmap,
                           mapping_blocks_top_ba := mapping_blocks_top_ba s - 1,
                           block_mapping_changed := block_mapping_changed s + 1\<rparr>)
           })
      })"

partial_function (option) nmbm_map_tail_loop :: "'d bmtd \<Rightarrow> u32 \<Rightarrow> 'd nmbm \<Rightarrow> 'd nmbm option" where
  "nmbm_map_tail_loop env lb s =
     (if lb < mgmt_start_ba s then do {
        (success, s) \<leftarrow> nmbm_map_block env lb s;
        if \<not> success then Some s
        else nmbm_map_tail_loop env (lb + 1) (s\<lparr>data_block_count := data_block_count s + 1\<rparr>)
      }
      else Some s)"

definition nmbm_create_info_table :: "'d bmtd \<Rightarrow> 'd nmbm \<Rightarrow> (bool \<times> 'd nmbm) option" where
  "nmbm_create_info_table env s = do {
     r \<leftarrow> nmbm_block_walk s False (signature_ba s) 1 (mgmt_start_ba s);
     (case r of
        None \<Rightarrow> Some (False, s)
      | Some top_ba \<Rightarrow> do {
          let s = s\<lparr>mapping_blocks_top_ba := top_ba\<rparr>;
          (_, s) \<leftarrow> nmbm_generate_info_table_cache env s;
          (success, s) \<leftarrow> nmbm_rebuild_info_table env s;
          if \<not> success then Some (False, s)
          else do {
            s \<leftarrow> nmbm_map_tail_loop env (data_block_count s) s;
            nmbm_update_info_table env s
          }
        })
   }"

text \<open>
  \<open>nand_size\<close> is \<open>bmtd.total_blks << bmtd.blk_shift\<close>: the shift happens on a 32-bit \<open>int\<close>,
  which is then sign-extended to 64 bits.
\<close>

definition nmbm_nand_size :: "'d bmtd \<Rightarrow> u64" where
  "nmbm_nand_size env = scast (push_bit (unat (blk_shift env)) (ucast (total_blks env) :: u32))"

definition nmbm_mgmt_start :: "'d nmbm \<Rightarrow> u32" where
  "nmbm_mgmt_start s =
     (let start = block_count s * (NMBM_MGMT_DIV - max_ratio s) div NMBM_MGMT_DIV
      in if max_reserved_blocks s \<noteq> 0 \<and> block_count s - start > max_reserved_blocks s
         then block_count s - max_reserved_blocks s else start)"

definition nmbm_create_new :: "'d bmtd \<Rightarrow> 'd nmbm \<Rightarrow> (bool \<times> 'd nmbm) option" where
  "nmbm_create_new env s = do {
     let s = s\<lparr>mgmt_start_ba := nmbm_mgmt_start s\<rparr>;
     s \<leftarrow> nmbm_scan_badblocks env s;
     s \<leftarrow> nmbm_build_mapping_table s;
     let sig = signature s;
     let sig = sig\<lparr>sig_header := (sig_header sig)\<lparr>h_magic := NMBM_MAGIC_SIGNATURE,
                     h_version := NMBM_VER, h_size := of_nat SIGNATURE_SIZE\<rparr>,
                   nand_size := nmbm_nand_size env, block_size := blk_size env,
                   page_size := pg_size env, spare_size := oobsize env,
                   mgmt_start_pb := mgmt_start_ba s, max_try_count := of_nat NMBM_TRY_COUNT\<rparr>;
     sb \<leftarrow> nmbm_update_checksum env (signature_bytes sig);
     let s = s\<lparr>signature := signature_of sb\<rparr>;
     (r, s) \<leftarrow> nmbm_write_signature env (mgmt_start_ba s) (signature s) s;
     (case r of
        None \<Rightarrow> Some (False, s)
      | Some ba \<Rightarrow> nmbm_create_info_table env (s\<lparr>signature_ba := ba\<rparr>))
   }"

section \<open>The operations of the scheme\<close>

definition remap_block_nmbm ::
  "'d bmtd \<Rightarrow> u16 \<Rightarrow> u16 \<Rightarrow> int \<Rightarrow> 'd nmbm \<Rightarrow> (bool \<times> 'd nmbm) option" where
  "remap_block_nmbm env block mapped_block copy_len s =
     (if ucast block \<ge> data_block_count s then Some (False, s)
      else do {
        (_, s) \<leftarrow> nmbm_set_block_state s (ucast mapped_block) BLOCK_ST_BAD;
        (success, s) \<leftarrow> nmbm_map_block env (ucast block) s;
        if \<not> success then Some (False, s)
        else do {
          new_block \<leftarrow> arr_get (block_mapping s) (unat block);
          let (_, d) = bbt_nand_erase env (ucast new_block) (dev s);
          let s = s\<lparr>dev := d\<rparr>;
          s \<leftarrow> (if copy_len > 0 then do {
                 (_, buf, d) \<leftarrow>
                   bbt_nand_copy env (ucast new_block) mapped_block copy_len (page_cache s) (dev s);
                 Some (s\<lparr>page_cache := buf, dev := d\<rparr>)
               } else Some s);
          (_, s) \<leftarrow> nmbm_update_info_table env s;
          Some (True, s)
        }
      })"

text \<open>\<open>block\<close> is an \<open>int\<close> compared as unsigned; the result is an \<open>int\<close>.\<close>

definition get_mapping_block_index_nmbm :: "u32 \<Rightarrow> 'd nmbm \<Rightarrow> int option" where
  "get_mapping_block_index_nmbm block s =
     (if block \<ge> data_block_count s then Some (- 1)
      else do {
        m \<leftarrow> arr_get (block_mapping s) (unat block);
        Some (sint m)
      })"

text \<open>
  The first loop of \<open>unmap_block_nmbm\<close> walks down from the block to the nearest one that is
  not remapped: \<open>Some (start, offset)\<close>, or \<open>None\<close> for the early return. \<open>start\<close> is an
  \<open>int\<close>, so the argument 0 with a remapped block is the step to \<open>-1\<close>.
\<close>

fun nmbm_unmap_find :: "u32 list \<Rightarrow> u32 \<Rightarrow> nat \<Rightarrow> nat \<Rightarrow> (nat \<times> nat) option option" where
  "nmbm_unmap_find bmap base 0 offset = do {
     m \<leftarrow> arr_get bmap 0;
     if m \<ge> base then Some None else Some (Some (0, offset))
   }"
| "nmbm_unmap_find bmap base (Suc start) offset = do {
     m \<leftarrow> arr_get bmap (Suc start);
     if m \<ge> base then nmbm_unmap_find bmap base start (Suc offset)
     else Some (Some (Suc start, offset))
   }"

text \<open>
  The second loop: the block below the lowest remapped one. \<open>block\<close> is a \<open>u16\<close>, the
  comparison with \<open>mapping_blocks_ba\<close> is unsigned, the one with \<open>new_block\<close> signed.
\<close>

partial_function (option) nmbm_unmap_lowest :: "'d nmbm \<Rightarrow> u16 \<Rightarrow> u32 \<Rightarrow> u32 option" where
  "nmbm_unmap_lowest s block new_block =
     (if ucast block < data_block_count s then do {
        cur \<leftarrow> arr_get (block_mapping s) (unat block);
        nmbm_unmap_lowest s (block + 1)
          (if cur < mapping_blocks_ba s then new_block
           else if sint cur \<le> sint new_block then cur - 1 else new_block)
      }
      else Some new_block)"

definition unmap_block_nmbm :: "'d bmtd \<Rightarrow> u16 \<Rightarrow> 'd nmbm \<Rightarrow> 'd nmbm option" where
  "unmap_block_nmbm env block s =
     (if ucast block \<ge> data_block_count s then Some s
      else do {
        r \<leftarrow> nmbm_unmap_find (block_mapping s) (mapping_blocks_ba s) (unat block) 0;
        (case r of
           None \<Rightarrow> Some s
         | Some (start, offset) \<Rightarrow>
             (if offset = 0 then Some s
              else do {
                base \<leftarrow> arr_get (block_mapping s) start;
                let new_block = base + of_nat offset;
                (_, s) \<leftarrow> nmbm_set_block_state s new_block BLOCK_ST_GOOD;
                bmap \<leftarrow> arr_set (block_mapping s) (unat block) new_block;
                let s = s\<lparr>block_mapping := bmap,
                          block_mapping_changed := block_mapping_changed s + 1\<rparr>;
                top_ba \<leftarrow> nmbm_unmap_lowest s 0 (signature_ba s - 1);
                let s = s\<lparr>mapping_blocks_top_ba := top_ba\<rparr>;
                (_, s) \<leftarrow> nmbm_update_info_table env s;
                Some s
              }))
      })"

definition nmbm_ops :: "'d bmtd \<Rightarrow> ('d nmbm, 'd) bmt_ops" where
  "nmbm_ops env =
     \<lparr>remap_block = remap_block_nmbm env, unmap_block = unmap_block_nmbm env,
      get_mapping_block = get_mapping_block_index_nmbm, chip_of = dev,
      set_chip = (\<lambda>d s. s\<lparr>dev := d\<rparr>), page_buf = page_cache,
      set_page_buf = (\<lambda>b s. s\<lparr>page_cache := b\<rparr>)\<rparr>"

interpretation nmbm_scheme: bmt_scheme "nmbm_ops env" for env
  by unfold_locales (simp_all add: nmbm_ops_def get_mapping_block_index_nmbm_def nmbm_get_block_state_def)

end
