(* ===== verification/Nmbm_Attach.thy ===== *)
theory Nmbm_Attach
  imports Nmbm_Map
begin

text \<open>
  \<open>mtk_bmt_nmbm.c\<close>, sixth part: finding the signature and the info tables on the chip,
  loading the newer table, setting up the instance and attaching.
\<close>

section \<open>Checking and loading tables\<close>

definition nmbm_check_info_table_header :: "'d nmbm \<Rightarrow> u8 list \<Rightarrow> bool option" where
  "nmbm_check_info_table_header s data = do {
     hb \<leftarrow> buf_get data 0 INFO_TABLE_HEADER_SIZE;
     let ifthdr = info_table_of hb;
     if h_magic (it_header ifthdr) \<noteq> NMBM_MAGIC_INFO_TABLE then Some False
     else if h_size (it_header ifthdr) \<noteq> info_table_size s then Some False
     else if mapping_table_off ifthdr - state_table_off ifthdr < state_table_size s
     then Some False
     else if info_table_size s - mapping_table_off ifthdr < mapping_table_size s
     then Some False
     else Some True
   }"

text \<open>The comparisons of a mapping entry with block addresses are unsigned.\<close>

function nmbm_check_mapping_loop ::
  "'d nmbm \<Rightarrow> u32 list \<Rightarrow> u32 \<Rightarrow> u32 \<Rightarrow> u32 \<Rightarrow> u32 \<Rightarrow> u32 option option" where
  "nmbm_check_mapping_loop s bmap end_ba n ba minimum =
     (if ba < n then do {
        m \<leftarrow> arr_get bmap (unat ba);
        if (m \<ge> data_block_count s \<and> m < end_ba) \<or> m = signature_ba s then Some None
        else nmbm_check_mapping_loop s bmap end_ba n (ba + 1)
               (if m \<ge> end_ba \<and> m < minimum then m else minimum)
      }
      else Some (Some minimum))"
  by pat_completeness auto
termination
  by (relation "measure (\<lambda>(s, bmap, end_ba, n, ba, minimum). unat n - unat ba)")
    (auto simp: unat_inc unat_less)

function nmbm_check_states_loop :: "'d nmbm \<Rightarrow> u32 list \<Rightarrow> u32 \<Rightarrow> u32 \<Rightarrow> bool option" where
  "nmbm_check_states_loop s bst ba end_ba =
     (if ba < end_ba then do {
        st \<leftarrow> nmbm_get_block_state s ba;
        if st \<noteq> BLOCK_ST_GOOD then nmbm_check_states_loop s bst (ba + 1) end_ba
        else do {
          st' \<leftarrow> nmbm_get_block_state_raw bst ba;
          if st' \<noteq> BLOCK_ST_GOOD then Some False
          else nmbm_check_states_loop s bst (ba + 1) end_ba
        }
      }
      else Some True)"
  by pat_completeness auto
termination
  by (relation "measure (\<lambda>(s, bst, ba, end_ba). unat end_ba - unat ba)")
    (auto simp: unat_inc unat_less)

declare nmbm_check_mapping_loop.simps [simp del] nmbm_check_states_loop.simps [simp del]

text \<open>The result \<open>Some top\<close> is \<open>true\<close> with \<open>*mapping_blocks_top_ba\<close>.\<close>

definition nmbm_check_info_table ::
  "'d nmbm \<Rightarrow> u32 \<Rightarrow> u32 \<Rightarrow> u8 list \<Rightarrow> u32 option option" where
  "nmbm_check_info_table s start_ba end_ba data = do {
     hb \<leftarrow> buf_get data 0 INFO_TABLE_HEADER_SIZE;
     let ifthdr = info_table_of hb;
     let bmap = bytes_words (drop (unat (mapping_table_off ifthdr)) data);
     let bst = bytes_words (drop (unat (state_table_off ifthdr)) data);
     r \<leftarrow> nmbm_check_mapping_loop s bmap end_ba (data_block_count s) 0 (signature_ba s);
     (case r of
        None \<Rightarrow> Some None
      | Some minimum_mapping_pb \<Rightarrow> do {
          ok \<leftarrow> nmbm_check_states_loop s bst start_ba end_ba;
          Some (if ok then Some (minimum_mapping_pb - 1) else None)
        })
   }"

text \<open>
  The reading loop of \<open>nmbm_try_load_info_table\<close>: \<open>None\<close> for an early \<open>return false\<close>,
  otherwise the start of the table, the address after the last block and what is left to
  read.
\<close>

function nmbm_load_loop ::
  "'d bmtd \<Rightarrow> u32 \<Rightarrow> u32 \<Rightarrow> nat \<Rightarrow> u32 \<Rightarrow> bool \<Rightarrow> u32 \<Rightarrow> 'd nmbm \<Rightarrow>
   ((u32 \<times> u32 \<times> u32) option \<times> 'd nmbm) option" where
  "nmbm_load_loop env limit ba off sizeremain checkhdr start_ba s =
     (if sizeremain \<noteq> 0 \<and> ba < limit then do {
        st \<leftarrow> nmbm_get_block_state s ba;
        if st \<noteq> BLOCK_ST_GOOD
        then nmbm_load_loop env limit (ba + 1) off sizeremain checkhdr start_ba s
        else do {
          (bad, s) \<leftarrow> nmbm_check_bad_phys_block env ba s;
          if bad then do {
            (_, s) \<leftarrow> nmbm_set_block_state s ba BLOCK_ST_BAD;
            nmbm_load_loop env limit (ba + 1) off sizeremain checkhdr start_ba s
          }
          else do {
            let chunksize = (if sizeremain > blk_size env then blk_size env else sizeremain);
            (ret, mem, s) \<leftarrow>
              nmbn_read_data env (ba2addr env ba) (drop off (info_table_cache s)) chunksize s;
            let s = s\<lparr>info_table_cache := take off (info_table_cache s) @ mem\<rparr>;
            if ret < 0 then do {
              (_, s) \<leftarrow> nmbm_set_block_state s ba BLOCK_ST_BAD;
              nmbm_load_loop env limit (ba + 1) off sizeremain checkhdr start_ba s
            }
            else if ret > 0 then Some (None, s)
            else do {
              ok \<leftarrow> (if checkhdr
                    then nmbm_check_info_table_header s (drop off (info_table_cache s))
                    else Some True);
              if \<not> ok then Some (None, s)
              else nmbm_load_loop env limit (ba + 1) (off + unat chunksize)
                     (sizeremain - chunksize) False (if checkhdr then ba else start_ba) s
            }
          }
        }
      }
      else Some (Some (start_ba, ba, sizeremain), s))"
  by pat_completeness auto
termination
  by (relation "measure (\<lambda>(env, limit, ba, off, sizeremain, c, st, s). unat limit - unat ba)")
    (auto simp: unat_inc unat_less)

declare nmbm_load_loop.simps [simp del]

text \<open>The copies that make the table of \<open>info_table_cache\<close> the current one.\<close>

definition nmbm_take_table :: "'d nmbm \<Rightarrow> 'd nmbm option" where
  "nmbm_take_table s = do {
     hb \<leftarrow> buf_get (info_table_cache s) 0 INFO_TABLE_HEADER_SIZE;
     let ifthdr = info_table_of hb;
     sb \<leftarrow> buf_get (info_table_cache s) (unat (state_table_off ifthdr)) (unat (state_table_size s));
     sb \<leftarrow> buf_put (words_bytes (block_state s)) 0 sb;
     mb \<leftarrow> buf_get (info_table_cache s) (unat (mapping_table_off ifthdr))
             (unat (mapping_table_size s));
     mb \<leftarrow> buf_put (words_bytes (block_mapping s)) 0 mb;
     Some (s\<lparr>info_table := ifthdr, block_state := bytes_words sb,
             block_mapping := bytes_words mb\<rparr>)
   }"

text \<open>
  What \<open>nmbm_try_load_info_table\<close> does once the whole table is in \<open>info_table_cache\<close>: the
  checksum, the check of the contents and, when the table is the first or the newer one, the
  copies. The result \<open>Some (end, write_count, top)\<close> is \<open>true\<close> with the three output parameters.
\<close>

definition nmbm_accept_table ::
  "'d bmtd \<Rightarrow> u32 \<Rightarrow> u32 \<Rightarrow> bool \<Rightarrow> 'd nmbm \<Rightarrow> ((u32 \<times> u32 \<times> u32) option \<times> 'd nmbm) option" where
  "nmbm_accept_table env start_ba eba table_loaded s = do {
     success \<leftarrow> nmbm_check_header env (info_table_cache s) (info_table_size s);
     if \<not> success then Some (None, s)
     else do {
       hb \<leftarrow> buf_get (info_table_cache s) 0 INFO_TABLE_HEADER_SIZE;
       let ifthdr = info_table_of hb;
       t \<leftarrow> nmbm_check_info_table s start_ba eba (info_table_cache s);
       (case t of
          None \<Rightarrow> Some (None, s)
        | Some top_ba \<Rightarrow> do {
            s \<leftarrow> (if \<not> table_loaded \<or> write_count ifthdr > write_count (info_table s)
                 then nmbm_take_table s else Some s);
            Some (Some (eba, write_count ifthdr, top_ba), s)
          })
     }
   }"

definition nmbm_try_load_info_table ::
  "'d bmtd \<Rightarrow> u32 \<Rightarrow> bool \<Rightarrow> 'd nmbm \<Rightarrow> ((u32 \<times> u32 \<times> u32) option \<times> 'd nmbm) option" where
  "nmbm_try_load_info_table env ba table_loaded s = do {
     let limit = ba + size2blk env (ucast (info_table_size s));
     (r, s) \<leftarrow> nmbm_load_loop env limit ba 0 (info_table_size s) True 0 s;
     (case r of
        None \<Rightarrow> Some (None, s)
      | Some (start_ba, eba, sizeremain) \<Rightarrow>
          if sizeremain \<noteq> 0 then Some (None, s)
          else nmbm_accept_table env start_ba eba table_loaded s)
   }"

text \<open>\<open>last\<close> is \<open>limit - size2blk(...)\<close>, which does not change during the search.\<close>

function nmbm_search_loop ::
  "'d bmtd \<Rightarrow> u32 \<Rightarrow> u32 \<Rightarrow> bool \<Rightarrow> 'd nmbm \<Rightarrow>
   ((u32 \<times> u32 \<times> u32 \<times> u32) option \<times> 'd nmbm) option" where
  "nmbm_search_loop env ba last_ba table_loaded s =
     (if ba < last_ba then do {
        (r, s) \<leftarrow> nmbm_try_load_info_table env ba table_loaded s;
        (case r of
           Some (eba, wc, top_ba) \<Rightarrow> Some (Some (ba, eba, wc, top_ba), s)
         | None \<Rightarrow> nmbm_search_loop env (ba + 1) last_ba table_loaded s)
      }
      else Some (None, s))"
  by pat_completeness auto
termination
  by (relation "measure (\<lambda>(env, ba, last_ba, t, s). unat last_ba - unat ba)")
    (auto simp: unat_inc unat_less)

declare nmbm_search_loop.simps [simp del]

definition nmbm_search_info_table ::
  "'d bmtd \<Rightarrow> u32 \<Rightarrow> u32 \<Rightarrow> bool \<Rightarrow> 'd nmbm \<Rightarrow>
   ((u32 \<times> u32 \<times> u32 \<times> u32) option \<times> 'd nmbm) option" where
  "nmbm_search_info_table env ba limit table_loaded s =
     nmbm_search_loop env ba (limit - size2blk env (ucast (info_table_size s))) table_loaded s"

text \<open>
  The last data block: the highest block below \<open>mgmt_start_pb\<close> with a mapping, when there is
  one; the comparison with 0 is signed.
\<close>

fun nmbm_last_mapped :: "u32 list \<Rightarrow> nat \<Rightarrow> nat option option" where
  "nmbm_last_mapped bmap 0 = Some None"
| "nmbm_last_mapped bmap (Suc i) = do {
     m \<leftarrow> arr_get bmap i;
     if sint m \<ge> 0 then Some (Some (Suc i)) else nmbm_last_mapped bmap i
   }"

text \<open>What \<open>nmbm_load_info_table\<close> does once the first table has been found.\<close>

definition nmbm_load_second ::
  "'d bmtd \<Rightarrow> u32 \<Rightarrow> u32 \<Rightarrow> u32 \<Rightarrow> u32 \<Rightarrow> 'd nmbm \<Rightarrow> (bool \<times> 'd nmbm) option" where
  "nmbm_load_second env limit main_end main_wc main_top s = do {
     (r, s) \<leftarrow> nmbm_search_info_table env main_end limit True s;
     let (table_end_ba, backup_wc, backup_top, s) =
       (case r of
          None \<Rightarrow> (main_end, 0, 0, s)
        | Some (ba, eba, wc, top_ba) \<Rightarrow> (eba, wc, top_ba, s\<lparr>backup_table_ba := ba\<rparr>));
     let s = s\<lparr>mapping_blocks_top_ba :=
                 (if backup_table_ba s = 0 \<or> main_wc \<ge> backup_wc then main_top else backup_top),
               mapping_blocks_ba := table_end_ba\<rparr>;
     n \<leftarrow> nmbm_last_mapped (block_mapping s) (unat (mgmt_start_pb (signature s)));
     let s = (case n of None \<Rightarrow> s | Some i \<Rightarrow> s\<lparr>data_block_count := of_nat i\<rparr>);
     (_, s) \<leftarrow> nmbm_generate_info_table_cache env s;
     (success, s) \<leftarrow>
       (if backup_table_ba s = 0 then nmbm_rescue_single_info_table env s
        else if main_wc \<noteq> backup_wc
        then nmbm_update_single_info_table env (main_wc < backup_wc)
               (s\<lparr>block_state_changed := 1, block_mapping_changed := 1\<rparr>)
        else Some (True, s));
     Some (True, if mapping_blocks_ba s = mapping_blocks_top_ba s \<or> \<not> success
                 then s\<lparr>protected := True\<rparr> else s)
   }"

definition nmbm_load_info_table ::
  "'d bmtd \<Rightarrow> u32 \<Rightarrow> u32 \<Rightarrow> 'd nmbm \<Rightarrow> (bool \<times> 'd nmbm) option" where
  "nmbm_load_info_table env ba limit s = do {
     let s = s\<lparr>main_table_ba := 0, backup_table_ba := 0,
               info_table := (info_table s)\<lparr>write_count := 0\<rparr>,
               mapping_blocks_top_ba := signature_ba s - 1,
               data_block_count := mgmt_start_pb (signature s)\<rparr>;
     (r, s) \<leftarrow> nmbm_search_info_table env ba limit False s;
     (case r of
        None \<Rightarrow> Some (False, s)
      | Some (main_ba, main_end, main_wc, main_top) \<Rightarrow>
          nmbm_load_second env limit main_end main_wc main_top (s\<lparr>main_table_ba := main_ba\<rparr>))
   }"

definition nmbm_load_existing :: "'d bmtd \<Rightarrow> 'd nmbm \<Rightarrow> (bool \<times> 'd nmbm) option" where
  "nmbm_load_existing env s = do {
     let s = s\<lparr>mgmt_start_ba := mgmt_start_pb (signature s)\<rparr>;
     (success, s) \<leftarrow> nmbm_load_info_table env (mgmt_start_ba s) (signature_ba s) s;
     if success then Some (True, s)
     else if \<not> force_create s then Some (False, s)
     else do {
       s \<leftarrow> nmbm_scan_badblocks env s;
       s \<leftarrow> nmbm_build_mapping_table s;
       nmbm_create_info_table env s
     }
   }"

end
