(* ===== verification/Nmbm_Init.thy ===== *)
theory Nmbm_Init
  imports Nmbm_Attach
begin

text \<open>
  \<open>mtk_bmt_nmbm.c\<close>, last part: searching the signature, sizing and initialising the instance,
  attaching, and the \<open>init\<close> and \<open>debug\<close> operations of the scheme.
\<close>

section \<open>The signature search\<close>

text \<open>
  The pages of one block: \<open>Some g\<close> when a page holds a valid signature. \<open>sig\<close> is the
  on-stack structure the pages are read into.
\<close>

partial_function (option) nmbm_signature_pages ::
  "'d bmtd \<Rightarrow> u64 \<Rightarrow> u64 \<Rightarrow> u8 list \<Rightarrow> 'd nmbm \<Rightarrow>
   (nmbm_signature option \<times> u8 list \<times> 'd nmbm) option" where
  "nmbm_signature_pages env addr off sig s =
     (if off < ucast (blk_size env) then do {
        (ret, sig, s) \<leftarrow> nmbn_read_data env (addr + off) sig (of_nat SIGNATURE_SIZE) s;
        if ret \<noteq> 0 then nmbm_signature_pages env addr (off + ucast (pg_size env)) sig s
        else do {
          success \<leftarrow> nmbm_check_header env sig (of_nat SIGNATURE_SIZE);
          if success \<and> h_magic (header_of sig) = NMBM_MAGIC_SIGNATURE
          then Some (Some (signature_of sig), sig, s)
          else nmbm_signature_pages env addr (off + ucast (pg_size env)) sig s
        }
      }
      else Some (None, sig, s))"

partial_function (option) nmbm_find_loop ::
  "'d bmtd \<Rightarrow> u32 \<Rightarrow> u32 \<Rightarrow> u8 list \<Rightarrow> 'd nmbm \<Rightarrow>
   ((nmbm_signature \<times> u32) option \<times> 'd nmbm) option" where
  "nmbm_find_loop env ba limit sig s =
     (if ba \<ge> limit then do {
        let ba = ba - 1;
        (bad, s) \<leftarrow> nmbm_check_bad_phys_block env ba s;
        if bad then nmbm_find_loop env ba limit sig s
        else do {
          (r, sig, s) \<leftarrow> nmbm_signature_pages env (ba2addr env ba) 0 sig s;
          (case r of
             Some g \<Rightarrow> Some (Some (g, ba), s)
           | None \<Rightarrow> nmbm_find_loop env ba limit sig s)
        }
      }
      else Some (None, s))"

definition nmbm_find_limit :: "'d bmtd \<Rightarrow> 'd nmbm \<Rightarrow> u32" where
  "nmbm_find_limit env s =
     (let blocks = ucast (total_blks env) :: u32;
          limit = (blocks div NMBM_MGMT_DIV) * (NMBM_MGMT_DIV - max_ratio s)
      in if max_reserved_blocks s \<noteq> 0 \<and> blocks - limit > max_reserved_blocks s
         then blocks - max_reserved_blocks s else limit)"

definition nmbm_find_signature ::
  "'d bmtd \<Rightarrow> 'd nmbm \<Rightarrow> ((nmbm_signature \<times> u32) option \<times> 'd nmbm) option" where
  "nmbm_find_signature env s =
     nmbm_find_loop env (ucast (total_blks env)) (nmbm_find_limit env s)
       (replicate SIGNATURE_SIZE 0) s"

section \<open>Sizes and the fresh instance\<close>

definition align_up :: "u32 \<Rightarrow> u32 \<Rightarrow> u32" where
  "align_up x a = (x + (a - 1)) AND NOT (a - 1)"

text \<open>\<open>inst_size\<close> is \<open>sizeof(struct nmbm_instance)\<close>.\<close>

definition nmbm_calc_structure_size :: "'d bmtd \<Rightarrow> u64 \<Rightarrow> u64" where
  "nmbm_calc_structure_size env inst_size =
     (let blocks = ucast (total_blks env) :: u32;
          state_size = (blocks + 16 - 1) div 16 * 4;
          mapping_size = blocks * 4;
          info_size = align_up (of_nat INFO_TABLE_HEADER_SIZE) (pg_size env);
          info_size = info_size + align_up state_size (pg_size env);
          info_size = info_size + align_up mapping_size (pg_size env)
      in ucast (info_size + state_size + mapping_size) + inst_size)"

definition zero_header :: nmbm_header where
  "zero_header = \<lparr>h_magic = 0, h_version = 0, h_size = 0, h_checksum = 0\<rparr>"

definition zero_signature :: nmbm_signature where
  "zero_signature =
     \<lparr>sig_header = zero_header, nand_size = 0, block_size = 0, page_size = 0, spare_size = 0,
      mgmt_start_pb = 0, max_try_count = 0, sig_padding = replicate 7 0\<rparr>"

definition zero_info_table :: nmbm_info_table_header where
  "zero_info_table =
     \<lparr>it_header = zero_header, write_count = 0, state_table_off = 0, mapping_table_off = 0,
      it_padding = 0\<rparr>"

text \<open>The zeroed instance of \<open>kzalloc\<close>, with the settings from the device tree.\<close>

definition nmbm_zeroed :: "u32 \<Rightarrow> u32 \<Rightarrow> bool \<Rightarrow> bool \<Rightarrow> 'd \<Rightarrow> 'd nmbm" where
  "nmbm_zeroed ratio reserved ecc_ok force d =
     \<lparr>rawpage_size = 0, rawblock_size = 0, rawchip_size = 0, signature = zero_signature,
      info_table_cache = [], info_table_size = 0, info_table_spare_blocks = 0,
      info_table = zero_info_table, block_state = [], block_state_changed = 0,
      state_table_size = 0, block_mapping = [], block_mapping_changed = 0,
      mapping_table_size = 0, page_cache = [], protected = False, block_count = 0,
      data_block_count = 0, mgmt_start_ba = 0, main_table_ba = 0, backup_table_ba = 0,
      mapping_blocks_ba = 0, mapping_blocks_top_ba = 0, signature_ba = 0,
      max_ratio = ratio, max_reserved_blocks = reserved, empty_page_ecc_ok = ecc_ok,
      force_create = force, dev = d\<rparr>"

text \<open>
  \<open>nmbm_init_structure\<close>; \<open>data_buf\<close> is \<open>bmtd.data_buf\<close>, which becomes \<open>page_cache\<close>. The
  info table cache and the mapping are zeroed memory of the allocation.
\<close>

definition nmbm_init_structure :: "'d bmtd \<Rightarrow> u8 list \<Rightarrow> 'd nmbm \<Rightarrow> 'd nmbm" where
  "nmbm_init_structure env data_buf s =
     (let pages_per_block = blk_size env div pg_size env;
          blocks_per_chip = ucast (total_blks env) :: u32;
          s = s\<lparr>rawpage_size := pg_size env + oobsize env\<rparr>;
          s = s\<lparr>rawblock_size := pages_per_block * rawpage_size s\<rparr>;
          s = s\<lparr>rawchip_size := blocks_per_chip * rawblock_size s, block_count := blocks_per_chip\<rparr>;
          s = s\<lparr>state_table_size := (block_count s + 16 - 1) div 16 * 4,
                mapping_table_size := block_count s * 4,
                info_table_size := align_up (of_nat INFO_TABLE_HEADER_SIZE) (pg_size env)\<rparr>;
          s = s\<lparr>info_table := (info_table s)\<lparr>state_table_off := info_table_size s\<rparr>\<rparr>;
          s = s\<lparr>info_table_size := info_table_size s + align_up (state_table_size s) (pg_size env)\<rparr>;
          s = s\<lparr>info_table := (info_table s)\<lparr>mapping_table_off := info_table_size s\<rparr>\<rparr>;
          s = s\<lparr>info_table_size := info_table_size s + align_up (mapping_table_size s) (pg_size env)\<rparr>;
          s = s\<lparr>info_table_spare_blocks :=
                  nmbm_get_spare_block_count (size2blk env (ucast (info_table_size s)))\<rparr>
      in s\<lparr>info_table_cache := replicate (unat (info_table_size s)) 0,
           block_state := replicate (unat (state_table_size s) div 4) (- 1),
           block_mapping := replicate (unat (mapping_table_size s) div 4) 0,
           page_cache := data_buf, block_state_changed := 0, block_mapping_changed := 0\<rparr>)"

section \<open>Attaching\<close>

definition nmbm_attach :: "'d bmtd \<Rightarrow> u8 list \<Rightarrow> 'd nmbm \<Rightarrow> (int \<times> 'd nmbm) option" where
  "nmbm_attach env data_buf s = do {
     let s = nmbm_init_structure env data_buf s;
     (r, s) \<leftarrow> nmbm_find_signature env s;
     (case r of
        None \<Rightarrow>
          (if \<not> force_create s then Some (- ENODEV, s)
           else do {
             (success, s) \<leftarrow> nmbm_create_new env s;
             Some (if success then 0 else - ENODEV, s)
           })
      | Some (g, ba) \<Rightarrow> do {
          let s = s\<lparr>signature := g, signature_ba := ba\<rparr>;
          if h_version (sig_header g) \<noteq> NMBM_VER then Some (- EINVAL, s)
          else if nand_size g \<noteq> nmbm_nand_size env \<or> block_size g \<noteq> blk_size env \<or>
                  page_size g \<noteq> pg_size env \<or> spare_size g \<noteq> oobsize env
          then Some (- EINVAL, s)
          else do {
            (success, s) \<leftarrow> nmbm_load_existing env s;
            Some (if success then 0 else - ENODEV, s)
          }
        })
   }"

text \<open>
  \<open>mtk_bmt_init_nmbm\<close>: the device tree gives the ratio and the reserve (when present) and the
  two flags; \<open>alloc_ok\<close> is whether \<open>kzalloc\<close> succeeds. The result has the return code,
  the new size of the device and \<open>bmtd.ni\<close>, freed again when attaching fails.
\<close>

definition mtk_bmt_init_nmbm ::
  "'d bmtd \<Rightarrow> bool \<Rightarrow> u32 option \<Rightarrow> u32 option \<Rightarrow> bool \<Rightarrow> bool \<Rightarrow> u8 list \<Rightarrow> 'd \<Rightarrow>
   (int \<times> u64 option \<times> 'd nmbm option \<times> 'd) option" where
  "mtk_bmt_init_nmbm env alloc_ok dt_ratio dt_reserved ecc_ok force data_buf d =
     (if \<not> alloc_ok then Some (- ENOMEM, None, None, d)
      else do {
        let ratio = (case dt_ratio of None \<Rightarrow> 1 | Some v \<Rightarrow> v);
        let reserved = (case dt_reserved of None \<Rightarrow> 256 | Some v \<Rightarrow> v);
        (ret, s) \<leftarrow> nmbm_attach env data_buf (nmbm_zeroed ratio reserved ecc_ok force d);
        if ret \<noteq> 0 then Some (ret, None, None, dev s)
        else Some (0, Some (ucast (push_bit (unat (blk_shift env)) (data_block_count s))),
                   Some s, dev s)
      })"

text \<open>\<open>mtk_bmt_debug_nmbm\<close> with value 0 prints the remapped blocks with their mapping.\<close>

function nmbm_debug_loop :: "'d nmbm \<Rightarrow> nat \<Rightarrow> (nat \<times> u32) list option" where
  "nmbm_debug_loop s i =
     (if i < unat (data_block_count s) then do {
        m \<leftarrow> arr_get (block_mapping s) i;
        rest \<leftarrow> nmbm_debug_loop s (i + 1);
        Some (if m < mapping_blocks_ba s then rest else (i, m) # rest)
      }
      else Some [])"
  by pat_completeness auto
termination
  by (relation "measure (\<lambda>(s, i). unat (data_block_count s) - i)") auto

declare nmbm_debug_loop.simps [simp del]

definition mtk_bmt_debug_nmbm :: "u64 \<Rightarrow> 'd nmbm \<Rightarrow> (nat \<times> u32) list option" where
  "mtk_bmt_debug_nmbm val s = (if val = 0 then nmbm_debug_loop s 1 else Some [])"

end
