(* ===== verification/Nmbm_Sample.thy ===== *)
theory Nmbm_Sample
  imports Nmbm_Update Nmbm_Init
begin

text \<open>
  A concrete instance on the simulated chip: sixteen blocks of two pages, the management
  area from block 8 on, no tables written yet. It is what \<open>nmbm_init_structure\<close> builds from a
  zeroed instance, with the addresses of the areas filled in.
\<close>

definition sample_init :: "sim_nand nmbm" where
  "sample_init = nmbm_init_structure sim_bmtd (replicate 80 0) (nmbm_zeroed 8 0 False True sim_blank)"

definition sample_nmbm :: "sim_nand nmbm" where
  "sample_nmbm = sample_init\<lparr>data_block_count := 8, mgmt_start_ba := 8, main_table_ba := 8,
     backup_table_ba := 10, mapping_blocks_ba := 12, mapping_blocks_top_ba := 14,
     signature_ba := 15, block_mapping_changed := 1\<rparr>"

lemma sim_env_ok: "env_ok sim_bmtd"
  by (simp add: env_ok_def sim_geom_ok sim_drv_bounded)

lemma sample_init_fields:
  "rawpage_size sample_init = 80" "page_cache sample_init = replicate 80 0"
  "block_count sample_init = 16" "state_table_size sample_init = 4"
  "mapping_table_size sample_init = 64" "info_table_size sample_init = 192"
  "state_table_off (info_table sample_init) = 64" "mapping_table_off (info_table sample_init) = 128"
  "info_table_cache sample_init = replicate 192 0" "block_state sample_init = [- 1]"
  "block_mapping sample_init = replicate 16 0" "info_table_spare_blocks sample_init = 2"
  by code_simp+

lemma sample_tables_ok: "tables_ok sim_bmtd sample_nmbm"
  by (simp add: sample_nmbm_def tables_ok_def buf_ok_def cache_ok_def areas_ok_def covers_def
      sample_init_fields) (simp add: sim_bmtd_def)

end
