(* ===== verification/Nmbm_Theorems.thy ===== *)
theory Nmbm_Theorems
  imports Nmbm_Sample
begin

text \<open>
  Properties of NMBM (\<open>mtk_bmt_nmbm.c\<close>) below the update of its tables: the walks over good blocks,
  header checksums, the mapping a new chip gets, the double mapping after a bad spare block, and
  the search for a signature that cannot fail when its limit is 0.
\<close>

section \<open>Walks\<close>

text \<open>
  C25: \<open>nmbm_block_walk\<close> with the count \<open>n\<close> finds the \<open>n\<close>-th good block (from 0) of the blocks it
  looks at and fails exactly when there are not more than \<open>n\<close> good ones among them; it never reads
  outside the state table. With a limit below the number of blocks it looks at the blocks from the
  start up to but without the limit, or down to but without the limit. A limit that is not below the
  number of blocks, as every negative one for up to \<open>2 ^ 31\<close> blocks, is replaced by the last block:
  the upward walk then looks at all blocks but the last one, which it does not find even when it is
  good, and the downward walk looks at none and always fails, although the comment of the function
  says that a negative limit means no limit.
\<close>

theorem nmbm_block_walk_nth:
  assumes "unat (block_count s) \<le> 16 * length (block_state s)" and "0 < block_count s"
    and "unat count < 2 ^ 31" and "ba < block_count s"
  shows "nmbm_block_walk s ascending ba count limit =
    Some (let gs = filter (\<lambda>n. bst_get (block_state s) n = BLOCK_ST_GOOD)
            (if limit < block_count s
             then if ascending then [unat ba..<unat limit] else rev [Suc (unat limit)..<Suc (unat ba)]
             else if ascending then [unat ba..<unat (block_count s) - 1] else [])
          in if unat count < length gs then Some (of_nat (gs ! unat count)) else None)"
proof -
  define l where "l = (if limit \<ge> block_count s then block_count s - 1 else limit)"
  have last: "unat (block_count s - 1) = unat (block_count s) - 1"
    using assms(2) unat_dec [of 0 "block_count s"] by simp
  then have "unat l \<le> 16 * length (block_state s)"
    using assms(1) by (auto simp: l_def word_le_nat_alt)
  moreover have "unat ba < 16 * length (block_state s)" using assms(1,4) by (simp add: word_less_nat_alt)
  ultimately have walk: "nmbm_block_walk s ascending ba count limit =
    Some (let gs = filter (\<lambda>n. bst_get (block_state s) n = BLOCK_ST_GOOD)
            (if ascending then [unat ba..<unat l] else rev [Suc (unat l)..<Suc (unat ba)])
          in if unat count < length gs then Some (of_nat (gs ! unat count)) else None)"
    using assms(3) walk_asc_loop_eq [of l "block_state s" count ba] walk_desc_loop_eq [of ba "block_state s" count l]
    by (simp add: nmbm_block_walk_def nmbm_block_walk_asc_def nmbm_block_walk_desc_def Let_def flip: l_def)
  have "(if ascending then [unat ba..<unat l] else rev [Suc (unat l)..<Suc (unat ba)]) =
    (if limit < block_count s
     then if ascending then [unat ba..<unat limit] else rev [Suc (unat limit)..<Suc (unat ba)]
     else if ascending then [unat ba..<unat (block_count s) - 1] else [])"
    using assms(4) by (auto simp: l_def last not_less not_le word_less_nat_alt word_le_nat_alt simp del: upt_Suc)
  with walk show ?thesis by (simp only:)
qed

text \<open>On 16 good blocks: a walk with a limit, and two walks with a negative one.\<close>

theorem nmbm_block_walk_nth_witness:
  "nmbm_block_walk sample_nmbm False 14 2 8 = Some (Some 12) \<and>
   nmbm_block_walk sample_nmbm True 15 0 (- 1) = Some None \<and>
   nmbm_block_walk sample_nmbm False 14 0 (- 1) = Some None"
proof -
  have g: "bst_get [- 1] n = 3" if "n < 16" for n
    using that by (auto simp: bst_get_def three_mask intro!: bit_word_eqI simp: bit_simps)
  have "[Suc 8..<Suc 14] = [9, 10, 11, 12, 13, 14]" by (simp add: upt_rec)
  then show ?thesis
    using nmbm_block_walk_nth [of sample_nmbm 2 14 False 8] nmbm_block_walk_nth [of sample_nmbm 0 15 True "- 1"]
      nmbm_block_walk_nth [of sample_nmbm 0 14 False "- 1"]
    by (simp add: sample_nmbm_def sample_init_fields g)
qed

section \<open>Checksums\<close>

lemma crc32_chunks:
  "crc_streams env \<Longrightarrow> nmbm_crc32 env c buf = (if buf = [] then c else crc32_le env c buf)"
proof (induction env c buf rule: nmbm_crc32.induct)
  case (1 env c buf)
  show ?case
  proof (cases "buf = []")
    case False
    let ?xs = "take 4294967295 buf" and ?ys = "drop 4294967295 buf"
    have "nmbm_crc32 env c buf = nmbm_crc32 env (crc32_le env c ?xs) ?ys"
      using False by (subst nmbm_crc32.simps) simp
    also have "\<dots> = (if ?ys = [] then crc32_le env c ?xs else crc32_le env (crc32_le env c ?xs) ?ys)"
      using "1.IH" [OF False "1.prems"] .
    also have "\<dots> = crc32_le env c buf"
      using "1.prems" by (auto simp: crc_streams_def)
    finally show ?thesis using False by simp
  qed (simp add: nmbm_crc32.simps)
qed

lemma crc32_append:
  "crc_streams env \<Longrightarrow> nmbm_crc32 env (nmbm_crc32 env c xs) ys = nmbm_crc32 env c (xs @ ys)"
  by (auto simp: crc32_chunks crc_streams_def)

lemma header_checksum_put:
  "take 12 (header_bytes h) @ le32 c = header_bytes (h\<lparr>h_checksum := c\<rparr>)"
  by (simp add: header_bytes_def)

lemma update_checksum_result:
  assumes "h = header_of (take 16 data)" and "16 \<le> unat (h_size h)" and "unat (h_size h) \<le> length data"
  shows "nmbm_update_checksum env data =
    Some (header_bytes (h\<lparr>h_checksum := nmbm_crc32 env 0
      (header_bytes (h\<lparr>h_checksum := 0\<rparr>) @ take (unat (h_size h) - 16) (drop 16 data))\<rparr>) @ drop 16 data)"
proof -
  let ?h0 = "h\<lparr>h_checksum := 0\<rparr>"
  let ?c = "nmbm_crc32 env 0 (header_bytes ?h0 @ take (unat (h_size h) - 16) (drop 16 data))"
  have d: "16 \<le> length data" using assms(2,3) by simp
  have "buf_get data 0 16 = Some (take 16 data)" using d by (simp add: buf_get_def)
  moreover have "buf_put data 0 (header_bytes ?h0) = Some (header_bytes ?h0 @ drop 16 data)"
    using d by (simp add: buf_put_def)
  moreover have "buf_get (header_bytes ?h0 @ drop 16 data) 0 (unat (h_size h)) =
      Some (header_bytes ?h0 @ take (unat (h_size h) - 16) (drop 16 data))"
    using assms(2,3) by (simp add: buf_get_def)
  moreover have "buf_put (header_bytes ?h0 @ drop 16 data) 12 (le32 ?c) =
      Some (header_bytes (h\<lparr>h_checksum := ?c\<rparr>) @ drop 16 data)"
    using d header_checksum_put [of ?h0 ?c] by (simp add: buf_put_def)
  ultimately show ?thesis by (simp add: nmbm_update_checksum_def assms(1) [symmetric] Let_def)
qed

lemma checksum_ok:
  assumes "crc_streams env" and "16 \<le> unat (h_size (header_of (take 16 data)))"
    and "unat (h_size (header_of (take 16 data))) \<le> length data"
    and "h_size (header_of (take 16 data)) \<le> sz"
  shows "returns (nmbm_update_checksum env data) (\<lambda>data'. nmbm_check_header env data' sz = Some True \<and>
    (header_of data')\<lparr>h_checksum := 0\<rparr> = (header_of (take 16 data))\<lparr>h_checksum := 0\<rparr> \<and>
    drop 16 data' = drop 16 data)"
proof -
  define h where "h = header_of (take 16 data)"
  note a = assms(2-4) [folded h_def]
  define c where "c = nmbm_crc32 env 0 (header_bytes (h\<lparr>h_checksum := 0\<rparr>) @ take (unat (h_size h) - 16) (drop 16 data))"
  let ?d = "header_bytes (h\<lparr>h_checksum := c\<rparr>) @ drop 16 data"
  have upd: "nmbm_update_checksum env data = Some ?d"
    unfolding c_def by (rule update_checksum_result [OF h_def a(1,2)])
  have "16 \<le> length data" using a(1,2) by simp
  then have hb: "buf_get ?d 0 16 = Some (header_bytes (h\<lparr>h_checksum := c\<rparr>))" by (simp add: buf_get_def)
  have rest: "buf_get ?d 16 (unat (h_size h) - 16) = Some (take (unat (h_size h) - 16) (drop 16 data))"
    using a(1,2) by (simp add: buf_get_def)
  have "nmbm_check_header env ?d sz = Some True"
  proof (cases "16 < h_size h")
    case True
    then show ?thesis
      using hb rest a(3) by (simp add: nmbm_check_header_def Let_def not_less c_def crc32_append [OF assms(1)])
  next
    case False
    then have "unat (h_size h) = 16" using a(1) by (simp add: word_less_nat_alt not_less)
    then show ?thesis
      using False hb a(3) by (auto simp: nmbm_check_header_def Let_def not_less c_def)
  qed
  then show ?thesis by (simp add: upd flip: h_def)
qed

text \<open>
  A structure whose checksum \<open>nmbm_update_checksum\<close> has written passes \<open>nmbm_check_header\<close>, for
  every size the header may declare, and only its checksum has changed. It rests on the streaming
  law of the kernel's CRC alone.
\<close>

theorem nmbm_checksum_roundtrip:
  assumes "crc_streams env" and "16 \<le> unat (h_size (header_of (take 16 data)))"
    and "unat (h_size (header_of (take 16 data))) \<le> length data"
    and "h_size (header_of (take 16 data)) \<le> sz"
  shows "returns (nmbm_update_checksum env data) (\<lambda>data'. nmbm_check_header env data' sz = Some True \<and>
    (header_of data')\<lparr>h_checksum := 0\<rparr> = (header_of (take 16 data))\<lparr>h_checksum := 0\<rparr> \<and>
    drop 16 data' = drop 16 data)"
  by (rule checksum_ok [OF assms])

theorem nmbm_checksum_roundtrip_witness:
  "returns (nmbm_update_checksum sim_bmtd (header_bytes (zero_header\<lparr>h_size := 18\<rparr>) @ [7, 9]))
    (\<lambda>data'. nmbm_check_header sim_bmtd data' 64 = Some True \<and>
      (header_of data')\<lparr>h_checksum := 0\<rparr> = zero_header\<lparr>h_size := 18\<rparr> \<and> drop 16 data' = [7, 9])"
  using nmbm_checksum_roundtrip [OF sim_crc_streams, of "header_bytes (zero_header\<lparr>h_size := 18\<rparr>) @ [7, 9]" 64]
  by (simp add: zero_header_def)

section \<open>Saving and loading the tables\<close>

text \<open>The tables fill their parts of the info table, in the order of \<open>nmbm_init_structure\<close>.\<close>

definition layout_ok :: "'d nmbm \<Rightarrow> bool" where
  "layout_ok s \<longleftrightarrow>
     INFO_TABLE_HEADER_SIZE \<le> unat (state_table_off (info_table s)) \<and>
     unat (state_table_off (info_table s)) + unat (state_table_size s) \<le> unat (mapping_table_off (info_table s)) \<and>
     unat (mapping_table_off (info_table s)) + unat (mapping_table_size s) \<le> unat (info_table_size s) \<and>
     length (info_table_cache s) = unat (info_table_size s) \<and>
     unat (state_table_size s) = 4 * length (block_state s) \<and>
     unat (mapping_table_size s) = 4 * length (block_mapping s)"

lemma info_table_of_bytes [simp]: "info_table_of (info_table_bytes t) = t"
  by (simp add: info_table_of_def info_table_bytes_def header_bytes_def header_of_def)

lemma generate_cache:
  assumes "layout_ok s"
  shows "\<exists>it c body. nmbm_generate_info_table_cache env s = Some (\<not> tables_clean s, s\<lparr>info_table := it,
      info_table_cache := info_table_bytes (it\<lparr>it_header := (it_header it)\<lparr>h_checksum := c\<rparr>\<rparr>) @ body\<rparr>) \<and>
    nmbm_update_checksum env (info_table_bytes it @ body) =
      Some (info_table_bytes (it\<lparr>it_header := (it_header it)\<lparr>h_checksum := c\<rparr>\<rparr>) @ body) \<and>
    32 + length body = unat (info_table_size s) \<and>
    it_header it = (it_header (info_table s))\<lparr>h_magic := NMBM_MAGIC_INFO_TABLE, h_version := NMBM_VER,
      h_size := info_table_size s\<rparr> \<and>
    state_table_off it = state_table_off (info_table s) \<and> mapping_table_off it = mapping_table_off (info_table s) \<and>
    (\<forall>hd. length hd = 32 \<longrightarrow>
       buf_get (hd @ body) (unat (state_table_off it)) (unat (state_table_size s)) = Some (words_bytes (block_state s)) \<and>
       buf_get (hd @ body) (unat (mapping_table_off it)) (unat (mapping_table_size s)) = Some (words_bytes (block_mapping s)))"
proof -
  let ?n = "unat (info_table_size s)" and ?so = "unat (state_table_off (info_table s))"
    and ?mo = "unat (mapping_table_off (info_table s))" and ?ss = "unat (state_table_size s)"
    and ?ms = "unat (mapping_table_size s)" and ?sb = "words_bytes (block_state s)" and ?mb = "words_bytes (block_mapping s)"
  have l: "32 \<le> ?so" "?so + ?ss \<le> ?mo" "?mo + ?ms \<le> ?n" "length (info_table_cache s) = ?n"
    "?ss = length ?sb" "?ms = length ?mb"
    using assms by (simp_all add: layout_ok_def)
  let ?c1 = "replicate ?n (0xFF :: u8)"
  have c1: "buf_put (info_table_cache s) 0 ?c1 = Some ?c1" using l(4) by (simp add: buf_put_def)
  have st: "buf_get ?sb 0 ?ss = Some ?sb" and mp: "buf_get ?mb 0 ?ms = Some ?mb"
    using l(5,6) by (simp_all add: buf_get_def)
  obtain c2 where c2: "buf_put ?c1 ?so ?sb = Some c2" "length c2 = ?n"
    using buf_put_ok [of ?so ?sb ?c1] l by auto
  obtain c3 where c3: "buf_put c2 ?mo ?mb = Some c3" "length c3 = ?n"
    using buf_put_ok [of ?mo ?mb c2] l c2(2) by auto
  let ?body = "drop 32 c3"
  define it0 where "it0 = (info_table s)\<lparr>it_header := (it_header (info_table s))
     \<lparr>h_magic := NMBM_MAGIC_INFO_TABLE, h_version := NMBM_VER, h_size := info_table_size s\<rparr>\<rparr>"
  define it where "it = (if block_state_changed s \<noteq> 0 \<or> block_mapping_changed s \<noteq> 0
     then it0\<lparr>write_count := write_count it0 + 1\<rparr> else it0)"
  have it: "it_header it = it_header it0" "state_table_off it = state_table_off (info_table s)"
    "mapping_table_off it = mapping_table_off (info_table s)" "h_size (it_header it) = info_table_size s"
    by (simp_all add: it_def it0_def)
  have n32: "32 \<le> ?n" using l(1-3) by linarith
  have c4: "buf_put c3 0 (info_table_bytes it) = Some (info_table_bytes it @ ?body)"
    using c3(2) n32 by (simp add: buf_put_def)
  have hd: "take 16 (info_table_bytes it @ ?body) = header_bytes (it_header it)"
    by (simp add: info_table_bytes_def)
  have rest: "drop 16 (info_table_bytes it @ ?body) = drop 16 (info_table_bytes it) @ ?body"
    by simp
  have join: "header_bytes h @ drop 16 (info_table_bytes it) = info_table_bytes (it\<lparr>it_header := h\<rparr>)" for h
    by (simp add: info_table_bytes_def)
  obtain c where c5: "nmbm_update_checksum env (info_table_bytes it @ ?body) =
      Some (info_table_bytes (it\<lparr>it_header := (it_header it)\<lparr>h_checksum := c\<rparr>\<rparr>) @ ?body)"
    using update_checksum_result [of "it_header it" "info_table_bytes it @ ?body" env] hd rest n32 c3(2)
    by (simp add: it(4) flip: join)
  have run: "nmbm_generate_info_table_cache env s = Some (\<not> tables_clean s, s\<lparr>info_table := it,
      info_table_cache := info_table_bytes (it\<lparr>it_header := (it_header it)\<lparr>h_checksum := c\<rparr>\<rparr>) @ ?body\<rparr>)"
    unfolding nmbm_generate_info_table_cache_def
    using c1 st c2(1) mp c3(1) c4 c5
    by (simp add: Let_def flip: it0_def) (auto simp: it_def tables_clean_def)
  have above: "buf_get (hd @ ?body) off n = buf_get c3 off n" if "length hd = 32" "32 \<le> off" for hd :: "u8 list" and off n
  proof -
    have "drop off (hd @ ?body) = drop off c3" using that by simp
    then show ?thesis using that c3(2) n32 by (simp add: buf_get_def)
  qed
  have "buf_get c3 ?mo ?ms = Some ?mb" using buf_get_put_same [OF c3(1)] l(6) by simp
  moreover have "buf_get c3 ?so ?ss = Some ?sb"
    using buf_get_put_other [OF c3(1), of ?so ?ss] buf_get_put_same [OF c2(1)] l(2,5) by simp
  ultimately have tabs: "\<forall>hd. length hd = 32 \<longrightarrow>
       buf_get (hd @ ?body) (unat (state_table_off it)) ?ss = Some ?sb \<and>
       buf_get (hd @ ?body) (unat (mapping_table_off it)) ?ms = Some ?mb"
    using above l(1,2) it(2,3) by simp
  show ?thesis
    using run c5 tabs it n32 c3(2)
    by (intro exI [of _ it] exI [of _ c] exI [of _ ?body]) (simp add: it0_def)
qed

text \<open>Reading a table of words out of a longer buffer.\<close>

lemma bytes_words_prefix: "bytes_words (words_bytes ws @ bs) = ws @ bytes_words bs"
  by (induction ws) (simp_all add: words_bytes_def bytes_words_append4)

lemma table_words:
  assumes "buf_get data off n = Some (words_bytes ws)"
  shows "\<exists>rest. bytes_words (drop off data) = ws @ rest"
proof -
  have "take n (drop off data) = words_bytes ws" using assms by (simp add: buf_get_def split: if_splits)
  then have "drop off data = words_bytes ws @ drop n (drop off data)" using append_take_drop_id by metis
  then show ?thesis using bytes_words_prefix by metis
qed

lemma bst_get_prefix: "b < 16 * length ws \<Longrightarrow> bst_get (ws @ rest) b = bst_get ws b"
  by (simp add: bst_get_def nth_append less_mult_imp_div_less mult.commute)

section \<open>The check of a loaded table\<close>

lemma Min_insert_min: "finite A \<Longrightarrow> Min (insert x (insert y A)) = Min (insert (min x y) A)"
  for x :: "'a::linorder"
  by (cases "A = {}") (simp_all add: min.assoc)

lemma check_mapping_eq:
  assumes "unat n \<le> length bmap" and "unat ba \<le> unat n" and "xs = drop (unat ba) (take (unat n) bmap)"
  shows "nmbm_check_mapping_loop s bmap e n ba mn =
    Some (if \<forall>m \<in> set xs. (m < data_block_count s \<or> e \<le> m) \<and> m \<noteq> signature_ba s
          then Some (Min (insert mn {m \<in> set xs. e \<le> m})) else None)"
  using assms
proof (induction s bmap e n ba mn arbitrary: xs rule: nmbm_check_mapping_loop.induct)
  case (1 s bmap e n ba mn)
  show ?case
  proof (cases "ba < n")
    case False
    then have "unat ba = unat n" using "1.prems"(2) by (simp add: unat_less)
    then show ?thesis using False "1.prems"(3) by (subst nmbm_check_mapping_loop.simps) simp
  next
    case True
    have inc: "unat (ba + 1) = Suc (unat ba)" using True by (rule unat_inc)
    have lt: "unat ba < unat n" using True by (simp add: unat_less)
    define m where "m = bmap ! unat ba"
    define ys where "ys = drop (unat (ba + 1)) (take (unat n) bmap)"
    have xs: "xs = m # ys" using lt "1.prems"(1,3) by (simp add: m_def ys_def inc flip: Cons_nth_drop_Suc)
    have get: "arr_get bmap (unat ba) = Some m" using lt "1.prems"(1) by (simp add: arr_get_def m_def)
    define mn' where "mn' = (if m \<ge> e \<and> m < mn then m else mn)"
    have mins: "Min (insert mn {x \<in> set xs. e \<le> x}) = Min (insert mn' {x \<in> set ys. e \<le> x})"
    proof -
      have "{x \<in> set xs. e \<le> x} = (if e \<le> m then insert m {x \<in> set ys. e \<le> x} else {x \<in> set ys. e \<le> x})"
        unfolding xs by auto
      moreover have "mn' = (if e \<le> m then min mn m else mn)" by (auto simp: mn'_def min_def not_less)
      moreover have "finite {x \<in> set ys. e \<le> x}" by simp
      ultimately show ?thesis
        by (cases "e \<le> m") (simp_all only: if_True if_False Min_insert_min)
    qed
    show ?thesis
    proof (cases "(m \<ge> data_block_count s \<and> m < e) \<or> m = signature_ba s")
      case bad: True
      then show ?thesis using True get
        by (subst nmbm_check_mapping_loop.simps) (auto simp: xs not_less)
    next
      case ok: False
      have "nmbm_check_mapping_loop s bmap e n (ba + 1) mn' =
        Some (if \<forall>m \<in> set ys. (m < data_block_count s \<or> e \<le> m) \<and> m \<noteq> signature_ba s
          then Some (Min (insert mn' {m \<in> set ys. e \<le> m})) else None)"
        unfolding mn'_def
        by (rule "1.IH" [OF True get ok _ _ ys_def]) (use "1.prems"(1) lt in \<open>simp_all add: inc\<close>)
      moreover have "(m < data_block_count s \<or> e \<le> m) \<and> m \<noteq> signature_ba s" using ok by auto
      ultimately show ?thesis unfolding mins using True get ok
        by (subst nmbm_check_mapping_loop.simps) (simp add: xs flip: mn'_def)
    qed
  qed
qed

lemma check_states_eq:
  assumes "unat e \<le> 16 * length (block_state s)" and "unat e \<le> 16 * length bst"
  shows "nmbm_check_states_loop s bst ba e =
    Some (\<forall>b \<in> {unat ba..<unat e}. bst_get (block_state s) b = BLOCK_ST_GOOD \<longrightarrow> bst_get bst b = BLOCK_ST_GOOD)"
  using assms
proof (induction s bst ba e rule: nmbm_check_states_loop.induct)
  case (1 s bst ba e)
  show ?case
  proof (cases "ba < e")
    case False
    then show ?thesis by (subst nmbm_check_states_loop.simps) (simp add: unat_less)
  next
    case True
    have inc: "unat (ba + 1) = Suc (unat ba)" using True by (rule unat_inc)
    have lt: "unat ba < unat e" using True by (simp add: unat_less)
    have st: "nmbm_get_block_state s ba = Some (bst_get (block_state s) (unat ba))"
      "nmbm_get_block_state_raw bst ba = Some (bst_get bst (unat ba))"
      using lt "1.prems" by (simp_all add: get_state_spec get_raw_eq)
    have "{unat ba..<unat e} = insert (unat ba) {unat (ba + 1)..<unat e}" using lt by (auto simp: inc)
    then show ?thesis
      using "1.IH" True st "1.prems" by (subst nmbm_check_states_loop.simps) auto
  qed
qed

text \<open>
  When \<open>nmbm_check_info_table\<close> accepts the tables of \<open>s\<close> for the instance \<open>t\<close> in the blocks from
  \<open>start\<close> to \<open>eba\<close>: no data block is mapped to a management block or to the signature (the
  comparisons are unsigned), and every block of the table that \<open>t\<close> knows as good is good in \<open>s\<close>.
\<close>

definition loadable :: "'d nmbm \<Rightarrow> u32 \<Rightarrow> u32 \<Rightarrow> 'd nmbm \<Rightarrow> bool" where
  "loadable t start eba s \<longleftrightarrow>
     (\<forall>m \<in> set (take (unat (data_block_count t)) (block_mapping s)).
        (m < data_block_count t \<or> eba \<le> m) \<and> m \<noteq> signature_ba t) \<and>
     (\<forall>b \<in> {unat start..<unat eba}.
        bst_get (block_state t) b = BLOCK_ST_GOOD \<longrightarrow> bst_get (block_state s) b = BLOCK_ST_GOOD)"

definition lowest_spare :: "'d nmbm \<Rightarrow> u32 \<Rightarrow> 'd nmbm \<Rightarrow> u32" where
  "lowest_spare t eba s =
     Min (insert (signature_ba t) {m \<in> set (take (unat (data_block_count t)) (block_mapping s)). eba \<le> m})"

lemma check_info_table_eq:
  assumes "buf_get data 0 32 = Some hb"
    and "buf_get data (unat (state_table_off (info_table_of hb))) k = Some (words_bytes (block_state s))"
    and "buf_get data (unat (mapping_table_off (info_table_of hb))) n = Some (words_bytes (block_mapping s))"
    and "unat (data_block_count t) \<le> length (block_mapping s)" and "unat eba \<le> 16 * length (block_state s)"
    and "length (block_state t) = length (block_state s)"
  shows "nmbm_check_info_table t start eba data =
    Some (if loadable t start eba s then Some (lowest_spare t eba s - 1) else None)"
proof -
  obtain r1 r2 where r: "bytes_words (drop (unat (state_table_off (info_table_of hb))) data) = block_state s @ r1"
    "bytes_words (drop (unat (mapping_table_off (info_table_of hb))) data) = block_mapping s @ r2"
    using table_words assms(2,3) by blast
  have "bst_get (block_state s @ r1) b = bst_get (block_state s) b" if "b < unat eba" for b
    using that assms(5) by (intro bst_get_prefix) simp
  then show ?thesis
    using check_mapping_eq [of "data_block_count t" "block_mapping s @ r2" 0 _ t eba "signature_ba t"]
      check_states_eq [of eba t "block_state s @ r1" start] assms(1,4-6)
    by (simp add: nmbm_check_info_table_def Let_def r loadable_def lowest_spare_def)
qed

text \<open>
  C4: What \<open>nmbm_generate_info_table_cache\<close> builds from an instance \<open>s\<close> passes the header check and
  the checksum of the loading code, and on every instance \<open>t\<close> of the same geometry that holds the
  image (its data blocks within the mapping, the blocks of the table within the state table) the
  loading code ends as follows. When the third check, \<open>nmbm_check_info_table\<close>, finds that
  no data block is mapped to a management block or to the signature and that the blocks of the
  table that \<open>t\<close> takes for good are good in \<open>s\<close>, the table is accepted with the write count that was
  stored and the block below the lowest spare block in use; \<open>t\<close> then has the block states, the mapping
  and the info table (but for its checksum) of \<open>s\<close> when it had none or an older one, and is unchanged
  otherwise. In all other cases the table is refused and \<open>t\<close> unchanged.
\<close>

theorem nmbm_info_table_roundtrip:
  assumes "crc_streams env" and "layout_ok s"
  shows "returns (nmbm_generate_info_table_cache env s) (\<lambda>(changed, s').
    nmbm_check_info_table_header s' (info_table_cache s') = Some True \<and>
    nmbm_check_header env (info_table_cache s') (info_table_size s') = Some True \<and>
    (let stored = info_table_of (take 32 (info_table_cache s')) in
     stored\<lparr>it_header := it_header (info_table s')\<rparr> = info_table s' \<and>
     (\<forall>(t :: 'd nmbm) start eba loaded. info_table_cache t = info_table_cache s' \<and>
        info_table_size t = info_table_size s \<and> state_table_size t = state_table_size s \<and>
        mapping_table_size t = mapping_table_size s \<and> length (block_state t) = length (block_state s) \<and>
        length (block_mapping t) = length (block_mapping s) \<and>
        unat (data_block_count t) \<le> length (block_mapping s) \<and> unat eba \<le> 16 * length (block_state s) \<longrightarrow>
        nmbm_accept_table env start eba loaded t =
          Some (if loadable t start eba s
                then (Some (eba, write_count (info_table s'), lowest_spare t eba s - 1),
                      if \<not> loaded \<or> write_count (info_table s') > write_count (info_table t)
                      then t\<lparr>info_table := stored, block_state := block_state s, block_mapping := block_mapping s\<rparr>
                      else t)
                else (None, t)))))"
proof -
  obtain it c body where gen: "nmbm_generate_info_table_cache env s = Some (\<not> tables_clean s, s\<lparr>info_table := it,
      info_table_cache := info_table_bytes (it\<lparr>it_header := (it_header it)\<lparr>h_checksum := c\<rparr>\<rparr>) @ body\<rparr>)"
    and upd: "nmbm_update_checksum env (info_table_bytes it @ body) =
      Some (info_table_bytes (it\<lparr>it_header := (it_header it)\<lparr>h_checksum := c\<rparr>\<rparr>) @ body)"
    and len: "32 + length body = unat (info_table_size s)"
    and hdr: "it_header it = (it_header (info_table s))\<lparr>h_magic := NMBM_MAGIC_INFO_TABLE, h_version := NMBM_VER,
      h_size := info_table_size s\<rparr>"
    and offs: "state_table_off it = state_table_off (info_table s)" "mapping_table_off it = mapping_table_off (info_table s)"
    and tabs: "\<And>hd. length hd = 32 \<Longrightarrow>
       buf_get (hd @ body) (unat (state_table_off it)) (unat (state_table_size s)) = Some (words_bytes (block_state s))"
      "\<And>hd. length hd = 32 \<Longrightarrow>
       buf_get (hd @ body) (unat (mapping_table_off it)) (unat (mapping_table_size s)) = Some (words_bytes (block_mapping s))"
    using generate_cache [OF assms(2), of env] by blast
  let ?it = "it\<lparr>it_header := (it_header it)\<lparr>h_checksum := c\<rparr>\<rparr>"
  let ?cache = "info_table_bytes ?it @ body"
  let ?s = "s\<lparr>info_table := it, info_table_cache := ?cache\<rparr>"
  have size: "h_size (it_header it) = info_table_size s" by (simp add: hdr)
  have sum: "nmbm_check_header env ?cache (info_table_size s) = Some True"
    using checksum_ok [OF assms(1), of "info_table_bytes it @ body" "info_table_size s"] len size
    by (simp add: take16_info_table upd)
  have hb: "buf_get ?cache 0 32 = Some (info_table_bytes ?it)" by (simp add: buf_get_def)
  have so: "unat (state_table_off it) + unat (state_table_size s) \<le> unat (mapping_table_off it)"
    "unat (mapping_table_off it) + unat (mapping_table_size s) \<le> unat (info_table_size s)"
    using assms(2) offs by (simp_all add: layout_ok_def)
  have "unat (mapping_table_off it - state_table_off it) = unat (mapping_table_off it) - unat (state_table_off it)"
    "unat (info_table_size s - mapping_table_off it) = unat (info_table_size s) - unat (mapping_table_off it)"
    using so by (simp_all add: unat_sub word_le_nat_alt)
  then have "\<not> mapping_table_off it - state_table_off it < state_table_size s"
    "\<not> info_table_size s - mapping_table_off it < mapping_table_size s"
    unfolding word_less_nat_alt using so by linarith+
  then have hcheck: "nmbm_check_info_table_header ?s ?cache = Some True"
    using hb by (simp add: nmbm_check_info_table_header_def Let_def hdr)
  have stored: "take 32 ?cache = info_table_bytes ?it" by simp
  have load: "nmbm_accept_table env start eba loaded t =
      Some (if loadable t start eba s
            then (Some (eba, write_count it, lowest_spare t eba s - 1),
                  if \<not> loaded \<or> write_count it > write_count (info_table t)
                  then t\<lparr>info_table := ?it, block_state := block_state s, block_mapping := block_mapping s\<rparr> else t)
            else (None, t))"
    if t: "info_table_cache t = ?cache" "info_table_size t = info_table_size s"
      "state_table_size t = state_table_size s" "mapping_table_size t = mapping_table_size s"
      "length (block_state t) = length (block_state s)" "length (block_mapping t) = length (block_mapping s)"
      "unat (data_block_count t) \<le> length (block_mapping s)" "unat eba \<le> 16 * length (block_state s)"
    for t :: "'d nmbm" and start eba loaded
  proof -
    note tb = tabs [of "info_table_bytes ?it"]
    have "buf_put (words_bytes (block_state t)) 0 (words_bytes (block_state s)) = Some (words_bytes (block_state s))"
      "buf_put (words_bytes (block_mapping t)) 0 (words_bytes (block_mapping s)) = Some (words_bytes (block_mapping s))"
      using t(5,6) by (simp_all add: buf_put_def)
    then have take: "nmbm_take_table t =
        Some (t\<lparr>info_table := ?it, block_state := block_state s, block_mapping := block_mapping s\<rparr>)"
      using t(1,3,4) hb tb by (simp add: nmbm_take_table_def Let_def)
    have "nmbm_check_info_table t start eba ?cache =
        Some (if loadable t start eba s then Some (lowest_spare t eba s - 1) else None)"
      by (rule check_info_table_eq [OF hb _ _ t(7,8,5)]) (use tb in simp_all)
    then show ?thesis using t(1,2) hb sum take by (simp add: nmbm_accept_table_def Let_def)
  qed
  show ?thesis using hcheck sum load stored by (simp add: gen Let_def)
qed

lemma sample_layout: "layout_ok sample_nmbm"
  by (simp add: layout_ok_def sample_nmbm_def sample_init_fields)

text \<open>
  Block 3 of the sample chip is mapped to the spare block 14. The image is loaded from the blocks
  8 and 9 by an instance without a table, and refused when block 14 holds the signature.
\<close>

definition sample_saved :: "sim_nand nmbm" where
  "sample_saved = sample_nmbm\<lparr>block_mapping := [0, 1, 2, 14, 4, 5, 6, 7] @ replicate 8 (- 1)\<rparr>"

lemma saved_layout: "layout_ok sample_saved"
  using sample_layout by (simp add: layout_ok_def sample_saved_def sample_nmbm_def sample_init_fields)

theorem nmbm_info_table_roundtrip_witness:
  "returns (nmbm_generate_info_table_cache sim_bmtd sample_saved) (\<lambda>(changed, s').
    let t = sample_nmbm\<lparr>info_table_cache := info_table_cache s'\<rparr>; u = t\<lparr>signature_ba := 14\<rparr> in
    returns (nmbm_accept_table sim_bmtd 8 10 False t) (\<lambda>(r, t'). r = Some (10, write_count (info_table s'), 13) \<and>
      block_mapping t' = block_mapping sample_saved \<and> block_state t' = block_state sample_saved) \<and>
    nmbm_accept_table sim_bmtd 8 10 False u = Some (None, u))"
proof -
  let ?t = "\<lambda>c. sample_nmbm\<lparr>info_table_cache := c\<rparr>"
  have geom: "info_table_size sample_nmbm = info_table_size sample_saved"
    "state_table_size sample_nmbm = state_table_size sample_saved"
    "mapping_table_size sample_nmbm = mapping_table_size sample_saved"
    "length (block_state sample_nmbm) = 1" "length (block_state sample_saved) = 1"
    "length (block_mapping sample_nmbm) = 16" "length (block_mapping sample_saved) = 16"
    "data_block_count sample_nmbm = 8"
    by (simp_all add: sample_saved_def sample_nmbm_def sample_init_fields)
  have "{m \<in> set [0, 1, 2, 14, 4, 5, 6, 7]. 10 \<le> m} = {14 :: u32}" by (auto simp: word_le_nat_alt)
  then have low: "lowest_spare (?t c) 10 sample_saved = 14" for c
    by (simp add: lowest_spare_def sample_saved_def sample_nmbm_def)
  have load: "loadable (?t c) 8 10 sample_saved" for c
    by (simp add: loadable_def sample_saved_def sample_nmbm_def)
  have refuse: "\<not> loadable (?t c\<lparr>signature_ba := 14\<rparr>) 8 10 sample_saved" for c
    by (simp add: loadable_def sample_saved_def sample_nmbm_def)
  note th = nmbm_info_table_roundtrip [OF sim_crc_streams saved_layout]
  show ?thesis
    by (rule returns_mono [OF th]) (auto simp: Let_def load low refuse geom)
qed

section \<open>The mapping of a new chip\<close>

text \<open>The blocks of a chip that are not bad, up to a limit.\<close>

definition usable :: "u32 list \<Rightarrow> nat \<Rightarrow> nat list" where
  "usable bst n = filter (\<lambda>b. bst_get bst b \<noteq> BLOCK_ST_BAD) [0..<n]"

lemma map_good_loop_eq:
  assumes "unat n \<le> 16 * length bst" and "unat n \<le> length bmap" and "unat pb \<le> unat n"
    and "lb = of_nat (length (usable bst (unat pb)))"
  shows "nmbm_map_good_loop bst pb n lb bmap =
    (let us = usable bst (unat n); k = length (usable bst (unat pb))
     in Some (of_nat (length us), take k bmap @ map of_nat (drop k us) @ drop (length us) bmap))"
  using assms
proof (induction bst pb n lb bmap rule: nmbm_map_good_loop.induct)
  case (1 bst pb n lb bmap)
  let ?k = "length (usable bst (unat pb))"
  have kle: "?k \<le> unat pb" unfolding usable_def by (rule order_trans [OF length_filter_le]) simp
  show ?case
  proof (cases "pb < n")
    case False
    then have "unat pb = unat n" using "1.prems"(3) by (simp add: unat_less)
    then show ?thesis using False "1.prems"(4)
      by (subst nmbm_map_good_loop.simps) (simp add: Let_def)
  next
    case True
    have inc: "unat (pb + 1) = Suc (unat pb)" using True by (rule unat_inc)
    have lt: "unat pb < unat n" using True by (simp add: unat_less)
    have raw: "nmbm_get_block_state_raw bst pb = Some (bst_get bst (unat pb))"
      using lt "1.prems"(1) by (simp add: get_raw_eq)
    have k32: "?k < 2 ^ 32" using kle unat32_bound [of pb] by simp
    have lbk: "unat lb = ?k" unfolding "1.prems"(4) by (rule unat_of_nat32 [OF k32])
    have up: "usable bst (unat (pb + 1)) =
        usable bst (unat pb) @ (if bst_get bst (unat pb) \<noteq> BLOCK_ST_BAD then [unat pb] else [])"
      by (simp add: inc usable_def)
    have split: "usable bst (unat n) = usable bst (unat (pb + 1)) @
        filter (\<lambda>b. bst_get bst b \<noteq> BLOCK_ST_BAD) [Suc (unat pb)..<unat n]"
    proof -
      have "[0..<unat n] = [0..<Suc (unat pb)] @ [Suc (unat pb)..<unat n]"
        using upt_add_eq_append [of 0 "Suc (unat pb)" "unat n - Suc (unat pb)"] lt by simp
      then show ?thesis unfolding usable_def inc by (simp only: filter_append)
    qed
    show ?thesis
    proof (cases "bst_get bst (unat pb) = BLOCK_ST_BAD")
      case bad: True
      then have u: "usable bst (unat (pb + 1)) = usable bst (unat pb)" using up by simp
      have "nmbm_map_good_loop bst (pb + 1) n lb bmap =
        (let us = usable bst (unat n); k = length (usable bst (unat (pb + 1)))
         in Some (of_nat (length us), take k bmap @ map of_nat (drop k us) @ drop (length us) bmap))"
        using "1.IH"(1) [OF True raw bad] "1.prems" inc lt u by simp
      then show ?thesis using True raw bad u by (subst nmbm_map_good_loop.simps) simp
    next
      case good: False
      then have u: "usable bst (unat (pb + 1)) = usable bst (unat pb) @ [unat pb]" using up by simp
      let ?b = "bmap[?k := pb]"
      have kl: "?k < length bmap" using kle lt "1.prems"(2) by simp
      then have set: "arr_set bmap (unat lb) pb = Some ?b" by (simp add: arr_set_def lbk)
      have "nmbm_map_good_loop bst (pb + 1) n (lb + 1) ?b =
        (let us = usable bst (unat n); k = length (usable bst (unat (pb + 1)))
         in Some (of_nat (length us), take k ?b @ map of_nat (drop k us) @ drop (length us) ?b))"
        using "1.IH"(2) [OF True raw good set] "1.prems" inc lt u by (simp add: add.commute)
      moreover have "take (Suc ?k) ?b = take ?k bmap @ [pb]"
        using kl by (simp add: take_Suc_conv_app_nth)
      moreover have "drop ?k (usable bst (unat n)) = unat pb # drop (Suc ?k) (usable bst (unat n))"
        by (simp add: split u)
      moreover have "length (usable bst (unat n)) > ?k" by (simp add: split u)
      ultimately show ?thesis using True raw good set u
        by (subst nmbm_map_good_loop.simps) (simp add: Let_def)
    qed
  qed
qed

lemma unmap_loop_eq:
  assumes "unat pb \<le> unat n" and "unat n \<le> length bmap"
  shows "nmbm_unmap_loop pb n bmap =
    Some (take (unat pb) bmap @ replicate (unat n - unat pb) (- 1) @ drop (unat n) bmap)"
  using assms
proof (induction pb n bmap rule: nmbm_unmap_loop.induct)
  case (1 pb n bmap)
  show ?case
  proof (cases "pb < n")
    case False
    then have "unat pb = unat n" using "1.prems"(1) by (simp add: unat_less)
    then show ?thesis using False by (subst nmbm_unmap_loop.simps) simp
  next
    case True
    have inc: "unat (pb + 1) = Suc (unat pb)" using True by (rule unat_inc)
    have lt: "unat pb < unat n" using True by (simp add: unat_less)
    let ?b = "bmap[unat pb := - 1]"
    have set: "arr_set bmap (unat pb) (- 1) = Some ?b" using lt "1.prems"(2) by (simp add: arr_set_def)
    have "nmbm_unmap_loop (pb + 1) n ?b =
      Some (take (Suc (unat pb)) ?b @ replicate (unat n - Suc (unat pb)) (- 1) @ drop (unat n) ?b)"
      using "1.IH" [OF True set] "1.prems"(2) inc lt by simp
    moreover have "take (Suc (unat pb)) ?b = take (unat pb) bmap @ [- 1]"
      using lt "1.prems"(2) by (simp add: take_Suc_conv_app_nth)
    moreover have "replicate (unat n - unat pb) (- 1 :: u32) = - 1 # replicate (unat n - Suc (unat pb)) (- 1)"
      using lt by (simp add: Suc_diff_Suc flip: replicate_Suc)
    ultimately show ?thesis using True set lt by (subst nmbm_unmap_loop.simps) simp
  qed
qed

text \<open>
  C24: \<open>nmbm_build_mapping_table\<close> maps the logical blocks, in order, to the blocks below the
  management area that are not bad, counts them, and marks every later logical block as unmapped.
  Distinct logical blocks get distinct blocks, and no entry outside the table is written.
\<close>

theorem nmbm_build_mapping:
  assumes "mgmt_start_ba s \<le> block_count s" and "unat (block_count s) \<le> 16 * length (block_state s)"
    and "length (block_mapping s) = unat (block_count s)"
  shows "returns (nmbm_build_mapping_table s) (\<lambda>s'.
    (let us = usable (block_state s) (unat (mgmt_start_ba s))
     in unat (data_block_count s') = length us \<and>
        block_mapping s' = map of_nat us @ replicate (unat (block_count s) - length us) (- 1) \<and>
        distinct (map (of_nat :: nat \<Rightarrow> u32) us)))"
proof -
  let ?us = "usable (block_state s) (unat (mgmt_start_ba s))" and ?m = "mgmt_start_ba s"
  have m: "unat ?m \<le> unat (block_count s)" using assms(1) by (simp add: word_le_nat_alt)
  have len: "length ?us \<le> unat ?m" unfolding usable_def by (rule order_trans [OF length_filter_le]) simp
  have good: "nmbm_map_good_loop (block_state s) 0 ?m 0 (block_mapping s) =
      Some (of_nat (length ?us), map of_nat ?us @ drop (length ?us) (block_mapping s))"
    using map_good_loop_eq [of ?m "block_state s" "block_mapping s" 0 0] m assms(2,3)
    by (simp add: usable_def Let_def)
  have u: "unat (of_nat (length ?us) :: u32) = length ?us"
    using len unat32_bound [of ?m] by (intro unat_of_nat32) simp
  have "nmbm_unmap_loop (of_nat (length ?us)) (block_count s) (map of_nat ?us @ drop (length ?us) (block_mapping s)) =
      Some (map of_nat ?us @ replicate (unat (block_count s) - length ?us) (- 1))"
    using len m assms(3) by (subst unmap_loop_eq) (simp_all add: u)
  moreover have "distinct (map (of_nat :: nat \<Rightarrow> u32) ?us)"
  proof -
    have "inj_on (of_nat :: nat \<Rightarrow> u32) (set ?us)"
    proof (rule inj_onI)
      fix a b assume ab: "a \<in> set ?us" "b \<in> set ?us" "(of_nat a :: u32) = of_nat b"
      have "a < 2 ^ 32" "b < 2 ^ 32" using ab(1,2) unat32_bound [of ?m] by (auto simp: usable_def)
      then show "a = b" using arg_cong [OF ab(3), of unat] by (simp only: unat_of_nat32)
    qed
    then show ?thesis by (simp add: distinct_map usable_def)
  qed
  ultimately show ?thesis
    using u by (simp add: nmbm_build_mapping_table_def good Let_def)
qed

theorem nmbm_build_mapping_witness:
  "returns (nmbm_build_mapping_table sample_nmbm) (\<lambda>s'. unat (data_block_count s') = 8 \<and>
    block_mapping s' = [0, 1, 2, 3, 4, 5, 6, 7] @ replicate 8 (- 1))"
proof -
  have g: "bst_get [- 1] n \<noteq> 0" if "n < 16" for n
  proof -
    have "bst_get [- 1] n = 3"
      using that by (auto simp: bst_get_def three_mask intro!: bit_word_eqI simp: bit_simps)
    then show ?thesis by simp
  qed
  have u: "usable [- 1] 8 = [0, 1, 2, 3, 4, 5, 6, 7]"
    by (simp add: usable_def upt_rec g)
  show ?thesis
    using nmbm_build_mapping [of sample_nmbm]
    by (simp add: sample_nmbm_def sample_init_fields u Let_def) (auto elim!: returns_mono simp: Let_def)
qed

section \<open>Spare blocks\<close>

lemma first_good:
  "(if unat (0 :: u32) < length gs then Some (of_nat (gs ! unat (0 :: u32))) else None) =
     (case gs of [] \<Rightarrow> None | g # _ \<Rightarrow> Some (of_nat g))"
  by (cases gs) simp_all

lemma walk_down_first:
  assumes "covers s (block_count s)" and "ba < block_count s" and "limit < block_count s"
  shows "nmbm_block_walk s False ba 0 limit =
    Some (case filter (blk_good (block_state s)) (rev [Suc (unat limit)..<Suc (unat ba)]) of
            [] \<Rightarrow> None | g # _ \<Rightarrow> Some (of_nat g))"
proof -
  have "unat ba < 16 * length (block_state s)" using assms(1,2) by (simp add: covers_def word_less_nat_alt)
  moreover have "unat (0 :: u32) < 2147483648" by simp
  ultimately have eq: "nmbm_walk_desc_loop (block_state s) ba 0 limit =
    Some (let gs = filter (blk_good (block_state s)) (rev [Suc (unat limit)..<Suc (unat ba)])
          in if unat (0 :: u32) < length gs then Some (of_nat (gs ! unat (0 :: u32))) else None)"
    by (rule walk_desc_loop_eq)
  have "nmbm_block_walk s False ba 0 limit = nmbm_walk_desc_loop (block_state s) ba 0 limit"
    using assms(3) by (simp add: nmbm_block_walk_def nmbm_block_walk_desc_def flip: not_less)
  then show ?thesis by (simp only: eq Let_def first_good)
qed

lemma map_block_first:
  assumes "covers s (block_count s)" and "mapping_blocks_top_ba s < block_count s"
    and "mapping_blocks_ba s < mapping_blocks_top_ba s" and "unat lb < length (block_mapping s)"
    and "filter (blk_good (block_state s)) (rev [Suc (unat (mapping_blocks_ba s))..<Suc (unat (mapping_blocks_top_ba s))])
      = g # gs"
  shows "nmbm_map_block env lb s = Some (True, s\<lparr>block_mapping := (block_mapping s)[unat lb := of_nat g],
    mapping_blocks_top_ba := mapping_blocks_top_ba s - 1, block_mapping_changed := block_mapping_changed s + 1\<rparr>)"
proof -
  have "mapping_blocks_ba s < block_count s" using assms(2,3) by simp
  from walk_down_first [OF assms(1,2) this] show ?thesis
    using assms(3-5) by (auto simp: nmbm_map_block_def arr_set_def)
qed

lemma rev_upt_Suc: "m \<le> n \<Longrightarrow> rev [m..<Suc n] = n # rev [m..<n]"
  by simp

text \<open>
  C39: When the topmost spare block is not good and the one below it is, two calls of
  \<open>nmbm_map_block\<close> in a row map both logical blocks to the same spare block: the top only moves
  down by one although the walk skipped a block.
\<close>

theorem nmbm_double_mapping:
  assumes "covers s (block_count s)" and "mapping_blocks_top_ba s < block_count s"
    and "unat (mapping_blocks_ba s) + 1 < unat (mapping_blocks_top_ba s)"
    and "bst_get (block_state s) (unat (mapping_blocks_top_ba s)) \<noteq> BLOCK_ST_GOOD"
    and "bst_get (block_state s) (unat (mapping_blocks_top_ba s) - 1) = BLOCK_ST_GOOD"
    and "unat a < length (block_mapping s)" and "unat b < length (block_mapping s)" and "a \<noteq> b"
  shows "\<exists>s1 s2. nmbm_map_block env a s = Some (True, s1) \<and> nmbm_map_block env b s1 = Some (True, s2) \<and>
    block_mapping s2 ! unat a = block_mapping s2 ! unat b"
proof -
  let ?t = "mapping_blocks_top_ba s" and ?m = "mapping_blocks_ba s"
  obtain t where t: "unat ?t = Suc t" using assms(3) by (cases "unat ?t") auto
  have mt: "unat ?m < t" using assms(3) t by simp
  have lt: "?m < ?t" using mt t by (simp add: word_less_nat_alt)
  have top1: "unat (?t - 1) = t" using unat_dec [OF lt] t by simp
  have lt1: "?m < ?t - 1" using mt top1 by (simp add: word_less_nat_alt)
  have bc1: "?t - 1 < block_count s" using assms(2) top1 t by (simp add: word_less_nat_alt)
  have bad: "\<not> blk_good (block_state s) (Suc t)" and good: "blk_good (block_state s) t"
    using assms(4,5) t by simp_all
  have "filter (blk_good (block_state s)) (rev [Suc (unat ?m)..<Suc (unat ?t)]) =
      t # filter (blk_good (block_state s)) (rev [Suc (unat ?m)..<t])"
    using mt bad good by (simp add: t rev_upt_Suc)
  note first = map_block_first [OF assms(1,2) lt assms(6) this, of env]
  let ?s1 = "s\<lparr>block_mapping := (block_mapping s)[unat a := of_nat t],
    mapping_blocks_top_ba := ?t - 1, block_mapping_changed := block_mapping_changed s + 1\<rparr>"
  have "filter (blk_good (block_state ?s1)) (rev [Suc (unat (mapping_blocks_ba ?s1))..<Suc (unat (mapping_blocks_top_ba ?s1))]) =
      t # filter (blk_good (block_state s)) (rev [Suc (unat ?m)..<t])"
    using mt good by (simp add: top1 rev_upt_Suc)
  moreover have "covers ?s1 (block_count ?s1)" using assms(1) by (simp add: covers_def)
  ultimately have second: "nmbm_map_block env b ?s1 = Some (True, ?s1\<lparr>block_mapping := (block_mapping ?s1)[unat b := of_nat t],
      mapping_blocks_top_ba := ?t - 1 - 1, block_mapping_changed := block_mapping_changed ?s1 + 1\<rparr>)"
    using map_block_first [of ?s1 b t _ env] bc1 lt1 assms(7) by simp
  show ?thesis
    by (rule exI [of _ ?s1], rule exI, rule conjI [OF first], rule conjI [OF second])
      (use assms(6,7) in \<open>simp add: nth_list_update\<close>)
qed

definition bad_top :: "sim_nand nmbm" where
  "bad_top = sample_nmbm\<lparr>block_state := [0xCFFFFFFF], mapping_blocks_ba := 11\<rparr>"

theorem nmbm_double_mapping_witness:
  "\<exists>s1 s2. nmbm_map_block sim_bmtd 3 bad_top = Some (True, s1) \<and> nmbm_map_block sim_bmtd 5 s1 = Some (True, s2) \<and>
    block_mapping s2 ! 3 = block_mapping s2 ! 5"
  using nmbm_double_mapping [of bad_top 3 5 sim_bmtd]
  by (simp add: bad_top_def sample_nmbm_def sample_init_fields covers_def bst_get_def)

section \<open>The signature search\<close>

lemma find_loop_some:
  "nmbm_find_loop env ba limit sig s = Some r \<Longrightarrow> limit = 0 \<longrightarrow> fst r \<noteq> None"
proof (rule nmbm_find_loop.raw_induct [where P = "\<lambda>env ba limit sig s r. limit = 0 \<longrightarrow> fst r \<noteq> None"])
  fix f :: "'a bmtd \<Rightarrow> u32 \<Rightarrow> u32 \<Rightarrow> u8 list \<Rightarrow> 'a nmbm \<Rightarrow> ((nmbm_signature \<times> u32) option \<times> 'a nmbm) option"
    and env ba limit sig s r
  assume ih: "\<And>env ba limit sig s r. f env ba limit sig s = Some r \<Longrightarrow> limit = 0 \<longrightarrow> fst r \<noteq> None"
    and run: "(if limit \<le> ba then do {
        let ba = ba - 1;
        (bad, s) \<leftarrow> nmbm_check_bad_phys_block env ba s;
        if bad then f env ba limit sig s
        else do {
          (r, sig, s) \<leftarrow> nmbm_signature_pages env (ba2addr env ba) 0 sig s;
          (case r of
             Some g \<Rightarrow> Some (Some (g, ba), s)
           | None \<Rightarrow> f env ba limit sig s)
        }
      }
      else Some (None, s)) = Some r"
  show "limit = 0 \<longrightarrow> fst r \<noteq> None"
    using run by (auto simp: bind_eq_Some_conv Let_def split: if_split_asm option.split_asm dest: ih)
qed

text \<open>
  With a limit of 0, which \<open>nmbm_find_signature\<close> uses for chips of fewer than sixteen blocks
  and for a ratio of sixteen, the search never ends without a signature: the loop condition
  \<open>ba >= limit\<close> holds for every unsigned block number.
\<close>

theorem nmbm_find_never_fails:
  "nmbm_find_loop env ba 0 sig s \<noteq> Some (None, s')"
  using find_loop_some [of env ba 0 sig s "(None, s')"] by auto

end
