(* ===== verification/Bmt_Copy.thy ===== *)
theory Bmt_Copy
  imports Flash_Addr
begin

text \<open>
  Erasing a block and copying a block, shared by the v2 and BBT schemes: both have a defined result
  on every chip that keeps its contract, and modify addresses of the destination block only.
\<close>

lemma erase_step:
  assumes "geom_ok env"
  shows "dev_steps env (block_addrs env (ucast b)) d (snd (bbt_nand_erase env b d))"
proof -
  have "spans (block_addrs env (ucast b)) (blk_addr env (ucast b)) (unat (ucast (blk_size env) :: u64))"
    using spans_whole_block [OF assms] assms by (simp add: geom_ok_def)
  from dev_steps_single [OF step_erase [OF this]] show ?thesis by (simp add: bbt_nand_erase_def)
qed

lemma unat_add_offset:
  assumes "0 \<le> off" and "unat a + nat off < 2 ^ 64"
  shows "unat (a + word_of_int off :: u64) = unat a + nat off"
proof -
  have off: "word_of_int off = (of_nat (nat off) :: u64)" using assms(1) by simp
  have "unat (of_nat (nat off) :: u64) = nat off"
    using assms(2) by (simp add: unat_of_nat take_bit_nat_eq_self)
  then show ?thesis
    unfolding off using assms(2) by (simp add: unat_word_ariths(1))
qed

lemma copy_loop_spec:
  assumes "geom_ok env" and "drv_bounded env" and "unat (pg_size env) \<le> length buf" and "length oob = 64"
    and "0 \<le> off" and "nat off + n * unat (pg_size env) \<le> 2 ^ unat (blk_shift env)"
  shows "returns (bbt_nand_copy_loop n env (blk_addr env ba) src mx off pages oob buf d)
    (\<lambda>(r, buf', d'). length buf' = length buf \<and> dev_steps env (block_addrs env ba) d d')"
  using assms(3-)
proof (induction n arbitrary: off oob buf d)
  case 0
  show ?case by (simp add: steps_refl)
next
  case (Suc n)
  let ?p = "unat (pg_size env)" and ?B = "block_addrs env ba"
  let ?o = "min (unat (oobsize env) div pages) 64"
  obtain rd d1 where rd: "drv_read_oob env d (src + word_of_int off) ?p ?o 0 = (rd, d1)"
    by (cases "drv_read_oob env d (src + word_of_int off) ?p ?o 0")
  have len: "length (rd_dat rd) \<le> ?p" "length (rd_oob rd) \<le> ?o"
    using assms(2) rd unfolding drv_bounded_def by (metis fst_conv)+
  have d1: "dev_steps env ?B d d1"
    using dev_steps_single [OF step_read] rd by (metis snd_conv)
  obtain buf1 where b1: "buf_put buf 0 (rd_dat rd) = Some buf1" "length buf1 = length buf"
    using buf_put_ok [of 0 "rd_dat rd" buf] len(1) Suc.prems(1) by auto
  obtain oob1 where o1: "buf_put oob 0 (rd_oob rd) = Some oob1" "length oob1 = 64"
    using buf_put_ok [of 0 "rd_oob rd" oob] len(2) Suc.prems(2) by auto
  obtain page where page: "buf_get buf1 0 ?p = Some page" "length page = ?p"
    using buf_get_ok [of 0 ?p buf1] b1(2) Suc.prems(1) by auto
  obtain wr d2 where wr: "drv_write_oob env d1 (blk_addr env ba + word_of_int off) page [] 0 = (wr, d2)"
    by (cases "drv_write_oob env d1 (blk_addr env ba + word_of_int off) page [] 0")
  have fits: "nat off + ?p + n * ?p \<le> 2 ^ unat (blk_shift env)" using Suc.prems(4) by simp
  have a: "unat (blk_addr env ba + word_of_int off) = unat ba * 2 ^ unat (blk_shift env) + nat off"
    using block_end_bound [OF assms(1), of ba] fits Suc.prems(3)
    by (subst unat_add_offset) (simp_all add: unat_blk_addr [OF assms(1)])
  have "spans ?B (blk_addr env ba + word_of_int off) (length page)"
    by (rule spans_block [OF assms(1)]) (use a fits page(2) assms(1) in \<open>simp_all add: geom_ok_def\<close>)
  from dev_steps_single [OF step_write [OF this]] have d2: "dev_steps env ?B d1 d2"
    using wr by (metis snd_conv)
  have ih: "returns (bbt_nand_copy_loop n env (blk_addr env ba) src mx (off + int (length (rd_dat rd))) pages oob1 buf1 d2)
    (\<lambda>(r, buf', d'). length buf' = length buf1 \<and> dev_steps env ?B d2 d')"
    using Suc.prems fits len(1) b1(2) o1(2) by (intro Suc.IH) (simp_all add: nat_add_distrib)
  note run = dev_steps_trans [OF d1 d2]
  show ?case
    using rd b1 o1 page wr d1 run ih
    by (auto simp: steps_refl Let_def elim!: returns_mono intro: dev_steps_trans [OF run])
qed

lemma copy_spec:
  assumes "geom_ok env" and "drv_bounded env" and "unat (pg_size env) \<le> length buf"
  shows "returns (bbt_nand_copy env dest src mx buf d)
    (\<lambda>(r, buf', d'). length buf' = length buf \<and> dev_steps env (block_addrs env (ucast dest)) d d')"
proof -
  have "unat (drop_bit (unat (pg_shift env)) (blk_size env)) * unat (pg_size env) \<le> 2 ^ unat (blk_shift env)"
    using assms(1) div_times_less_eq_dividend [of "unat (blk_size env)" "unat (pg_size env)"]
    by (simp only: unat_drop_bit_eq) (simp add: geom_ok_def drop_bit_eq_div)
  then show ?thesis
    unfolding bbt_nand_copy_def Let_def by (intro copy_loop_spec assms) simp_all
qed

end
