(* ===== verification/Nmbm_Remap.thy ===== *)
theory Nmbm_Remap
  imports Nmbm_Theorems Bmt_Copy
begin

text \<open>
  Remapping a block in NMBM: \<open>remap_block_nmbm\<close> has a defined result on every chip, gives the block
  a good spare block or leaves the mapping alone, and modifies only the management area and the
  spare blocks.
\<close>

text \<open>The tables are in order and lie below the spare blocks, and block numbers fit a \<open>u16\<close>.\<close>

definition spare_ok :: "'d bmtd \<Rightarrow> 'd nmbm \<Rightarrow> bool" where
  "spare_ok env s \<longleftrightarrow> tables_ok env s \<and> unat (block_count s) \<le> 65536 \<and>
     unat (data_block_count s) \<le> length (block_mapping s) \<and>
     main_table_ba s \<le> mapping_blocks_ba s \<and> backup_table_ba s \<le> mapping_blocks_ba s"

lemma filter_first:
  assumes "filter P (rev [Suc m..<Suc t]) = g # gs"
  shows "m < g" "g \<le> t" "P g"
proof -
  have "g \<in> set (filter P (rev [Suc m..<Suc t]))" using assms by simp
  then show "m < g" "g \<le> t" "P g" by auto
qed

lemma narrow_block: "g < 65536 \<Longrightarrow> (ucast (ucast (of_nat g :: u32) :: u16) :: u32) = of_nat g"
proof -
  assume "g < 65536"
  then have "unat (ucast (of_nat g :: u32) :: u16) = g"
    by (simp add: unsigned_ucast_eq unat_of_nat take_bit_nat_eq_self)
  then have "unat (ucast (ucast (of_nat g :: u32) :: u16) :: u32) = g" by (simp only: unat_u16_u32)
  then have "of_nat (unat (ucast (ucast (of_nat g :: u32) :: u16) :: u32)) = (of_nat g :: u32)" by (rule arg_cong)
  then show ?thesis by simp
qed

text \<open>A good block after marking another one bad was good before.\<close>

lemma good_before:
  assumes "n < 16 * length bst" and "g < 16 * length bst" and "blk_good (bst_put bst n BLOCK_ST_BAD) g"
  shows "blk_good bst g" "g \<noteq> n"
  using assms by (auto simp: nst.get_put split: if_splits)

definition marked_bad :: "u16 \<Rightarrow> 'd nmbm \<Rightarrow> 'd nmbm \<Rightarrow> bool" where
  "marked_bad mb s s1 \<longleftrightarrow> (\<exists>k. s1 = s\<lparr>block_state := bst_put (block_state s) (unat mb) BLOCK_ST_BAD,
     block_state_changed := k\<rparr>)"

lemma mark_bad_state:
  assumes "unat mb < 16 * length (block_state s)"
  shows "\<exists>r s1. nmbm_set_block_state s (ucast mb) BLOCK_ST_BAD = Some (r, s1) \<and> marked_bad mb s s1"
proof (cases "bst_get (block_state s) (unat mb) \<noteq> BLOCK_ST_BAD")
  case True
  then show ?thesis using assms by (auto simp: set_block_state_eq marked_bad_def Let_def)
next
  case False
  let ?s = "s\<lparr>block_state := bst_put (block_state s) (unat mb) BLOCK_ST_BAD\<rparr>"
  have "?s = s\<lparr>block_state := bst_put (block_state s) (unat mb) BLOCK_ST_BAD,
      block_state_changed := block_state_changed s\<rparr>" by simp
  then have "marked_bad mb s ?s" unfolding marked_bad_def by blast
  then show ?thesis using assms False by (auto simp: set_block_state_eq Let_def)
qed

lemma marked_bad_ok:
  assumes "marked_bad mb s s1" and "spare_ok env s"
  shows "spare_ok env s1" "length (block_state s1) = length (block_state s)" "dev s1 = dev s"
    "block_mapping s1 = block_mapping s" "mapping_blocks_ba s1 = mapping_blocks_ba s"
    "mapping_blocks_top_ba s1 = mapping_blocks_top_ba s" "mgmt_start_ba s1 = mgmt_start_ba s"
    "block_count s1 = block_count s" "page_cache s1 = page_cache s"
proof -
  obtain k where s1: "s1 = s\<lparr>block_state := bst_put (block_state s) (unat mb) BLOCK_ST_BAD, block_state_changed := k\<rparr>"
    using assms(1) by (auto simp: marked_bad_def)
  have len: "length (bst_put (block_state s) (unat mb) BLOCK_ST_BAD) = length (block_state s)"
    by (simp add: bst_put_def)
  show "spare_ok env s1"
    using assms(2) by (simp add: s1 len spare_ok_def tables_ok_def buf_ok_def cache_ok_def areas_ok_def covers_def)
qed (use assms(1) in \<open>auto simp: marked_bad_def bst_put_def\<close>)

text \<open>The state after a block was mapped to spare block \<open>g\<close>, and the chip was used.\<close>

lemma mapped_tables_ok:
  assumes "spare_ok env s" and "mapping_blocks_ba s < mapping_blocks_top_ba s"
    and "length bm = length (block_mapping s)" and "length pc = length (page_cache s)"
  shows "tables_ok env (s\<lparr>block_mapping := bm, mapping_blocks_top_ba := mapping_blocks_top_ba s - 1,
    block_mapping_changed := k, page_cache := pc, dev := d\<rparr>)"
proof -
  have t: "tables_ok env s" and lows: "main_table_ba s \<le> mapping_blocks_ba s" "backup_table_ba s \<le> mapping_blocks_ba s"
    using assms(1) by (simp_all add: spare_ok_def)
  have dec: "unat (mapping_blocks_top_ba s - 1) = unat (mapping_blocks_top_ba s) - 1"
    using assms(2) by (rule unat_dec)
  have le: "mapping_blocks_ba s \<le> mapping_blocks_top_ba s - 1" "mapping_blocks_top_ba s - 1 < mapping_blocks_top_ba s"
    using assms(2) dec by (auto simp: word_le_nat_alt word_less_nat_alt)
  have "areas_ok (s\<lparr>block_mapping := bm, mapping_blocks_top_ba := mapping_blocks_top_ba s - 1,
      block_mapping_changed := k, page_cache := pc, dev := d\<rparr>)"
    using t lows le by (auto simp: tables_ok_def areas_ok_def intro: order_trans less_trans)
  then show ?thesis
    using t assms(3,4) by (simp add: tables_ok_def buf_ok_def cache_ok_def covers_def)
qed

text \<open>What \<open>nmbm_map_block\<close> does, in the three cases.\<close>

lemma map_block_cases:
  assumes "env_ok env" and "spare_ok env s" and "unat lb < length (block_mapping s)"
  shows "returns (nmbm_map_block env lb s) (\<lambda>(ok, s').
    if ok then \<exists>g k. unat (mapping_blocks_ba s) < g \<and> g \<le> unat (mapping_blocks_top_ba s) \<and>
        blk_good (block_state s) g \<and> mapping_blocks_ba s < mapping_blocks_top_ba s \<and>
        s' = s\<lparr>block_mapping := (block_mapping s)[unat lb := of_nat g],
               mapping_blocks_top_ba := mapping_blocks_top_ba s - 1, block_mapping_changed := k\<rparr>
    else block_mapping s' = block_mapping s \<and>
      dev_steps env (in_blocks env (mgmt_start_ba s) (mapping_blocks_top_ba s)) (dev s) (dev s'))"
proof (cases "mapping_blocks_ba s = mapping_blocks_top_ba s")
  case True
  then show ?thesis by (simp add: nmbm_map_block_def steps_refl)
next
  case False
  have t: "tables_ok env s" using assms(2) by (simp add: spare_ok_def)
  have lt: "mapping_blocks_ba s < mapping_blocks_top_ba s" and top: "mapping_blocks_top_ba s < block_count s"
    and cov: "covers s (block_count s)"
    using t False by (auto simp: tables_ok_def areas_ok_def)
  let ?gs = "filter (blk_good (block_state s)) (rev [Suc (unat (mapping_blocks_ba s))..<Suc (unat (mapping_blocks_top_ba s))])"
  show ?thesis
  proof (cases ?gs)
    case (Cons g gs)
    note g = filter_first [OF Cons]
    show ?thesis
      unfolding map_block_first [OF cov top lt assms(3) Cons]
      using g lt by auto
  next
    case Nil
    have "mapping_blocks_ba s < block_count s" using lt top by simp
    note walk = walk_down_first [OF cov top this, unfolded Nil list.case]
    show ?thesis
      using update_info_table_spec [OF assms(1) t] False walk
      by (auto simp: nmbm_map_block_def upd_step_def same_map_def elim!: returns_mono)
  qed
qed

text \<open>Copying the data of a block into the spare block touches that block only.\<close>

lemma remap_copy:
  assumes "geom_ok env" and "drv_bounded env" and "unat (pg_size env) \<le> length (page_cache s)"
    and "\<And>a. block_addrs env (ucast new) a \<Longrightarrow> A a"
  shows "\<exists>buf d. (if 0 < copy_len then do {
        (_, buf, d) \<leftarrow> bbt_nand_copy env new src copy_len (page_cache s) (dev s);
        Some (s\<lparr>page_cache := buf, dev := d\<rparr>)
      } else Some s) = Some (s\<lparr>page_cache := buf, dev := d\<rparr>) \<and>
    length buf = length (page_cache s) \<and> dev_steps env A (dev s) d"
proof (cases "0 < copy_len")
  case True
  from copy_spec [OF assms(1-3), of new src copy_len "dev s"]
  obtain r buf d where "bbt_nand_copy env new src copy_len (page_cache s) (dev s) = Some (r, buf, d)"
    "length buf = length (page_cache s)" "dev_steps env (block_addrs env (ucast new)) (dev s) d"
    by (auto simp: returns_eq)
  then show ?thesis using True by (auto intro: dev_steps_mono assms(4))
next
  case False
  have "s = s\<lparr>page_cache := page_cache s, dev := dev s\<rparr>" by simp
  with False show ?thesis by (metis steps_refl)
qed

text \<open>What follows when a spare block was found: erase it, copy, store the tables.\<close>

lemma remap_moved:
  assumes "env_ok env" and "tables_ok env s2" and "geom_ok env" and "drv_bounded env"
    and "\<And>a. block_addrs env (ucast new) a \<Longrightarrow> A a"
    and "\<And>a. in_blocks env (mgmt_start_ba s2) (mapping_blocks_top_ba s2) a \<Longrightarrow> A a"
  shows "\<exists>s'. (let (_, d) = bbt_nand_erase env new (dev s2); s = s2\<lparr>dev := d\<rparr> in do {
        s \<leftarrow> (if 0 < copy_len then do {
               (_, buf, d) \<leftarrow> bbt_nand_copy env new src copy_len (page_cache s) (dev s);
               Some (s\<lparr>page_cache := buf, dev := d\<rparr>)
             } else Some s);
        (_, s) \<leftarrow> nmbm_update_info_table env s;
        Some (True, s)
      }) = Some (True, s') \<and>
    tables_ok env s' \<and> block_mapping s' = block_mapping s2 \<and> dev_steps env A (dev s2) (dev s')"
proof -
  obtain r d1 where er: "bbt_nand_erase env new (dev s2) = (r, d1)" by (cases "bbt_nand_erase env new (dev s2)")
  have step1: "dev_steps env A (dev s2) d1"
    using dev_steps_mono [OF erase_step [OF assms(3), of new "dev s2"] assms(5)] er by simp
  let ?s3 = "s2\<lparr>dev := d1\<rparr>"
  have pc: "unat (pg_size env) \<le> length (page_cache ?s3)"
    using assms(2) by (simp add: tables_ok_def buf_ok_def)
  obtain buf d2 where copy: "(if 0 < copy_len then do {
        (_, buf, d) \<leftarrow> bbt_nand_copy env new src copy_len (page_cache ?s3) (dev ?s3);
        Some (?s3\<lparr>page_cache := buf, dev := d\<rparr>)
      } else Some ?s3) = Some (?s3\<lparr>page_cache := buf, dev := d2\<rparr>)"
    and buf: "length buf = length (page_cache s2)" and step2: "dev_steps env A d1 d2"
    using remap_copy [where new = new and A = A and src = src and copy_len = copy_len, OF assms(3,4) pc assms(5)]
    by auto
  have ok: "tables_ok env (?s3\<lparr>page_cache := buf, dev := d2\<rparr>)"
    using assms(2) buf by (simp add: tables_ok_def buf_ok_def areas_ok_def covers_def cache_ok_def)
  obtain r' s' where upd: "nmbm_update_info_table env (?s3\<lparr>page_cache := buf, dev := d2\<rparr>) = Some (r', s')"
    and step3: "upd_step env (?s3\<lparr>page_cache := buf, dev := d2\<rparr>) s'"
    using update_info_table_spec [OF assms(1) ok] by (auto simp: returns_eq)
  have "dev_steps env A d2 (dev s')"
    using step3 assms(6) by (auto simp: upd_step_def intro: dev_steps_mono)
  then have "dev_steps env A (dev s2) (dev s')"
    by (rule dev_steps_trans [OF dev_steps_trans [OF step1 step2]])
  then show ?thesis using er copy upd step3 by (simp add: upd_step_def same_map_def)
qed

text \<open>
  C3: \<open>remap_block_nmbm\<close> ends with a defined result on every chip. When it returns true, the block
  is mapped to a block of the spare area that was marked good and is not the retired one, every
  other mapping is unchanged and the instance is well-formed; otherwise the mapping is unchanged.
  Everything it erases, programs or marks lies between the start of the management area and the
  last spare block.
\<close>

theorem nmbm_remap_block:
  assumes "env_ok env" and "spare_ok env s" and "ucast mapped_block < block_count s"
    and "chip_keeps env (in_blocks env (mgmt_start_ba s) (mapping_blocks_top_ba s + 1)) I" and "I (dev s)"
  shows "returns (remap_block_nmbm env block mapped_block copy_len s) (\<lambda>(done, s'). I (dev s') \<and>
    (if done then tables_ok env s' \<and>
       (\<exists>g. unat (mapping_blocks_ba s) < g \<and> g \<le> unat (mapping_blocks_top_ba s) \<and>
          bst_get (block_state s) g = BLOCK_ST_GOOD \<and> g \<noteq> unat mapped_block \<and>
          block_mapping s' = (block_mapping s)[unat block := of_nat g])
     else block_mapping s' = block_mapping s))"
proof (cases "ucast block \<ge> data_block_count s")
  case True
  then show ?thesis using assms(5) by (simp add: remap_block_nmbm_def)
next
  case False
  let ?A = "in_blocks env (mgmt_start_ba s) (mapping_blocks_top_ba s + 1)"
  have t: "tables_ok env s" and bc: "unat (block_count s) \<le> 65536" using assms(2) by (simp_all add: spare_ok_def)
  have g: "geom_ok env" "drv_bounded env" using assms(1) by (simp_all add: env_ok_def)
  have areas: "mapping_blocks_top_ba s < block_count s" "mgmt_start_ba s \<le> mapping_blocks_ba s"
    and cov: "unat (block_count s) \<le> 16 * length (block_state s)"
    using t by (simp_all add: tables_ok_def areas_ok_def covers_def)
  have top1: "unat (mapping_blocks_top_ba s + 1) = Suc (unat (mapping_blocks_top_ba s))"
    using areas(1) by (rule unat_inc)
  have mb: "unat mapped_block < 16 * length (block_state s)"
    using assms(3) cov by (simp add: word_less_nat_alt)
  have blk: "unat block < length (block_mapping s)"
    using False assms(2) by (simp add: spare_ok_def not_le word_less_nat_alt)
  obtain r s1 where mark: "nmbm_set_block_state s (ucast mapped_block) BLOCK_ST_BAD = Some (r, s1)"
    and m1: "marked_bad mapped_block s s1"
    using mark_bad_state [OF mb] by blast
  note s1 = marked_bad_ok [OF m1 assms(2)]
  have ub: "unat (ucast block :: u32) = unat block" by simp
  have lb: "unat (ucast block :: u32) < length (block_mapping s1)" using blk s1(4) by simp
  have lower: "in_blocks env (mgmt_start_ba s) (mapping_blocks_top_ba s) a \<Longrightarrow> ?A a" for a
    by (rule in_blocks_mono) (auto simp: word_le_nat_alt top1)
  obtain ok s2 where map: "nmbm_map_block env (ucast block) s1 = Some (ok, s2)"
    and m: "if ok then \<exists>g k. unat (mapping_blocks_ba s) < g \<and> g \<le> unat (mapping_blocks_top_ba s) \<and>
        blk_good (block_state s1) g \<and> mapping_blocks_ba s < mapping_blocks_top_ba s \<and>
        s2 = s1\<lparr>block_mapping := (block_mapping s)[unat block := of_nat g],
               mapping_blocks_top_ba := mapping_blocks_top_ba s - 1, block_mapping_changed := k\<rparr>
      else block_mapping s2 = block_mapping s \<and>
        dev_steps env (in_blocks env (mgmt_start_ba s) (mapping_blocks_top_ba s)) (dev s) (dev s2)"
    using map_block_cases [OF assms(1) s1(1) lb, unfolded ub s1(3-7)] by (auto simp: returns_eq)
  show ?thesis
  proof (cases ok)
    case False
    then have "dev_steps env ?A (dev s) (dev s2)" "block_mapping s2 = block_mapping s"
      using m by (auto intro: dev_steps_mono lower)
    then show ?thesis
      using False mark map \<open>\<not> ucast block \<ge> data_block_count s\<close> dev_steps_keep [OF _ assms(4,5)]
      by (simp add: remap_block_nmbm_def)
  next
    case True
    then obtain h k where h: "unat (mapping_blocks_ba s) < h" "h \<le> unat (mapping_blocks_top_ba s)"
        "blk_good (block_state s1) h" "mapping_blocks_ba s < mapping_blocks_top_ba s"
      and s2: "s2 = s1\<lparr>block_mapping := (block_mapping s)[unat block := of_nat h],
        mapping_blocks_top_ba := mapping_blocks_top_ba s - 1, block_mapping_changed := k\<rparr>"
      using m by auto
    have hb: "h < 65536" "h < 16 * length (block_state s)"
      using h(2) areas(1) bc cov by (auto simp: word_less_nat_alt)
    have "block_state s1 = bst_put (block_state s) (unat mapped_block) BLOCK_ST_BAD"
      using m1 by (auto simp: marked_bad_def)
    with h(3) have was: "blk_good (block_state s) h" "h \<noteq> unat mapped_block"
      using good_before [OF mb hb(2)] by auto
    let ?new = "ucast (of_nat h :: u32) :: u16"
    have uh: "unat (of_nat h :: u32) = h" using hb(1) by (intro unat_of_nat32) simp
    have spare: "block_addrs env (ucast ?new) a \<Longrightarrow> ?A a" for a
      unfolding narrow_block [OF hb(1)]
      by (rule block_addrs_in [of env "of_nat h"]) (use h(1,2) areas(2) uh top1 in \<open>auto simp: word_le_nat_alt word_less_nat_alt\<close>)
    have ok2: "tables_ok env s2"
      using mapped_tables_ok [OF s1(1), where bm = "(block_mapping s)[unat block := of_nat h]"
          and pc = "page_cache s1" and k = k and d = "dev s1"] h(4) s1
      by (simp add: s2 tables_ok_def buf_ok_def areas_ok_def covers_def cache_ok_def)
    have f2: "mgmt_start_ba s2 = mgmt_start_ba s" "mapping_blocks_top_ba s2 = mapping_blocks_top_ba s - 1"
      "block_mapping s2 = (block_mapping s)[unat block := of_nat h]" "dev s2 = dev s"
      using s1 by (simp_all add: s2)
    have dec: "unat (mapping_blocks_top_ba s - 1) = unat (mapping_blocks_top_ba s) - 1" using h(4) by (rule unat_dec)
    have less: "in_blocks env (mgmt_start_ba s2) (mapping_blocks_top_ba s2) a \<Longrightarrow> ?A a" for a
      unfolding f2 by (rule in_blocks_mono) (auto simp: word_le_nat_alt top1 dec)
    obtain s' where "remap_block_nmbm env block mapped_block copy_len s = Some (True, s')"
      and s': "tables_ok env s'" "block_mapping s' = block_mapping s2" "dev_steps env ?A (dev s2) (dev s')"
    proof -
      have "arr_get (block_mapping s2) (unat block) = Some (of_nat h)"
        using blk by (simp add: f2 arr_get_def)
      then show ?thesis
        using remap_moved [where new = ?new and A = ?A and src = mapped_block and copy_len = copy_len,
            OF assms(1) ok2 g spare less] mark map True
          \<open>\<not> ucast block \<ge> data_block_count s\<close> that
        by (auto simp: remap_block_nmbm_def)
    qed
    moreover have "I (dev s')" using dev_steps_keep [OF s'(3) assms(4)] assms(5) by (simp add: f2)
    ultimately show ?thesis using h was by (auto simp: f2)
  qed
qed

lemma sample_spare_ok: "spare_ok sim_bmtd sample_nmbm"
  using sample_tables_ok by (simp add: spare_ok_def) (simp add: sample_nmbm_def sample_init_fields)

theorem nmbm_remap_block_witness:
  "returns (remap_block_nmbm sim_bmtd 2 2 128 sample_nmbm) (\<lambda>(done, s'). cells (dev s') 300 = 0xFF \<and>
    (if done then tables_ok sim_bmtd s' \<and>
       (\<exists>g. 12 < g \<and> g \<le> 14 \<and> bst_get [- 1] g = BLOCK_ST_GOOD \<and> g \<noteq> 2 \<and>
          block_mapping s' = (replicate 16 0)[2 := of_nat g])
     else block_mapping s' = replicate 16 0))"
proof -
  have "chip_keeps sim_bmtd (in_blocks sim_bmtd (mgmt_start_ba sample_nmbm) (mapping_blocks_top_ba sample_nmbm + 1))
      (\<lambda>d. cells d 300 = 0xFF)"
    by (rule sim_keeps_cell) (simp add: in_blocks_def sample_nmbm_def sim_bmtd_def)
  moreover have "cells (dev sample_nmbm) 300 = 0xFF"
    by (simp add: sample_nmbm_def sample_init_def nmbm_init_structure_def nmbm_zeroed_def Let_def sim_blank_def)
  moreover have two: "unat (2 :: u16) = 2" by simp
  moreover have f: "block_count sample_nmbm = 16" "unat (mapping_blocks_ba sample_nmbm) = 12"
    "unat (mapping_blocks_top_ba sample_nmbm) = 14" "block_state sample_nmbm = [- 1]"
    "block_mapping sample_nmbm = replicate 16 0"
    by (simp_all add: sample_nmbm_def sample_init_fields)
  ultimately show ?thesis
    using nmbm_remap_block [OF sim_env_ok sample_spare_ok, of 2 "\<lambda>d. cells d 300 = 0xFF" 2 128]
    by (simp only: f two) simp
qed

end
