(* ===== verification/Bmt_Attach.thy ===== *)
theory Bmt_Attach
  imports Bmt_Core
begin

text \<open>
  Attaching and detaching of \<open>mtk_bmt.c\<close>: the MTD operations are replaced and saved
  (\<open>mtk_bmt_replace_ops\<close>), the geometry is computed from the MTD device, and detaching puts
  back what was saved. Functions are values of an arbitrary type \<open>'f\<close>; devices are
  identified by \<open>mtd_id\<close>, the address of the C structure.
\<close>

record 'f mtd_fns =
  f_read_oob :: 'f
  f_write_oob :: 'f
  f_erase :: 'f
  f_block_isbad :: 'f
  f_block_markbad :: 'f

record 'f mtd_info =
  mtd_id :: nat
  mtd_fns :: "'f mtd_fns"
  mtd_size :: u64
  mtd_erasesize :: u32
  mtd_writesize :: u32
  mtd_oobsize :: u32

datatype bmt_kind = Kind_v2 | Kind_nmbm | Kind_bbt

text \<open>
  \<open>struct bmt_desc\<close>; pointers are \<^const>\<open>None\<close> for \<open>NULL\<close>. The members that only a scheme uses
  (\<open>table_size\<close>, \<open>pool_lba\<close>, \<open>ni\<close> and so on) are in the state of the scheme.
\<close>

record 'f bmt_desc =
  d_mtd :: "nat option"
  d_bbt_buf :: "u8 list option"
  d_data_buf :: "u8 list option"
  d_fns :: "'f mtd_fns option"
  d_ops :: "bmt_kind option"
  d_pg_size :: u32
  d_blk_size :: u32
  d_pg_shift :: u16
  d_blk_shift :: u16
  d_total_blks :: u16
  d_remap_range :: "(u32 \<times> u32) list option"

definition bmt_desc_zero :: "'f bmt_desc" where
  "bmt_desc_zero =
     \<lparr>d_mtd = None, d_bbt_buf = None, d_data_buf = None, d_fns = None, d_ops = None, d_pg_size = 0,
      d_blk_size = 0, d_pg_shift = 0, d_blk_shift = 0, d_total_blks = 0, d_remap_range = None\<rparr>"

text \<open>The node of the device tree.\<close>

record bmt_node =
  np_v2 :: bool
  np_nmbm :: bool
  np_bbt :: bool
  np_remap_range :: "(u32 \<times> u32) list option"
  np_oobsize :: "u32 option"

text \<open>The position of the lowest set bit, from 1; 0 for 0.\<close>

definition ffs :: "u32 \<Rightarrow> nat" where
  "ffs w = (case find (bit w) [0..<32] of None \<Rightarrow> 0 | Some i \<Rightarrow> Suc i)"

definition mtk_bmt_replace_ops ::
  "'f mtd_fns \<Rightarrow> 'f mtd_info \<Rightarrow> 'f bmt_desc \<Rightarrow> 'f mtd_info \<times> 'f bmt_desc" where
  "mtk_bmt_replace_ops bmt_fns mtd desc =
     (mtd\<lparr>mtd_fns := bmt_fns\<rparr>, desc\<lparr>d_fns := Some (mtd_fns mtd)\<rparr>)"

text \<open>
  \<open>kfree\<close> of the two buffers ends their use; the members that pointed to them are cleared with the
  rest of the descriptor.
\<close>

definition mtk_bmt_detach :: "'f mtd_info \<Rightarrow> 'f bmt_desc \<Rightarrow> ('f mtd_info \<times> 'f bmt_desc) option" where
  "mtk_bmt_detach mtd desc =
     (if d_mtd desc \<noteq> Some (mtd_id mtd) then Some (mtd, desc)
      else do {
        fns \<leftarrow> d_fns desc;
        Some (mtd\<lparr>mtd_fns := fns,
                  mtd_size := scast (push_bit (unat (d_blk_shift desc)) (ucast (d_total_blks desc) :: u32))\<rparr>,
              bmt_desc_zero)
      })"

definition bmt_kind_of :: "bmt_node \<Rightarrow> bmt_kind option" where
  "bmt_kind_of np =
     (if np_v2 np then Some Kind_v2 else if np_nmbm np then Some Kind_nmbm
      else if np_bbt np then Some Kind_bbt else None)"

text \<open>
  What the \<open>init\<close> operation of a scheme leaves: its code, the size it gives the device, the two
  buffers of the descriptor and its own state, which includes the chip.
\<close>

record 'st init_res =
  i_ret :: int
  i_size :: u64
  i_bbt_buf :: "u8 list option"
  i_data_buf :: "u8 list"
  i_state :: 'st

text \<open>The part of \<open>mtk_bmt_attach\<close> between the choice of the scheme and the allocation.\<close>

definition attach_setup ::
  "'f mtd_fns \<Rightarrow> bmt_kind \<Rightarrow> bmt_node \<Rightarrow> 'f mtd_info \<Rightarrow> 'f bmt_desc \<Rightarrow> 'f mtd_info \<times> 'f bmt_desc" where
  "attach_setup bmt_fns kind np mtd desc =
     (let desc = desc\<lparr>d_ops := Some kind, d_remap_range := np_remap_range np, d_mtd := Some (mtd_id mtd)\<rparr>;
          (mtd, desc) = mtk_bmt_replace_ops bmt_fns mtd desc;
          mtd = (case np_oobsize np of
             Some n \<Rightarrow> if n < mtd_oobsize mtd then mtd\<lparr>mtd_oobsize := n\<rparr> else mtd
           | None \<Rightarrow> mtd);
          shift = (of_nat (ffs (mtd_erasesize mtd)) - 1 :: u16)
      in (mtd, desc\<lparr>d_blk_size := mtd_erasesize mtd, d_blk_shift := shift,
                    d_pg_size := mtd_writesize mtd,
                    d_pg_shift := of_nat (ffs (mtd_writesize mtd)) - 1,
                    d_total_blks := ucast (drop_bit (unat shift) (mtd_size mtd))\<rparr>))"

text \<open>
  \<open>mtk_bmt_attach\<close>: \<open>np\<close> is the node, \<^const>\<open>None\<close> when there is none, \<open>alloc_ok\<close> whether the
  page buffer can be allocated, \<open>init\<close> the \<open>init\<close> operations of the schemes on a state that starts
  as \<open>st\<close>; the result of \<open>init\<close> is \<^const>\<open>None\<close> when it does not return or accesses memory outside
  its buffers.
\<close>

definition mtk_bmt_attach ::
  "'f mtd_fns \<Rightarrow> bool \<Rightarrow> (bmt_kind \<Rightarrow> 'f bmt_desc \<Rightarrow> 'f mtd_info \<Rightarrow> 'st \<Rightarrow> 'st init_res option) \<Rightarrow>
   bmt_node option \<Rightarrow> 'f mtd_info \<Rightarrow> 'f bmt_desc \<Rightarrow> 'st \<Rightarrow> (int \<times> 'f mtd_info \<times> 'f bmt_desc \<times> 'st) option" where
  "mtk_bmt_attach bmt_fns alloc_ok init np mtd desc st =
     (if d_mtd desc \<noteq> None then Some (- ENOSPC, mtd, desc, st)
      else case np of
        None \<Rightarrow> Some (0, mtd, desc, st)
      | Some np \<Rightarrow>
          (case bmt_kind_of np of
             None \<Rightarrow> Some (0, mtd, desc, st)
           | Some kind \<Rightarrow> do {
               let (mtd, desc) = attach_setup bmt_fns kind np mtd desc;
               if \<not> alloc_ok then do {
                 (mtd, desc) \<leftarrow> mtk_bmt_detach mtd desc;
                 Some (- 1, mtd, desc, st)
               }
               else do {
                 let desc = desc\<lparr>d_data_buf :=
                               Some (replicate (unat (d_pg_size desc + mtd_oobsize mtd)) 0xFF)\<rparr>;
                 r \<leftarrow> init kind desc mtd st;
                 let mtd = mtd\<lparr>mtd_size := i_size r\<rparr>;
                 let desc = desc\<lparr>d_bbt_buf := i_bbt_buf r, d_data_buf := Some (i_data_buf r)\<rparr>;
                 if i_ret r \<noteq> 0 then do {
                   (mtd, desc) \<leftarrow> mtk_bmt_detach mtd desc;
                   Some (i_ret r, mtd, desc, i_state r)
                 }
                 else Some (0, mtd, desc, i_state r)
               }
             }))"

section \<open>Properties\<close>

lemma find_least:
  "find P [m..<n] = Some i \<Longrightarrow> P i \<and> m \<le> i \<and> i < n \<and> (\<forall>j. m \<le> j \<and> j < i \<longrightarrow> \<not> P j)"
proof (induction "n - m" arbitrary: m)
  case (Suc k)
  then have "m < n" by simp
  then have up: "[m..<n] = m # [Suc m..<n]" by (simp add: upt_conv_Cons)
  show ?case
  proof (cases "P m")
    case True
    then show ?thesis using Suc.prems \<open>m < n\<close> by (auto simp: up)
  next
    case False
    then have "find P [Suc m..<n] = Some i" using Suc.prems by (simp add: up)
    moreover have "k = n - Suc m" using Suc.hyps(2) by simp
    ultimately have ih: "P i \<and> Suc m \<le> i \<and> i < n \<and> (\<forall>j. Suc m \<le> j \<and> j < i \<longrightarrow> \<not> P j)"
      by (intro Suc.hyps(1)) auto
    then have "\<not> P j" if "m \<le> j" "j < i" for j
      using that False by (cases "j = m") auto
    then show ?thesis using ih by auto
  qed
qed simp

lemma ffs_pow2: "n < 32 \<Longrightarrow> ffs (2 ^ n) = Suc n"
proof -
  assume n: "n < 32"
  have b: "bit (2 ^ n :: u32) k \<longleftrightarrow> k = n" if "k < 32" for k
    using that n by (auto simp: bit_exp_iff)
  obtain i where i: "find (bit (2 ^ n :: u32)) [0..<32] = Some i"
    using b [OF n] n by (cases "find (bit (2 ^ n :: u32)) [0..<32]") (auto simp: find_None_iff)
  then have "i = n" using find_least [OF i] b by auto
  then show ?thesis by (simp add: ffs_def i)
qed


end
