(* ===== verification/Bmt_V2.thy ===== *)
theory Bmt_V2
  imports Bmt_Core
begin

text \<open>
  \<open>mtk_bmt_v2.c\<close>, the second version of the MediaTek bad block table. The table is one buffer,
  \<open>bbt_buf\<close>: a signature of three bytes and a version, then \<open>table_size\<close> 16-bit entries
  \<open>bb_tbl[i]\<close> (the physical block of logical block \<open>i\<close>), then the pool \<open>bmt_tbl[k]\<close> of pairs of
  16-bit numbers (\<open>block\<close>, \<open>mapped\<close>). It is modelled as the bytes of the buffer, so that an
  access beyond its end is a run without a defined result.

  Out-of-band buffers on the stack start with zeros here; the code reads them only after a
  successful read.
\<close>

section \<open>The table\<close>

abbreviation NO_MAPPED :: u16 where "NO_MAPPED \<equiv> 0"
abbreviation NORMAL_MAPPED :: u16 where "NORMAL_MAPPED \<equiv> 1"
abbreviation BMT_MAPPED :: u16 where "BMT_MAPPED \<equiv> 2"
abbreviation BBMT_VERSION :: u8 where "BBMT_VERSION \<equiv> 2"

text \<open>The strings \<open>"BMT"\<close> and \<open>"bmt"\<close>.\<close>

abbreviation main_sig :: "u8 list" where "main_sig \<equiv> [0x42, 0x4d, 0x54]"
abbreviation oob_sig :: "u8 list" where "oob_sig \<equiv> [0x62, 0x6d, 0x74]"

record 'd bmt_v2 =
  bbt_buf :: "u8 list"
  v2_data_buf :: "u8 list"
  table_size :: u32
  pool_lba :: u16
  pool_pba :: u16
  bb_max :: u16
  bmt_blk_idx :: u16
  bmt_pgs :: u32
  oob_offset :: u8
  main_size :: u64
  v2_dev :: 'd

definition get16 :: "u8 list \<Rightarrow> nat \<Rightarrow> u16 option" where
  "get16 b off = map_option le_val (buf_get b off 2)"

definition put16 :: "u8 list \<Rightarrow> nat \<Rightarrow> u16 \<Rightarrow> u8 list option" where
  "put16 b off v = buf_put b off (le_bytes 2 v)"

definition bb_off :: "nat \<Rightarrow> nat" where
  "bb_off i = 4 + 2 * i"

definition bmt_tbl :: "'d bmt_v2 \<Rightarrow> nat \<Rightarrow> nat" where
  "bmt_tbl s k = 4 + 2 * unat (table_size s) + 4 * k"

definition bb_get :: "'d bmt_v2 \<Rightarrow> nat \<Rightarrow> u16 option" where
  "bb_get s i = get16 (bbt_buf s) (bb_off i)"

definition bb_set :: "nat \<Rightarrow> u16 \<Rightarrow> 'd bmt_v2 \<Rightarrow> 'd bmt_v2 option" where
  "bb_set i v s = map_option (\<lambda>b. s\<lparr>bbt_buf := b\<rparr>) (put16 (bbt_buf s) (bb_off i) v)"

definition bmt_block :: "'d bmt_v2 \<Rightarrow> nat \<Rightarrow> u16 option" where
  "bmt_block s k = get16 (bbt_buf s) (bmt_tbl s k)"

definition bmt_mapped :: "'d bmt_v2 \<Rightarrow> nat \<Rightarrow> u16 option" where
  "bmt_mapped s k = get16 (bbt_buf s) (bmt_tbl s k + 2)"

definition set_bmt_block :: "nat \<Rightarrow> u16 \<Rightarrow> 'd bmt_v2 \<Rightarrow> 'd bmt_v2 option" where
  "set_bmt_block k v s = map_option (\<lambda>b. s\<lparr>bbt_buf := b\<rparr>) (put16 (bbt_buf s) (bmt_tbl s k) v)"

definition set_bmt_mapped :: "nat \<Rightarrow> u16 \<Rightarrow> 'd bmt_v2 \<Rightarrow> 'd bmt_v2 option" where
  "set_bmt_mapped k v s =
     map_option (\<lambda>b. s\<lparr>bbt_buf := b\<rparr>) (put16 (bbt_buf s) (bmt_tbl s k + 2) v)"

section \<open>Scanning the chip\<close>

text \<open>
  \<open>find_valid_block\<close>: the first block from \<open>block\<close> on whose first page reads without error and
  has 0xff as its first out-of-band byte, and 0 when the chip ends or after \<open>bb_max\<close> skips.
\<close>

function find_valid_loop ::
  "'d bmtd \<Rightarrow> u16 \<Rightarrow> nat \<Rightarrow> u8 list \<Rightarrow> 'd bmt_v2 \<Rightarrow> (u16 \<times> 'd bmt_v2) option" where
  "find_valid_loop env block loop fdm s =
     (if block \<ge> total_blks env then Some (0, s)
      else do {
        (ret, buf, fdm, d) \<leftarrow> bbt_nand_read env (oob_offset s) (blk_pg env block) (v2_data_buf s)
                              (unat (pg_size env)) fdm 4 (v2_dev s);
        let s = s\<lparr>v2_data_buf := buf, v2_dev := d\<rparr>;
        f0 \<leftarrow> arr_get fdm 0;
        if ret \<noteq> 0 \<or> f0 \<noteq> 0xFF then
          (if loop \<ge> unat (bb_max s) then Some (0, s)
           else find_valid_loop env (block + 1) (loop + 1) fdm s)
        else Some (block, s)
      })"
  by pat_completeness auto
termination
  by (relation "measure (\<lambda>(env, block, loop, fdm, s). unat (total_blks env) - unat block)")
    (auto simp: unat_inc unat_less not_le)

declare find_valid_loop.simps [simp del]

definition find_valid_block :: "'d bmtd \<Rightarrow> u16 \<Rightarrow> 'd bmt_v2 \<Rightarrow> (u16 \<times> 'd bmt_v2) option" where
  "find_valid_block env block s = find_valid_loop env block 0 (replicate 4 0) s"

text \<open>
  The first loop of \<open>scan_bad_blocks\<close>, \<open>n\<close> being \<open>bmtd.pool_lba\<close>; the result is whether it ran
  to its end.
\<close>

function scan_bb_loop :: "'d bmtd \<Rightarrow> nat \<Rightarrow> nat \<Rightarrow> 'd bmt_v2 \<Rightarrow> (bool \<times> 'd bmt_v2) option" where
  "scan_bb_loop env n i s =
     (if i < n then do {
        prev \<leftarrow> bb_get s (i - 1);
        (b, s) \<leftarrow> find_valid_block env (prev + 1) s;
        s \<leftarrow> bb_set i b s;
        if b = 0 then Some (False, s) else scan_bb_loop env n (i + 1) s
      }
      else Some (True, s))"
  by pat_completeness auto
termination
  by (relation "measure (\<lambda>(env, n, i, s). n - i)") auto

declare scan_bb_loop.simps [simp del]

text \<open>The second loop: the pool, as long as valid blocks are found.\<close>

partial_function (option) scan_pool_loop ::
  "'d bmtd \<Rightarrow> u16 \<Rightarrow> nat \<Rightarrow> 'd bmt_v2 \<Rightarrow> (nat \<times> 'd bmt_v2) option" where
  "scan_pool_loop env block i s = do {
     (b, s) \<leftarrow> find_valid_block env block s;
     if b \<noteq> 0 then do {
       s \<leftarrow> set_bmt_block i b s;
       s \<leftarrow> set_bmt_mapped i NO_MAPPED s;
       scan_pool_loop env (b + 1) (i + 1) s
     }
     else Some (i, s)
   }"


text \<open>
  \<open>scan_bad_blocks\<close>: with no valid block in the pool the entry \<open>bmt_tbl[65535]\<close> is written
  before the count is checked.
\<close>

definition scan_bad_blocks :: "'d bmtd \<Rightarrow> 'd bmt_v2 \<Rightarrow> (int \<times> 'd bmt_v2) option" where
  "scan_bad_blocks env s = do {
     s \<leftarrow> bb_set 0 0 s;
     let n = unat (pool_lba s);
     (ok, s) \<leftarrow> scan_bb_loop env n 1 s;
     if \<not> ok then Some (- 1, s)
     else do {
       prev \<leftarrow> bb_get s (max 1 n - 1);
       let s = s\<lparr>pool_pba := prev + 1\<rparr>;
       if uint (pool_pba s) \<ge> uint (total_blks env) - 2 then Some (- 1, s)
       else do {
         (i, s) \<leftarrow> scan_pool_loop env (pool_pba s) 0 s;
         let s = s\<lparr>bmt_blk_idx := of_nat i - 1\<rparr>;
         s \<leftarrow> set_bmt_mapped (unat (bmt_blk_idx s)) BMT_MAPPED s;
         Some (if i < 1 then - 1 else 0, s)
       }
     }
   }"

definition is_valid_bmt :: "u8 list \<Rightarrow> u8 list \<Rightarrow> bool option" where
  "is_valid_bmt buf fdm = do {
     sig \<leftarrow> buf_get buf 0 3;
     osig \<leftarrow> buf_get fdm OOB_SIGNATURE_OFFSET 3;
     version \<leftarrow> arr_get buf 3;
     Some (sig = main_sig \<and> osig = oob_sig \<and> version = BBMT_VERSION)
   }"

text \<open>The index of the entry that holds the table; the loop ends at an entry without a block.\<close>

partial_function (option) get_bmt_index_loop :: "'d bmt_v2 \<Rightarrow> nat \<Rightarrow> u16 option" where
  "get_bmt_index_loop s i = do {
     b \<leftarrow> bmt_block s i;
     if b \<noteq> 0 then do {
       m \<leftarrow> bmt_mapped s i;
       if m = BMT_MAPPED then Some (of_nat i) else get_bmt_index_loop s (i + 1)
     }
     else Some 0
   }"

definition get_bmt_index :: "'d bmt_v2 \<Rightarrow> u16 option" where
  "get_bmt_index s = get_bmt_index_loop s 0"

section \<open>Writing the table\<close>

text \<open>
  \<open>upload_bmt\<close>: try the pool entries from \<open>n\<close> downwards; -1 as a 16-bit number when none is
  left.
\<close>

function upload_bmt :: "'d bmtd \<Rightarrow> int \<Rightarrow> 'd bmt_v2 \<Rightarrow> (u16 \<times> 'd bmt_v2) option" where
  "upload_bmt env n s =
     (if n < 0 then Some (- 1, s)
      else do {
        m \<leftarrow> bmt_mapped s (nat n);
        if m = NORMAL_MAPPED then Some (- 1, s)
        else do {
          block \<leftarrow> bmt_block s (nat n);
          let (ret, d) = bbt_nand_erase env block (v2_dev s);
          let s = s\<lparr>v2_dev := d\<rparr>;
          if ret \<noteq> 0 then do {
            s \<leftarrow> set_bmt_block (nat n) 0 s;
            upload_bmt env (n - 1) s
          }
          else do {
            b \<leftarrow> buf_put (bbt_buf s) 0 (main_sig @ [BBMT_VERSION]);
            let s = s\<lparr>bbt_buf := b\<rparr>;
            (ret, d) \<leftarrow> write_bmt env (oob_offset s) oob_sig (bmt_pgs s) block (bbt_buf s) (v2_dev s);
            let s = s\<lparr>v2_dev := d\<rparr>;
            if ret \<noteq> 0 then do {
              s \<leftarrow> set_bmt_block (nat n) 0 s;
              upload_bmt env (n - 1) s
            }
            else Some (word_of_int n, s)
          }
        }
      })"
  by pat_completeness auto
termination
  by (relation "measure (\<lambda>(env, n, s). nat (n + 1))") auto

declare upload_bmt.simps [simp del]

text \<open>\<open>find_valid_block_in_pool\<close>, \<open>n\<close> being \<open>bmtd.bmt_blk_idx\<close>: 0 when the pool has run out.\<close>

function find_pool_loop :: "nat \<Rightarrow> nat \<Rightarrow> 'd bmt_v2 \<Rightarrow> (u16 \<times> 'd bmt_v2) option" where
  "find_pool_loop n i s =
     (if i < n then do {
        b \<leftarrow> bmt_block s i;
        m \<leftarrow> (if b \<noteq> 0 then bmt_mapped s i else Some NORMAL_MAPPED);
        if b \<noteq> 0 \<and> m = NO_MAPPED then do {
          s \<leftarrow> set_bmt_mapped i NORMAL_MAPPED s;
          b \<leftarrow> bmt_block s i;
          Some (b, s)
        }
        else find_pool_loop n (i + 1) s
      }
      else Some (0, s))"
  by pat_completeness auto
termination
  by (relation "measure (\<lambda>(n, i, s). n - i)") auto

declare find_pool_loop.simps [simp del]

definition find_valid_block_in_pool :: "'d bmt_v2 \<Rightarrow> (u16 \<times> 'd bmt_v2) option" where
  "find_valid_block_in_pool s =
     (if bmt_blk_idx s = 0 then Some (0, s) else find_pool_loop (unat (bmt_blk_idx s)) 0 s)"

section \<open>The operations of the scheme\<close>

definition upload_at_idx :: "'d bmtd \<Rightarrow> 'd bmt_v2 \<Rightarrow> 'd bmt_v2 option" where
  "upload_at_idx env s = do {
     (idx, s) \<leftarrow> upload_bmt env (uint (bmt_blk_idx s)) s;
     Some (s\<lparr>bmt_blk_idx := idx\<rparr>)
   }"

definition remap_block_v2 ::
  "'d bmtd \<Rightarrow> u16 \<Rightarrow> u16 \<Rightarrow> int \<Rightarrow> 'd bmt_v2 \<Rightarrow> (bool \<times> 'd bmt_v2) option" where
  "remap_block_v2 env block mapped_block copy_len s = do {
     (new_block, s) \<leftarrow> find_valid_block_in_pool s;
     if new_block = 0 then Some (False, s)
     else do {
       s \<leftarrow> bb_set (unat block) new_block s;
       let (_, d) = bbt_nand_erase env new_block (v2_dev s);
       let s = s\<lparr>v2_dev := d\<rparr>;
       s \<leftarrow> (if copy_len > 0 then do {
              (_, buf, d) \<leftarrow> bbt_nand_copy env new_block mapped_block copy_len (v2_data_buf s) (v2_dev s);
              Some (s\<lparr>v2_data_buf := buf, v2_dev := d\<rparr>)
            } else Some s);
       s \<leftarrow> upload_at_idx env s;
       Some (True, s)
     }
   }"

text \<open>\<open>block\<close> is an \<open>int\<close>; a negative one would index before the table.\<close>

definition get_mapping_block_index_v2 :: "'d bmtd \<Rightarrow> u32 \<Rightarrow> 'd bmt_v2 \<Rightarrow> int option" where
  "get_mapping_block_index_v2 env block s =
     (if sint block \<ge> uint (pool_lba s) then Some (sint block)
      else case mapping_block_in_range env block of
        None \<Rightarrow> Some (sint block)
      | Some _ \<Rightarrow>
          (if sint block < 0 then None
           else map_option uint (bb_get s (unat block))))"

definition unmap_block_v2 :: "'d bmtd \<Rightarrow> u16 \<Rightarrow> 'd bmt_v2 \<Rightarrow> 'd bmt_v2 option" where
  "unmap_block_v2 env block s = do {
     s \<leftarrow> bb_set (unat block) block s;
     upload_at_idx env s
   }"

definition v2_ops :: "'d bmtd \<Rightarrow> ('d bmt_v2, 'd) bmt_ops" where
  "v2_ops env =
     \<lparr>remap_block = remap_block_v2 env, unmap_block = unmap_block_v2 env,
      get_mapping_block = get_mapping_block_index_v2 env, chip_of = v2_dev,
      set_chip = (\<lambda>d s. s\<lparr>v2_dev := d\<rparr>), page_buf = v2_data_buf,
      set_page_buf = (\<lambda>b s. s\<lparr>v2_data_buf := b\<rparr>)\<rparr>"

interpretation v2_scheme: bmt_scheme "v2_ops env" for env
  by unfold_locales (simp_all add: v2_ops_def get_mapping_block_index_v2_def bb_get_def split: option.split)

end
