(* ===== verification/Bmt_V2_Init.thy ===== *)
theory Bmt_V2_Init
  imports Bmt_V2
begin

text \<open>
  \<open>mtk_bmt_v2.c\<close>, second part: \<open>mtk_bmt_get_mapping_mask\<close>, \<open>mtk_bmt_debug_v2\<close> and
  \<open>mtk_bmt_init_v2\<close>.
\<close>

section \<open>Debugging\<close>

text \<open>
  The pool entries some remapped block uses, a bit for each entry up to \<open>bmt_blk_idx\<close>;
  \<open>main_blocks\<close> is \<open>bmtd.mtd->size >> bmtd.blk_shift\<close>.
\<close>

definition main_blocks :: "'d bmtd \<Rightarrow> 'd bmt_v2 \<Rightarrow> nat" where
  "main_blocks env s = unat (drop_bit (unat (blk_shift env)) (main_size s))"

function mask_entry_loop :: "'d bmt_v2 \<Rightarrow> u16 \<Rightarrow> nat \<Rightarrow> bool list \<Rightarrow> bool list option" where
  "mask_entry_loop s v k used =
     (if k < unat (bmt_blk_idx s) then do {
        b \<leftarrow> bmt_block s k;
        if v \<noteq> b then mask_entry_loop s v (k + 1) used else arr_set used k True
      }
      else Some used)"
  by pat_completeness auto
termination
  by (relation "measure (\<lambda>(s, v, k, used). unat (bmt_blk_idx s) - k)") auto

function mask_loop :: "'d bmt_v2 \<Rightarrow> nat \<Rightarrow> nat \<Rightarrow> bool list \<Rightarrow> bool list option" where
  "mask_loop s n i used =
     (if i < n then do {
        v \<leftarrow> bb_get s i;
        used \<leftarrow> (if unat v = i then Some used else mask_entry_loop s v 0 used);
        mask_loop s n (i + 1) used
      }
      else Some used)"
  by pat_completeness auto
termination
  by (relation "measure (\<lambda>(s, n, i, used). n - i)") auto

declare mask_entry_loop.simps [simp del] mask_loop.simps [simp del]

definition mtk_bmt_get_mapping_mask :: "'d bmtd \<Rightarrow> 'd bmt_v2 \<Rightarrow> bool list option" where
  "mtk_bmt_get_mapping_mask env s =
     mask_loop s (main_blocks env s) 1 (replicate (Suc (unat (bmt_blk_idx s))) False)"

text \<open>What value 0 prints: the remapped blocks, and the entries of the pool with a letter.\<close>

function debug_remaps :: "'d bmt_v2 \<Rightarrow> nat \<Rightarrow> nat \<Rightarrow> (nat \<times> u16) list option" where
  "debug_remaps s n i =
     (if i < n then do {
        v \<leftarrow> bb_get s i;
        rest \<leftarrow> debug_remaps s n (i + 1);
        Some (if unat v = i then rest else (i, v) # rest)
      }
      else Some [])"
  by pat_completeness auto
termination
  by (relation "measure (\<lambda>(s, n, i). n - i)") auto

function debug_pool :: "'d bmt_v2 \<Rightarrow> bool list \<Rightarrow> nat \<Rightarrow> (nat \<times> char \<times> u16) list option" where
  "debug_pool s used i =
     (if i \<le> unat (bmt_blk_idx s) then do {
        m \<leftarrow> bmt_mapped s i;
        u \<leftarrow> arr_get used i;
        b \<leftarrow> bmt_block s i;
        rest \<leftarrow> debug_pool s used (i + 1);
        Some (if m = NO_MAPPED then rest
              else (i, (if m = NORMAL_MAPPED then (if u then CHR ''M'' else CHR ''m'')
                        else if m = BMT_MAPPED then CHR ''B'' else CHR ''X''), b) # rest)
      }
      else Some [])"
  by pat_completeness auto
termination
  by (relation "measure (\<lambda>(s, used, i). Suc (unat (bmt_blk_idx s)) - i)") auto

declare debug_remaps.simps [simp del] debug_pool.simps [simp del]

text \<open>Value 100: free the pool entries no block uses; \<open>idx\<close> is \<open>bmtd.bmt_blk_idx\<close>.\<close>

function free_loop :: "bool list \<Rightarrow> nat \<Rightarrow> nat \<Rightarrow> nat \<Rightarrow> 'd bmt_v2 \<Rightarrow> (nat \<times> 'd bmt_v2) option" where
  "free_loop used idx i n_remap s =
     (if i \<le> idx then do {
        m \<leftarrow> bmt_mapped s i;
        u \<leftarrow> arr_get used i;
        if m \<noteq> NORMAL_MAPPED \<or> u then free_loop used idx (i + 1) n_remap s
        else do {
          s \<leftarrow> set_bmt_mapped i NO_MAPPED s;
          free_loop used idx (i + 1) (n_remap + 1) s
        }
      }
      else Some (n_remap, s))"
  by pat_completeness auto
termination
  by (relation "measure (\<lambda>(used, idx, i, n_remap, s). Suc idx - i)") auto

declare free_loop.simps [simp del]

definition mtk_bmt_debug_v2 ::
  "'d bmtd \<Rightarrow> bool \<Rightarrow> u64 \<Rightarrow> 'd bmt_v2 \<Rightarrow>
   (int \<times> (nat \<times> u16) list \<times> (nat \<times> char \<times> u16) list \<times> 'd bmt_v2) option" where
  "mtk_bmt_debug_v2 env alloc_ok val s =
     (if \<not> alloc_ok then Some (- ENOMEM, [], [], s)
      else do {
        used \<leftarrow> mtk_bmt_get_mapping_mask env s;
        if val = 0 then do {
          remaps \<leftarrow> debug_remaps s (main_blocks env s) 1;
          pool \<leftarrow> debug_pool s used 0;
          Some (0, remaps, pool, s)
        }
        else if val = 100 then do {
          (n_remap, s) \<leftarrow> free_loop used (unat (bmt_blk_idx s)) 0 0 s;
          s \<leftarrow> (if n_remap \<noteq> 0 then upload_at_idx env s else Some s);
          Some (0, [], [], s)
        }
        else Some (0, [], [], s)
      })"

section \<open>Attaching\<close>

text \<open>The properties of the device tree node, \<^const>\<open>None\<close> when absent.\<close>

record v2_dt =
  dt_pool_size :: "u32 option"
  dt_oob_offset :: "u8 option"
  dt_table_size :: "u32 option"

definition dt_default :: "'a \<Rightarrow> 'a option \<Rightarrow> 'a" where
  "dt_default d o' = (case o' of None \<Rightarrow> d | Some v \<Rightarrow> v)"

text \<open>\<open>round_up\<close> to a power of two.\<close>

definition round_up :: "u64 \<Rightarrow> u64 \<Rightarrow> u64" where
  "round_up x y = ((x - 1) OR (y - 1)) + 1"

definition v2_bufsz :: "'d bmtd \<Rightarrow> u32 \<Rightarrow> u32" where
  "v2_bufsz env ts = ucast (round_up (4 + ucast ts * 4) (ucast (pg_size env)))"

text \<open>
  The search for a table from the last block of the chip down to the pool; \<open>block\<close> is a
  \<open>u16\<close>. The result is whether \<open>bmtd.bbt\<close> has been set. The out-of-band buffer is local to
  an iteration.
\<close>

partial_function (option) v2_search_loop ::
  "'d bmtd \<Rightarrow> u16 \<Rightarrow> 'd bmt_v2 \<Rightarrow> (bool \<times> 'd bmt_v2) option" where
  "v2_search_loop env block s =
     (if block \<ge> pool_lba s then do {
        (ret, buf, fdm, d) \<leftarrow> bbt_nand_read env (oob_offset s) (blk_pg env block) (bbt_buf s)
                              (length (bbt_buf s)) (replicate 4 0) 4 (v2_dev s);
        let s = s\<lparr>bbt_buf := buf, v2_dev := d\<rparr>;
        if ret \<noteq> 0 then v2_search_loop env (block - 1) s
        else do {
          ok \<leftarrow> is_valid_bmt buf fdm;
          if \<not> ok then v2_search_loop env (block - 1) s
          else do {
            idx \<leftarrow> get_bmt_index s;
            let s = s\<lparr>bmt_blk_idx := idx\<rparr>;
            Some (idx \<noteq> 0, s)
          }
        }
      }
      else Some (False, s))"

text \<open>A new table: clear the pool, scan, and write.\<close>

definition v2_create :: "'d bmtd \<Rightarrow> 'd bmt_v2 \<Rightarrow> (int \<times> 'd bmt_v2) option" where
  "v2_create env s =
     (if ucast (total_blks env) > table_size s + table_size s * 2 div 100 then Some (- 1, s)
      else do {
        b \<leftarrow> buf_put (bbt_buf s) (bmt_tbl s 0) (replicate (unat (table_size s) * 4) 0);
        (ret, s) \<leftarrow> scan_bad_blocks env (s\<lparr>bbt_buf := b\<rparr>);
        if ret \<noteq> 0 then Some (- 1, s)
        else do {
          s \<leftarrow> upload_at_idx env s;
          _ \<leftarrow> bmt_block s (unat (bmt_blk_idx s));
          Some (if bmt_blk_idx s = - 1 then - 1 else 0, s)
        }
      })"

text \<open>
  \<open>mtk_bmt_init_v2\<close>: \<open>alloc_ok\<close> is whether \<open>kzalloc\<close> succeeds, \<open>s\<close> the state of \<open>bmtd\<close> before.
\<close>

definition mtk_bmt_init_v2 ::
  "'d bmtd \<Rightarrow> bool \<Rightarrow> v2_dt \<Rightarrow> 'd bmt_v2 \<Rightarrow> (int \<times> 'd bmt_v2) option" where
  "mtk_bmt_init_v2 env alloc_ok dt s = do {
     let bmt_pool_size = dt_default 80 (dt_pool_size dt);
     let s = s\<lparr>oob_offset := dt_default 0 (dt_oob_offset dt),
               table_size := dt_default 0x2000 (dt_table_size dt)\<rparr>;
     let pmt_block = (ucast (ucast (total_blks env) - bmt_pool_size - 2) :: u16);
     let s = s\<lparr>main_size := scast (push_bit (unat (blk_shift env)) (ucast pmt_block :: u32)),
               pool_lba := pmt_block + 2,
               bb_max := of_nat (unat (total_blks env) * 2 div 100)\<rparr>;
     let bufsz = v2_bufsz env (table_size s);
     let s = s\<lparr>bmt_pgs := drop_bit (unat (pg_shift env)) bufsz\<rparr>;
     if \<not> alloc_ok then Some (- ENOMEM, s)
     else do {
       (found, s) \<leftarrow> v2_search_loop env (total_blks env - 1)
                      (s\<lparr>bbt_buf := replicate (unat bufsz) 0xFF\<rparr>);
       if found then Some (0, s) else v2_create env s
     }
   }"

end
