(* ===== verification/Bmt_Bbt.thy ===== *)
theory Bmt_Bbt
  imports Bmt_Core Cell_Table
begin

text \<open>
  \<open>mtk_bmt_bbt.c\<close>: the scheme that keeps only a bad block table, two bits per block in
  \<open>bbt_buf\<close>, and maps a block by skipping the bad blocks of its remap range. Range bounds and
  block numbers are \<open>int\<close>.
\<close>

section \<open>The table\<close>

record 'd bmt_bbt =
  bt_buf :: "u8 list"
  bt_data_buf :: "u8 list"
  bt_blk_idx :: u16
  bt_pgs :: u32
  bt_size :: u64
  bt_dev :: 'd

text \<open>The string \<open>"mtknand"\<close>.\<close>

abbreviation bbt_sig :: "u8 list" where
  "bbt_sig \<equiv> [0x6d, 0x74, 0x6b, 0x6e, 0x61, 0x6e, 0x64]"

definition bbt_block_is_bad :: "u8 list \<Rightarrow> u16 \<Rightarrow> bool option" where
  "bbt_block_is_bad buf block = do {
     cur \<leftarrow> arr_get buf (unat (block div 4));
     Some (cur AND push_bit (unat (block mod 4) * 2) 3 \<noteq> 0)
   }"

definition bbt_mark :: "u8 list \<Rightarrow> u16 \<Rightarrow> bool \<Rightarrow> u8 list option" where
  "bbt_mark buf block bad = do {
     let mask = push_bit (unat (block mod 4) * 2) 3;
     cur \<leftarrow> arr_get buf (unat (block div 4));
     arr_set buf (unat (block div 4)) (if bad then cur OR mask else cur AND NOT mask)
   }"

text \<open>Erasing the block of the table and writing the table to it; errors are ignored.\<close>

definition bbt_store :: "'d bmtd \<Rightarrow> 'd bmt_bbt \<Rightarrow> 'd bmt_bbt option" where
  "bbt_store env s = do {
     let (_, d) = bbt_nand_erase env (bt_blk_idx s) (bt_dev s);
     (_, d) \<leftarrow> write_bmt env 0 bbt_sig (bt_pgs s) (bt_blk_idx s) (bt_buf s) d;
     Some (s\<lparr>bt_dev := d\<rparr>)
   }"

definition bbt_set_block_state :: "'d bmtd \<Rightarrow> u16 \<Rightarrow> bool \<Rightarrow> 'd bmt_bbt \<Rightarrow> 'd bmt_bbt option" where
  "bbt_set_block_state env block bad s = do {
     b \<leftarrow> bbt_mark (bt_buf s) block bad;
     bbt_store env (s\<lparr>bt_buf := b\<rparr>)
   }"

section \<open>The mapping\<close>

text \<open>
  The first loop of \<open>get_mapping_block_index_bbt\<close>: skip bad blocks, counting them, and \<open>ofs\<close>
  good ones.
\<close>

function bbt_skip_loop :: "u8 list \<Rightarrow> int \<Rightarrow> int \<Rightarrow> int \<Rightarrow> nat \<Rightarrow> (int \<times> int \<times> nat) option" where
  "bbt_skip_loop buf i end_blk ofs bad_blocks =
     (if i < end_blk then do {
        bad \<leftarrow> bbt_block_is_bad buf (word_of_int i);
        if bad then bbt_skip_loop buf (i + 1) end_blk ofs (bad_blocks + 1)
        else if ofs \<noteq> 0 then bbt_skip_loop buf (i + 1) end_blk (ofs - 1) bad_blocks
        else Some (i, ofs, bad_blocks)
      }
      else Some (i, ofs, bad_blocks))"
  by pat_completeness auto
termination
  by (relation "measure (\<lambda>(buf, i, e, ofs, bad). nat (e - i))") auto

declare bbt_skip_loop.simps [simp del]

text \<open>The second loop: the remaining blocks go to the bad ones, from the end of the range.\<close>

partial_function (option) bbt_over_loop :: "u8 list \<Rightarrow> int \<Rightarrow> int \<Rightarrow> nat \<Rightarrow> int option option" where
  "bbt_over_loop buf i ofs bad_blocks =
     (if bad_blocks > 0 then do {
        bad \<leftarrow> bbt_block_is_bad buf (word_of_int i);
        if \<not> bad then bbt_over_loop buf (i - 1) ofs bad_blocks
        else if int (bad_blocks - 1) \<le> ofs then Some (Some i)
        else bbt_over_loop buf (i - 1) ofs (bad_blocks - 1)
      }
      else Some None)"

definition get_mapping_block_index_bbt :: "'d bmtd \<Rightarrow> u32 \<Rightarrow> u8 list \<Rightarrow> int option" where
  "get_mapping_block_index_bbt env block buf =
     (case mapping_block_in_range env block of
        None \<Rightarrow> Some (sint block)
      | Some (lo, hi) \<Rightarrow> do {
          let start = sint lo div 2 ^ unat (blk_shift env);
          let end_blk = sint hi div 2 ^ unat (blk_shift env);
          (i, ofs, bad_blocks) \<leftarrow> bbt_skip_loop buf start end_blk (sint block - start) 0;
          if i < end_blk then Some i
          else do {
            r \<leftarrow> bbt_over_loop buf (end_blk - 1) ofs bad_blocks;
            Some (case r of Some b \<Rightarrow> b | None \<Rightarrow> sint block)
          }
        })"

section \<open>The operations of the scheme\<close>

definition remap_block_bbt ::
  "'d bmtd \<Rightarrow> u16 \<Rightarrow> u16 \<Rightarrow> int \<Rightarrow> 'd bmt_bbt \<Rightarrow> (bool \<times> 'd bmt_bbt) option" where
  "remap_block_bbt env block mapped_blk copy_len s =
     (case mapping_block_in_range env (ucast block) of
        None \<Rightarrow> Some (False, s)
      | Some _ \<Rightarrow> do {
          s \<leftarrow> bbt_set_block_state env mapped_blk True s;
          m \<leftarrow> get_mapping_block_index_bbt env (ucast block) (bt_buf s);
          let new_blk = (word_of_int m :: u16);
          let (_, d) = bbt_nand_erase env new_blk (bt_dev s);
          let s = s\<lparr>bt_dev := d\<rparr>;
          s \<leftarrow> (if copy_len > 0 then do {
                 (_, buf, d) \<leftarrow> bbt_nand_copy env new_blk mapped_blk copy_len (bt_data_buf s) (bt_dev s);
                 Some (s\<lparr>bt_data_buf := buf, bt_dev := d\<rparr>)
               } else Some s);
          Some (True, s)
        })"

definition unmap_block_bbt :: "'d bmtd \<Rightarrow> u16 \<Rightarrow> 'd bmt_bbt \<Rightarrow> 'd bmt_bbt option" where
  "unmap_block_bbt env block s = bbt_set_block_state env block False s"

definition bbt_ops :: "'d bmtd \<Rightarrow> ('d bmt_bbt, 'd) bmt_ops" where
  "bbt_ops env =
     \<lparr>remap_block = remap_block_bbt env, unmap_block = unmap_block_bbt env,
      get_mapping_block = (\<lambda>block s. get_mapping_block_index_bbt env block (bt_buf s)),
      chip_of = bt_dev, set_chip = (\<lambda>d s. s\<lparr>bt_dev := d\<rparr>), page_buf = bt_data_buf,
      set_page_buf = (\<lambda>b s. s\<lparr>bt_data_buf := b\<rparr>)\<rparr>"

interpretation bbt_scheme: bmt_scheme "bbt_ops env" for env
  by unfold_locales (simp_all add: bbt_ops_def)

section \<open>Attaching\<close>

text \<open>
  \<open>mtk_bmt_read_bbt\<close> looks at the last five blocks; \<open>i\<close> counts down to \<open>total_blks - 5\<close>. The
  out-of-band buffer is kept between the iterations.
\<close>

function mtk_bmt_read_bbt_loop ::
  "'d bmtd \<Rightarrow> int \<Rightarrow> u8 list \<Rightarrow> 'd bmt_bbt \<Rightarrow> (int \<times> 'd bmt_bbt) option" where
  "mtk_bmt_read_bbt_loop env i oob s =
     (if i \<ge> uint (total_blks env) - 5 then do {
        let page = push_bit (unat (blk_shift env) - unat (pg_shift env)) (word_of_int i :: u32);
        (ret, buf, oob, d) \<leftarrow> bbt_nand_read env 0 page (bt_buf s) (unat (pg_size env)) oob 8 (bt_dev s);
        let s = s\<lparr>bt_buf := buf, bt_dev := d\<rparr>;
        sig \<leftarrow> buf_get oob 0 8;
        if ret \<noteq> 0 then mtk_bmt_read_bbt_loop env (i - 1) oob s
        else if hd sig \<noteq> 0xFF then mtk_bmt_read_bbt_loop env (i - 1) oob s
        else if tl sig \<noteq> bbt_sig then mtk_bmt_read_bbt_loop env (i - 1) oob s
        else Some (0, s\<lparr>bt_blk_idx := word_of_int i\<rparr>)
      }
      else Some (- EIO, s))"
  by pat_completeness auto
termination
  by (relation "measure (\<lambda>(env, i, oob, s). nat (i - uint (total_blks env) + 6))") auto

declare mtk_bmt_read_bbt_loop.simps [simp del]

definition mtk_bmt_read_bbt :: "'d bmtd \<Rightarrow> 'd bmt_bbt \<Rightarrow> (int \<times> 'd bmt_bbt) option" where
  "mtk_bmt_read_bbt env s =
     mtk_bmt_read_bbt_loop env (uint (total_blks env) - 1) (replicate 8 0) s"

text \<open>\<open>round_up(total_blks >> 2, blk_size)\<close>, as an \<open>int\<close>.\<close>

definition bbt_buf_size :: "'d bmtd \<Rightarrow> u32" where
  "bbt_buf_size env =
     ((ucast (drop_bit 2 (total_blks env)) - 1) OR (blk_size env - 1)) + 1"

definition mtk_bmt_init_bbt ::
  "'d bmtd \<Rightarrow> bool \<Rightarrow> 'd bmt_bbt \<Rightarrow> (int \<times> 'd bmt_bbt) option" where
  "mtk_bmt_init_bbt env alloc_ok s =
     (if \<not> alloc_ok then Some (- ENOMEM, s)
      else do {
        let s = s\<lparr>bt_buf := replicate (unat (bbt_buf_size env)) 0xFF,
                  bt_size := bt_size s - ucast (4 * erasesize env)\<rparr>;
        (ret, s) \<leftarrow> mtk_bmt_read_bbt env s;
        if ret \<noteq> 0 then Some (ret, s)
        else Some (0, s\<lparr>bt_pgs := bbt_buf_size env div pg_size env\<rparr>)
      })"

text \<open>Value 0 prints four blocks a line; value 100 writes the table to the last block.\<close>

function bbt_debug_lines :: "'d bmtd \<Rightarrow> u8 list \<Rightarrow> nat \<Rightarrow> (u32 \<times> string) list option" where
  "bbt_debug_lines env buf i =
     (if i < unat (total_blks env) then do {
        cur \<leftarrow> arr_get buf (i div 4);
        rest \<leftarrow> bbt_debug_lines env buf (i + 4);
        Some ((of_nat i * blk_size env,
               map (\<lambda>k. if drop_bit (2 * k) cur AND 3 \<noteq> 0 then CHR ''B'' else CHR ''.'') [0..<4]) # rest)
      }
      else Some [])"
  by pat_completeness auto
termination
  by (relation "measure (\<lambda>(env, buf, i). unat (total_blks env) - i)") auto

declare bbt_debug_lines.simps [simp del]

definition mtk_bmt_debug_bbt ::
  "'d bmtd \<Rightarrow> u64 \<Rightarrow> 'd bmt_bbt \<Rightarrow> (int \<times> (u32 \<times> string) list \<times> 'd bmt_bbt) option" where
  "mtk_bmt_debug_bbt env val s =
     (if val = 0 then do {
        ls \<leftarrow> bbt_debug_lines env (bt_buf s) 0;
        Some (0, ls, s)
      }
      else if val = 100 then do {
        s \<leftarrow> bbt_store env (s\<lparr>bt_blk_idx := total_blks env - 1\<rparr>);
        Some (0, [], s)
      }
      else Some (0, [], s))"

end
