(* ===== verification/Bmt_Start.thy ===== *)
theory Bmt_Start
  imports Bmt_Attach Bmt_V2_Init Bmt_Bbt Nmbm_Init
begin

text \<open>
  Attaching the three schemes: the \<open>init\<close> operations that \<open>mtk_bmt_attach\<close> calls through
  \<open>bmtd.ops\<close> are those of \<open>mtk_bmt_v2.c\<close>, \<open>mtk_bmt_nmbm.c\<close> and \<open>mtk_bmt_bbt.c\<close>, run with the
  geometry that attaching has put into the descriptor. Then what attaching leaves on each of its
  paths, and that detaching undoes it.
\<close>

section \<open>The \<open>init\<close> operations\<close>

text \<open>The chip with the geometry of the descriptor and of the device.\<close>

definition desc_env :: "'d bmtd \<Rightarrow> 'f mtd_info \<Rightarrow> 'f bmt_desc \<Rightarrow> 'd bmtd" where
  "desc_env drv mtd desc = drv\<lparr>blk_shift := d_blk_shift desc, pg_shift := d_pg_shift desc,
     blk_size := d_blk_size desc, pg_size := d_pg_size desc, total_blks := d_total_blks desc,
     erasesize := mtd_erasesize mtd, oobsize := mtd_oobsize mtd, remap_range := d_remap_range desc\<rparr>"

text \<open>The properties of the node that the \<open>init\<close> operations read.\<close>

record scheme_dt =
  sdt_v2 :: v2_dt
  sdt_max_ratio :: "u32 option"
  sdt_max_reserved :: "u32 option"
  sdt_ecc_ok :: bool
  sdt_force_create :: bool

text \<open>The chip alone, or the state of a scheme that has been started on it.\<close>

datatype 'd scheme_state = On_chip 'd | On_v2 "'d bmt_v2" | On_nmbm "'d nmbm" | On_bbt "'d bmt_bbt"

primrec state_chip :: "'d scheme_state \<Rightarrow> 'd" where
  "state_chip (On_chip d) = d"
| "state_chip (On_v2 s) = v2_dev s"
| "state_chip (On_nmbm s) = dev s"
| "state_chip (On_bbt s) = bt_dev s"

text \<open>
  \<open>bmtd.ops->init(np)\<close>: the members of the descriptor that a scheme uses are zero before, as
  \<open>bmtd\<close> is a static variable that \<open>mtk_bmt_detach\<close> clears. \<open>alloc\<close> is whether the scheme's own
  allocation succeeds.
\<close>

definition scheme_init ::
  "'d bmtd \<Rightarrow> bool \<Rightarrow> scheme_dt \<Rightarrow> bmt_kind \<Rightarrow> 'f bmt_desc \<Rightarrow> 'f mtd_info \<Rightarrow> 'd scheme_state \<Rightarrow>
   'd scheme_state init_res option" where
  "scheme_init drv alloc dt kind desc mtd st = do {
     let env = desc_env drv mtd desc;
     data_buf \<leftarrow> d_data_buf desc;
     (case kind of
        Kind_v2 \<Rightarrow> do {
          (ret, s) \<leftarrow> mtk_bmt_init_v2 env alloc (sdt_v2 dt)
             \<lparr>bbt_buf = [], v2_data_buf = data_buf, table_size = 0, pool_lba = 0, pool_pba = 0, bb_max = 0,
              bmt_blk_idx = 0, bmt_pgs = 0, oob_offset = 0, main_size = mtd_size mtd, v2_dev = state_chip st\<rparr>;
          Some \<lparr>i_ret = ret, i_size = main_size s, i_bbt_buf = (if alloc then Some (bbt_buf s) else None),
                i_data_buf = v2_data_buf s, i_state = On_v2 s\<rparr>
        }
      | Kind_nmbm \<Rightarrow> do {
          (ret, size, ni, d) \<leftarrow> mtk_bmt_init_nmbm env alloc (sdt_max_ratio dt) (sdt_max_reserved dt)
             (sdt_ecc_ok dt) (sdt_force_create dt) data_buf (state_chip st);
          Some \<lparr>i_ret = ret, i_size = (case size of None \<Rightarrow> mtd_size mtd | Some n \<Rightarrow> n),
                i_bbt_buf = d_bbt_buf desc,
                i_data_buf = (case ni of None \<Rightarrow> data_buf | Some s \<Rightarrow> page_cache s),
                i_state = (case ni of None \<Rightarrow> On_chip d | Some s \<Rightarrow> On_nmbm s)\<rparr>
        }
      | Kind_bbt \<Rightarrow> do {
          (ret, s) \<leftarrow> mtk_bmt_init_bbt env alloc
             \<lparr>bt_buf = [], bt_data_buf = data_buf, bt_blk_idx = 0, bt_pgs = 0, bt_size = mtd_size mtd,
              bt_dev = state_chip st\<rparr>;
          Some \<lparr>i_ret = ret, i_size = bt_size s, i_bbt_buf = (if alloc then Some (bt_buf s) else None),
                i_data_buf = bt_data_buf s, i_state = On_bbt s\<rparr>
        })
   }"

section \<open>Attaching and detaching\<close>

text \<open>The device as attaching leaves it for good: its out-of-band size may be overridden.\<close>

definition own_device :: "bmt_node \<Rightarrow> 'f mtd_info \<Rightarrow> 'f mtd_info" where
  "own_device np mtd = mtd\<lparr>mtd_oobsize :=
     (case np_oobsize np of None \<Rightarrow> mtd_oobsize mtd | Some n \<Rightarrow> min n (mtd_oobsize mtd))\<rparr>"

text \<open>
  The descriptor of a device of \<open>n\<close> blocks of \<open>2 ^ k\<close> bytes, and the geometry that a device needs
  for its size to be put back.
\<close>

definition started_desc :: "nat \<Rightarrow> nat \<Rightarrow> bmt_kind \<Rightarrow> bmt_node \<Rightarrow> 'f mtd_info \<Rightarrow> 'f bmt_desc \<Rightarrow> 'f bmt_desc" where
  "started_desc n k kind np mtd desc =
     \<lparr>d_mtd = Some (mtd_id mtd), d_bbt_buf = d_bbt_buf desc,
      d_data_buf = Some (replicate (unat (mtd_writesize mtd + mtd_oobsize (own_device np mtd))) 0xFF),
      d_fns = Some (mtd_fns mtd), d_ops = Some kind, d_pg_size = mtd_writesize mtd, d_blk_size = 2 ^ k,
      d_pg_shift = of_nat (ffs (mtd_writesize mtd)) - 1, d_blk_shift = of_nat k, d_total_blks = of_nat n,
      d_remap_range = np_remap_range np\<rparr>"

definition whole_blocks :: "nat \<Rightarrow> nat \<Rightarrow> 'f mtd_info \<Rightarrow> bool" where
  "whole_blocks n k mtd \<longleftrightarrow> k < 31 \<and> mtd_erasesize mtd = 2 ^ k \<and> unat (mtd_size mtd) = n * 2 ^ k \<and>
     n < 2 ^ 16 \<and> n * 2 ^ k < 2 ^ 31"

lemma unat_u16_shift: "k < 2 ^ 16 \<Longrightarrow> unat (of_nat k :: u16) = k"
  by (simp add: unsigned_of_nat take_bit_nat_eq_self)

lemma setup_eq:
  assumes "whole_blocks n k mtd"
  shows "attach_setup bmt_fns kind np mtd desc = ((own_device np mtd)\<lparr>mtd_fns := bmt_fns\<rparr>,
    (started_desc n k kind np mtd desc)\<lparr>d_data_buf := d_data_buf desc\<rparr>)"
proof -
  note w = assms [unfolded whole_blocks_def]
  have shift: "of_nat (ffs (2 ^ k)) - 1 = (of_nat k :: u16)" using w by (simp add: ffs_pow2)
  have "unat (of_nat k :: u16) = k" using w by (intro unat_u16_shift) simp
  moreover have "unat (drop_bit k (mtd_size mtd)) = n"
  proof -
    have "n * 2 ^ k < 2 ^ 31" and "unat (mtd_size mtd) = n * 2 ^ k" using w by blast+
    then have "unat (mtd_size mtd) < 2 ^ 64" by simp
    then have "unat (drop_bit k (mtd_size mtd)) = drop_bit k (unat (mtd_size mtd))"
      by (simp add: unsigned_drop_bit_eq take_bit_nat_eq_self)
    then show ?thesis using w by (simp add: drop_bit_eq_div)
  qed
  then have "ucast (drop_bit k (mtd_size mtd)) = (of_nat n :: u16)"
    by (metis of_nat_unat)
  ultimately have "ucast (drop_bit (unat (of_nat k :: u16)) (mtd_size mtd)) = (of_nat n :: u16)"
    by simp
  then show ?thesis using w
    by (cases desc) (auto simp: attach_setup_def mtk_bmt_replace_ops_def own_device_def started_desc_def Let_def shift min_def
        not_less split: option.splits)
qed

lemma size_back:
  assumes "whole_blocks n k mtd"
  shows "scast (push_bit (unat (of_nat k :: u16)) (ucast (of_nat n :: u16) :: u32)) = mtd_size mtd"
proof -
  note w = assms [unfolded whole_blocks_def]
  let ?w = "push_bit k (ucast (of_nat n :: u16) :: u32)"
  have k: "unat (of_nat k :: u16) = k" using w by (intro unat_u16_shift) simp
  have "unat (of_nat n :: u16) = n" using w by (intro unat_u16_shift) simp
  moreover have "unat ?w = take_bit 32 (push_bit k (unat (of_nat n :: u16)))"
    by (simp only: unsigned_push_bit_eq unat_u16_u32) simp
  moreover have "n * 2 ^ k < 2 ^ 32"
  proof -
    have "n * 2 ^ k < 2 ^ 31" using w by blast
    then show ?thesis by simp
  qed
  ultimately have u: "unat ?w = n * 2 ^ k"
    by (simp only: push_bit_eq_mult take_bit_nat_eq_self)
  then have s: "sint ?w = int (n * 2 ^ k)" using w by (subst sint_small) simp_all
  have "scast ?w = (of_nat (n * 2 ^ k) :: u64)" by (simp only: scast_eq s of_int_of_nat_eq)
  also have "n * 2 ^ k = unat (mtd_size mtd)" using w by simp
  also have "of_nat (unat (mtd_size mtd)) = mtd_size mtd" by simp
  finally show ?thesis unfolding k .
qed

text \<open>Detaching from what attaching has made of the device and the descriptor.\<close>

lemma detach_started:
  assumes "whole_blocks n k mtd"
  shows "mtk_bmt_detach ((own_device np mtd)\<lparr>mtd_fns := f, mtd_size := sz\<rparr>)
      ((started_desc n k kind np mtd desc)\<lparr>d_bbt_buf := b, d_data_buf := c\<rparr>) = Some (own_device np mtd, bmt_desc_zero)"
  using size_back [OF assms] by (simp add: mtk_bmt_detach_def started_desc_def own_device_def)

text \<open>
  C26: Attaching to a free descriptor a device of whole blocks (fewer than \<open>2 ^ 16\<close>, and less than
  2 GiB in all; beyond, the size is not put back, see below). Without a scheme in the node nothing
  changes. Otherwise, whatever the \<open>init\<close> operation of the scheme does to the size of the device, to
  the two buffers and to its own state: when the page buffer cannot be allocated, or \<open>init\<close> returns
  an error, that error is returned, the descriptor is clear, and the device has its own operations
  and size again; only an overridden out-of-band size stays. When \<open>init\<close> succeeds the device has the
  operations of the core, the descriptor has the geometry of the device, a further attach is
  refused and changes nothing, and detaching gives the device back its own operations and its full
  size and clears the descriptor; again only the overridden out-of-band size stays. Attaching has
  no result exactly when the \<open>init\<close> operation it calls has none.
\<close>

theorem attach_detach:
  assumes "d_mtd desc = None" and "whole_blocks n k mtd"
  shows "case np of None \<Rightarrow> mtk_bmt_attach bmt_fns alloc_ok init np mtd desc st = Some (0, mtd, desc, st)
    | Some p \<Rightarrow> (case bmt_kind_of p of
        None \<Rightarrow> mtk_bmt_attach bmt_fns alloc_ok init np mtd desc st = Some (0, mtd, desc, st)
      | Some kind \<Rightarrow>
          let own = own_device p mtd; new = started_desc n k kind p mtd desc in
          if \<not> alloc_ok
          then mtk_bmt_attach bmt_fns alloc_ok init np mtd desc st = Some (- 1, own, bmt_desc_zero, st)
          else (case init kind new (own\<lparr>mtd_fns := bmt_fns\<rparr>) st of
              None \<Rightarrow> mtk_bmt_attach bmt_fns alloc_ok init np mtd desc st = None
            | Some r \<Rightarrow>
                if i_ret r \<noteq> 0
                then mtk_bmt_attach bmt_fns alloc_ok init np mtd desc st =
                  Some (i_ret r, own, bmt_desc_zero, i_state r)
                else
                  let dev = own\<lparr>mtd_fns := bmt_fns, mtd_size := i_size r\<rparr>;
                      used = new\<lparr>d_bbt_buf := i_bbt_buf r, d_data_buf := Some (i_data_buf r)\<rparr> in
                  mtk_bmt_attach bmt_fns alloc_ok init np mtd desc st = Some (0, dev, used, i_state r) \<and>
                  (\<forall>q m. mtk_bmt_attach bmt_fns alloc_ok init q m used (i_state r) = Some (- ENOSPC, m, used, i_state r)) \<and>
                  mtk_bmt_detach dev used = Some (own, bmt_desc_zero)))"
proof (cases "\<exists>p kind. np = Some p \<and> bmt_kind_of p = Some kind")
  case False
  then show ?thesis using assms(1) by (auto simp: mtk_bmt_attach_def split: option.splits)
next
  case True
  then obtain p kind where np: "np = Some p" "bmt_kind_of p = Some kind" by blast
  let ?own = "own_device p mtd" and ?new = "started_desc n k kind p mtd desc"
  note st_eq = setup_eq [OF assms(2), of bmt_fns kind p desc]
  have buf: "?new\<lparr>d_data_buf := Some (replicate (unat (mtd_writesize mtd + mtd_oobsize ?own)) 0xFF)\<rparr> = ?new"
    and pg: "d_pg_size ?new = mtd_writesize mtd"
    by (simp_all add: started_desc_def)
  have failed: "mtk_bmt_detach (?own\<lparr>mtd_fns := bmt_fns\<rparr>) (?new\<lparr>d_data_buf := d_data_buf desc\<rparr>) =
      Some (?own, bmt_desc_zero)"
    using detach_started [OF assms(2), where np = p and f = bmt_fns and sz = "mtd_size mtd" and
        kind = kind and desc = desc and b = "d_bbt_buf desc" and c = "d_data_buf desc"]
    by (simp add: started_desc_def own_device_def)
  have busy: "mtk_bmt_attach bmt_fns a init q m (?new\<lparr>d_bbt_buf := b, d_data_buf := c\<rparr>) s =
      Some (- ENOSPC, m, ?new\<lparr>d_bbt_buf := b, d_data_buf := c\<rparr>, s)" for a q m b c s
    by (simp add: mtk_bmt_attach_def started_desc_def)
  have run: "mtk_bmt_attach bmt_fns alloc_ok init np mtd desc st =
     (if \<not> alloc_ok then Some (- 1, ?own, bmt_desc_zero, st)
      else case init kind ?new (?own\<lparr>mtd_fns := bmt_fns\<rparr>) st of None \<Rightarrow> None
        | Some r \<Rightarrow> if i_ret r \<noteq> 0 then Some (i_ret r, ?own, bmt_desc_zero, i_state r)
            else Some (0, ?own\<lparr>mtd_fns := bmt_fns, mtd_size := i_size r\<rparr>,
              ?new\<lparr>d_bbt_buf := i_bbt_buf r, d_data_buf := Some (i_data_buf r)\<rparr>, i_state r))"
    using np assms(1) failed
    by (simp add: mtk_bmt_attach_def st_eq buf pg detach_started [OF assms(2)] Let_def split: option.split)
  show ?thesis
    unfolding np(1) run [unfolded np(1)]
    by (simp add: np(2) busy detach_started [OF assms(2)] Let_def split: option.split)
qed

definition sample_mtd :: "nat mtd_info" where
  "sample_mtd = \<lparr>mtd_id = 1, mtd_fns = \<lparr>f_read_oob = 1, f_write_oob = 2, f_erase = 3,
     f_block_isbad = 4, f_block_markbad = 5\<rparr>, mtd_size = 0x10000000, mtd_erasesize = 0x20000,
     mtd_writesize = 2048, mtd_oobsize = 64\<rparr>"

text \<open>
  The simulated chip behind a device that names the BBT scheme and 8 bytes of out-of-band data.
  Nothing on it looks like a table, so the scheme refuses it with \<open>-EIO\<close> after it has taken four
  blocks from the device: the size is back, the out-of-band size is not. When every page carries
  the mark of a table the scheme starts, and detaching restores the size.
\<close>

definition small_mtd :: "nat mtd_info" where
  "small_mtd = sample_mtd\<lparr>mtd_size := 2048, mtd_erasesize := 128, mtd_writesize := 64, mtd_oobsize := 16\<rparr>"

definition bbt_node :: bmt_node where
  "bbt_node = \<lparr>np_v2 = False, np_nmbm = False, np_bbt = True, np_remap_range = None, np_oobsize = Some 8\<rparr>"

definition core_fns :: "nat mtd_fns" where
  "core_fns = \<lparr>f_read_oob = 11, f_write_oob = 12, f_erase = 13, f_block_isbad = 14, f_block_markbad = 15\<rparr>"

definition plain_dt :: scheme_dt where
  "plain_dt = \<lparr>sdt_v2 = \<lparr>dt_pool_size = None, dt_oob_offset = None, dt_table_size = None\<rparr>, sdt_max_ratio = None,
     sdt_max_reserved = None, sdt_ecc_ok = False, sdt_force_create = False\<rparr>"

definition marked_chip :: "sim_nand bmtd" where
  "marked_chip = sim_bmtd\<lparr>drv_read_oob := (\<lambda>d a l ol oo.
     (\<lparr>rd_ret = 0, rd_dat = replicate l 0xFF, rd_oob = take ol (0xFF # bbt_sig)\<rparr>, d))\<rparr>"

definition attach_small :: "sim_nand bmtd \<Rightarrow> (int \<times> nat mtd_info \<times> nat bmt_desc \<times> sim_nand scheme_state) option" where
  "attach_small chip = mtk_bmt_attach core_fns True (scheme_init chip True plain_dt) (Some bbt_node)
     small_mtd bmt_desc_zero (On_chip sim_blank)"

text \<open>The \<open>init\<close> operation on the two chips.\<close>

lemma init_small:
  "map_option (\<lambda>r. (i_ret r, i_size r)) (scheme_init sim_bmtd True plain_dt Kind_bbt
     (started_desc 16 7 Kind_bbt bbt_node small_mtd bmt_desc_zero)
     ((own_device bbt_node small_mtd)\<lparr>mtd_fns := core_fns\<rparr>) (On_chip sim_blank)) = Some (- 5, 1536)"
  "map_option (\<lambda>r. (i_ret r, i_size r)) (scheme_init marked_chip True plain_dt Kind_bbt
     (started_desc 16 7 Kind_bbt bbt_node small_mtd bmt_desc_zero)
     ((own_device bbt_node small_mtd)\<lparr>mtd_fns := core_fns\<rparr>) (On_chip sim_blank)) = Some (0, 1536)"
  by code_simp+

theorem attach_detach_witness:
  "returns (attach_small sim_bmtd) (\<lambda>(ret, mtd, desc, st). ret = - EIO \<and>
     mtd = small_mtd\<lparr>mtd_oobsize := 8\<rparr> \<and> desc = bmt_desc_zero) \<and>
   returns (attach_small marked_chip) (\<lambda>(ret, mtd, desc, st). ret = 0 \<and> mtd_fns mtd = core_fns \<and>
     mtd_size mtd = 1536 \<and> mtk_bmt_detach mtd desc = Some (small_mtd\<lparr>mtd_oobsize := 8\<rparr>, bmt_desc_zero))"
proof -
  have free: "d_mtd (bmt_desc_zero :: nat bmt_desc) = None" by (simp add: bmt_desc_zero_def)
  have geo: "whole_blocks 16 7 small_mtd" by (simp add: whole_blocks_def small_mtd_def)
  have kind: "bmt_kind_of bbt_node = Some Kind_bbt" by (simp add: bmt_kind_of_def bbt_node_def)
  have own: "own_device bbt_node small_mtd = small_mtd\<lparr>mtd_oobsize := 8\<rparr>"
    by (simp add: own_device_def bbt_node_def small_mtd_def min_def)
  note th = attach_detach [OF free geo, where np = "Some bbt_node" and bmt_fns = core_fns and alloc_ok = True and
      init = "scheme_init chip True plain_dt" and st = "On_chip sim_blank" for chip]
  show ?thesis
    using th [of sim_bmtd] th [of marked_chip] init_small
    by (auto simp: attach_small_def kind own Let_def map_option_case split: option.splits)
qed

text \<open>
  \<open>mtk_bmt_detach\<close> computes the size of the device in an \<open>int\<close>: for a chip of 2 GiB or more
  (below 4 GiB) the size it leaves is negative, a huge number as the \<open>u64\<close> that it is.
\<close>

theorem detach_size_overflow:
  assumes "d_mtd desc = Some (mtd_id mtd)" and "d_fns desc = Some fns"
    and "unat (d_total_blks desc) * 2 ^ unat (d_blk_shift desc) = n" and "2 ^ 31 \<le> n" and "n < 2 ^ 32"
  shows "returns (mtk_bmt_detach mtd desc) (\<lambda>(m, d). unat (mtd_size m) = 2 ^ 64 - (2 ^ 32 - n))"
proof -
  let ?w = "push_bit (unat (d_blk_shift desc)) (ucast (d_total_blks desc) :: u32)"
  have "unat ?w = take_bit 32 (push_bit (unat (d_blk_shift desc)) (unat (d_total_blks desc)))"
    by (simp only: unsigned_push_bit_eq unat_u16_u32) simp
  then have w: "unat ?w = n" using assms(3,5) by (simp only: push_bit_eq_mult take_bit_nat_eq_self)
  have "sint ?w = signed_take_bit 31 (int (unat ?w))" by (simp add: sint_uint)
  also have "\<dots> = take_bit 32 (int n + 2 ^ 31) - 2 ^ 31"
    unfolding w by (simp add: signed_take_bit_eq_take_bit_shift)
  also have "take_bit 32 (int n + 2 ^ 31) = int n + 2 ^ 31 - 2 ^ 32"
  proof -
    have "(int n + 2 ^ 31) mod 2 ^ 32 = (int n + 2 ^ 31 - 2 ^ 32) mod 2 ^ 32"
      using mod_add_self2 [of "int n + 2 ^ 31 - 2 ^ 32" "2 ^ 32"] by (simp add: add.commute)
    also have "\<dots> = int n + 2 ^ 31 - 2 ^ 32" using assms(4,5) by (intro mod_pos_pos_trivial) auto
    finally show ?thesis by (simp only: take_bit_eq_mod)
  qed
  finally have sw: "sint ?w = int n - 2 ^ 32" by simp
  have "uint (scast ?w :: u64) = sint ?w mod 2 ^ 64" by (simp only: scast_eq uint_word_of_int) simp
  also have "\<dots> = (int n - 2 ^ 32 + 2 ^ 64) mod 2 ^ 64" unfolding sw by (simp only: mod_add_self2)
  also have "\<dots> = int n - 2 ^ 32 + 2 ^ 64" using assms(5) by (intro mod_pos_pos_trivial) auto
  finally have "int (unat (scast ?w :: u64)) = int n - 2 ^ 32 + 2 ^ 64" by simp
  moreover have "v = 2 ^ 64 - (2 ^ 32 - n)" if "int v = int n - 2 ^ 32 + 2 ^ 64" for v
    using that assms(5) by simp
  ultimately have "unat (scast ?w :: u64) = 2 ^ 64 - (2 ^ 32 - n)" by blast
  then show ?thesis using assms(1,2) by (simp add: mtk_bmt_detach_def)
qed

text \<open>16384 blocks of 128 KiB, a chip of 2 GiB.\<close>

theorem detach_size_overflow_witness:
  "returns (mtk_bmt_detach sample_mtd
      (bmt_desc_zero\<lparr>d_mtd := Some 1, d_fns := Some (mtd_fns sample_mtd), d_blk_shift := 17, d_total_blks := 16384\<rparr>))
    (\<lambda>(m, d). unat (mtd_size m) = 2 ^ 64 - (2 ^ 32 - 2147483648))"
  by (rule detach_size_overflow) (simp_all add: sample_mtd_def)

end
