(* ===== verification/Bmt_Scheme.thy ===== *)
theory Bmt_Scheme
  imports Bmt_Core Flash_Addr
begin

text \<open>
  What the core's reads, writes and erases (\<open>mtk_bmt.c\<close>) do through any scheme that satisfies
  \<open>bmt_scheme\<close>, on a chip that works (\<open>working_chip\<close>): it reads what it holds, stores programmed
  bytes where it is erased, and erases whole requests. From these laws alone: a read returns the
  bytes of the mapped blocks, and an erase followed by a write and a read returns what was written,
  across block boundaries.
\<close>

section \<open>The chip\<close>

locale working_chip =
  fixes env :: "'d bmtd" and mem :: "'d \<Rightarrow> u64 \<Rightarrow> u8"
  assumes geom: "geom_ok env"
    and threshold: "bitflip_threshold env \<noteq> 0"
    and read_law: "drv_read_oob env d a l 0 oo =
      (\<lparr>rd_ret = 0, rd_dat = map (\<lambda>i. mem d (a + of_nat i)) [0..<l], rd_oob = []\<rparr>, d)"
    and write_law: "fst (drv_write_oob env d a dat [] oo) = \<lparr>wr_ret = 0, wr_retlen = length dat, wr_oobretlen = 0\<rparr>"
    and write_in: "unat (x - a) < length dat \<Longrightarrow> mem d x = 0xFF \<Longrightarrow>
      mem (snd (drv_write_oob env d a dat [] oo)) x = dat ! unat (x - a)"
    and write_out: "length dat \<le> unat (x - a) \<Longrightarrow>
      mem (snd (drv_write_oob env d a dat [] oo)) x = mem d x"
    and erase_law: "fst (drv_erase env d a n) = 0"
    and erase_mem: "mem (snd (drv_erase env d a n)) x = (if x - a < n then 0xFF else mem d x)"

text \<open>The chip of the samples works.\<close>

interpretation sim: working_chip sim_bmtd cells
proof
  show "geom_ok sim_bmtd" by (rule sim_geom_ok)
qed (auto simp: sim_bmtd_def sim_read_def sim_write_def sim_erase_def)

section \<open>Physical addresses\<close>

text \<open>
  The physical address of logical address \<open>a\<close> when logical block \<open>b\<close> lies in physical block
  \<open>p b\<close>, and the blocks from \<open>lo\<close> up to \<open>hi\<close> being mapped by \<open>p\<close>.
\<close>

abbreviation bsz :: "'d bmtd \<Rightarrow> nat" where
  "bsz env \<equiv> 2 ^ unat (blk_shift env)"

definition phys :: "'d bmtd \<Rightarrow> (nat \<Rightarrow> nat) \<Rightarrow> nat \<Rightarrow> nat" where
  "phys env p a = p (a div bsz env) * bsz env + a mod bsz env"

definition mapped_by :: "('s, 'd) bmt_ops \<Rightarrow> 's \<Rightarrow> (nat \<Rightarrow> nat) \<Rightarrow> nat \<Rightarrow> nat \<Rightarrow> bool" where
  "mapped_by ops s p lo hi \<longleftrightarrow> hi \<le> 65536 \<and>
     (\<forall>b. lo \<le> b \<longrightarrow> b < hi \<longrightarrow> get_mapping_block ops (of_nat b) s = Some (int (p b)) \<and> p b < 2 ^ 31)"

lemma div_eq_iff_range: "0 < n \<Longrightarrow> x div n = q \<longleftrightarrow> q * n \<le> x \<and> x < Suc q * (n :: nat)"
  using div_nat_eqI [of n q x] div_times_less_eq_dividend [of x n] dividend_less_div_times [of n x]
  by (auto simp: mult.commute)

lemma div_mod_step:
  assumes "a mod n + i < (n :: nat)"
  shows "(a + i) div n = a div n" "(a + i) mod n = a mod n + i"
proof -
  have "i < n" using assms by simp
  then show "(a + i) div n = a div n" using assms div_add1_eq [of a i n] by simp
  have "(a + i) mod n = (a mod n + i) mod n" by (rule mod_add_left_eq [symmetric])
  then show "(a + i) mod n = a mod n + i" using assms by simp
qed

lemma phys_step: "a mod bsz env + i < bsz env \<Longrightarrow> phys env p (a + i) = phys env p a + i"
  by (simp add: phys_def div_mod_step)

lemma phys_inj:
  assumes "phys env p a = phys env p b" and "inj_on p B" and "a div bsz env \<in> B" and "b div bsz env \<in> B"
  shows "a = b"
proof -
  have "phys env p x div bsz env = p (x div bsz env)" "phys env p x mod bsz env = x mod bsz env" for x
    by (simp_all add: phys_def)
  then have "p (a div bsz env) = p (b div bsz env)" "a mod bsz env = b mod bsz env"
    using assms(1) by metis+
  then have "a div bsz env = b div bsz env" using assms(2-4) by (auto dest: inj_onD)
  then show ?thesis using \<open>a mod bsz env = b mod bsz env\<close> by (metis div_mult_mod_eq)
qed

lemma blk_mask: "geom_ok env \<Longrightarrow> blk_size env - 1 = mask (unat (blk_shift env))"
proof -
  assume g: "geom_ok env"
  have "blk_size env = of_nat (unat (blk_size env))" by simp
  also have "\<dots> = 2 ^ unat (blk_shift env)" using g by (simp add: geom_ok_def)
  finally have "blk_size env = 2 ^ unat (blk_shift env)" .
  then show ?thesis by (simp add: mask_eq_exp_minus_1)
qed

lemma logical_bound:
  assumes "geom_ok env" and "f < 65536 * bsz env"
  shows "f < 2 ^ 40"
proof -
  have "65536 * bsz env \<le> 2 ^ 16 * 2 ^ 24" using blk_pow_le [OF assms(1)] by simp
  then show ?thesis using assms(2) by simp
qed

lemma unat_of_nat64: "n < 2 ^ 64 \<Longrightarrow> unat (of_nat n :: u64) = n"
  by (simp add: unat_of_nat take_bit_nat_eq_self)

lemma ucast_block:
  assumes "unat (w :: u64) = b" and "b < 65536"
  shows "ucast (ucast w :: u16) = (of_nat b :: u32)"
proof -
  have "unat (ucast w :: u16) = b" using assms by (simp add: unsigned_ucast_eq take_bit_nat_eq_self)
  then have "unat (ucast (ucast w :: u16) :: u32) = b" by (simp only: unat_u16_u32)
  then have "of_nat (unat (ucast (ucast w :: u16) :: u32)) = (of_nat b :: u32)" by (rule arg_cong)
  then show ?thesis by simp
qed

lemma unat_logical: "geom_ok env \<Longrightarrow> f < 65536 * bsz env \<Longrightarrow> unat (of_nat f :: u64) = f"
  using logical_bound [of env f] by (simp add: unat_of_nat take_bit_nat_eq_self)

lemma unat_block_off:
  assumes "geom_ok env" and "f < 65536 * bsz env"
  shows "unat (block_off env (of_nat f)) = f mod bsz env"
proof -
  have low: "(of_nat f :: u64) AND ucast (blk_size env - 1) = take_bit (unat (blk_shift env)) (of_nat f)"
    unfolding blk_mask [OF assms(1)] using assms(1)
    by (intro bit_word_eqI) (auto simp: bit_simps geom_ok_def)
  have "unat ((of_nat f :: u64) AND ucast (blk_size env - 1)) = f mod bsz env"
    by (simp only: low unsigned_take_bit_eq unat_logical [OF assms]) (simp only: take_bit_eq_mod)
  moreover have "f mod bsz env < 2 ^ 32"
    by (rule less_le_trans [OF mod_less_divisor]) (use blk_pow_le [OF assms(1)] in simp_all)
  ultimately show ?thesis
    by (simp add: block_off_def unsigned_ucast_eq take_bit_nat_eq_self)
qed

lemma block_num_of_nat:
  assumes "geom_ok env" and "f < 65536 * bsz env"
  shows "block_num env (of_nat f) = of_nat (f div bsz env)"
proof -
  have "f div bsz env < 65536" using assms(2) by (simp add: less_mult_imp_div_less)
  moreover have "unat (drop_bit (unat (blk_shift env)) (of_nat f :: u64)) = f div bsz env"
    by (simp only: unat_drop_bit_eq unat_logical [OF assms]) (simp add: drop_bit_eq_div)
  ultimately have "unat (block_num env (of_nat f)) = f div bsz env"
    by (simp add: block_num_def unsigned_ucast_eq take_bit_nat_eq_self)
  then have "of_nat (unat (block_num env (of_nat f))) = (of_nat (f div bsz env) :: u32)" by (rule arg_cong)
  then show ?thesis by simp
qed

lemma unat_cur_addr:
  assumes "geom_ok env" and "q < 2 ^ 31" and "unat off < bsz env"
  shows "unat (cur_addr env (int q) off) = q * bsz env + unat off"
proof -
  have "Suc q * bsz env \<le> 2 ^ 31 * 2 ^ 24"
    using assms(2) blk_pow_le [OF assms(1)] by (intro mult_le_mono) auto
  then have b: "q * bsz env + unat off < 2 ^ 56" using assms(3) by simp
  have "unat (push_bit (unat (blk_shift env)) (word_of_int (int q) :: u64)) = q * bsz env"
  proof -
    have uq: "unat (word_of_int (int q) :: u64) = q"
      using assms(2) by (simp add: unat_of_nat take_bit_nat_eq_self)
    show ?thesis
      using b by (simp only: unsigned_push_bit_eq uq) (simp add: push_bit_eq_mult take_bit_nat_eq_self)
  qed
  then show ?thesis
    using b unat_u32_u64 [of off] by (simp add: cur_addr_def unat_word_ariths(1) del: unat_u32_u64)
qed

section \<open>Reading, erasing and writing through a scheme\<close>

text \<open>The bytes of the next request at logical address \<open>f\<close>, at most up to the end of its block.\<close>

definition chunk :: "'d bmtd \<Rightarrow> nat \<Rightarrow> nat \<Rightarrow> nat" where
  "chunk env f n = min (bsz env - f mod bsz env) n"

lemma chunk_bounds:
  "0 < n \<Longrightarrow> 0 < chunk env f n" "chunk env f n \<le> n" "i < chunk env f n \<Longrightarrow> f mod bsz env + i < bsz env"
  by (auto simp: chunk_def)

lemma chunk_length:
  assumes "geom_ok env" and "f < 65536 * bsz env" and "n < 2 ^ 32"
  shows "unat (min (blk_size env - block_off env (of_nat f)) (of_nat n)) = chunk env f n"
proof -
  have size: "unat (blk_size env) = bsz env" using assms(1) by (simp add: geom_ok_def)
  have "f mod bsz env < bsz env" by simp
  then have "block_off env (of_nat f) \<le> blk_size env"
    using unat_block_off [OF assms(1,2)] size by (simp add: word_le_nat_alt)
  then have "unat (blk_size env - block_off env (of_nat f)) = bsz env - f mod bsz env"
    using unat_block_off [OF assms(1,2)] size by (simp add: unat_sub)
  moreover have "unat (of_nat n :: u32) = n" using assms(3) by (rule unat_of_nat32)
  ultimately show ?thesis by (simp add: chunk_def min_def word_le_nat_alt)
qed

lemma mapped_at:
  assumes "mapped_by ops s p lo hi" and "lo * bsz env \<le> f" and "f < hi * bsz env"
  shows "get_mapping_block ops (of_nat (f div bsz env)) s = Some (int (p (f div bsz env)))"
    "p (f div bsz env) < 2 ^ 31" "f < 65536 * bsz env" "f div bsz env \<in> {lo..<hi}"
proof -
  have b: "lo \<le> f div bsz env" "f div bsz env < hi"
    using assms(2,3) by (simp_all add: less_eq_div_iff_mult_less_eq div_less_iff_less_mult)
  with assms(1) show "get_mapping_block ops (of_nat (f div bsz env)) s = Some (int (p (f div bsz env)))"
    "p (f div bsz env) < 2 ^ 31" "f div bsz env \<in> {lo..<hi}" by (simp_all add: mapped_by_def)
  have "hi * bsz env \<le> 65536 * bsz env" using assms(1) by (simp add: mapped_by_def)
  then show "f < 65536 * bsz env" using assms(3) by linarith
qed

text \<open>Where the request at \<open>f\<close> goes.\<close>

lemma request_addr:
  assumes "geom_ok env" and "f < 65536 * bsz env" and "p (f div bsz env) < 2 ^ 31"
  shows "cur_addr env (int (p (f div bsz env))) (block_off env (of_nat f)) = of_nat (phys env p f)"
proof -
  have "f mod bsz env < bsz env" by simp
  then have "unat (cur_addr env (int (p (f div bsz env))) (block_off env (of_nat f))) = phys env p f"
    using unat_cur_addr [OF assms(1,3)] unat_block_off [OF assms(1,2)] by (simp add: phys_def)
  then have "of_nat (unat (cur_addr env (int (p (f div bsz env))) (block_off env (of_nat f)))) =
      (of_nat (phys env p f) :: u64)" by (rule arg_cong)
  then show ?thesis by simp
qed

lemma next_addr:
  assumes "geom_ok env" and "unat (c :: u32) = n"
  shows "(of_nat f :: u64) + ucast c = of_nat (f + n)"
proof -
  have "(ucast c :: u64) = of_nat (unat (ucast c :: u64))" by simp
  then have "(ucast c :: u64) = of_nat n" using assms(2) by simp
  then show ?thesis by simp
qed

lemma map_chunk: "c \<le> n \<Longrightarrow> map g [0..<n] = map g [0..<c] @ map (\<lambda>i. g (c + i)) [0..<n - c]"
proof -
  assume "c \<le> n"
  then have "[0..<n] = [0..<c] @ [c..<n]" using upt_add_eq_append [of 0 c "n - c"] by simp
  moreover have "[c..<n] = map (\<lambda>i. c + i) [0..<n - c]" using \<open>c \<le> n\<close> map_add_upt [of c "n - c"] by (simp add: add.commute)
  ultimately show ?thesis by (simp add: comp_def)
qed

text \<open>The addresses of a chunk.\<close>

lemma chunk_addr:
  assumes "i < chunk env f n" and "n < 2 ^ 32"
  shows "unat (of_nat (phys env p (f + i)) - of_nat (phys env p f) :: u64) = i"
proof -
  have "phys env p (f + i) = phys env p f + i"
    using chunk_bounds(3) [OF assms(1)] by (rule phys_step)
  then have "(of_nat (phys env p (f + i)) - of_nat (phys env p f) :: u64) = of_nat i" by simp
  moreover have "i < 2 ^ 32" using assms chunk_bounds(2) [of env f n] by linarith
  ultimately show ?thesis by (simp add: unat_of_nat take_bit_nat_eq_self)
qed

lemma in_chunk:
  assumes "unat (x - of_nat (phys env p f) :: u64) < chunk env f n"
  shows "x = of_nat (phys env p (f + unat (x - of_nat (phys env p f))))"
proof -
  have "phys env p (f + unat (x - of_nat (phys env p f))) = phys env p f + unat (x - of_nat (phys env p f))"
    using chunk_bounds(3) [OF assms] by (rule phys_step)
  then show ?thesis by simp
qed

text \<open>Different logical addresses are different physical ones.\<close>

lemma phys_word_inj:
  assumes "geom_ok env" and "mapped_by ops s p lo hi" and "inj_on p {lo..<hi}"
    and "lo * bsz env \<le> a" "a < hi * bsz env" "lo * bsz env \<le> b" "b < hi * bsz env"
    and "(of_nat (phys env p a) :: u64) = of_nat (phys env p b)"
  shows "a = b"
proof -
  note ma = mapped_at [OF assms(2,4,5)] and mb = mapped_at [OF assms(2,6,7)]
  have small: "phys env p x < 2 ^ 64" if "p (x div bsz env) < 2 ^ 31" for x
  proof -
    have "Suc (p (x div bsz env)) * bsz env \<le> 2 ^ 31 * 2 ^ 24"
      using that blk_pow_le [OF assms(1)] by (intro mult_le_mono) auto
    moreover have "phys env p x < Suc (p (x div bsz env)) * bsz env" by (simp add: phys_def)
    ultimately show ?thesis by simp
  qed
  have "unat (of_nat (phys env p a) :: u64) = unat (of_nat (phys env p b) :: u64)"
    using assms(8) by (rule arg_cong)
  then have "phys env p a = phys env p b"
    using small [OF ma(2)] small [OF mb(2)] by (simp add: unat_of_nat take_bit_nat_eq_self)
  then show ?thesis by (rule phys_inj [OF _ assms(3) ma(4) mb(4)])
qed

lemma mapped_by_set: "bmt_scheme ops \<Longrightarrow> mapped_by ops (set_chip ops d s) p lo hi = mapped_by ops s p lo hi"
  by (simp add: mapped_by_def bmt_scheme.map_set)

text \<open>
  The first address of an erase: \<open>~erasesize_mask\<close> is a 32-bit number when it is widened, so the
  upper 32 bits of the address are lost.
\<close>

lemma erase_start:
  assumes "geom_ok env"
  shows "(addr :: u64) AND ucast (NOT (erasesize env - 1)) = of_nat ((unat addr mod 2 ^ 32) div bsz env * bsz env)"
proof -
  let ?k = "unat (blk_shift env)" and ?w = "addr AND ucast (NOT (erasesize env - 1))"
  have es: "erasesize env - 1 = mask ?k" using assms blk_mask [OF assms] by (simp add: geom_ok_def)
  have k: "?k \<le> 24" using assms by (simp add: geom_ok_def)
  have "?w = push_bit ?k (drop_bit ?k (take_bit 32 addr))"
    unfolding es using k by (intro bit_word_eqI) (auto simp: bit_simps)
  then have "unat ?w = take_bit 64 (push_bit ?k (drop_bit ?k (take_bit 32 (unat addr))))"
    by (simp only: unsigned_push_bit_eq unat_drop_bit_eq unsigned_take_bit_eq) simp
  moreover have "take_bit 32 (unat addr) div bsz env * bsz env < 2 ^ 64"
    by (rule le_less_trans [OF div_times_less_eq_dividend]) (simp add: take_bit_eq_mod less_trans [OF mod_less_divisor])
  ultimately have "unat ?w = (unat addr mod 2 ^ 32) div bsz env * bsz env"
    by (simp only: push_bit_eq_mult drop_bit_eq_div take_bit_nat_eq_self) (simp only: take_bit_eq_mod)
  then have "of_nat (unat ?w) = (of_nat ((unat addr mod 2 ^ 32) div bsz env * bsz env) :: u64)"
    by (rule arg_cong)
  then show ?thesis by simp
qed

locale working_core = bmt_scheme ops + working_chip env mem
  for ops :: "('s, 'd) bmt_ops" and env :: "'d bmtd" and mem :: "'d \<Rightarrow> u64 \<Rightarrow> u8"
begin

text \<open>The logical bytes from \<open>f\<close> on.\<close>

definition logical :: "(nat \<Rightarrow> nat) \<Rightarrow> 'd \<Rightarrow> nat \<Rightarrow> nat \<Rightarrow> u8 list" where
  "logical p d f n = map (\<lambda>i. mem d (of_nat (phys env p (f + i)))) [0..<n]"

lemma read_loop:
  assumes "mapped_by ops s p lo hi" and "lo * bsz env \<le> f" and "f + n \<le> hi * bsz env" and "n < 2 ^ 32"
  shows "mtk_bmt_read_loop env ops (length dat + n) 0 (of_nat f) retry 0 0 0 oo dat [] s =
    Some (0, dat @ logical p (chip_of ops s) f n, [], s)"
  using assms(2-)
proof (induction n arbitrary: f dat oo retry rule: less_induct)
  case (less n)
  show ?case
  proof (cases "n = 0")
    case True
    then show ?thesis by (subst mtk_bmt_read_loop.simps) (simp add: logical_def)
  next
    case False
    let ?c = "chunk env f n" and ?b = "f div bsz env"
    let ?w = "min (erasesize env - block_off env (of_nat f)) (of_nat n)"
    have f: "f < hi * bsz env" using less.prems(2) False by simp
    note m = mapped_at [OF assms(1) less.prems(1) f]
    have es: "erasesize env = blk_size env" using geom by (simp add: geom_ok_def)
    have w: "unat ?w = ?c" unfolding es by (rule chunk_length [OF geom m(3) less.prems(3)])
    note c = chunk_bounds(1) [of n env f] chunk_bounds(2) [of env f n] chunk_bounds(3) [of _ env f n]
    have c0: "0 < ?c" using False c(1) by simp
    let ?new = "map (\<lambda>i. mem (chip_of ops s) (of_nat (phys env p (f + i)))) [0..<?c]"
    have rd: "drv_read_oob env (chip_of ops s) (cur_addr env (int (p ?b)) (block_off env (of_nat f))) ?c 0 oo' =
        (\<lparr>rd_ret = 0, rd_dat = ?new, rd_oob = []\<rparr>, chip_of ops s)" for oo'
      unfolding read_law request_addr [where p = p, OF geom m(3,2)] using c(3) by (simp add: phys_step)
    have ih: "mtk_bmt_read_loop env ops (length (dat @ ?new) + (n - ?c)) 0 (of_nat (f + ?c)) 0 0 0 0 0 (dat @ ?new) [] s =
        Some (0, (dat @ ?new) @ logical p (chip_of ops s) (f + ?c) (n - ?c), [], s)"
      by (rule less.IH) (use less.prems c(2) c0 in auto)
    have len: "length (dat @ ?new) + (n - ?c) = length dat + n" using c(2) by simp
    have split: "logical p (chip_of ops s) f n = ?new @ logical p (chip_of ops s) (f + ?c) (n - ?c)"
      using map_chunk [OF c(2)] by (simp add: logical_def add.assoc)
    have w0: "?w \<noteq> 0" using w c0 by (metis less_irrefl unat_0)
    show ?thesis
      using False m(1) w w0 rd threshold ih [unfolded len] next_addr [OF geom w, of f] split
      by (subst mtk_bmt_read_loop.simps)
        (simp add: block_num_of_nat [OF geom m(3)] Let_def set_same)
  qed
qed

text \<open>What a write has done to the chip: the bytes are stored, everything else is as before.\<close>

definition stored :: "(nat \<Rightarrow> nat) \<Rightarrow> nat \<Rightarrow> u8 list \<Rightarrow> 'd \<Rightarrow> 'd \<Rightarrow> bool" where
  "stored p f bs d d' \<longleftrightarrow>
     (\<forall>i < length bs. mem d' (of_nat (phys env p (f + i))) = bs ! i) \<and>
     (\<forall>x. (\<forall>i < length bs. x \<noteq> of_nat (phys env p (f + i))) \<longrightarrow> mem d' x = mem d x)"

definition erased :: "(nat \<Rightarrow> nat) \<Rightarrow> nat \<Rightarrow> nat \<Rightarrow> 'd \<Rightarrow> bool" where
  "erased p f n d \<longleftrightarrow> (\<forall>i < n. mem d (of_nat (phys env p (f + i))) = 0xFF)"

lemma stored_chunk:
  assumes "n < 2 ^ 32" and "length bs = chunk env f n" and "erased p f n d"
  shows "stored p f bs d (snd (drv_write_oob env d (of_nat (phys env p f)) bs [] oo))"
proof -
  let ?d = "snd (drv_write_oob env d (of_nat (phys env p f)) bs [] oo)"
  have "mem ?d (of_nat (phys env p (f + i))) = bs ! i" if "i < length bs" for i
  proof -
    have u: "unat (of_nat (phys env p (f + i)) - of_nat (phys env p f) :: u64) = i"
      using that assms(2) by (intro chunk_addr [OF _ assms(1)]) simp
    have "i < n" using that assms(2) chunk_bounds(2) [of env f n] by simp
    then show ?thesis using write_in [of _ _ bs d oo] assms(3) that u by (simp add: erased_def)
  qed
  moreover have "mem ?d x = mem d x" if "\<forall>i < length bs. x \<noteq> of_nat (phys env p (f + i))" for x
  proof (rule write_out, rule ccontr)
    assume "\<not> length bs \<le> unat (x - of_nat (phys env p f))"
    then have "unat (x - of_nat (phys env p f)) < chunk env f n" using assms(2) by simp
    from in_chunk [OF this] this show False using that assms(2) by auto
  qed
  ultimately show ?thesis by (simp add: stored_def)
qed

lemma stored_append:
  assumes "stored p f xs d d1" and "stored p (f + length xs) ys d1 d2"
    and sep: "\<And>i j. i < length xs \<Longrightarrow> j < length ys \<Longrightarrow>
      (of_nat (phys env p (f + i)) :: u64) \<noteq> of_nat (phys env p (f + length xs + j))"
  shows "stored p f (xs @ ys) d d2"
proof -
  have "mem d2 (of_nat (phys env p (f + i))) = (xs @ ys) ! i" if "i < length xs + length ys" for i
  proof (cases "i < length xs")
    case True
    then have "mem d2 (of_nat (phys env p (f + i))) = mem d1 (of_nat (phys env p (f + i)))"
      using assms(2) sep unfolding stored_def by blast
    then show ?thesis using assms(1) True by (simp add: stored_def nth_append)
  next
    case False
    then have "i = length xs + (i - length xs)" "i - length xs < length ys" using that by auto
    then obtain j where "i = length xs + j" "j < length ys" by blast
    then show ?thesis using assms(2) by (simp add: stored_def nth_append add.assoc)
  qed
  moreover have "mem d2 x = mem d x" if x: "\<forall>i < length xs + length ys. x \<noteq> of_nat (phys env p (f + i))" for x
  proof -
    have "\<forall>j < length ys. x \<noteq> of_nat (phys env p (f + length xs + j))"
      using x by (metis add.assoc add_strict_left_mono)
    then have "mem d2 x = mem d1 x" using assms(2) by (simp add: stored_def)
    also have "\<dots> = mem d x" using assms(1) x by (simp add: stored_def)
    finally show ?thesis .
  qed
  ultimately show ?thesis by (simp add: stored_def)
qed

lemma write_loop:
  assumes "mapped_by ops s p lo hi" and "inj_on p {lo..<hi}" and "k \<le> length dat"
    and "lo * bsz env \<le> f" and "f + (length dat - k) \<le> hi * bsz env" and "length dat - k < 2 ^ 32"
    and "erased p f (length dat - k) (chip_of ops s)"
  shows "\<exists>d'. mtk_bmt_write_loop env ops dat [] (of_nat f) retry oo k 0 s =
      Some (0, length dat, 0, set_chip ops d' s) \<and> stored p f (drop k dat) (chip_of ops s) d'"
  using assms(1,3-)
proof (induction "length dat - k" arbitrary: f k oo retry s rule: less_induct)
  case (less k f)
  let ?n = "length dat - k"
  show ?case
  proof (cases "?n = 0")
    case True
    then have "k = length dat" using less.prems(2) by simp
    then have "mtk_bmt_write_loop env ops dat [] (of_nat f) retry oo k 0 s =
        Some (0, length dat, 0, set_chip ops (chip_of ops s) s)"
      by (subst mtk_bmt_write_loop.simps) (simp add: set_same)
    then show ?thesis using \<open>k = length dat\<close> by (auto simp: stored_def)
  next
    case False
    let ?c = "chunk env f ?n" and ?b = "f div bsz env"
    let ?w = "min (blk_size env - block_off env (of_nat f)) (of_nat ?n)"
    have f: "f < hi * bsz env" using less.prems(4) False by simp
    note m = mapped_at [OF less.prems(1,3) f]
    have w: "unat ?w = ?c" by (rule chunk_length [OF geom m(3) less.prems(5)])
    note c = chunk_bounds(2) [of env f ?n]
    have c0: "0 < ?c" using False chunk_bounds(1) by blast
    then have w0: "?w \<noteq> 0" using w by (metis less_irrefl unat_0)
    let ?bs = "take ?c (drop k dat)"
    have bs: "buf_get (drop k dat) 0 ?c = Some ?bs" "length ?bs = ?c"
      using c by (simp_all add: buf_get_def)
    let ?a = "of_nat (phys env p f) :: u64"
    obtain d1 where wr: "drv_write_oob env (chip_of ops s) ?a ?bs [] oo =
        (\<lparr>wr_ret = 0, wr_retlen = ?c, wr_oobretlen = 0\<rparr>, d1)"
      using write_law [of "chip_of ops s" ?a ?bs oo] bs(2) by (metis prod.collapse)
    have st1: "stored p f ?bs (chip_of ops s) d1"
      using stored_chunk [OF less.prems(5) bs(2) less.prems(6), of oo] wr by simp
    have apart: "(of_nat (phys env p (f + i)) :: u64) \<noteq> of_nat (phys env p (f + ?c + j))"
      if "i < ?c" "j < ?n - ?c" for i j
    proof
      assume eq: "(of_nat (phys env p (f + i)) :: u64) = of_nat (phys env p (f + ?c + j))"
      have "f + i < hi * bsz env" "f + ?c + j < hi * bsz env" using that c less.prems(4) by linarith+
      then have "f + i = f + ?c + j"
        using less.prems(3) by (intro phys_word_inj [OF geom less.prems(1) assms(2) _ _ _ _ eq]) simp_all
      then show False using that(1) by simp
    qed
    let ?s1 = "set_chip ops d1 s"
    have er1: "erased p (f + ?c) (?n - ?c) d1"
      unfolding erased_def
    proof (intro allI impI)
      fix j assume j: "j < ?n - ?c"
      have "mem d1 (of_nat (phys env p (f + ?c + j))) = mem (chip_of ops s) (of_nat (phys env p (f + ?c + j)))"
        using st1 apart [OF _ j] bs(2) unfolding stored_def by metis
      also have "\<dots> = 0xFF" using less.prems(6) j by (simp add: erased_def add.assoc)
      finally show "mem d1 (of_nat (phys env p (f + ?c + j))) = 0xFF" .
    qed
    have rest: "length dat - (k + ?c) = ?n - ?c" by simp
    have "\<exists>d'. mtk_bmt_write_loop env ops dat [] (of_nat (f + ?c)) 0 0 (k + ?c) 0 ?s1 =
        Some (0, length dat, 0, set_chip ops d' ?s1) \<and> stored p (f + ?c) (drop (k + ?c) dat) (chip_of ops ?s1) d'"
    proof (rule less.hyps)
      show "length dat - (k + ?c) < ?n" using c0 False by simp
      show "mapped_by ops ?s1 p lo hi" using less.prems(1) by (simp add: mapped_by_set [OF bmt_scheme_axioms])
      show "k + ?c \<le> length dat" using c less.prems(2) by linarith
      show "lo * bsz env \<le> f + ?c" using less.prems(3) by simp
      show "f + ?c + (length dat - (k + ?c)) \<le> hi * bsz env" using less.prems(4) c by linarith
      show "length dat - (k + ?c) < 2 ^ 32" using less.prems(5) by simp
      show "erased p (f + ?c) (length dat - (k + ?c)) (chip_of ops ?s1)"
        unfolding rest chip_set by (rule er1)
    qed
    then obtain d' where "mtk_bmt_write_loop env ops dat [] (of_nat (f + ?c)) 0 0 (k + ?c) 0 ?s1 =
        Some (0, length dat, 0, set_chip ops d' ?s1)"
      and "stored p (f + ?c) (drop (k + ?c) dat) (chip_of ops ?s1) d'" by blast
    note ih = this [unfolded chip_set set_set]
    have "mtk_bmt_write_loop env ops dat [] (of_nat f) retry oo k 0 s = Some (0, length dat, 0, set_chip ops d' s)"
      using False less.prems(2) m(1) w w0 bs(1) wr ih(1) next_addr [OF geom w, of f]
        request_addr [where p = p, OF geom m(3,2)]
      by (subst mtk_bmt_write_loop.simps) (simp add: block_num_of_nat [OF geom m(3)] Let_def)
    moreover have "stored p f (?bs @ drop (k + ?c) dat) (chip_of ops s) d'"
      by (rule stored_append [OF st1]) (use ih(2) apart bs(2) in auto)
    moreover have "?bs @ drop (k + ?c) dat = drop k dat" by (metis append_take_drop_id drop_drop add.commute)
    ultimately show ?thesis by auto
  qed
qed

text \<open>An erase of the blocks \<open>b\<close> to \<open>b + k\<close>: their physical blocks are erased, nothing else changes.\<close>

definition erased_blocks :: "(nat \<Rightarrow> nat) \<Rightarrow> nat \<Rightarrow> nat \<Rightarrow> 'd \<Rightarrow> 'd \<Rightarrow> bool" where
  "erased_blocks p b k d d' \<longleftrightarrow>
     (\<forall>x. mem d' x = (if unat x div bsz env \<in> p ` {b..<b + k} then 0xFF else mem d x))"

lemma erase_one_block:
  assumes "q < 2 ^ 31"
  shows "mem (snd (drv_erase env d (cur_addr env (int q) 0) (ucast (blk_size env)))) x =
    (if unat x div bsz env = q then 0xFF else mem d x)"
proof -
  let ?a = "cur_addr env (int q) 0"
  have a: "unat ?a = q * bsz env" using unat_cur_addr [OF geom assms, of 0] by simp
  have size: "unat (ucast (blk_size env) :: u64) = bsz env" using geom by (simp add: geom_ok_def)
  have q: "Suc q * bsz env \<le> 2 ^ 31 * 2 ^ 24"
    using assms blk_pow_le [OF geom] by (intro mult_le_mono) auto
  have "x - ?a < ucast (blk_size env) \<longleftrightarrow> unat x div bsz env = q"
  proof (cases "?a \<le> x")
    case True
    then have "unat (x - ?a) = unat x - q * bsz env" using a by (simp add: unat_sub)
    moreover have "unat x div bsz env = q \<longleftrightarrow> q * bsz env \<le> unat x \<and> unat x < bsz env + q * bsz env"
      using div_eq_iff_range [of "bsz env" "unat x" q] by simp
    moreover have "q * bsz env \<le> unat x" using True a by (simp add: word_le_nat_alt)
    moreover have "u - v < n \<longleftrightarrow> v \<le> u \<and> u < n + v" if "v \<le> u" for u v n :: nat using that by arith
    ultimately show ?thesis unfolding word_less_nat_alt size by metis
  next
    case False
    then have lt: "unat x < q * bsz env" using a by (simp add: word_le_nat_alt)
    then have "unat x div bsz env \<noteq> q" by (metis div_times_less_eq_dividend not_less)
    moreover have "unat (x - ?a) = 2 ^ 64 + unat x - q * bsz env"
      using a lt q by (simp add: unat_sub_if_size word_size word_le_nat_alt)
    ultimately show ?thesis using size q lt by (simp add: word_less_nat_alt)
  qed
  then show ?thesis by (simp add: erase_mem)
qed

lemma erase_loop:
  assumes "mapped_by ops s p lo hi" and "lo \<le> b" and "b + k \<le> hi" and "0 < k \<or> ret = Some 0"
  shows "\<exists>d'. mtk_bmt_erase_loop env ops (of_nat (b * bsz env)) (of_nat ((b + k) * bsz env)) retry ret s =
      Some (0, None, set_chip ops d' s) \<and> erased_blocks p b k (chip_of ops s) d'"
  using assms
proof (induction k arbitrary: b retry ret s)
  case 0
  then have "mtk_bmt_erase_loop env ops (of_nat (b * bsz env)) (of_nat ((b + 0) * bsz env)) retry ret s =
      Some (0, None, set_chip ops (chip_of ops s) s)"
    by (subst mtk_bmt_erase_loop.simps) (simp add: set_same)
  then show ?case by (auto simp: erased_blocks_def)
next
  case (Suc k)
  have hi: "hi \<le> 65536" using Suc.prems(1) by (simp add: mapped_by_def)
  have b: "b < 65536" using hi Suc.prems(3) by simp
  then have b1: "b * bsz env < 65536 * bsz env" by simp
  have "(b + Suc k) * bsz env \<le> 65536 * 16777216"
    by (rule mult_le_mono) (use hi Suc.prems(3) blk_pow_le [OF geom] in auto)
  also have "65536 * 16777216 < (2 :: nat) ^ 64" by simp
  finally have ends: "unat (of_nat ((b + Suc k) * bsz env) :: u64) = (b + Suc k) * bsz env"
    by (rule unat_of_nat64)
  have starts: "unat (of_nat (b * bsz env) :: u64) = b * bsz env" by (rule unat_logical [OF geom b1])
  have lt: "(of_nat (b * bsz env) :: u64) < of_nat ((b + Suc k) * bsz env)"
    unfolding word_less_nat_alt starts ends by (rule mult_strict_right_mono) simp_all
  have m: "get_mapping_block ops (of_nat b) s = Some (int (p b))" "p b < 2 ^ 31"
    using Suc.prems by (simp_all add: mapped_by_def)
  have "unat (drop_bit (unat (blk_shift env)) (of_nat (b * bsz env) :: u64)) = b"
    by (simp only: unat_drop_bit_eq starts) (simp add: drop_bit_eq_div)
  then have num: "ucast (ucast (drop_bit (unat (blk_shift env)) (of_nat (b * bsz env) :: u64)) :: u16) = (of_nat b :: u32)"
    by (rule ucast_block [OF _ b])
  let ?a = "cur_addr env (int (p b)) 0"
  obtain d1 where er: "drv_erase env (chip_of ops s) ?a (ucast (blk_size env)) = (0, d1)"
    using erase_law [of "chip_of ops s" ?a "ucast (blk_size env)"] by (metis prod.collapse)
  have mem1: "mem d1 x = (if unat x div bsz env = p b then 0xFF else mem (chip_of ops s) x)" for x
    using erase_one_block [OF m(2), of "chip_of ops s" x] er by simp
  let ?s1 = "set_chip ops d1 s"
  have "unat (erasesize env) = bsz env" using geom by (simp add: geom_ok_def)
  from next_addr [OF geom this, of "b * bsz env"]
  have nxt: "(of_nat (b * bsz env) :: u64) + ucast (erasesize env) = of_nat (Suc b * bsz env)"
    by (simp add: add.commute)
  have "\<exists>d'. mtk_bmt_erase_loop env ops (of_nat (Suc b * bsz env)) (of_nat ((Suc b + k) * bsz env)) 0 (Some 0) ?s1 =
      Some (0, None, set_chip ops d' ?s1) \<and> erased_blocks p (Suc b) k (chip_of ops ?s1) d'"
    by (rule Suc.IH) (use Suc.prems in \<open>simp_all add: mapped_by_set [OF bmt_scheme_axioms]\<close>)
  then obtain d' where "mtk_bmt_erase_loop env ops (of_nat (Suc b * bsz env)) (of_nat ((Suc b + k) * bsz env)) 0 (Some 0) ?s1 =
      Some (0, None, set_chip ops d' ?s1)" and "erased_blocks p (Suc b) k (chip_of ops ?s1) d'" by blast
  note ih = this [unfolded chip_set set_set]
  have "(Suc b + k) * bsz env = (b + Suc k) * bsz env" by simp
  note ih1 = ih(1) [unfolded this]
  have "mtk_bmt_erase_loop env ops (of_nat (b * bsz env)) (of_nat ((b + Suc k) * bsz env)) retry ret s =
      Some (0, None, set_chip ops d' s)"
    by (subst mtk_bmt_erase_loop.simps)
      (simp only: lt if_True num m(1) bind.bind_lunit Let_def er nxt ih1 prod.case, simp)
  moreover have "erased_blocks p b (Suc k) (chip_of ops s) d'"
    using ih(2) mem1 by (auto simp: erased_blocks_def image_iff Suc_le_eq le_less)
  ultimately show ?case by blast
qed

text \<open>What is written into freshly erased blocks is read back, across block boundaries.\<close>

lemma erase_write_read:
  assumes "mapped_by ops s p b (b + k)" and "inj_on p {b..<b + k}" and "0 < k" and "b * bsz env < 2 ^ 32"
    and "b * bsz env \<le> f" and "f + length dat \<le> (b + k) * bsz env" and "length dat < 2 ^ 32"
  shows "\<exists>s1 s2. mtk_bmt_mtd_erase env ops (of_nat (b * bsz env)) (of_nat (k * bsz env)) s = Some (0, None, s1) \<and>
    mtk_bmt_write env ops (of_nat f) dat [] oo s1 = Some (0, length dat, 0, s2) \<and>
    mtk_bmt_read env ops (of_nat f) (length dat) 0 oo' s2 = Some (0, dat, [], s2) \<and>
    (\<forall>x. unat x div bsz env \<notin> p ` {b..<b + k} \<longrightarrow> mem (chip_of ops s2) x = mem (chip_of ops s) x)"
proof -
  have "(of_nat (b * bsz env) :: u64) AND ucast (NOT (erasesize env - 1)) = of_nat (b * bsz env)"
    unfolding erase_start [OF geom] using assms(4) by (subst unat_of_nat64) simp_all
  moreover have "(of_nat (b * bsz env) :: u64) + of_nat (k * bsz env) = of_nat ((b + k) * bsz env)"
    by (simp add: algebra_simps)
  moreover obtain d1 where
    "mtk_bmt_erase_loop env ops (of_nat (b * bsz env)) (of_nat ((b + k) * bsz env)) 0 None s =
      Some (0, None, set_chip ops d1 s)" and er: "erased_blocks p b k (chip_of ops s) d1"
    using erase_loop [OF assms(1) order_refl order_refl] assms(3) by blast
  ultimately have erase: "mtk_bmt_mtd_erase env ops (of_nat (b * bsz env)) (of_nat (k * bsz env)) s =
      Some (0, None, set_chip ops d1 s)"
    by (simp only: mtk_bmt_mtd_erase_def)
  let ?s1 = "set_chip ops d1 s"
  have m1: "mapped_by ops ?s1 p b (b + k)" using assms(1) by (simp add: mapped_by_set [OF bmt_scheme_axioms])
  have blk: "unat (of_nat (phys env p (f + i)) :: u64) div bsz env \<in> p ` {b..<b + k}"
    if "i < length dat" for i
  proof -
    have r: "b * bsz env \<le> f + i" "f + i < (b + k) * bsz env" using that assms(5,6) by auto
    note m = mapped_at [OF assms(1) r]
    have "Suc (p ((f + i) div bsz env)) * bsz env \<le> 2 ^ 31 * 2 ^ 24"
      using m(2) blk_pow_le [OF geom] by (intro mult_le_mono) auto
    moreover have "phys env p (f + i) < Suc (p ((f + i) div bsz env)) * bsz env" by (simp add: phys_def)
    ultimately have "unat (of_nat (phys env p (f + i)) :: u64) = phys env p (f + i)"
      by (intro unat_of_nat64) simp
    then have "unat (of_nat (phys env p (f + i)) :: u64) div bsz env = p ((f + i) div bsz env)"
      by (simp only:) (simp add: phys_def)
    then show ?thesis using m(4) by simp
  qed
  have "erased p f (length dat) d1"
    using er blk by (simp add: erased_def erased_blocks_def)
  then have "\<exists>d'. mtk_bmt_write_loop env ops dat [] (of_nat f) 0 oo 0 0 ?s1 =
      Some (0, length dat, 0, set_chip ops d' ?s1) \<and> stored p f (drop 0 dat) (chip_of ops ?s1) d'"
    using assms by (intro write_loop [OF m1 assms(2)]) (simp_all add: chip_set)
  then obtain d2 where "mtk_bmt_write_loop env ops dat [] (of_nat f) 0 oo 0 0 ?s1 =
      Some (0, length dat, 0, set_chip ops d2 ?s1)" and "stored p f (drop 0 dat) (chip_of ops ?s1) d2" by blast
  note wr = this [unfolded chip_set set_set drop_0]
  let ?s2 = "set_chip ops d2 s"
  have m2: "mapped_by ops ?s2 p b (b + k)" using assms(1) by (simp add: mapped_by_set [OF bmt_scheme_axioms])
  have dat: "logical p d2 f (length dat) = dat"
    using wr(2) by (intro nth_equalityI) (simp_all add: logical_def stored_def)
  have "mtk_bmt_read_loop env ops (length ([] :: u8 list) + length dat) 0 (of_nat f) 0 0 0 0 oo' [] [] ?s2 =
      Some (0, [] @ logical p (chip_of ops ?s2) f (length dat), [], ?s2)"
    by (rule read_loop [OF m2 assms(5-7)])
  then have rd: "mtk_bmt_read env ops (of_nat f) (length dat) 0 oo' ?s2 = Some (0, dat, [], ?s2)"
    by (simp add: mtk_bmt_read_def chip_set dat)
  have "mem d2 x = mem (chip_of ops s) x" if "unat x div bsz env \<notin> p ` {b..<b + k}" for x
  proof -
    have "mem d2 x = mem d1 x" using wr(2) blk that unfolding stored_def by metis
    then show ?thesis using er that by (simp add: erased_blocks_def)
  qed
  then show ?thesis using erase wr(1) rd by (auto simp: mtk_bmt_write_def chip_set)
qed

end

end
