(* ===== verification/Bmt_V2_Words.thy ===== *)
theory Bmt_V2_Words
  imports Bmt_V2_Init Cell_Table Bmt_Copy
begin

text \<open>
  The table of the v2 scheme as 16-bit cells: entry \<open>i\<close> of \<open>bb_tbl\<close>, and the block and the use of
  entry \<open>k\<close> of the pool, are cells of one table, so the laws of \<open>cell_table\<close> hold for them. The
  second half gives the specifications of the operations over these cells: what
  \<open>find_valid_block_in_pool\<close>, \<open>upload_bmt\<close> and \<open>bbt_nand_copy\<close> change, and which blocks of the chip
  they modify.
\<close>

section \<open>Cells\<close>

definition w16 :: "u8 list \<Rightarrow> nat \<Rightarrow> u16" where
  "w16 b n = le_val (take 2 (drop (2 * n) b))"

definition set_w16 :: "u8 list \<Rightarrow> nat \<Rightarrow> u16 \<Rightarrow> u8 list" where
  "set_w16 b n v =
     (if 2 * n + 2 \<le> length b then take (2 * n) b @ le_bytes 2 v @ drop (2 * n + 2) b else b)"

lemma length_set_w16 [simp]: "length (set_w16 b n v) = length b"
  unfolding set_w16_def by simp linarith

lemma get16_cell: "get16 b (2 * n) = (if n < length b div 2 then Some (w16 b n) else None)"
  by (auto simp: get16_def buf_get_def w16_def)

lemma put16_cell: "put16 b (2 * n) v = (if n < length b div 2 then Some (set_w16 b n v) else None)"
  by (auto simp: put16_def buf_put_def set_w16_def)

lemma get_put16:
  assumes "n < length b div 2" and "m < length b div 2"
  shows "w16 (set_w16 b n v) m = (if m = n then v else w16 b m)"
proof -
  have put: "put16 b (2 * n) v = Some (set_w16 b n v)" using assms(1) by (simp add: put16_cell)
  have bp: "buf_put b (2 * n) (le_bytes 2 v) = Some (set_w16 b n v)"
    using put by (simp add: put16_def)
  have m: "get16 (set_w16 b n v) (2 * m) = Some (w16 (set_w16 b n v) m)" "get16 b (2 * m) = Some (w16 b m)"
    using assms(2) by (simp_all add: get16_cell)
  show ?thesis
  proof (cases "m = n")
    case True
    have "buf_get (set_w16 b n v) (2 * n) 2 = Some (le_bytes 2 v)"
      using buf_get_put_same [OF bp] by simp
    then show ?thesis using m(1) True by (simp add: get16_def le_val_le_bytes_full)
  next
    case False
    then have "2 * m + 2 \<le> 2 * n \<or> 2 * n + length (le_bytes 2 v) \<le> 2 * m" by simp linarith
    then have "buf_get (set_w16 b n v) (2 * m) 2 = buf_get b (2 * m) 2"
      by (rule buf_get_put_other [OF bp])
    then show ?thesis using m False by (auto simp: get16_def)
  qed
qed

interpretation v2w: cell_table w16 set_w16 "\<lambda>b. length b div 2" id
  by unfold_locales (simp_all add: get_put16)

text \<open>The cells of the entries.\<close>

definition bb_ix :: "nat \<Rightarrow> nat" where
  "bb_ix i = i + 2"

definition blk_ix :: "'d bmt_v2 \<Rightarrow> nat \<Rightarrow> nat" where
  "blk_ix s k = 2 + unat (table_size s) + 2 * k"

definition use_ix :: "'d bmt_v2 \<Rightarrow> nat \<Rightarrow> nat" where
  "use_ix s k = 3 + unat (table_size s) + 2 * k"

abbreviation cell :: "'d bmt_v2 \<Rightarrow> nat \<Rightarrow> u16" where
  "cell s n \<equiv> w16 (bbt_buf s) n"

definition set_cell :: "'d bmt_v2 \<Rightarrow> nat \<Rightarrow> u16 \<Rightarrow> 'd bmt_v2" where
  "set_cell s n v = s\<lparr>bbt_buf := set_w16 (bbt_buf s) n v\<rparr>"

text \<open>The numbers of entries of the pool that fit the buffer.\<close>

definition pool_fits :: "'d bmt_v2 \<Rightarrow> nat \<Rightarrow> bool" where
  "pool_fits s k \<longleftrightarrow> 4 + 2 * unat (table_size s) + 4 * k \<le> length (bbt_buf s)"

named_theorems cell_simps "the accesses of the v2 table as cells"

lemma bb_cell [cell_simps]:
  "bb_get s i = (if bb_ix i < length (bbt_buf s) div 2 then Some (cell s (bb_ix i)) else None)"
  "bb_set i v s = (if bb_ix i < length (bbt_buf s) div 2 then Some (set_cell s (bb_ix i) v) else None)"
proof -
  have b: "bb_off i = 2 * bb_ix i" by (simp add: bb_off_def bb_ix_def)
  show "bb_get s i = (if bb_ix i < length (bbt_buf s) div 2 then Some (cell s (bb_ix i)) else None)"
    unfolding bb_get_def b by (rule get16_cell)
  show "bb_set i v s = (if bb_ix i < length (bbt_buf s) div 2 then Some (set_cell s (bb_ix i) v) else None)"
    unfolding bb_set_def b put16_cell by (simp add: set_cell_def)
qed

lemma pool_cell [cell_simps]:
  "bmt_block s k = (if blk_ix s k < length (bbt_buf s) div 2 then Some (cell s (blk_ix s k)) else None)"
  "set_bmt_block k v s =
     (if blk_ix s k < length (bbt_buf s) div 2 then Some (set_cell s (blk_ix s k) v) else None)"
  "bmt_mapped s k = (if use_ix s k < length (bbt_buf s) div 2 then Some (cell s (use_ix s k)) else None)"
  "set_bmt_mapped k v s =
     (if use_ix s k < length (bbt_buf s) div 2 then Some (set_cell s (use_ix s k) v) else None)"
proof -
  have b: "bmt_tbl s k = 2 * blk_ix s k" and u: "bmt_tbl s k + 2 = 2 * use_ix s k"
    by (simp_all add: bmt_tbl_def blk_ix_def use_ix_def)
  show "bmt_block s k = (if blk_ix s k < length (bbt_buf s) div 2 then Some (cell s (blk_ix s k)) else None)"
    unfolding bmt_block_def b by (rule get16_cell)
  show "bmt_mapped s k = (if use_ix s k < length (bbt_buf s) div 2 then Some (cell s (use_ix s k)) else None)"
    unfolding bmt_mapped_def u by (rule get16_cell)
  show "set_bmt_block k v s =
     (if blk_ix s k < length (bbt_buf s) div 2 then Some (set_cell s (blk_ix s k) v) else None)"
    unfolding set_bmt_block_def b put16_cell by (simp add: set_cell_def)
  show "set_bmt_mapped k v s =
     (if use_ix s k < length (bbt_buf s) div 2 then Some (set_cell s (use_ix s k) v) else None)"
    unfolding set_bmt_mapped_def u put16_cell by (simp add: set_cell_def)
qed

lemma set_cell_fields [simp]:
  "table_size (set_cell s n v) = table_size s" "v2_data_buf (set_cell s n v) = v2_data_buf s"
  "pool_lba (set_cell s n v) = pool_lba s" "pool_pba (set_cell s n v) = pool_pba s"
  "bb_max (set_cell s n v) = bb_max s" "bmt_blk_idx (set_cell s n v) = bmt_blk_idx s"
  "bmt_pgs (set_cell s n v) = bmt_pgs s" "oob_offset (set_cell s n v) = oob_offset s"
  "v2_dev (set_cell s n v) = v2_dev s" "length (bbt_buf (set_cell s n v)) = length (bbt_buf s)"
  "blk_ix (set_cell s n v) k = blk_ix s k" "use_ix (set_cell s n v) k = use_ix s k"
  "pool_fits (set_cell s n v) k = pool_fits s k"
  by (simp_all add: set_cell_def blk_ix_def use_ix_def pool_fits_def)

lemma cell_set_cell:
  "n < length (bbt_buf s) div 2 \<Longrightarrow> m < length (bbt_buf s) div 2 \<Longrightarrow>
     cell (set_cell s n v) m = (if m = n then v else cell s m)"
  by (simp add: set_cell_def v2w.get_put)

lemma pool_in:
  assumes "pool_fits s n" and "k < n"
  shows "blk_ix s k < length (bbt_buf s) div 2" "use_ix s k < length (bbt_buf s) div 2"
  using assms by (simp_all add: pool_fits_def blk_ix_def use_ix_def less_eq_div_iff_mult_less_eq Suc_le_eq [symmetric])

lemma bb_in:
  assumes "pool_fits s n" and "i < unat (table_size s)"
  shows "bb_ix i < length (bbt_buf s) div 2"
  using assms by (simp add: pool_fits_def bb_ix_def)

lemma bb_ix_eq [simp]: "bb_ix i = bb_ix j \<longleftrightarrow> i = j"
  by (simp add: bb_ix_def)

lemma ix_neq [simp]:
  "i < unat (table_size s) \<Longrightarrow> bb_ix i \<noteq> blk_ix s k" "i < unat (table_size s) \<Longrightarrow> bb_ix i \<noteq> use_ix s k"
  "i < unat (table_size s) \<Longrightarrow> blk_ix s k \<noteq> bb_ix i" "i < unat (table_size s) \<Longrightarrow> use_ix s k \<noteq> bb_ix i"
  "blk_ix s j \<noteq> use_ix s k" "use_ix s k \<noteq> blk_ix s j"
  "blk_ix s j = blk_ix s k \<longleftrightarrow> j = k" "use_ix s j = use_ix s k \<longleftrightarrow> j = k"
  unfolding blk_ix_def use_ix_def bb_ix_def by (auto, presburger+)

end
