(* ===== verification/Bmt_V2_Pool.thy ===== *)
theory Bmt_V2_Pool
  imports Bmt_V2_Words
begin

text \<open>
  The pool of replacement blocks of the v2 scheme: taking a block out of it, and storing the table
  in the last usable block of it. A run of \<open>upload_bmt\<close> may drop blocks that fail from the pool,
  but keeps the mapping and what the entries are used for, and erases and programs only blocks of
  entries that no logical block uses.
\<close>

section \<open>Taking a block\<close>

definition pool_free :: "'d bmt_v2 \<Rightarrow> nat \<Rightarrow> bool" where
  "pool_free s k \<longleftrightarrow> cell s (blk_ix s k) \<noteq> 0 \<and> cell s (use_ix s k) = NO_MAPPED"

lemma find_pool_spec:
  assumes "pool_fits s n"
  shows "find_pool_loop n i s =
    (case find (pool_free s) [i..<n] of
       None \<Rightarrow> Some (0, s)
     | Some k \<Rightarrow> Some (cell s (blk_ix s k), set_cell s (use_ix s k) NORMAL_MAPPED))"
proof (induction "n - i" arbitrary: i)
  case 0
  then show ?case by (subst find_pool_loop.simps) simp
next
  case (Suc d)
  then have lt: "i < n" by simp
  note ix = pool_in [OF assms lt]
  have ih: "find_pool_loop n (Suc i) s =
    (case find (pool_free s) [Suc i..<n] of
       None \<Rightarrow> Some (0, s)
     | Some k \<Rightarrow> Some (cell s (blk_ix s k), set_cell s (use_ix s k) NORMAL_MAPPED))"
    using Suc by auto
  show ?case
    using lt ix ih by (subst find_pool_loop.simps)
      (auto simp: cell_simps upt_conv_Cons pool_free_def cell_set_cell)
qed

text \<open>\<open>find_valid_block_in_pool\<close> as a function of the table: the first free entry below the table's.\<close>

definition first_free :: "'d bmt_v2 \<Rightarrow> nat option" where
  "first_free s = find (pool_free s) [0..<unat (bmt_blk_idx s)]"

lemma find_valid_in_pool_spec:
  assumes "pool_fits s (unat (bmt_blk_idx s))"
  shows "find_valid_block_in_pool s =
    (case first_free s of
       None \<Rightarrow> Some (0, s)
     | Some k \<Rightarrow> Some (cell s (blk_ix s k), set_cell s (use_ix s k) NORMAL_MAPPED))"
  using find_pool_spec [OF assms, of 0]
  by (auto simp: find_valid_block_in_pool_def first_free_def)

lemma first_free_Some:
  assumes "first_free s = Some k"
  shows "k < unat (bmt_blk_idx s)" "pool_free s k" "\<And>j. j < k \<Longrightarrow> \<not> pool_free s j"
  using assms by (auto simp: first_free_def find_Some_iff2 find_Some_iff)

section \<open>Storing the table\<close>

text \<open>
  What a run of \<open>upload_bmt\<close> keeps: the sizes and counters, the logical entries, the uses of the
  pool entries, and every pool block that it has not set to 0. The chip has changed only in
  blocks of entries up to \<open>n\<close> that are not in use.
\<close>

definition pool_addrs :: "'d bmtd \<Rightarrow> 'd bmt_v2 \<Rightarrow> nat \<Rightarrow> u64 \<Rightarrow> bool" where
  "pool_addrs env s n a \<longleftrightarrow>
     (\<exists>k < n. cell s (use_ix s k) \<noteq> NORMAL_MAPPED \<and> block_addrs env (ucast (cell s (blk_ix s k))) a)"

definition upload_keeps :: "nat \<Rightarrow> 'd bmt_v2 \<Rightarrow> 'd bmt_v2 \<Rightarrow> bool" where
  "upload_keeps n s s' \<longleftrightarrow>
     table_size s' = table_size s \<and> length (bbt_buf s') = length (bbt_buf s) \<and>
     v2_data_buf s' = v2_data_buf s \<and> pool_lba s' = pool_lba s \<and> bmt_pgs s' = bmt_pgs s \<and>
     bmt_blk_idx s' = bmt_blk_idx s \<and> oob_offset s' = oob_offset s \<and>
     (\<forall>i < unat (table_size s). cell s' (bb_ix i) = cell s (bb_ix i)) \<and>
     (\<forall>k < n. cell s' (use_ix s k) = cell s (use_ix s k) \<and>
        (cell s' (blk_ix s k) = cell s (blk_ix s k) \<or> cell s' (blk_ix s k) = 0))"

lemma keeps_ix: "upload_keeps n s s' \<Longrightarrow> blk_ix s' k = blk_ix s k" "upload_keeps n s s' \<Longrightarrow> use_ix s' k = use_ix s k"
  "upload_keeps n s s' \<Longrightarrow> pool_fits s' k = pool_fits s k"
  by (simp_all add: upload_keeps_def blk_ix_def use_ix_def pool_fits_def)

lemma keeps_refl: "upload_keeps n s s"
  by (simp add: upload_keeps_def)

lemma keeps_trans: "upload_keeps n s s' \<Longrightarrow> upload_keeps n s' s'' \<Longrightarrow> upload_keeps n s s''"
  using keeps_ix [of n s s'] unfolding upload_keeps_def by (elim conjE) (intro conjI; metis)

lemma keeps_dev: "upload_keeps n s (s\<lparr>v2_dev := d\<rparr>)"
  by (simp add: upload_keeps_def)

lemma keeps_drop:
  assumes "pool_fits s n" and "k < n"
  shows "upload_keeps n s (set_cell s (blk_ix s k) 0)"
  using assms pool_in [OF assms(1)] bb_in [OF assms(1)] by (auto simp: upload_keeps_def cell_set_cell)

text \<open>The signature and the version are the cells below the first entry.\<close>

lemma w16_prefix:
  assumes "length xs = 4"
  shows "w16 (xs @ drop 4 b) (n + 2) = w16 b (n + 2)"
proof -
  have ix: "2 * (n + 2) = 2 * n + 4" by simp
  have "drop (2 * n + 4) (xs @ drop 4 b) = drop (2 * n + 4) b" using assms by simp
  then show ?thesis unfolding w16_def ix by (rule arg_cong)
qed

lemma sig_put:
  assumes "4 \<le> length b"
  shows "\<exists>b'. buf_put b 0 (main_sig @ [BBMT_VERSION]) = Some b' \<and> length b' = length b \<and>
    (\<forall>n. w16 b' (n + 2) = w16 b (n + 2))"
proof -
  let ?b = "(main_sig @ [BBMT_VERSION]) @ drop 4 b"
  have "buf_put b 0 (main_sig @ [BBMT_VERSION]) = Some ?b"
    using assms by (simp add: buf_put_def eval_nat_numeral)
  moreover have "length ?b = length b" using assms by simp
  moreover have "w16 ?b (n + 2) = w16 b (n + 2)" for n
    by (rule w16_prefix) simp
  ultimately show ?thesis by blast
qed

lemma keeps_sig:
  assumes "pool_fits s n"
  shows "\<exists>b'. buf_put (bbt_buf s) 0 (main_sig @ [BBMT_VERSION]) = Some b' \<and> length b' = length (bbt_buf s) \<and>
    upload_keeps n s (s\<lparr>bbt_buf := b'\<rparr>) \<and> (\<forall>k. w16 b' (blk_ix s k) = cell s (blk_ix s k))"
proof -
  have four: "4 \<le> length (bbt_buf s)" using assms by (simp add: pool_fits_def)
  obtain b' where b': "buf_put (bbt_buf s) 0 (main_sig @ [BBMT_VERSION]) = Some b'"
    "length b' = length (bbt_buf s)" and c: "\<And>n. w16 b' (n + 2) = w16 (bbt_buf s) (n + 2)"
    using sig_put [OF four] by blast
  have "w16 b' (blk_ix s k) = cell s (blk_ix s k)" for k
    using c [of "unat (table_size s) + 2 * k"] by (simp add: blk_ix_def add.commute add.left_commute)
  then have blk: "w16 b' (blk_ix s k) = cell s (blk_ix s k)" for k .
  have "w16 b' (use_ix s k) = cell s (use_ix s k)" for k
    using c [of "unat (table_size s) + 2 * k + 1"] by (simp add: use_ix_def numeral_3_eq_3)
  moreover have "w16 b' (bb_ix i) = cell s (bb_ix i)" for i
    using c [of i] by (simp add: bb_ix_def)
  ultimately have "upload_keeps n s (s\<lparr>bbt_buf := b'\<rparr>)" using b'(2) blk by (simp add: upload_keeps_def)
  then show ?thesis using b' blk by blast
qed

definition table_bytes :: "'d bmtd \<Rightarrow> 'd bmt_v2 \<Rightarrow> nat" where
  "table_bytes env s = unat (push_bit (unat (pg_shift env)) (bmt_pgs s))"

text \<open>The table fits its buffer and an erase block.\<close>

definition table_fits :: "'d bmtd \<Rightarrow> 'd bmt_v2 \<Rightarrow> bool" where
  "table_fits env s \<longleftrightarrow> table_bytes env s \<le> length (bbt_buf s) \<and> table_bytes env s \<le> unat (blk_size env)"

text \<open>The result of a run from entry \<open>n - 1\<close> down, in a pool of \<open>N\<close> entries: where the table is, or -1.\<close>

definition uploaded :: "'d bmtd \<Rightarrow> nat \<Rightarrow> nat \<Rightarrow> 'd bmt_v2 \<Rightarrow> u16 \<times> 'd bmt_v2 \<Rightarrow> bool" where
  "uploaded env N n s r \<longleftrightarrow> (case r of (idx, s') \<Rightarrow>
     upload_keeps N s s' \<and> dev_steps env (pool_addrs env s n) (v2_dev s) (v2_dev s') \<and>
     (idx = - 1 \<or> (\<exists>k < n. idx = of_nat k \<and> cell s (use_ix s k) \<noteq> NORMAL_MAPPED \<and>
        cell s' (blk_ix s k) = cell s (blk_ix s k))))"

lemma pool_addrs_mono:
  assumes "upload_keeps N s s'" and "n \<le> N" and "m \<le> n"
    and "\<And>k. k < m \<Longrightarrow> cell s' (blk_ix s k) = cell s (blk_ix s k)" and "pool_addrs env s' m a"
  shows "pool_addrs env s n a"
  using assms keeps_ix [OF assms(1)] unfolding pool_addrs_def upload_keeps_def
  by (metis order_less_le_trans)

lemma pool_block: "k < n \<Longrightarrow> cell s (use_ix s k) \<noteq> NORMAL_MAPPED \<Longrightarrow>
    block_addrs env (ucast (cell s (blk_ix s k))) a \<Longrightarrow> pool_addrs env s n a"
  by (auto simp: pool_addrs_def)

lemma dev_erase:
  assumes "geom_ok env" and "k < n" and "cell s (use_ix s k) \<noteq> NORMAL_MAPPED"
    and "bbt_nand_erase env (cell s (blk_ix s k)) d = (r, d')"
  shows "dev_steps env (pool_addrs env s n) d d'"
proof (rule dev_steps_mono)
  show "dev_steps env (block_addrs env (ucast (cell s (blk_ix s k)))) d d'"
    using erase_step [OF assms(1), of "cell s (blk_ix s k)" d] by (simp add: assms(4))
qed (rule pool_block [OF assms(2,3)])

lemma write_bmt_spec:
  assumes "geom_ok env" and "table_fits env s" and "k < n" and "cell s (use_ix s k) \<noteq> NORMAL_MAPPED"
    and "length b = length (bbt_buf s)"
  shows "returns (write_bmt env oo sig (bmt_pgs s) (cell s (blk_ix s k)) b d)
    (\<lambda>(r, d'). dev_steps env (pool_addrs env s n) d d')"
proof -
  let ?blk = "ucast (cell s (blk_ix s k)) :: u32"
  let ?n = "table_bytes env s"
  have n: "?n \<le> length b" "?n \<le> 2 ^ unat (blk_shift env)"
    using assms(1,2,5) by (simp_all add: table_fits_def geom_ok_def)
  have "spans (block_addrs env ?blk) (blk_addr env ?blk) ?n"
  proof (cases "?n = 0")
    case True
    then show ?thesis using block_addr_start [OF assms(1)] by (simp add: spans_def)
  next
    case False
    then show ?thesis
      using n(2) by (intro spans_block [OF assms(1)]) (simp_all add: unat_blk_addr [OF assms(1)])
  qed
  then have "spans (pool_addrs env s n) (blk_addr env ?blk) (length (take ?n b))"
    using n(1) assms(3,4) by (simp add: min_absorb2) (erule spans_mono, auto simp: pool_addrs_def)
  from dev_steps_single [OF step_write [OF this]]
  show ?thesis using n(1) by (simp add: write_bmt_def returns_simps table_bytes_def split_def Let_def)
qed

text \<open>Dropping the block of an entry that failed and going on below it.\<close>

lemma uploaded_drop:
  assumes fits: "pool_fits s N" and n: "n < N"
    and k1: "upload_keeps N s s1" and same: "\<And>k. k \<le> n \<Longrightarrow> cell s1 (blk_ix s k) = cell s (blk_ix s k)"
    and dev: "dev_steps env (pool_addrs env s (Suc n)) (v2_dev s) (v2_dev s1)"
    and r: "uploaded env N n (set_cell s1 (blk_ix s n) 0) r"
  shows "uploaded env N (Suc n) s r"
proof -
  let ?s = "set_cell s1 (blk_ix s n) 0"
  have len: "length (bbt_buf s1) = length (bbt_buf s)" using k1 by (simp add: upload_keeps_def)
  have f1: "pool_fits s1 N" using fits keeps_ix [OF k1] by simp
  have k2: "upload_keeps N s ?s"
    using keeps_trans [OF k1] keeps_drop [OF f1 n] keeps_ix [OF k1] by simp
  have same': "cell ?s (blk_ix s k) = cell s (blk_ix s k)" if "k < n" for k
    using that same [of k] pool_in [OF fits, of k] pool_in [OF fits n] n len by (simp add: cell_set_cell)
  obtain idx s2 where e: "r = (idx, s2)" by (cases r)
  have k3: "upload_keeps N ?s s2" and d3: "dev_steps env (pool_addrs env ?s n) (v2_dev ?s) (v2_dev s2)"
    and i3: "idx = - 1 \<or> (\<exists>k < n. idx = of_nat k \<and> cell ?s (use_ix s k) \<noteq> NORMAL_MAPPED \<and>
       cell s2 (blk_ix s k) = cell ?s (blk_ix s k))"
    using r keeps_ix [OF k2] by (simp_all add: uploaded_def e)
  have "dev_steps env (pool_addrs env s (Suc n)) (v2_dev ?s) (v2_dev s2)"
    by (rule dev_steps_mono [OF d3], rule pool_addrs_mono [OF k2]) (use n same' in auto)
  then have "dev_steps env (pool_addrs env s (Suc n)) (v2_dev s) (v2_dev s2)"
    using dev_steps_trans [OF dev] k1 by simp
  moreover have "cell ?s (use_ix s k) = cell s (use_ix s k)" if "k < n" for k
    using k2 that n by (simp add: upload_keeps_def)
  then have "idx = - 1 \<or> (\<exists>k < Suc n. idx = of_nat k \<and> cell s (use_ix s k) \<noteq> NORMAL_MAPPED \<and>
      cell s2 (blk_ix s k) = cell s (blk_ix s k))"
    using i3 same' by (metis less_SucI)
  ultimately show ?thesis using keeps_trans [OF k2 k3] by (simp add: uploaded_def e)
qed

lemma upload_spec:
  assumes "geom_ok env" and "table_fits env s" and "pool_fits s N" and "n \<le> N"
  shows "returns (upload_bmt env (int n - 1) s) (uploaded env N n s)"
  using assms(2-4)
proof (induction n arbitrary: s)
  case 0
  show ?case by (subst upload_bmt.simps) (simp add: uploaded_def keeps_refl steps_refl)
next
  case (Suc n)
  note fits = Suc.prems(2)
  have lt: "n < N" using Suc.prems(3) by simp
  note ix = pool_in [OF fits lt]
  let ?b = "cell s (blk_ix s n)"
  show ?case
  proof (cases "cell s (use_ix s n) = NORMAL_MAPPED")
    case True
    then show ?thesis using ix
      by (subst upload_bmt.simps) (simp add: cell_simps uploaded_def keeps_refl steps_refl)
  next
    case unused: False
    have rest: "returns (upload_bmt env (int n - 1) (set_cell s1 (blk_ix s n) 0)) (uploaded env N (Suc n) s)"
      if "upload_keeps N s s1" "\<And>k. k \<le> n \<Longrightarrow> cell s1 (blk_ix s k) = cell s (blk_ix s k)"
        "dev_steps env (pool_addrs env s (Suc n)) (v2_dev s) (v2_dev s1)" for s1
    proof -
      have "table_fits env (set_cell s1 (blk_ix s n) 0)" "pool_fits (set_cell s1 (blk_ix s n) 0) N"
        using Suc.prems(1) fits that(1) keeps_ix [OF that(1)]
        by (simp_all add: table_fits_def table_bytes_def upload_keeps_def)
      then have "returns (upload_bmt env (int n - 1) (set_cell s1 (blk_ix s n) 0))
          (uploaded env N n (set_cell s1 (blk_ix s n) 0))"
        using Suc.prems(3) by (intro Suc.IH) simp_all
      then show ?thesis by (rule returns_mono) (rule uploaded_drop [OF fits lt that])
    qed
    obtain r1 d1 where er: "bbt_nand_erase env ?b (v2_dev s) = (r1, d1)" by (cases "bbt_nand_erase env ?b (v2_dev s)")
    note step1 = dev_erase [OF assms(1) lessI unused er]
    let ?s1 = "s\<lparr>v2_dev := d1\<rparr>"
    have ix1: "blk_ix ?s1 k = blk_ix s k" "use_ix ?s1 k = use_ix s k" for k by (simp_all add: blk_ix_def use_ix_def)
    have k1: "upload_keeps N s ?s1" by (rule keeps_dev)
    obtain b' where b': "buf_put (bbt_buf ?s1) 0 (main_sig @ [BBMT_VERSION]) = Some b'" "length b' = length (bbt_buf ?s1)"
      and kb: "upload_keeps N ?s1 (?s1\<lparr>bbt_buf := b'\<rparr>)" and same: "\<And>k. w16 b' (blk_ix s k) = cell s (blk_ix s k)"
      using keeps_sig [of ?s1 N] fits by (auto simp: pool_fits_def ix1)
    have kd: "upload_keeps N s (?s1\<lparr>bbt_buf := b', v2_dev := d2\<rparr>)" for d2
      using keeps_trans [OF keeps_trans [OF k1 kb] keeps_dev [of _ _ d2]] by simp
    have w: "returns (write_bmt env (oob_offset s) oob_sig (bmt_pgs s) ?b b' d1)
        (\<lambda>(r, d'). dev_steps env (pool_addrs env s (Suc n)) d1 d')"
      by (rule write_bmt_spec [OF assms(1) Suc.prems(1) lessI unused]) (simp add: b'(2))
    then obtain r2 d2 where wr: "write_bmt env (oob_offset s) oob_sig (bmt_pgs s) ?b b' d1 = Some (r2, d2)"
      and step2: "dev_steps env (pool_addrs env s (Suc n)) d1 d2"
      by (auto simp: returns_eq)
    note run = dev_steps_trans [OF step1 step2]
    show ?thesis
    proof (cases "r1 = 0")
      case False
      then show ?thesis
        using rest [of ?s1] step1 unused ix er k1
        by (subst upload_bmt.simps) (simp add: cell_simps ix1)
    next
      case ok1: True
      let ?s2 = "?s1\<lparr>bbt_buf := b', v2_dev := d2\<rparr>"
      have ix2: "blk_ix (s\<lparr>bbt_buf := b', v2_dev := d2\<rparr>) k = blk_ix s k" for k by (simp add: blk_ix_def)
      show ?thesis
      proof (cases "r2 = 0")
        case True
        then show ?thesis
          using unused ix er ok1 wr b' kd [of d2] run same
          by (subst upload_bmt.simps) (auto simp: cell_simps ix1 uploaded_def)
      next
        case False
        then show ?thesis
          using rest [of ?s2] run unused ix er ok1 wr b' kd [of d2] same
          by (subst upload_bmt.simps) (simp add: cell_simps ix1 ix2 Let_def)
      qed
    qed
  qed
qed

section \<open>The operations\<close>

text \<open>A table in use: it has room for the entries up to its own one, and the page buffer for a page.\<close>

definition v2_ok :: "'d bmtd \<Rightarrow> 'd bmt_v2 \<Rightarrow> bool" where
  "v2_ok env s \<longleftrightarrow> geom_ok env \<and> drv_bounded env \<and> table_fits env s \<and>
     pool_fits s (Suc (unat (bmt_blk_idx s))) \<and> unat (pg_size env) \<le> length (v2_data_buf s)"

text \<open>The mapping of logical blocks, as a map.\<close>

definition lmap :: "'d bmt_v2 \<Rightarrow> nat \<Rightarrow> u16 option" where
  "lmap s i = (if i < unat (table_size s) then bb_get s i else None)"

lemma lmap_cell: "pool_fits s n \<Longrightarrow> lmap s i = (if i < unat (table_size s) then Some (cell s (bb_ix i)) else None)"
  using bb_in [of s n i] by (simp add: lmap_def cell_simps)

lemma lmap_keeps: "pool_fits s n \<Longrightarrow> upload_keeps N s s' \<Longrightarrow> lmap s' = lmap s"
  using keeps_ix(3) [of N s s' n]
  by (intro ext) (simp add: lmap_cell upload_keeps_def)

lemma lmap_set:
  assumes "pool_fits s n" and "i < unat (table_size s)"
  shows "lmap (set_cell s (bb_ix i) v) = (lmap s)(i \<mapsto> v)"
proof
  fix j
  have "pool_fits (set_cell s (bb_ix i) v) n" using assms(1) by simp
  note l = lmap_cell [OF this] lmap_cell [OF assms(1)]
  show "lmap (set_cell s (bb_ix i) v) j = ((lmap s)(i \<mapsto> v)) j"
    using assms bb_in [OF assms(1)] by (simp add: l cell_set_cell)
qed

lemma lmap_pool:
  assumes "pool_fits s n" and "k < n"
  shows "lmap (set_cell s (use_ix s k) v) = lmap s"
proof
  fix j
  have "pool_fits (set_cell s (use_ix s k) v) n" using assms(1) by simp
  note l = lmap_cell [OF this] lmap_cell [OF assms(1)]
  show "lmap (set_cell s (use_ix s k) v) j = lmap s j"
    using assms pool_in [OF assms] bb_in [OF assms(1)] by (simp add: l cell_set_cell)
qed

lemma upload_at_idx_spec:
  assumes "v2_ok env s"
  shows "returns (upload_at_idx env s)
    (\<lambda>s'. lmap s' = lmap s \<and> table_size s' = table_size s \<and> pool_lba s' = pool_lba s \<and>
       dev_steps env (pool_addrs env s (Suc (unat (bmt_blk_idx s)))) (v2_dev s) (v2_dev s') \<and>
       (\<forall>k \<le> unat (bmt_blk_idx s). cell s' (use_ix s k) = cell s (use_ix s k)))"
proof -
  let ?n = "Suc (unat (bmt_blk_idx s))"
  have ok: "geom_ok env" "table_fits env s" "pool_fits s ?n" using assms by (simp_all add: v2_ok_def)
  have n: "uint (bmt_blk_idx s) = int ?n - 1" by simp
  have same: "lmap (s'\<lparr>bmt_blk_idx := x\<rparr>) = lmap s'" for s' :: "'a bmt_v2" and x
    by (intro ext) (simp add: lmap_def bb_get_def)
  obtain idx s' where up: "upload_bmt env (int ?n - 1) s = Some (idx, s')"
    and k: "upload_keeps ?n s s'" and d: "dev_steps env (pool_addrs env s ?n) (v2_dev s) (v2_dev s')"
    using upload_spec [OF ok order_refl] by (auto simp: returns_eq uploaded_def)
  have keep: "table_size s' = table_size s" "pool_lba s' = pool_lba s"
    "\<forall>k < ?n. cell s' (use_ix s k) = cell s (use_ix s k)"
    using k by (simp_all add: upload_keeps_def)
  show ?thesis
    using d keep lmap_keeps [OF ok(3) k] up [folded n]
    by (simp add: upload_at_idx_def same less_Suc_eq_le)
qed

text \<open>What remapping leaves when it has taken entry \<open>k\<close> of the pool.\<close>

definition remapped_to :: "'d bmtd \<Rightarrow> nat \<Rightarrow> nat \<Rightarrow> 'd bmt_v2 \<Rightarrow> 'd bmt_v2 \<Rightarrow> bool" where
  "remapped_to env block k s s' \<longleftrightarrow>
     lmap s' = (lmap s)(block \<mapsto> cell s (blk_ix s k)) \<and>
     table_size s' = table_size s \<and> pool_lba s' = pool_lba s \<and>
     dev_steps env (pool_addrs env s (Suc (unat (bmt_blk_idx s)))) (v2_dev s) (v2_dev s') \<and>
     (\<forall>j \<le> unat (bmt_blk_idx s). cell s' (use_ix s j) = (if j = k then NORMAL_MAPPED else cell s (use_ix s j)))"

lemma remap_v2_spec:
  assumes ok: "v2_ok env s" and b: "unat block < unat (table_size s)"
  shows "returns (remap_block_v2 env block mapped_block copy_len s)
    (\<lambda>(done, s'). case first_free s of
       None \<Rightarrow> \<not> done \<and> s' = s
     | Some k \<Rightarrow> done \<and> remapped_to env (unat block) k s s')"
proof -
  let ?n = "Suc (unat (bmt_blk_idx s))"
  have g: "geom_ok env" "drv_bounded env" "pool_fits s ?n" using ok by (simp_all add: v2_ok_def)
  have fits: "pool_fits s (unat (bmt_blk_idx s))" using g(3) by (simp add: pool_fits_def)
  show ?thesis
  proof (cases "first_free s")
    case None
    then show ?thesis by (simp add: remap_block_v2_def find_valid_in_pool_spec [OF fits])
  next
    case (Some k)
    note k = first_free_Some [OF Some]
    let ?new = "cell s (blk_ix s k)"
    have new: "?new \<noteq> 0" and use: "cell s (use_ix s k) \<noteq> NORMAL_MAPPED" and kn: "k < ?n"
      using k(1,2) by (auto simp: pool_free_def)
    let ?s1 = "set_cell s (use_ix s k) NORMAL_MAPPED"
    let ?s2 = "set_cell ?s1 (bb_ix (unat block)) ?new"
    let ?A = "pool_addrs env s ?n"
    have ix1: "bb_ix (unat block) < length (bbt_buf s) div 2" using bb_in [OF g(3) b] .
    have in_A: "block_addrs env (ucast ?new) a \<Longrightarrow> ?A a" for a
      by (rule pool_block [OF kn use])
    obtain r1 d1 where er: "bbt_nand_erase env ?new (v2_dev s) = (r1, d1)"
      by (cases "bbt_nand_erase env ?new (v2_dev s)")
    note step1 = dev_erase [OF g(1) kn use er]
    obtain buf d2 where copy: "(if 0 < copy_len then do {
          (_, buf, d) \<leftarrow> bbt_nand_copy env ?new mapped_block copy_len (v2_data_buf s) d1;
          Some (?s2\<lparr>v2_data_buf := buf, v2_dev := d\<rparr>)
        } else Some (?s2\<lparr>v2_dev := d1\<rparr>)) = Some (?s2\<lparr>v2_data_buf := buf, v2_dev := d2\<rparr>)"
      and buf: "length buf = length (v2_data_buf s)" and step2: "dev_steps env ?A d1 d2"
    proof (cases "0 < copy_len")
      case True
      have "unat (pg_size env) \<le> length (v2_data_buf s)" using ok by (simp add: v2_ok_def)
      from copy_spec [OF g(1,2) this, of ?new mapped_block copy_len d1]
      obtain r buf d where c: "bbt_nand_copy env ?new mapped_block copy_len (v2_data_buf s) d1 = Some (r, buf, d)"
        "length buf = length (v2_data_buf s)" "dev_steps env (block_addrs env (ucast ?new)) d1 d"
        by (auto simp: returns_eq)
      show ?thesis
        by (rule that [where buf = buf and ?d2.0 = d]) (use c True dev_steps_mono [OF c(3) in_A] in auto)
    next
      case False
      then show ?thesis
        by (intro that [where buf = "v2_data_buf s" and ?d2.0 = d1]) (simp_all add: set_cell_def steps_refl)
    qed
    let ?s3 = "?s2\<lparr>v2_data_buf := buf, v2_dev := d2\<rparr>"
    have fields: "table_size ?s3 = table_size s" "bmt_blk_idx ?s3 = bmt_blk_idx s" "pool_lba ?s3 = pool_lba s"
      "blk_ix ?s3 j = blk_ix s j" "use_ix ?s3 j = use_ix s j" for j
      by (simp_all add: blk_ix_def use_ix_def)
    have ok3: "v2_ok env ?s3"
      using ok buf by (simp add: v2_ok_def table_fits_def table_bytes_def pool_fits_def)
    have l: "lmap ?s3 = (lmap s)(unat block \<mapsto> ?new)"
    proof -
      have "lmap ?s3 = lmap ?s2" by (intro ext) (simp add: lmap_def bb_get_def)
      also have "\<dots> = (lmap ?s1)(unat block \<mapsto> ?new)" by (rule lmap_set [of _ ?n]) (use g(3) b in simp_all)
      also have "lmap ?s1 = lmap s" by (rule lmap_pool [OF g(3) kn])
      finally show ?thesis .
    qed
    have c3: "cell ?s3 (use_ix s j) = (if j = k then NORMAL_MAPPED else cell s (use_ix s j))"
      "cell ?s3 (blk_ix s j) = cell s (blk_ix s j)" if "j < ?n" for j
      using pool_in [OF g(3) that] pool_in [OF g(3) kn] ix1 b by (simp_all add: cell_set_cell)
    have sub: "?A a" if "pool_addrs env ?s3 ?n a" for a
      using that c3 unfolding pool_addrs_def fields by (metis (full_types))
    from upload_at_idx_spec [OF ok3] obtain s4 where up: "upload_at_idx env ?s3 = Some s4"
      and s4: "lmap s4 = lmap ?s3" "table_size s4 = table_size s" "pool_lba s4 = pool_lba s"
      "dev_steps env (pool_addrs env ?s3 ?n) d2 (v2_dev s4)"
      "\<forall>j \<le> unat (bmt_blk_idx s). cell s4 (use_ix s j) = cell ?s3 (use_ix s j)"
      by (auto simp: returns_eq fields)
    have "dev_steps env ?A (v2_dev s) (v2_dev s4)"
      by (rule dev_steps_trans [OF dev_steps_trans [OF step1 step2] dev_steps_mono [OF s4(4) sub]])
    then have fin: "remapped_to env (unat block) k s s4"
      using s4 l c3(1) by (simp add: remapped_to_def)
    have "remap_block_v2 env block mapped_block copy_len s = Some (True, s4)"
      using new ix1 copy up
      by (cases "0 < copy_len")
        (auto simp: remap_block_v2_def find_valid_in_pool_spec [OF fits] Some cell_simps er Let_def
          bind_eq_Some_conv)
    then show ?thesis using Some fin by simp
  qed
qed

end
