(* ===== verification/Bmt_V2_Theorems.thy ===== *)
theory Bmt_V2_Theorems
  imports Bmt_V2_Pool
begin

text \<open>
  Properties of the v2 scheme (\<open>mtk_bmt_v2.c\<close>): what remapping and unmapping do to the mapping of
  logical blocks and to the chip, how the pool is used up, what scanning a chip builds, and the
  two ways in which the table is accessed outside its buffer.
\<close>

section \<open>Samples\<close>

text \<open>
  Sixteen logical entries mapped to themselves, and a pool of the blocks 10, 11 and 12 with the
  table in block 13.
\<close>

definition v2_words :: "u16 list" where
  "v2_words = [0, 1, 2, 3, 4, 5, 6, 7, 8, 9, 10, 11, 12, 13, 14, 15, 10, 0, 11, 0, 12, 0, 13, 2]"

definition v2_sample :: "sim_nand bmt_v2" where
  "v2_sample = \<lparr>bbt_buf = main_sig @ [BBMT_VERSION] @ concat (map (le_bytes 2) v2_words) @ replicate 76 0,
     v2_data_buf = replicate 80 0xFF, table_size = 16, pool_lba = 10, pool_pba = 10, bb_max = 2,
     bmt_blk_idx = 3, bmt_pgs = 2, oob_offset = 0, main_size = 1024, v2_dev = sim_blank\<rparr>"

lemma le_bytes2: "le_bytes 2 (w :: u16) = [ucast w, ucast (drop_bit 8 w)]"
  by (simp add: numeral_2_eq_2)

lemma v2_sample_ok: "v2_ok sim_bmtd v2_sample"
  using sim_geom_ok sim_drv_bounded
  by (simp add: v2_ok_def v2_sample_def v2_words_def table_fits_def table_bytes_def pool_fits_def sim_bmtd_def)

lemma v2_sample_cells:
  "cell v2_sample (blk_ix v2_sample 0) = 10" "cell v2_sample (use_ix v2_sample 0) = 0"
  "cell v2_sample (use_ix v2_sample 1) = 0" "cell v2_sample (blk_ix v2_sample 3) = 13"
  by (simp_all add: blk_ix_def use_ix_def v2_sample_def v2_words_def w16_def le_bytes2)

lemma v2_sample_free: "first_free v2_sample = Some 0"
  using v2_sample_cells by (simp add: first_free_def pool_free_def v2_sample_def upt_rec)

section \<open>Remapping and unmapping\<close>

text \<open>
  C8: \<open>remap_block_v2\<close> refines an update of a finite map: with a free entry in the pool it ends,
  returns true and maps the block to the first free one, which is then in use, and every other
  logical block keeps its place; with none left it returns false and changes nothing. No access is
  outside a buffer, whatever the chip returns.
\<close>

theorem v2_remap_mapping:
  assumes "v2_ok env s" and "unat block < unat (table_size s)"
  shows "returns (remap_block_v2 env block mapped_block copy_len s)
    (\<lambda>(done, s'). case first_free s of
       None \<Rightarrow> \<not> done \<and> s' = s
     | Some k \<Rightarrow> done \<and> lmap s' = (lmap s)(unat block \<mapsto> cell s (blk_ix s k)) \<and>
         cell s' (use_ix s k) = NORMAL_MAPPED)"
proof (rule returns_mono [OF remap_v2_spec [OF assms]])
  fix r
  assume "case r of (done, s') \<Rightarrow> (case first_free s of
       None \<Rightarrow> \<not> done \<and> s' = s | Some k \<Rightarrow> done \<and> remapped_to env (unat block) k s s')"
  then show "case r of (done, s') \<Rightarrow> (case first_free s of
       None \<Rightarrow> \<not> done \<and> s' = s
     | Some k \<Rightarrow> done \<and> lmap s' = (lmap s)(unat block \<mapsto> cell s (blk_ix s k)) \<and>
         cell s' (use_ix s k) = NORMAL_MAPPED)"
    using first_free_Some(1) [of s] by (auto simp: remapped_to_def less_imp_le split: option.splits)
qed

theorem v2_remap_mapping_witness:
  "returns (remap_block_v2 sim_bmtd 2 2 128 v2_sample)
    (\<lambda>(done, s'). done \<and> lmap s' = (lmap v2_sample)(2 \<mapsto> 10) \<and>
       cell s' (use_ix v2_sample 0) = NORMAL_MAPPED)"
proof -
  have "unat (2 :: u16) < unat (table_size v2_sample)" by (simp add: v2_sample_def)
  from v2_remap_mapping [OF v2_sample_ok this, of 2 128] show ?thesis
    by (simp add: v2_sample_free v2_sample_cells)
qed

text \<open>
  \<open>remap_block_v2\<close> erases and programs only blocks of pool entries that no logical block
  uses: every property of the chip that such operations keep is kept, in particular the contents
  of all blocks in use.
\<close>

theorem v2_remap_safe:
  assumes "v2_ok env s" and "unat block < unat (table_size s)"
    and "chip_keeps env (pool_addrs env s (Suc (unat (bmt_blk_idx s)))) I" and "I (v2_dev s)"
  shows "returns (remap_block_v2 env block mapped_block copy_len s) (\<lambda>(done, s'). I (v2_dev s'))"
  by (rule returns_mono [OF remap_v2_spec [OF assms(1,2)]])
    (use assms(3,4) in \<open>auto simp: remapped_to_def split: option.splits intro: dev_steps_keep\<close>)

theorem v2_remap_safe_witness:
  "returns (remap_block_v2 sim_bmtd 2 2 128 v2_sample) (\<lambda>(done, s'). cells (v2_dev s') 300 = 0xFF)"
proof (rule v2_remap_safe [OF v2_sample_ok])
  show "unat (2 :: u16) < unat (table_size v2_sample)" by (simp add: v2_sample_def)
  have "cell v2_sample (blk_ix v2_sample k) \<noteq> 2" if "k < 4" for k
  proof -
    have "k = 0 \<or> k = 1 \<or> k = 2 \<or> k = 3" using that by linarith
    then show ?thesis
      by (elim disjE) (simp_all add: blk_ix_def v2_sample_def v2_words_def w16_def le_bytes2)
  qed
  then have "\<not> pool_addrs sim_bmtd v2_sample 4 300"
    by (auto simp: pool_addrs_def block_addrs_def sim_bmtd_def word_unat_eq_iff)
  then show "chip_keeps sim_bmtd (pool_addrs sim_bmtd v2_sample (Suc (unat (bmt_blk_idx v2_sample))))
      (\<lambda>d. cells d 300 = 0xFF)"
    by (intro sim_keeps_cell) (simp add: v2_sample_def)
  show "cells (v2_dev v2_sample) 300 = 0xFF" by (simp add: v2_sample_def sim_blank_def)
qed

text \<open>
  \<open>unmap_block_v2\<close> maps the block back to itself, keeps every other mapping and the uses of
  the pool entries, and ends on every chip.
\<close>

theorem v2_unmap_identity:
  assumes "v2_ok env s" and "unat block < unat (table_size s)"
  shows "returns (unmap_block_v2 env block s)
    (\<lambda>s'. lmap s' = (lmap s)(unat block \<mapsto> block) \<and>
       (\<forall>k \<le> unat (bmt_blk_idx s). cell s' (use_ix s k) = cell s (use_ix s k)))"
proof -
  let ?s1 = "set_cell s (bb_ix (unat block)) block"
  have fits: "pool_fits s (Suc (unat (bmt_blk_idx s)))" using assms(1) by (simp add: v2_ok_def)
  note ix = bb_in [OF fits assms(2)]
  have ok1: "v2_ok env ?s1" using assms(1) by (simp add: v2_ok_def table_fits_def table_bytes_def)
  have "cell ?s1 (use_ix s k) = cell s (use_ix s k)" if "k \<le> unat (bmt_blk_idx s)" for k
    using pool_in(2) [OF fits, of k] ix assms(2) that by (simp add: cell_set_cell)
  with upload_at_idx_spec [OF ok1] lmap_set [OF fits assms(2)] ix show ?thesis
    by (auto simp: unmap_block_v2_def cell_simps elim!: returns_mono)
qed

theorem v2_unmap_identity_witness:
  "returns (unmap_block_v2 sim_bmtd 5 v2_sample)
    (\<lambda>s'. lmap s' = (lmap v2_sample)(5 \<mapsto> 5) \<and>
       (\<forall>k \<le> 3. cell s' (use_ix v2_sample k) = cell v2_sample (use_ix v2_sample k)))"
  using v2_unmap_identity [OF v2_sample_ok, of 5] by (simp add: v2_sample_def)

text \<open>
  C20: After the core remapped a block below the pool, the next access to it goes to the block
  taken from the pool: \<open>mtk_bmt_remap_block\<close> and \<open>get_mapping_block\<close> agree through the operations
  table of the scheme.
\<close>

theorem v2_remap_then_access:
  assumes "v2_ok env s" and "unat block < unat (pool_lba s)"
    and "unat (pool_lba s) \<le> unat (table_size s)"
    and "mapping_block_in_range env (ucast block) \<noteq> None" and "first_free s = Some k"
  shows "returns (mtk_bmt_remap_block env (v2_ops env) (ucast (block :: u16)) mapped_block copy_len s)
    (\<lambda>(done, s'). done \<and>
       get_mapping_block (v2_ops env) (ucast block) s' = Some (uint (cell s (blk_ix s k))))"
proof -
  have b: "unat block < unat (table_size s)" using assms(2,3) by simp
  have below: "uint block < uint (pool_lba s)" using assms(2) by (simp only: flip: word_less_nat_alt word_less_def)
  have sb: "sint (ucast block :: u32) = int (unat block)"
    using unsigned_less [where 'a = nat, of block] by (subst sint_small) simp_all
  have narrow: "ucast (ucast block :: u32) = block" by (rule bit_word_eqI) (auto simp: bit_simps)
  have acc: "get_mapping_block (v2_ops env) (ucast block) s' = Some (uint (cell s (blk_ix s k)))"
    if "remapped_to env (unat block) k s s'" for s'
  proof -
    have r: "lmap s' (unat block) = Some (cell s (blk_ix s k))" "table_size s' = table_size s" "pool_lba s' = pool_lba s"
      using that by (simp_all add: remapped_to_def)
    then have "bb_get s' (unat block) = Some (cell s (blk_ix s k))" using b by (simp add: lmap_def)
    then show ?thesis
      using below assms(4) r(3) sb by (auto simp: v2_ops_def get_mapping_block_index_v2_def)
  qed
  have "returns (remap_block_v2 env block (ucast mapped_block) copy_len s) (\<lambda>(done, s'). done \<and>
      get_mapping_block (v2_ops env) (ucast block) s' = Some (uint (cell s (blk_ix s k))))"
    by (rule returns_mono [OF remap_v2_spec [OF assms(1) b]]) (use assms(5) acc in auto)
  then show ?thesis using assms(4) by (auto simp: mtk_bmt_remap_block_def v2_ops_def narrow)
qed

theorem v2_remap_then_access_witness:
  "returns (mtk_bmt_remap_block sim_bmtd (v2_ops sim_bmtd) 4 4 128 v2_sample)
    (\<lambda>(done, s'). done \<and> get_mapping_block (v2_ops sim_bmtd) 4 s' = Some 10)"
  using v2_remap_then_access [OF v2_sample_ok _ _ _ v2_sample_free, of 4 4 128]
  by (simp add: v2_sample_cells(1)) (simp add: v2_sample_def mapping_block_in_range_def sim_bmtd_def)

section \<open>A store that fails\<close>

lemma upload_all_fail:
  assumes "\<And>d a m. fst (drv_erase env d a m) \<noteq> 0" and "pool_fits s N" and "n \<le> N"
  shows "returns (upload_bmt env (int n - 1) s)
    (\<lambda>(idx, s'). idx = - 1 \<and> length (bbt_buf s') = length (bbt_buf s) \<and> table_size s' = table_size s)"
  using assms(2,3)
proof (induction n arbitrary: s)
  case 0
  then show ?case by (subst upload_bmt.simps) simp
next
  case (Suc n)
  note ix = pool_in [OF Suc.prems(1), of n]
  obtain r d where er: "bbt_nand_erase env (cell s (blk_ix s n)) (v2_dev s) = (r, d)"
    by (cases "bbt_nand_erase env (cell s (blk_ix s n)) (v2_dev s)")
  then have r: "r \<noteq> 0" using assms(1) unfolding bbt_nand_erase_def by (metis fst_conv)
  let ?s = "set_cell (s\<lparr>v2_dev := d\<rparr>) (blk_ix s n) 0"
  have "pool_fits ?s N" using Suc.prems(1) by (simp add: pool_fits_def)
  from Suc.IH [OF this] Suc.prems(2)
  have "returns (upload_bmt env (int n - 1) ?s)
    (\<lambda>(idx, s'). idx = - 1 \<and> length (bbt_buf s') = length (bbt_buf s) \<and> table_size s' = table_size s)"
    by simp
  moreover have "blk_ix (s\<lparr>v2_dev := d\<rparr>) n = blk_ix s n" by (simp add: blk_ix_def)
  ultimately show ?case
    using ix Suc.prems(2) er r by (subst upload_bmt.simps) (simp add: cell_simps)
qed

text \<open>
  When no block of the pool can be erased any more, \<open>remap_block_v2\<close> still returns true, with
  \<open>bmt_blk_idx\<close> set to -1 as a \<open>u16\<close>; the next operation that stores the table then reads entry
  65535 of the pool, outside the buffer.
\<close>

theorem v2_store_failure:
  assumes "v2_ok env s" and "unat block < unat (table_size s)" and "first_free s = Some k"
    and "\<And>d a m. fst (drv_erase env d a m) \<noteq> 0"
    and "length (bbt_buf s) < 4 + 2 * unat (table_size s) + 4 * 65535"
  shows "returns (remap_block_v2 env block mapped_block 0 s)
    (\<lambda>(done, s'). done \<and> bmt_blk_idx s' = 0xFFFF \<and> upload_at_idx env s' = None)"
proof -
  let ?n = "Suc (unat (bmt_blk_idx s))"
  have g: "pool_fits s ?n" using assms(1) by (simp add: v2_ok_def)
  have fits: "pool_fits s (unat (bmt_blk_idx s))" using g by (simp add: pool_fits_def)
  note k = first_free_Some [OF assms(3)]
  let ?new = "cell s (blk_ix s k)"
  have new: "?new \<noteq> 0" using k(2) by (simp add: pool_free_def)
  have ix: "bb_ix (unat block) < length (bbt_buf s) div 2" using bb_in [OF g assms(2)] .
  obtain r d where er: "bbt_nand_erase env ?new (v2_dev s) = (r, d)"
    by (cases "bbt_nand_erase env ?new (v2_dev s)")
  let ?s3 = "set_cell (set_cell s (use_ix s k) NORMAL_MAPPED) (bb_ix (unat block)) ?new\<lparr>v2_dev := d\<rparr>"
  have "pool_fits ?s3 ?n" using g by (simp add: pool_fits_def)
  from upload_all_fail [OF assms(4) this order_refl] obtain s4 where
    up: "upload_bmt env (int ?n - 1) ?s3 = Some (- 1, s4)"
    and s4: "length (bbt_buf s4) = length (bbt_buf s)" "table_size s4 = table_size s"
    by (auto simp: returns_eq)
  have n: "uint (bmt_blk_idx s) = int ?n - 1" by simp
  have stored: "upload_at_idx env ?s3 = Some (s4\<lparr>bmt_blk_idx := - 1\<rparr>)"
    using up [folded n] by (simp add: upload_at_idx_def)
  have m1: "(- 1 :: u16) = 65535" by simp
  have out: "\<not> use_ix (s4\<lparr>bmt_blk_idx := 65535\<rparr>) 65535 < length (bbt_buf s4) div 2"
    using assms(5) s4 by (simp add: use_ix_def)
  then have "upload_at_idx env (s4\<lparr>bmt_blk_idx := 65535\<rparr>) = None"
    by (simp add: upload_at_idx_def upload_bmt.simps cell_simps)
  then show ?thesis
    using new ix stored [unfolded m1]
    by (simp add: remap_block_v2_def find_valid_in_pool_spec [OF fits] assms(3) cell_simps er Let_def)
qed

definition no_erase :: "sim_nand bmtd" where
  "no_erase = sim_bmtd\<lparr>drv_erase := (\<lambda>d a n. (- EIO, d))\<rparr>"

theorem v2_store_failure_witness:
  "returns (remap_block_v2 no_erase 2 2 0 v2_sample)
    (\<lambda>(done, s'). done \<and> bmt_blk_idx s' = 0xFFFF \<and> upload_at_idx no_erase s' = None)"
proof (rule v2_store_failure [OF _ _ v2_sample_free])
  show "v2_ok no_erase v2_sample"
    using v2_sample_ok
    by (simp add: v2_ok_def no_erase_def geom_ok_def drv_bounded_def table_fits_def table_bytes_def)
  show "unat (2 :: u16) < unat (table_size v2_sample)" by (simp add: v2_sample_def)
  show "fst (drv_erase no_erase d a m) \<noteq> 0" for d a m by (simp add: no_erase_def)
  show "length (bbt_buf v2_sample) < 4 + 2 * unat (table_size v2_sample) + 4 * 65535"
    by (simp add: v2_sample_def v2_words_def)
qed

section \<open>A new table\<close>

lemma unat_or_le: "unat (a OR b :: u64) \<le> unat a + unat b"
proof -
  have "0 \<le> uint a AND uint b" by simp
  then have "uint a OR uint b \<le> uint a + uint b" using plus_and_or [of "uint a" "uint b"] by linarith
  then have "uint (a OR b) \<le> uint a + uint b" by (simp add: unsigned_or_eq)
  then have "int (unat (a OR b)) \<le> int (unat a + unat b)" by simp
  then show ?thesis by (rule of_nat_le_iff [THEN iffD1])
qed

lemma bufsz_bound:
  assumes "unat ts < 2 ^ 24" and "pg_size env = of_nat (2 ^ p)" and "p < 16"
  shows "unat (v2_bufsz env ts) < 4 + 4 * unat ts + 2 ^ p"
proof -
  have p2: "2 ^ p \<le> (2 :: nat) ^ 15" using assms(3) by (intro power_increasing) simp_all
  let ?x = "4 + ucast ts * 4 :: u64" and ?y = "ucast (pg_size env) :: u64"
  have ux: "unat ?x = 4 + 4 * unat ts"
    using assms(1) by (simp add: unat_word_ariths)
  have "unat (pg_size env) = 2 ^ p"
    unfolding assms(2) using p2 by (subst unat_of_nat32) simp_all
  then have uy: "unat ?y = 2 ^ p" by simp
  have "unat (?x - 1) = 3 + 4 * unat ts" "unat (?y - 1) = 2 ^ p - 1"
    using ux uy by (subst unat_sub; simp add: word_le_nat_alt)+
  then have or: "unat ((?x - 1) OR (?y - 1)) \<le> 3 + 4 * unat ts + (2 ^ p - 1)"
    using unat_or_le [of "?x - 1" "?y - 1"] by simp
  then have "unat (round_up ?x ?y) \<le> 4 + 4 * unat ts + (2 ^ p - 1)"
    using assms(1) p2 by (simp add: round_up_def unat_word_ariths)
  then have "unat (v2_bufsz env ts) \<le> 4 + 4 * unat ts + (2 ^ p - 1)"
    unfolding v2_bufsz_def unsigned_ucast_eq by (rule order_trans [OF take_bit_nat_less_eq_self])
  moreover have "(0 :: nat) < 2 ^ p" by simp
  ultimately show ?thesis by linarith
qed

text \<open>
  The buffer \<open>mtk_bmt_init_v2\<close> allocates has room for \<open>table_size\<close> entries of four bytes,
  but the table has \<open>table_size\<close> entries of two bytes before a pool of \<open>table_size\<close> entries of
  four. Creating a table clears the pool, and writes beyond the buffer, whenever a page is not
  larger than the two-byte entries; so for the default of 8192 entries and pages of 2 KiB.
\<close>

theorem v2_create_overruns:
  assumes "length (bbt_buf s) = unat (v2_bufsz env (table_size s))"
    and "pg_size env = of_nat (2 ^ p)" and "p < 16"
    and "2 ^ p \<le> 2 * unat (table_size s)" and "unat (table_size s) < 2 ^ 24"
    and "\<not> ucast (total_blks env) > table_size s + table_size s * 2 div 100"
  shows "v2_create env s = None"
proof -
  have "length (bbt_buf s) < bmt_tbl s 0 + 4 * unat (table_size s)"
    using bufsz_bound [OF assms(5,2,3)] assms(1,4) by (simp add: bmt_tbl_def)
  then have "buf_put (bbt_buf s) (bmt_tbl s 0) (replicate (unat (table_size s) * 4) 0) = None"
    by (simp add: buf_put_def)
  then show ?thesis using assms(6) by (simp add: v2_create_def)
qed

definition default_env :: "sim_nand bmtd" where
  "default_env = sim_bmtd\<lparr>pg_size := 2048, total_blks := 1024\<rparr>"

theorem v2_create_overruns_witness:
  "v2_create default_env (v2_sample\<lparr>table_size := 0x2000, bbt_buf := replicate 0x8800 0xFF\<rparr>) = None"
  by (rule v2_create_overruns [where p = 11])
    (simp_all add: default_env_def v2_bufsz_def round_up_def sim_bmtd_def)

section \<open>Scanning a chip\<close>

text \<open>What a scan keeps: everything but the page buffer's contents and the state of a chip that is only read.\<close>

definition only_read :: "'d bmtd \<Rightarrow> 'd bmt_v2 \<Rightarrow> 'd bmt_v2 \<Rightarrow> bool" where
  "only_read env s s' \<longleftrightarrow> (\<exists>buf d. s' = s\<lparr>v2_data_buf := buf, v2_dev := d\<rparr> \<and>
     length buf = length (v2_data_buf s) \<and> dev_steps env (\<lambda>_. False) (v2_dev s) d)"

lemma only_read_refl: "only_read env s s"
  unfolding only_read_def by (rule exI [of _ "v2_data_buf s"], rule exI [of _ "v2_dev s"]) (simp add: steps_refl)

lemma only_read_trans:
  assumes "only_read env s s'" and "only_read env s' s''"
  shows "only_read env s s''"
  using assms unfolding only_read_def by (force intro: dev_steps_trans)

definition page_buf_ok :: "'d bmtd \<Rightarrow> 'd bmt_v2 \<Rightarrow> bool" where
  "page_buf_ok env s \<longleftrightarrow> drv_bounded env \<and> unat (pg_size env) \<le> length (v2_data_buf s)"

lemma nand_read_spec:
  assumes "drv_bounded env" and "n \<le> length buf" and "m \<le> length fdm"
  shows "returns (bbt_nand_read env oo page buf n fdm m d)
    (\<lambda>(r, buf', fdm', d'). length buf' = length buf \<and> length fdm' = length fdm \<and>
       dev_steps env (\<lambda>_. False) d d')"
proof -
  let ?a = "ucast (push_bit (unat (pg_shift env)) page) :: u64"
  obtain rd d1 where rd: "drv_read_oob env d ?a n m (unat oo) = (rd, d1)"
    by (cases "drv_read_oob env d ?a n m (unat oo)")
  have len: "length (rd_dat rd) \<le> n" "length (rd_oob rd) \<le> m"
    using assms(1) rd unfolding drv_bounded_def by (metis fst_conv)+
  have "dev_steps env (\<lambda>_. False) d d1" using dev_steps_single [OF step_read] rd by (metis snd_conv)
  then show ?thesis using len assms(2,3) by (simp add: bbt_nand_read_def rd returns_simps)
qed

lemma find_valid_loop_spec:
  assumes "page_buf_ok env s" and "length fdm = 4"
  shows "returns (find_valid_loop env b loop fdm s) (\<lambda>(r, s'). only_read env s s' \<and>
    (r = 0 \<or> b \<le> r \<and> r < total_blks env \<and> unat r - unat b \<le> unat (bb_max s) - loop))"
  using assms
proof (induction env b loop fdm s rule: find_valid_loop.induct)
  case (1 env b loop fdm s)
  show ?case
  proof (cases "b \<ge> total_blks env")
    case True
    then show ?thesis by (subst find_valid_loop.simps) (simp add: only_read_refl)
  next
    case False
    have pb: "drv_bounded env" "unat (pg_size env) \<le> length (v2_data_buf s)"
      using "1.prems"(1) by (simp_all add: page_buf_ok_def)
    obtain r buf fdm' d where rd: "bbt_nand_read env (oob_offset s) (blk_pg env b) (v2_data_buf s)
          (unat (pg_size env)) fdm 4 (v2_dev s) = Some (r, buf, fdm', d)"
      and len: "length buf = length (v2_data_buf s)" "length fdm' = 4" and d: "dev_steps env (\<lambda>_. False) (v2_dev s) d"
      using nand_read_spec [OF pb, of 4 fdm "oob_offset s" "blk_pg env b" "v2_dev s"] "1.prems"(2)
      by (auto simp: returns_eq)
    let ?s = "s\<lparr>v2_data_buf := buf, v2_dev := d\<rparr>"
    have one: "only_read env s ?s" using len(1) d by (auto simp: only_read_def)
    have f0: "arr_get fdm' 0 = Some (fdm' ! 0)" using len(2) by (simp add: arr_get_def)
    show ?thesis
    proof (cases "r \<noteq> 0 \<or> fdm' ! 0 \<noteq> 0xFF")
      case good: False
      then show ?thesis
        using False rd f0 one by (subst find_valid_loop.simps) (auto simp: not_le)
    next
      case bad: True
      show ?thesis
      proof (cases "loop \<ge> unat (bb_max s)")
        case True
        then show ?thesis
          using False bad rd f0 one by (subst find_valid_loop.simps) auto
      next
        case more: False
        have "page_buf_ok env ?s" using "1.prems"(1) len(1) by (simp add: page_buf_ok_def)
        from "1.IH" [OF False rd refl refl refl refl f0 bad _ this len(2)] more
        have ih: "returns (find_valid_loop env (b + 1) (loop + 1) fdm' ?s) (\<lambda>(r, s'). only_read env ?s s' \<and>
            (r = 0 \<or> b + 1 \<le> r \<and> r < total_blks env \<and> unat r - unat (b + 1) \<le> unat (bb_max s) - (loop + 1)))"
          by simp
        have "find_valid_loop env b loop fdm s = find_valid_loop env (b + 1) (loop + 1) fdm' ?s"
          using False bad more rd f0 by (subst find_valid_loop.simps) auto
        moreover have "unat (b + 1) = Suc (unat b)" using False by (intro unat_inc [of _ "total_blks env"]) (simp add: not_le)
        ultimately show ?thesis
          using ih more by (auto elim!: returns_mono simp: word_le_nat_alt intro: only_read_trans [OF one])
      qed
    qed
  qed
qed

lemma find_valid_spec:
  assumes "page_buf_ok env s"
  shows "returns (find_valid_block env b s) (\<lambda>(r, s'). only_read env s s' \<and>
    (r = 0 \<or> b \<le> r \<and> r < total_blks env \<and> unat r - unat b \<le> unat (bb_max s)))"
  unfolding find_valid_block_def using find_valid_loop_spec [OF assms, of "replicate 4 0" b 0] by simp

text \<open>
  \<open>find_valid_block\<close> ends on every chip, only reads it, and answers 0 or a block of the chip
  at or above the one asked for, at most \<open>bb_max\<close> blocks further.
\<close>

theorem v2_find_valid_block:
  assumes "page_buf_ok env s"
  shows "returns (find_valid_block env b s) (\<lambda>(r, s').
    bbt_buf s' = bbt_buf s \<and> dev_steps env (\<lambda>_. False) (v2_dev s) (v2_dev s') \<and>
    (r = 0 \<or> b \<le> r \<and> r < total_blks env \<and> unat r - unat b \<le> unat (bb_max s)))"
  by (rule returns_mono [OF find_valid_spec [OF assms]]) (auto simp: only_read_def)

lemma v2_sample_page_buf: "page_buf_ok sim_bmtd v2_sample"
  using v2_sample_ok by (simp add: page_buf_ok_def v2_ok_def)

theorem v2_find_valid_block_witness:
  "returns (find_valid_block sim_bmtd 7 v2_sample) (\<lambda>(r, s').
    bbt_buf s' = bbt_buf v2_sample \<and> dev_steps sim_bmtd (\<lambda>_. False) sim_blank (v2_dev s') \<and>
    (r = 0 \<or> 7 \<le> r \<and> r < 16 \<and> unat r - unat (7 :: u16) \<le> 2))"
  using v2_find_valid_block [OF v2_sample_page_buf, of 7] by (simp add: v2_sample_def sim_bmtd_def)

text \<open>The first \<open>n\<close> logical entries are ascending blocks of the chip.\<close>

definition ascending_upto :: "'d bmtd \<Rightarrow> 'd bmt_v2 \<Rightarrow> nat \<Rightarrow> bool" where
  "ascending_upto env s n \<longleftrightarrow>
     (\<forall>i j. i < j \<longrightarrow> j < n \<longrightarrow> cell s (bb_ix i) < cell s (bb_ix j)) \<and>
     (\<forall>i < n. cell s (bb_ix i) < total_blks env)"

lemma ascending_step:
  assumes fits: "pool_fits s 0" and n: "Suc n \<le> unat (table_size s)" and "0 < n"
    and asc: "ascending_upto env s n" and b: "cell s (bb_ix (n - 1)) < b" "b < total_blks env"
  shows "ascending_upto env (set_cell s (bb_ix n) b) (Suc n)"
proof -
  have c: "cell (set_cell s (bb_ix n) b) (bb_ix i) = (if i = n then b else cell s (bb_ix i))" if "i < Suc n" for i
    using bb_in [OF fits, of i] bb_in [OF fits, of n] that n by (simp add: cell_set_cell)
  have below: "cell s (bb_ix i) < b" if "i < n" for i
  proof (cases "i = n - 1")
    case False
    then have "cell s (bb_ix i) < cell s (bb_ix (n - 1))" using asc that by (simp add: ascending_upto_def)
    then show ?thesis using b(1) by simp
  qed (use b(1) in simp)
  show ?thesis
    using asc b(2) below unfolding ascending_upto_def by (auto simp: c less_Suc_eq)
qed

lemma scan_bb_spec:
  assumes "page_buf_ok env s" and "pool_fits s 0" and "n \<le> unat (table_size s)" and "0 < i"
    and "ascending_upto env s i" and "i \<le> n"
  shows "returns (scan_bb_loop env n i s) (\<lambda>(ok, s'). (ok \<longrightarrow> ascending_upto env s' n) \<and>
    table_size s' = table_size s \<and> dev_steps env (\<lambda>_. False) (v2_dev s) (v2_dev s'))"
  using assms
proof (induction "n - i" arbitrary: i s)
  case 0
  then show ?case by (subst scan_bb_loop.simps) (simp add: steps_refl)
next
  case (Suc d)
  then have lt: "i < n" by simp
  let ?prev = "cell s (bb_ix (i - 1))"
  have prev: "bb_get s (i - 1) = Some ?prev"
    using bb_in [OF Suc.prems(2), of "i - 1"] Suc.prems(3) lt by (simp add: cell_simps)
  have pt: "?prev < total_blks env" using Suc.prems(4,5) by (simp add: ascending_upto_def)
  then have inc: "unat (?prev + 1) = Suc (unat ?prev)" by (rule unat_inc)
  obtain b s1 where fv: "find_valid_block env (?prev + 1) s = Some (b, s1)" and r1: "only_read env s s1"
    and b: "b = 0 \<or> ?prev + 1 \<le> b \<and> b < total_blks env"
    using find_valid_spec [OF Suc.prems(1), of "?prev + 1"] by (auto simp: returns_eq)
  have s1: "bbt_buf s1 = bbt_buf s" "table_size s1 = table_size s" "length (v2_data_buf s1) = length (v2_data_buf s)"
    "dev_steps env (\<lambda>_. False) (v2_dev s) (v2_dev s1)"
    using r1 by (auto simp: only_read_def)
  let ?s2 = "set_cell s1 (bb_ix i) b"
  have f1: "pool_fits s1 0" using Suc.prems(2) s1 by (simp add: pool_fits_def)
  have set: "bb_set i b s1 = Some ?s2"
    using bb_in [OF f1, of i] lt Suc.prems(3) s1(2) by (simp add: cell_simps)
  show ?case
  proof (cases "b = 0")
    case True
    then show ?thesis using lt prev fv set s1 by (subst scan_bb_loop.simps) simp
  next
    case False
    have asc: "ascending_upto env ?s2 (Suc i)"
    proof (rule ascending_step [OF f1 _ Suc.prems(4)])
      show "ascending_upto env s1 i" using Suc.prems(5) s1(1) by (simp add: ascending_upto_def)
      show "cell s1 (bb_ix (i - 1)) < b" "b < total_blks env"
        using b False inc s1(1) by (simp_all add: word_le_nat_alt word_less_nat_alt)
      show "Suc i \<le> unat (table_size s1)" using lt Suc.prems(3) s1(2) by simp
    qed
    have "returns (scan_bb_loop env n (Suc i) ?s2) (\<lambda>(ok, s'). (ok \<longrightarrow> ascending_upto env s' n) \<and>
        table_size s' = table_size ?s2 \<and> dev_steps env (\<lambda>_. False) (v2_dev ?s2) (v2_dev s'))"
      by (rule Suc.hyps(1)) (use Suc.hyps(2) Suc.prems(1,3) s1 f1 asc lt in \<open>auto simp: page_buf_ok_def\<close>)
    then show ?thesis
      using lt prev fv set s1 False
      by (subst scan_bb_loop.simps) (auto elim!: returns_mono intro: dev_steps_trans)
  qed
qed

text \<open>
  C21: The first pass of \<open>scan_bad_blocks\<close> ends on every chip and only reads it; when it succeeds
  the logical blocks are mapped to strictly ascending blocks of the chip, so no two of them share
  a block.
\<close>

theorem v2_scan_ascending:
  assumes "page_buf_ok env s" and "pool_fits s 0" and "n \<le> unat (table_size s)" and "0 < n"
    and "0 < total_blks env" and "cell s (bb_ix 0) = 0"
  shows "returns (scan_bb_loop env n 1 s) (\<lambda>(ok, s').
    (ok \<longrightarrow> (\<forall>i j. i < j \<longrightarrow> j < n \<longrightarrow> cell s' (bb_ix i) < cell s' (bb_ix j)) \<and>
      (\<forall>i < n. cell s' (bb_ix i) < total_blks env)) \<and>
    dev_steps env (\<lambda>_. False) (v2_dev s) (v2_dev s'))"
proof -
  have "ascending_upto env s 1" using assms(5,6) by (simp add: ascending_upto_def)
  from scan_bb_spec [OF assms(1-3) zero_less_one this] assms(4) show ?thesis
    by (auto simp: ascending_upto_def elim!: returns_mono)
qed

theorem v2_scan_ascending_witness:
  "returns (scan_bb_loop sim_bmtd 10 1 v2_sample) (\<lambda>(ok, s').
    (ok \<longrightarrow> (\<forall>i j. i < j \<longrightarrow> j < 10 \<longrightarrow> cell s' (bb_ix i) < cell s' (bb_ix j)) \<and>
      (\<forall>i < 10. cell s' (bb_ix i) < 16)) \<and>
    dev_steps sim_bmtd (\<lambda>_. False) sim_blank (v2_dev s'))"
proof -
  have "pool_fits v2_sample 0" by (simp add: pool_fits_def v2_sample_def v2_words_def)
  moreover have "cell v2_sample (bb_ix 0) = 0"
    by (simp add: bb_ix_def v2_sample_def v2_words_def w16_def le_bytes2)
  ultimately show ?thesis
    using v2_scan_ascending [OF v2_sample_page_buf, of 10] by (simp add: v2_sample_def sim_bmtd_def)
qed

end
