(* ===== verification/Bmt_Bbt_Map.thy ===== *)
theory Bmt_Bbt_Map
  imports Bmt_Bbt
begin

text \<open>
  What the mapping of the BBT scheme computes: the good blocks of the remap range in ascending
  order, then its bad blocks; and what marking a block bad does to it.
\<close>

section \<open>The table as cells\<close>

definition bad_at :: "u8 list \<Rightarrow> nat \<Rightarrow> bool" where
  "bad_at buf n \<longleftrightarrow> buf ! (n div 4) AND push_bit (n mod 4 * 2) 3 \<noteq> 0"

definition set_bad :: "u8 list \<Rightarrow> nat \<Rightarrow> bool \<Rightarrow> u8 list" where
  "set_bad buf n bad = buf[n div 4 :=
     (let mask = push_bit (n mod 4 * 2) 3; cur = buf ! (n div 4)
      in if bad then cur OR mask else cur AND NOT mask)]"

lemma bit_mask3: "bit (push_bit k 3 :: u8) i \<longleftrightarrow> i < 8 \<and> (i = k \<or> i = k + 1)"
proof -
  have "(3 :: u8) = mask 2" by (simp add: mask_eq_exp_minus_1)
  then have "bit (push_bit k 3 :: u8) i \<longleftrightarrow> bit (push_bit k (mask 2) :: u8) i" by (rule arg_cong)
  also have "\<dots> \<longleftrightarrow> i < 8 \<and> (i = k \<or> i = k + 1)"
    unfolding bit_push_bit_iff bit_mask_iff by auto
  finally show ?thesis .
qed

lemma pos_bound: "n mod 4 * 2 + 1 < (8 :: nat)"
  using mod_less_divisor [of 4 n] by linarith

lemma bad_at_bits:
  "bad_at buf n \<longleftrightarrow> bit (buf ! (n div 4)) (n mod 4 * 2) \<or> bit (buf ! (n div 4)) (n mod 4 * 2 + 1)"
proof -
  have "bad_at buf n \<longleftrightarrow> (\<exists>i. bit (buf ! (n div 4)) i \<and> bit (push_bit (n mod 4 * 2) 3 :: u8) i)"
    unfolding bad_at_def bit_eq_iff bit_and_iff bit_mask3 by auto
  also have "\<dots> \<longleftrightarrow> bit (buf ! (n div 4)) (n mod 4 * 2) \<or> bit (buf ! (n div 4)) (n mod 4 * 2 + 1)"
    using pos_bound [of n] unfolding bit_mask3 by auto
  finally show ?thesis .
qed

lemma bit_set_bad:
  "n div 4 < length buf \<Longrightarrow> i < 8 \<Longrightarrow> bit (set_bad buf n b ! (m div 4)) i \<longleftrightarrow>
     (if m div 4 = n div 4 \<and> (i = n mod 4 * 2 \<or> i = n mod 4 * 2 + 1) then b else bit (buf ! (m div 4)) i)"
  by (cases "m div 4 = n div 4")
    (auto simp: set_bad_def Let_def bit_or_iff bit_and_iff bit_not_iff bit_mask3)

lemma set_bad_same: "n div 4 < length buf \<Longrightarrow> bad_at (set_bad buf n b) n = b"
  using pos_bound [of n] unfolding bad_at_bits by (simp only: bit_set_bad) auto

lemma set_bad_other:
  assumes "n div 4 < length buf" and "m \<noteq> n"
  shows "bad_at (set_bad buf n b) m = bad_at buf m"
proof -
  have pos: "m mod 4 * 2 \<noteq> n mod 4 * 2 \<and> m mod 4 * 2 \<noteq> n mod 4 * 2 + 1 \<and> m mod 4 * 2 + 1 \<noteq> n mod 4 * 2 \<and>
      m mod 4 * 2 + 1 \<noteq> n mod 4 * 2 + 1" if "m div 4 = n div 4"
  proof -
    have "m mod 4 \<noteq> n mod 4" using assms(2) that by (metis mult_div_mod_eq)
    moreover have "a \<noteq> b \<Longrightarrow> a * 2 \<noteq> b * 2 \<and> a * 2 \<noteq> b * 2 + 1 \<and> a * 2 + 1 \<noteq> b * 2 \<and> a * 2 + 1 \<noteq> b * 2 + 1"
      for a b :: nat by presburger
    ultimately show ?thesis by blast
  qed
  have lt: "m mod 4 * 2 < 8" "m mod 4 * 2 + 1 < 8" using pos_bound [of m] by simp_all
  show ?thesis
    unfolding bad_at_bits bit_set_bad [OF assms(1) lt(1)] bit_set_bad [OF assms(1) lt(2)]
    using pos by auto
qed

interpretation bbt: cell_table bad_at set_bad "\<lambda>buf. 4 * length buf" id
proof
  fix t :: "u8 list" and n m :: nat and v :: bool
  show "4 * length (set_bad t n v) = 4 * length t" by (simp add: set_bad_def)
  show "n < 4 * length t \<Longrightarrow> bad_at (set_bad t n v) n = id v" by (simp add: set_bad_same)
  show "n < 4 * length t \<Longrightarrow> m < 4 * length t \<Longrightarrow> m \<noteq> n \<Longrightarrow> bad_at (set_bad t n v) m = bad_at t m"
    by (rule set_bad_other) simp_all
qed

text \<open>The operations on the buffer, for block numbers that it covers.\<close>

lemma u16_div4: "unat (b div 4 :: u16) = unat b div 4" "unat (b mod 4 :: u16) = unat b mod 4"
  by (simp_all add: unat_div unat_mod)

lemma is_bad_eq:
  "unat b < 4 * length buf \<Longrightarrow> bbt_block_is_bad buf b = Some (bad_at buf (unat b))"
  by (simp add: bbt_block_is_bad_def bad_at_def arr_get_def u16_div4)

lemma mark_eq:
  "unat b < 4 * length buf \<Longrightarrow> bbt_mark buf b bad = Some (set_bad buf (unat b) bad)"
  by (simp add: bbt_mark_def set_bad_def arr_get_def arr_set_def u16_div4 Let_def)

section \<open>The order of the blocks\<close>

text \<open>The blocks of a range in the order in which they are used.\<close>

definition bbt_order :: "u8 list \<Rightarrow> nat \<Rightarrow> nat \<Rightarrow> nat list" where
  "bbt_order buf lo hi =
     filter (\<lambda>n. \<not> bad_at buf n) [lo..<hi] @ filter (bad_at buf) [lo..<hi]"

lemma bbt_order_set: "set (bbt_order buf lo hi) = {lo..<hi}"
  by (auto simp: bbt_order_def)

lemma bbt_order_distinct: "distinct (bbt_order buf lo hi)"
  by (auto simp: bbt_order_def)

lemma bbt_order_length: "length (bbt_order buf lo hi) = hi - lo"
  using sum_length_filter_compl [of "bad_at buf" "[lo..<hi]"] by (simp add: bbt_order_def)

lemma is_bad_int:
  assumes "n < 65536" and "n < 4 * length buf"
  shows "bbt_block_is_bad buf (word_of_int (int n)) = Some (bad_at buf n)"
proof -
  have "unat (word_of_int (int n) :: u16) = n"
    using assms(1) by (simp add: unat_of_nat take_bit_nat_eq_self)
  then show ?thesis using assms(2) is_bad_eq [of "word_of_int (int n)" buf] by simp
qed

lemma bbt_skip:
  assumes "a \<le> e" and "e \<le> 65536" and "e \<le> 4 * length buf"
  shows "bbt_skip_loop buf (int a) (int e) (int k) b =
    (let gs = filter (\<lambda>n. \<not> bad_at buf n) [a..<e] in
     if k < length gs
     then Some (int (gs ! k), 0, b + length (filter (bad_at buf) [a..<gs ! k]))
     else Some (int e, int (k - length gs), b + length (filter (bad_at buf) [a..<e])))"
  using assms
proof (induction "e - a" arbitrary: a k b)
  case 0
  then show ?case by (subst bbt_skip_loop.simps) (simp add: Let_def)
next
  case (Suc d)
  then have lt: "a < e" by simp
  have bad: "bbt_block_is_bad buf (word_of_int (int a)) = Some (bad_at buf a)"
    using Suc.prems lt by (intro is_bad_int) auto
  have next_: "int a + 1 = int (Suc a)" by simp
  have ih: "bbt_skip_loop buf (int (Suc a)) (int e) (int k') b' =
    (let gs = filter (\<lambda>n. \<not> bad_at buf n) [Suc a..<e] in
     if k' < length gs
     then Some (int (gs ! k'), 0, b' + length (filter (bad_at buf) [Suc a..<gs ! k']))
     else Some (int e, int (k' - length gs), b' + length (filter (bad_at buf) [Suc a..<e])))" for k' b'
    using Suc.hyps Suc.prems lt by (intro Suc.hyps(1)) auto
  have gt: "a < gs ! k'" if "gs = filter (\<lambda>n. \<not> bad_at buf n) [Suc a..<e]" "k' < length gs" for gs k'
    using nth_mem [OF that(2)] that(1) by auto
  show ?case
  proof (cases "bad_at buf a")
    case True
    then show ?thesis
      using bad lt ih [of k "b + 1"] gt
      by (subst bbt_skip_loop.simps) (simp add: next_ upt_conv_Cons Let_def del: of_nat_Suc)
  next
    case good: False
    show ?thesis
    proof (cases k)
      case 0
      then show ?thesis
        using good bad lt by (subst bbt_skip_loop.simps) (simp add: upt_conv_Cons Let_def)
    next
      case (Suc k')
      have k1: "int (Suc k') - 1 = int k'" by simp
      then show ?thesis
        using good bad lt ih [of k' b] gt
        by (subst bbt_skip_loop.simps) (simp add: Suc k1 next_ upt_conv_Cons Let_def del: of_nat_Suc)
    qed
  qed
qed

lemma bbt_over:
  assumes "s \<le> e" and "e \<le> 65536" and "e \<le> 4 * length buf"
  shows "bbt_over_loop buf (int e - 1) (int k) (length (filter (bad_at buf) [s..<e])) =
    (let bs = filter (bad_at buf) [s..<e] in
     Some (if bs = [] then None else Some (int (bs ! min k (length bs - 1)))))"
  using assms
proof (induction e)
  case 0
  then show ?case by (subst bbt_over_loop.simps) simp
next
  case (Suc e)
  show ?case
  proof (cases "s = Suc e")
    case True
    then show ?thesis by (subst bbt_over_loop.simps) simp
  next
    case False
    then have le: "s \<le> e" using Suc.prems(1) by simp
    have bad: "bbt_block_is_bad buf (word_of_int (int e)) = Some (bad_at buf e)"
      using Suc.prems by (intro is_bad_int) auto
    let ?bs = "filter (bad_at buf) [s..<e]"
    have ih: "bbt_over_loop buf (int e - 1) (int k) (length ?bs) =
        Some (if ?bs = [] then None else Some (int (?bs ! min k (length ?bs - 1))))"
      using Suc.IH [OF le] Suc.prems by (simp add: Let_def)
    show ?thesis
    proof (cases "bad_at buf e")
      case True
      then show ?thesis using bad le ih
        by (subst bbt_over_loop.simps) (auto simp: Let_def nth_append min_def)
    next
      case b: False
      show ?thesis
      proof (cases "?bs = []")
        case True
        then show ?thesis using b le by (subst bbt_over_loop.simps) simp
      next
        case False
        then show ?thesis using b bad le ih
          by (subst bbt_over_loop.simps) (simp add: Let_def)
      qed
    qed
  qed
qed

text \<open>The range of a block, in blocks, as the BBT scheme reads it.\<close>

definition bbt_range :: "'d bmtd \<Rightarrow> u32 \<Rightarrow> (nat \<times> nat) option" where
  "bbt_range env block =
     map_option (\<lambda>(lo, hi). (unat lo div 2 ^ unat (blk_shift env), unat hi div 2 ^ unat (blk_shift env)))
       (mapping_block_in_range env block)"

text \<open>
  The ranges of the device tree lie below \<open>2 ^ 31\<close> (the code keeps them in an \<open>int\<close>) and the table
  covers their blocks.
\<close>

definition range_ok :: "'d bmtd \<Rightarrow> u32 \<Rightarrow> u8 list \<Rightarrow> bool" where
  "range_ok env block buf \<longleftrightarrow> (\<forall>lo hi. mapping_block_in_range env block = Some (lo, hi) \<longrightarrow>
     unat lo < 2 ^ 31 \<and> unat hi < 2 ^ 31 \<and>
     unat hi div 2 ^ unat (blk_shift env) \<le> 65536 \<and> unat hi div 2 ^ unat (blk_shift env) \<le> 4 * length buf)"

lemma bbt_map_eq:
  assumes "bbt_range env block = Some (s, e)" and "range_ok env block buf"
    and "s \<le> unat block" and "unat block < e"
  shows "get_mapping_block_index_bbt env block buf = Some (int (bbt_order buf s e ! (unat block - s)))"
proof -
  obtain lo hi where r: "mapping_block_in_range env block = Some (lo, hi)"
    and s: "s = unat lo div 2 ^ unat (blk_shift env)" and e: "e = unat hi div 2 ^ unat (blk_shift env)"
    using assms(1) by (auto simp: bbt_range_def)
  have b: "unat lo < 2 ^ 31" "unat hi < 2 ^ 31" "e \<le> 65536" "e \<le> 4 * length buf"
    using assms(2) r by (auto simp: range_ok_def e)
  have int_s: "sint lo div 2 ^ unat (blk_shift env) = int s" and int_e: "sint hi div 2 ^ unat (blk_shift env) = int e"
    using b(1,2) by (simp_all add: sint_small s e zdiv_int)
  have "unat block < 2147483648" using assms(4) b(3) by simp
  then have k: "sint block - int s = int (unat block - s)" using assms(3) by (simp add: sint_small)
  let ?k = "unat block - s" and ?gs = "filter (\<lambda>n. \<not> bad_at buf n) [s..<e]" and ?bs = "filter (bad_at buf) [s..<e]"
  have se: "s \<le> e" using assms(3,4) by simp
  have len: "length ?gs + length ?bs = e - s"
    using sum_length_filter_compl [of "bad_at buf" "[s..<e]"] by simp
  note skip = bbt_skip [OF se b(3,4), of ?k 0]
  show ?thesis
  proof (cases "?k < length ?gs")
    case True
    then have "?gs ! ?k < e" using nth_mem [OF True] by auto
    then show ?thesis using True skip
      by (simp add: get_mapping_block_index_bbt_def r int_s int_e k Let_def bbt_order_def nth_append)
  next
    case False
    let ?o = "?k - length ?gs"
    have o: "?o < length ?bs" using False len assms(3,4) by linarith
    then have "?bs \<noteq> []" "min ?o (length ?bs - 1) = ?o" by auto
    with bbt_over [OF se b(3,4), of ?o]
    have "bbt_over_loop buf (int e - 1) (int ?o) (length ?bs) = Some (Some (int (?bs ! ?o)))"
      by (simp add: Let_def)
    then show ?thesis using False skip
      by (simp add: get_mapping_block_index_bbt_def r int_s int_e k Let_def bbt_order_def nth_append)
  qed
qed

section \<open>Marking a block bad\<close>

lemma filter_drop_one:
  assumes "n \<in> set xs" and "P n" and "distinct xs"
  shows "filter (\<lambda>m. P m \<and> m \<noteq> n) xs = remove1 n (filter P xs)"
proof -
  have "filter (\<lambda>m. P m \<and> m \<noteq> n) xs = filter (\<lambda>m. m \<noteq> n) (filter P xs)"
    by (simp add: conj_commute)
  also have "\<dots> = remove1 n (filter P xs)"
    using assms(3) by (simp add: distinct_remove1_removeAll removeAll_filter_not_eq eq_commute)
  finally show ?thesis .
qed

text \<open>Removing an element of a strictly ascending list moves the later ones up by one.\<close>

lemma nth_remove1_sorted:
  assumes "sorted_wrt (<) xs" and "n \<in> set xs" and "Suc k < length xs"
  shows "remove1 n xs ! k = (if xs ! k < (n :: nat) then xs ! k else xs ! Suc k)"
  using assms
proof (induction xs arbitrary: k)
  case (Cons x xs)
  show ?case
  proof (cases "x = n")
    case True
    then show ?thesis using Cons.prems
      by (cases k) (auto simp: dest: order.asym nth_mem)
  next
    case False
    then have n: "n \<in> set xs" and lt: "x < n" using Cons.prems(1,2) by auto
    show ?thesis
    proof (cases k)
      case (Suc j)
      then show ?thesis using Cons n False by simp
    qed (use False lt in simp)
  qed
qed simp

definition goods :: "u8 list \<Rightarrow> nat \<Rightarrow> nat \<Rightarrow> nat list" where
  "goods buf lo hi = filter (\<lambda>n. \<not> bad_at buf n) [lo..<hi]"

lemma goods_mark:
  assumes "n \<in> set (goods buf lo hi)" and "hi \<le> 4 * length buf"
  shows "goods (set_bad buf n True) lo hi = remove1 n (goods buf lo hi)"
proof -
  have b: "n < 4 * length buf" "n \<in> set [lo..<hi]" "\<not> bad_at buf n"
    using assms by (auto simp: goods_def)
  have "goods (set_bad buf n True) lo hi = filter (\<lambda>m. \<not> bad_at buf m \<and> m \<noteq> n) [lo..<hi]"
    unfolding goods_def
    by (rule filter_cong) (use b assms(2) in \<open>auto simp: bbt.get_put\<close>)
  then show ?thesis using filter_drop_one [OF b(2), of "\<lambda>m. \<not> bad_at buf m"] b(3) by (simp add: goods_def)
qed

lemma goods_ascending: "sorted_wrt (<) (goods buf lo hi)"
  by (simp add: goods_def sorted_wrt_filter sorted_wrt_upt)

lemma ascending_nth:
  assumes "sorted_wrt (<) xs" and "\<And>x. x \<in> set xs \<Longrightarrow> (s :: nat) \<le> x" and "k < length xs"
  shows "s + k \<le> xs ! k"
  using assms(3)
proof (induction k)
  case (Suc k)
  then have "xs ! k < xs ! Suc k" using assms(1) by (simp add: sorted_wrt_nth_less)
  then show ?case using Suc by simp
qed (use assms(2) nth_mem in force)

lemma order_goods: "k < length (goods buf lo hi) \<Longrightarrow> bbt_order buf lo hi ! k = goods buf lo hi ! k"
  by (simp add: bbt_order_def goods_def nth_append)

end
