(* ===== verification/Bmt_Bbt_Theorems.thy ===== *)
theory Bmt_Bbt_Theorems
  imports Bmt_Bbt_Map
begin

text \<open>
  Properties of the BBT scheme (\<open>mtk_bmt_bbt.c\<close>): which block its mapping gives, what marking a
  block bad does to the table and to the mapping, and the identity mapping it degenerates to
  without a remap range.
\<close>

section \<open>Samples\<close>

text \<open>The first eight blocks of the chip are a remap range; block 2 is marked bad.\<close>

definition bbt_sample_env :: "sim_nand bmtd" where
  "bbt_sample_env = sim_bmtd\<lparr>remap_range := Some [(0, 1024)]\<rparr>"

definition bbt_sample_buf :: "u8 list" where
  "bbt_sample_buf = [0x30, 0, 0, 0]"

definition bbt_sample :: "sim_nand bmt_bbt" where
  "bbt_sample = \<lparr>bt_buf = 0x30 # replicate 127 0, bt_data_buf = replicate 80 0xFF, bt_blk_idx = 15,
     bt_pgs = 2, bt_size = 2048, bt_dev = sim_blank\<rparr>"

lemma sample_range: "n < 8 \<Longrightarrow> mapping_block_in_range bbt_sample_env (of_nat n) = Some (0, 1024)"
proof -
  assume "n < 8"
  then have "n = 0 \<or> n = 1 \<or> n = 2 \<or> n = 3 \<or> n = 4 \<or> n = 5 \<or> n = 6 \<or> n = 7" by linarith
  then show ?thesis
    by (elim disjE) (simp_all add: mapping_block_in_range_def bbt_sample_env_def sim_bmtd_def)
qed

lemma sample_bbt_range: "n < 8 \<Longrightarrow> bbt_range bbt_sample_env (of_nat n) = Some (0, 8)"
  using sample_range [of n] by (simp add: bbt_range_def bbt_sample_env_def sim_bmtd_def)

lemma sample_range_ok: "n < 8 \<Longrightarrow> 2 \<le> length buf \<Longrightarrow> range_ok bbt_sample_env (of_nat n) buf"
  using sample_range [of n] by (simp add: range_ok_def bbt_sample_env_def sim_bmtd_def)

lemma upt_eight: "[0..<8] = [0, 1, 2, 3, 4, 5, 6, 7::nat]"
  by (simp add: upt_rec_numeral upt_rec)

section \<open>The mapping\<close>

text \<open>
  C22: Inside a remap range \<open>get_mapping_block_index_bbt\<close> ends and gives the \<open>k\<close>-th block of
  the range to its \<open>k\<close>-th logical block, where the good blocks come first in ascending order and
  the bad ones after them: the two scanning loops compute that enumeration.
\<close>

theorem bbt_mapping_order:
  assumes "bbt_range env block = Some (s, e)" and "range_ok env block buf"
    and "s \<le> unat block" and "unat block < e"
  shows "get_mapping_block_index_bbt env block buf = Some (int (bbt_order buf s e ! (unat block - s)))"
  by (rule bbt_map_eq [OF assms])

theorem bbt_mapping_order_witness:
  "get_mapping_block_index_bbt bbt_sample_env 2 bbt_sample_buf = Some 3"
proof -
  have "bbt_order bbt_sample_buf 0 8 ! 2 = 3"
    by (simp add: bbt_order_def upt_eight bad_at_def bbt_sample_buf_def)
  then show ?thesis
    using bbt_mapping_order [of bbt_sample_env 2 0 8 bbt_sample_buf] sample_bbt_range [of 2]
      sample_range_ok [of 2 bbt_sample_buf]
    by (simp add: bbt_sample_buf_def)
qed

text \<open>
  The mapping of a range is one-to-one and onto the range: no two logical blocks share a
  physical block, whatever is marked bad.
\<close>

theorem bbt_mapping_bij:
  assumes "\<And>n. s \<le> n \<Longrightarrow> n < e \<Longrightarrow>
      bbt_range env (of_nat n) = Some (s, e) \<and> range_ok env (of_nat n) buf"
    and "e \<le> 65536"
  shows "bij_betw (\<lambda>n. get_mapping_block_index_bbt env (of_nat n) buf) {s..<e} (Some ` int ` {s..<e})"
proof -
  have eq: "get_mapping_block_index_bbt env (of_nat n) buf = (Some \<circ> int) (bbt_order buf s e ! (n - s))"
    if "n \<in> {s..<e}" for n
  proof -
    have "unat (of_nat n :: u32) = n" using that assms(2) by (intro unat_of_nat32) auto
    then show ?thesis using bbt_map_eq [of env "of_nat n" s e buf] assms(1) [of n] that by simp
  qed
  have shift: "bij_betw (\<lambda>n. n - s) {s..<e} {..<length (bbt_order buf s e)}"
    by (rule bij_betw_byWitness [where f' = "\<lambda>k. k + s"]) (auto simp: bbt_order_length)
  have "bij_betw (\<lambda>n. bbt_order buf s e ! (n - s)) {s..<e} {s..<e}"
    using bij_betw_trans [OF shift bij_betw_nth [OF bbt_order_distinct refl bbt_order_set [symmetric]]]
    by (simp add: comp_def)
  then have "bij_betw ((Some \<circ> int) \<circ> (\<lambda>n. bbt_order buf s e ! (n - s))) {s..<e} ((Some \<circ> int) ` {s..<e})"
    by (rule bij_betw_trans) (auto simp: bij_betw_def inj_on_def)
  then have "bij_betw (\<lambda>n. (Some \<circ> int) (bbt_order buf s e ! (n - s))) {s..<e} (Some ` int ` {s..<e})"
    by (simp add: comp_def image_comp)
  moreover have "bij_betw (\<lambda>n. get_mapping_block_index_bbt env (of_nat n) buf) {s..<e} (Some ` int ` {s..<e})
      \<longleftrightarrow> bij_betw (\<lambda>n. (Some \<circ> int) (bbt_order buf s e ! (n - s))) {s..<e} (Some ` int ` {s..<e})"
    by (rule bij_betw_cong) (rule eq)
  ultimately show ?thesis by simp
qed

theorem bbt_mapping_bij_witness:
  "bij_betw (\<lambda>n. get_mapping_block_index_bbt bbt_sample_env (of_nat n) bbt_sample_buf) {0..<8}
     (Some ` int ` {0..<8})"
  by (rule bbt_mapping_bij) (auto intro: sample_bbt_range sample_range_ok simp: bbt_sample_buf_def)

text \<open>The blocks numbered below the number of good ones are mapped to good blocks, at or above them.\<close>

lemma bbt_mapping_good:
  assumes "bbt_range env block = Some (s, e)" and "range_ok env block buf"
    and "s \<le> unat block" and "unat block - s < length (goods buf s e)"
  shows "\<exists>p. get_mapping_block_index_bbt env block buf = Some (int p) \<and>
    unat block \<le> p \<and> p < e \<and> \<not> bad_at buf p"
proof -
  let ?p = "goods buf s e ! (unat block - s)"
  have mem: "?p \<in> set (goods buf s e)" using assms(4) by (rule nth_mem)
  have "length (goods buf s e) \<le> e - s" unfolding goods_def by (rule order_trans [OF length_filter_le]) simp
  then have "unat block < e" using assms(3,4) by linarith
  moreover have "s + (unat block - s) \<le> ?p"
    by (rule ascending_nth [OF goods_ascending _ assms(4)]) (auto simp: goods_def)
  ultimately show ?thesis
    using bbt_map_eq [OF assms(1-3)] order_goods [OF assms(4)] mem assms(3)
    by (auto simp: goods_def)
qed

lemma bbt_mapping_good_sample:
  "\<exists>p. get_mapping_block_index_bbt bbt_sample_env 2 bbt_sample_buf = Some (int p) \<and>
    2 \<le> p \<and> p < 8 \<and> \<not> bad_at bbt_sample_buf p"
proof -
  have "length (goods bbt_sample_buf 0 8) = 7"
    by (simp add: goods_def upt_eight bad_at_def bbt_sample_buf_def)
  then show ?thesis
    using bbt_mapping_good [of bbt_sample_env 2 0 8 bbt_sample_buf] sample_bbt_range [of 2]
      sample_range_ok [of 2 bbt_sample_buf]
    by (simp add: bbt_sample_buf_def)
qed

text \<open>
  Without a remap range the scheme never remaps: \<open>mapping_block_in_range\<close> gives the number
  of blocks of the chip where the caller expects a byte address, the caller shifts it to 0, and
  every block is mapped to itself whatever the table says.
\<close>

theorem bbt_no_range_identity:
  assumes "remap_range env = None \<or> remap_range env = Some []"
    and "unat (total_blks env) < 2 ^ unat (blk_shift env)"
  shows "get_mapping_block_index_bbt env block buf = Some (sint block)"
proof -
  have "unat (ucast (total_blks env) :: u32) < 2147483648"
    using unsigned_less [where 'a = nat, of "total_blks env"] by simp
  then have "sint (ucast (total_blks env) :: u32) = int (unat (total_blks env))"
    by (simp only: sint_small unat_u16_u32)
  moreover have "int (unat (total_blks env)) div 2 ^ unat (blk_shift env) = 0"
    using assms(2) by (intro div_pos_pos_trivial) (metis of_nat_0_le_iff, metis of_nat_less_iff of_nat_numeral of_nat_power)
  ultimately have "sint (ucast (total_blks env) :: u32) div 2 ^ unat (blk_shift env) = 0" by (simp only:)
  moreover have "mapping_block_in_range env block = Some (0, ucast (total_blks env))"
    using assms(1) by (auto simp: mapping_block_in_range_def)
  ultimately show ?thesis
    by (simp add: get_mapping_block_index_bbt_def Let_def bbt_skip_loop.simps bbt_over_loop.simps)
qed

theorem bbt_no_range_identity_witness:
  "get_mapping_block_index_bbt sim_bmtd 5 (replicate 128 0xFF) = Some 5"
  using bbt_no_range_identity [of sim_bmtd 5 "replicate 128 0xFF"] by (simp add: sim_bmtd_def)

section \<open>Marking blocks\<close>

lemma set_block_state_spec:
  assumes "unat block < 4 * length (bt_buf s)"
    and "unat (push_bit (unat (pg_shift env)) (bt_pgs s)) \<le> length (bt_buf s)"
  shows "returns (bbt_set_block_state env block bad s)
    (\<lambda>s'. length (bt_buf s') = length (bt_buf s) \<and>
       bbt_block_is_bad (bt_buf s') block = Some bad \<and>
       (\<forall>b. b \<noteq> block \<longrightarrow> bbt_block_is_bad (bt_buf s') b = bbt_block_is_bad (bt_buf s) b))"
proof -
  let ?b = "set_bad (bt_buf s) (unat block) bad"
  have len: "length ?b = length (bt_buf s)" by (simp add: set_bad_def)
  have same: "bbt_block_is_bad ?b block = Some bad"
    using assms(1) len by (simp add: is_bad_eq bbt.get_put_same)
  have other: "bbt_block_is_bad ?b b = bbt_block_is_bad (bt_buf s) b" if "b \<noteq> block" for b
  proof (cases "unat b < 4 * length (bt_buf s)")
    case True
    then show ?thesis using that assms(1) len
      by (simp add: is_bad_eq bbt.get_put_other word_unat_eq_iff)
  next
    case False
    then have "\<not> unat (b div 4) < length (bt_buf s)" by (simp add: u16_div4)
    then show ?thesis using len by (simp add: bbt_block_is_bad_def arr_get_def)
  qed
  show ?thesis
    using assms(2) len same other
    by (simp add: bbt_set_block_state_def mark_eq [OF assms(1)] bbt_store_def write_bmt_def
        returns_simps split_def Let_def)
qed

text \<open>
  \<open>bbt_set_block_state\<close> ends with a defined result when the table covers the block and
  holds the pages it is written in: the block's mark is the one asked for, every other mark and
  the size of the table are unchanged, whatever the chip returns.
\<close>

theorem bbt_set_block_state_marks:
  assumes "unat block < 4 * length (bt_buf s)"
    and "unat (push_bit (unat (pg_shift env)) (bt_pgs s)) \<le> length (bt_buf s)"
  shows "returns (bbt_set_block_state env block bad s)
    (\<lambda>s'. length (bt_buf s') = length (bt_buf s) \<and>
       bbt_block_is_bad (bt_buf s') block = Some bad \<and>
       (\<forall>b. b \<noteq> block \<longrightarrow> bbt_block_is_bad (bt_buf s') b = bbt_block_is_bad (bt_buf s) b))"
  by (rule set_block_state_spec [OF assms])

theorem bbt_set_block_state_marks_witness:
  "returns (bbt_set_block_state bbt_sample_env 5 True bbt_sample)
    (\<lambda>s'. length (bt_buf s') = length (bt_buf bbt_sample) \<and>
       bbt_block_is_bad (bt_buf s') 5 = Some True \<and>
       (\<forall>b. b \<noteq> 5 \<longrightarrow> bbt_block_is_bad (bt_buf s') b = bbt_block_is_bad (bt_buf bbt_sample) b))"
  by (rule bbt_set_block_state_marks) (simp_all add: bbt_sample_def bbt_sample_env_def sim_bmtd_def)

text \<open>
  Marking a good block \<open>n\<close> of a range bad moves every logical block that was mapped to
  \<open>n\<close> or beyond it to the next good block: the blocks behind a freshly retired one no longer
  find the data that was stored for them.
\<close>

theorem bbt_mark_shifts_mapping:
  assumes "bbt_range env block = Some (s, e)" and "range_ok env block buf"
    and "s \<le> unat block" and "Suc (unat block - s) < length (goods buf s e)"
    and "n \<in> set (goods buf s e)" and "n < 65536" and "bbt_mark buf (of_nat n) True = Some buf'"
  shows "get_mapping_block_index_bbt env block buf' =
    Some (int (let k = unat block - s in
               if goods buf s e ! k < n then goods buf s e ! k else goods buf s e ! Suc k))"
proof -
  obtain hi lo where e: "e = unat hi div 2 ^ unat (blk_shift env)" "mapping_block_in_range env block = Some (lo, hi)"
    using assms(1) by (auto simp: bbt_range_def)
  then have cover: "e \<le> 4 * length buf" using assms(2) by (simp add: range_ok_def)
  have "n < e" using assms(5) by (auto simp: goods_def)
  then have buf': "buf' = set_bad buf n True"
    using assms(6,7) cover mark_eq [of "of_nat n" buf True] by (simp add: unat_of_nat take_bit_nat_eq_self)
  have ok': "range_ok env block buf'" using assms(2) by (simp add: buf' range_ok_def set_bad_def)
  have eq: "goods buf' s e = remove1 n (goods buf s e)"
    unfolding buf' by (rule goods_mark [OF assms(5) cover])
  then have k: "unat block - s < length (goods buf' s e)"
    using assms(4,5) by (simp add: length_remove1)
  have "length (goods buf s e) \<le> e - s" unfolding goods_def by (rule order_trans [OF length_filter_le]) simp
  then have "unat block < e" using assms(3,4) by linarith
  with bbt_map_eq [OF assms(1) ok' assms(3)] order_goods [OF k]
  show ?thesis
    unfolding eq by (simp add: nth_remove1_sorted [OF goods_ascending assms(5,4)] Let_def)
qed

theorem bbt_mark_shifts_mapping_witness:
  "get_mapping_block_index_bbt bbt_sample_env 5 [0x3C, 0, 0, 0] = Some 7"
proof -
  have g: "goods bbt_sample_buf 0 8 = [0, 1, 3, 4, 5, 6, 7]"
    by (simp add: goods_def upt_eight bad_at_def bbt_sample_buf_def)
  have len: "length bbt_sample_buf = 4" by (simp add: bbt_sample_buf_def)
  have m: "bbt_mark bbt_sample_buf (of_nat 1) True = Some [0x3C, 0, 0, 0]"
    by (simp add: bbt_mark_def bbt_sample_buf_def arr_get_def arr_set_def Let_def)
  show ?thesis
    using bbt_mark_shifts_mapping [of bbt_sample_env 5 0 8 bbt_sample_buf 1, OF _ _ _ _ _ _ m]
      sample_bbt_range [of 5] sample_range_ok [of 5 bbt_sample_buf] len
    by (simp add: g)
qed

end
