(* ===== verification/Bmt_Core_Theorems.thy ===== *)
theory Bmt_Core_Theorems
  imports Bmt_Scheme Bmt_V2_Theorems Bmt_Bbt_Theorems
begin

text \<open>
  Properties of the core (\<open>mtk_bmt.c\<close>) with the schemes behind it: what reads return, that data
  written through the v2 and the BBT scheme are read back, and the truncation of the first address
  of an erase.
\<close>

section \<open>Reading\<close>

lemma working_coreI: "bmt_scheme ops \<Longrightarrow> working_chip env mem \<Longrightarrow> working_core ops env mem"
  by (rule working_core.intro)

text \<open>Every working chip gives the core's contract through each of the two schemes.\<close>

sublocale working_chip \<subseteq> v2_core: working_core "v2_ops env" env mem
  by (rule working_coreI [OF v2_scheme.bmt_scheme_axioms working_chip_axioms])

sublocale working_chip \<subseteq> bbt_core: working_core "bbt_ops env" env mem
  by (rule working_coreI [OF bbt_scheme.bmt_scheme_axioms working_chip_axioms])

context working_chip
begin

lemmas v2_erase_write_read = v2_core.erase_write_read

lemmas bbt_erase_write_read = bbt_core.erase_write_read

end

interpretation v2_sim: working_core "v2_ops sim_bmtd" sim_bmtd cells
  by (rule working_coreI [OF v2_scheme.bmt_scheme_axioms sim.working_chip_axioms])

text \<open>
  C5: On a working chip \<open>mtk_bmt_read\<close> implements the abstract read of a scheme's address space:
  it ends with status 0 and returns, byte by byte and across block boundaries, what the chip holds
  at the physical address of each logical address, and leaves the state as it is.
\<close>

theorem core_read_refines:
  assumes "bmt_scheme ops" and "working_chip env mem" and "mapped_by ops s p lo hi"
    and "lo * bsz env \<le> f" and "f + n \<le> hi * bsz env" and "n < 2 ^ 32"
  shows "mtk_bmt_read env ops (of_nat f) n 0 oo s =
    Some (0, map (\<lambda>i. mem (chip_of ops s) (of_nat (phys env p (f + i)))) [0..<n], [], s)"
  using working_core.read_loop [OF working_coreI [OF assms(1,2)] assms(3-), of "[]" 0 oo]
  by (simp add: mtk_bmt_read_def working_core.logical_def [OF working_coreI [OF assms(1,2)]])

lemma bbt_sample_mapped:
  "mapped_by (bbt_ops bbt_sample_env) bbt_sample (\<lambda>b. bbt_order (bt_buf bbt_sample) 0 8 ! b) 0 8"
proof -
  have "get_mapping_block_index_bbt bbt_sample_env (of_nat b) (bt_buf bbt_sample) =
      Some (int (bbt_order (bt_buf bbt_sample) 0 8 ! b))" and "bbt_order (bt_buf bbt_sample) 0 8 ! b < 2 ^ 31"
    if "b < 8" for b
  proof -
    have "unat (of_nat b :: u32) = b" using that by (intro unat_of_nat32) simp
    moreover have "range_ok bbt_sample_env (of_nat b) (bt_buf bbt_sample)"
      by (rule sample_range_ok [OF that]) (simp add: bbt_sample_def)
    ultimately show "get_mapping_block_index_bbt bbt_sample_env (of_nat b) (bt_buf bbt_sample) =
        Some (int (bbt_order (bt_buf bbt_sample) 0 8 ! b))"
      using bbt_map_eq [OF sample_bbt_range [OF that]] that by simp
    have "bbt_order (bt_buf bbt_sample) 0 8 ! b \<in> {0..<8}"
      using that nth_mem [of b "bbt_order (bt_buf bbt_sample) 0 8"] by (simp add: bbt_order_set bbt_order_length)
    then show "bbt_order (bt_buf bbt_sample) 0 8 ! b < 2 ^ 31" by simp
  qed
  then show ?thesis by (simp add: mapped_by_def bbt_ops_def)
qed

lemma bbt_sample_works: "working_chip bbt_sample_env cells"
proof
  show "geom_ok bbt_sample_env" using sim_geom_ok by (simp add: geom_ok_def bbt_sample_env_def)
qed (auto simp: bbt_sample_env_def sim_bmtd_def sim_read_def sim_write_def sim_erase_def)

theorem core_read_refines_witness:
  "mtk_bmt_read bbt_sample_env (bbt_ops bbt_sample_env) 200 300 0 0 bbt_sample =
    Some (0, map (\<lambda>i. cells sim_blank (of_nat (phys bbt_sample_env (\<lambda>b. bbt_order (bt_buf bbt_sample) 0 8 ! b) (200 + i)))) [0..<300],
      [], bbt_sample)"
  using core_read_refines [OF bbt_scheme.bmt_scheme_axioms bbt_sample_works bbt_sample_mapped, of 200 300 0]
  by (simp add: bbt_sample_env_def sim_bmtd_def) (simp add: bbt_ops_def bbt_sample_def)

section \<open>Data written are read back\<close>

text \<open>
  C7: Through the BBT scheme, whatever its table says, data written into freshly erased blocks of
  a remap range are read back unchanged, and the erase and the write change no physical block
  outside those the logical blocks are mapped to.
\<close>

theorem bbt_write_read:
  assumes "working_chip env mem" and "e \<le> 65536" and "lo \<le> b" and "b + k \<le> e" and "0 < k"
    and range: "\<And>n. lo \<le> n \<Longrightarrow> n < e \<Longrightarrow>
      bbt_range env (of_nat n) = Some (lo, e) \<and> range_ok env (of_nat n) (bt_buf s)"
    and "b * bsz env < 2 ^ 32" and "b * bsz env \<le> f" and "f + length dat \<le> (b + k) * bsz env"
    and "length dat < 2 ^ 32"
  shows "\<exists>s1 s2. mtk_bmt_mtd_erase env (bbt_ops env) (of_nat (b * bsz env)) (of_nat (k * bsz env)) s = Some (0, None, s1) \<and>
    mtk_bmt_write env (bbt_ops env) (of_nat f) dat [] 0 s1 = Some (0, length dat, 0, s2) \<and>
    mtk_bmt_read env (bbt_ops env) (of_nat f) (length dat) 0 0 s2 = Some (0, dat, [], s2) \<and>
    (\<forall>x. unat x div bsz env \<notin> (\<lambda>n. bbt_order (bt_buf s) lo e ! (n - lo)) ` {b..<b + k} \<longrightarrow>
       mem (bt_dev s2) x = mem (bt_dev s) x)"
proof -
  let ?p = "\<lambda>n. bbt_order (bt_buf s) lo e ! (n - lo)"
  have in_order: "n - lo < length (bbt_order (bt_buf s) lo e)" if "n \<in> {lo..<e}" for n
    using that by (auto simp: bbt_order_length)
  have mapped: "mapped_by (bbt_ops env) s ?p b (b + k)"
  proof -
    have "get_mapping_block_index_bbt env (of_nat n) (bt_buf s) = Some (int (?p n)) \<and> ?p n < 2 ^ 31"
      if "b \<le> n" "n < b + k" for n
    proof -
      have n: "lo \<le> n" "n < e" using that assms(3,4) by simp_all
      have u: "unat (of_nat n :: u32) = n" using n assms(2) by (intro unat_of_nat32) simp
      have "?p n \<in> {lo..<e}"
        using nth_mem [OF in_order, of n] n by (simp add: bbt_order_set)
      then show ?thesis using bbt_map_eq [of env "of_nat n" lo e "bt_buf s"] range [OF n] n u assms(2) by simp
    qed
    then show ?thesis using assms(2,4) by (simp add: mapped_by_def bbt_ops_def)
  qed
  have inj: "inj_on ?p {b..<b + k}"
  proof (rule inj_onI)
    fix n m assume nm: "n \<in> {b..<b + k}" "m \<in> {b..<b + k}" "?p n = ?p m"
    have "n - lo = m - lo"
      using nm nth_eq_iff_index_eq [OF bbt_order_distinct, of "n - lo" "bt_buf s" lo e "m - lo"] in_order [of n]
        in_order [of m] assms(3,4) by auto
    moreover have "lo \<le> n" "lo \<le> m" using nm(1,2) assms(3) by auto
    ultimately show "n = m" by (simp add: eq_diff_iff)
  qed
  have chip: "chip_of (bbt_ops env) s' = bt_dev s'" for s' by (simp add: bbt_ops_def)
  show ?thesis
    using working_chip.bbt_erase_write_read [OF assms(1) mapped inj assms(5,7-), of 0 0] by (simp only: chip)
qed

definition sample_data :: "u8 list" where
  "sample_data = map of_nat [0..<200]"

lemma sample_data_length: "length sample_data = 200"
  by (simp add: sample_data_def)

theorem bbt_write_read_witness:
  "\<exists>s1 s2. mtk_bmt_mtd_erase bbt_sample_env (bbt_ops bbt_sample_env) 128 384 bbt_sample = Some (0, None, s1) \<and>
    mtk_bmt_write bbt_sample_env (bbt_ops bbt_sample_env) 250 sample_data [] 0 s1 = Some (0, 200, 0, s2) \<and>
    mtk_bmt_read bbt_sample_env (bbt_ops bbt_sample_env) 250 200 0 0 s2 = Some (0, sample_data, [], s2)"
proof -
  have "bsz bbt_sample_env = 128" by (simp add: bbt_sample_env_def sim_bmtd_def)
  moreover have "bbt_range bbt_sample_env (of_nat n) = Some (0, 8) \<and>
      range_ok bbt_sample_env (of_nat n) (bt_buf bbt_sample)" if "n < 8" for n
    using sample_bbt_range [OF that] sample_range_ok [OF that, of "bt_buf bbt_sample"] by (simp add: bbt_sample_def)
  ultimately show ?thesis
    using bbt_write_read [OF bbt_sample_works, of 8 0 1 3 bbt_sample 250 sample_data]
    by (force simp: sample_data_length)
qed

text \<open>
  C6: Through the v2 scheme, when the table maps the blocks of a request to distinct blocks (as a
  scan leaves it, and remapping to blocks of the pool keeps it), data written into freshly erased
  blocks are read back unchanged, and no other physical block changes.
\<close>

theorem v2_write_read:
  assumes "working_chip env mem" and "pool_fits s 0" and "b + k \<le> unat (pool_lba s)"
    and "unat (pool_lba s) \<le> unat (table_size s)" and "0 < k"
    and range: "\<And>n. b \<le> n \<Longrightarrow> n < b + k \<Longrightarrow> mapping_block_in_range env (of_nat n) \<noteq> None"
    and "inj_on (\<lambda>n. cell s (bb_ix n)) {b..<b + k}"
    and "b * bsz env < 2 ^ 32" and "b * bsz env \<le> f" and "f + length dat \<le> (b + k) * bsz env"
    and "length dat < 2 ^ 32"
  shows "\<exists>s1 s2. mtk_bmt_mtd_erase env (v2_ops env) (of_nat (b * bsz env)) (of_nat (k * bsz env)) s = Some (0, None, s1) \<and>
    mtk_bmt_write env (v2_ops env) (of_nat f) dat [] 0 s1 = Some (0, length dat, 0, s2) \<and>
    mtk_bmt_read env (v2_ops env) (of_nat f) (length dat) 0 0 s2 = Some (0, dat, [], s2) \<and>
    (\<forall>x. unat x div bsz env \<notin> (\<lambda>n. unat (cell s (bb_ix n))) ` {b..<b + k} \<longrightarrow>
       mem (v2_dev s2) x = mem (v2_dev s) x)"
proof -
  let ?p = "\<lambda>n. unat (cell s (bb_ix n))"
  have lba: "unat (pool_lba s) < 65536" using unsigned_less [where 'a = nat, of "pool_lba s"] by simp
  have "get_mapping_block_index_v2 env (of_nat n) s = Some (int (?p n)) \<and> ?p n < 2 ^ 31"
    if n: "b \<le> n" "n < b + k" for n
  proof -
    have n': "n < unat (pool_lba s)" "n < unat (table_size s)" using n assms(3,4) by simp_all
    have u: "unat (of_nat n :: u32) = n" using n'(1) lba by (intro unat_of_nat32) simp
    then have sn: "sint (of_nat n :: u32) = int n" using n'(1) lba by (subst sint_small) simp_all
    have "uint (pool_lba s) = int (unat (pool_lba s))" by simp
    then have below: "\<not> uint (pool_lba s) \<le> int n" using n'(1) by linarith
    have "?p n < 2 ^ 16" using unsigned_less [where 'a = nat, of "cell s (bb_ix n)"] by simp
    then show ?thesis
      using range [OF n] below sn u bb_in [OF assms(2) n'(2)]
      by (auto simp: get_mapping_block_index_v2_def cell_simps)
  qed
  then have mapped: "mapped_by (v2_ops env) s ?p b (b + k)"
    using assms(3) lba by (simp add: mapped_by_def v2_ops_def)
  have inj: "inj_on ?p {b..<b + k}" using assms(7) by (simp add: inj_on_def word_unat_eq_iff)
  have chip: "chip_of (v2_ops env) s' = v2_dev s'" for s' by (simp add: v2_ops_def)
  show ?thesis
    using working_chip.v2_erase_write_read [OF assms(1) mapped inj assms(5,8-), of 0 0] by (simp only: chip)
qed

theorem v2_write_read_witness:
  "\<exists>s1 s2. mtk_bmt_mtd_erase sim_bmtd (v2_ops sim_bmtd) 128 256 v2_sample = Some (0, None, s1) \<and>
    mtk_bmt_write sim_bmtd (v2_ops sim_bmtd) 150 sample_data [] 0 s1 = Some (0, 200, 0, s2) \<and>
    mtk_bmt_read sim_bmtd (v2_ops sim_bmtd) 150 200 0 0 s2 = Some (0, sample_data, [], s2)"
proof -
  have "bsz sim_bmtd = 128" by (simp add: sim_bmtd_def)
  moreover have "pool_fits v2_sample 0" by (simp add: pool_fits_def v2_sample_def v2_words_def)
  moreover have "unat (pool_lba v2_sample) = 10" "unat (table_size v2_sample) = 16"
    by (simp_all add: v2_sample_def)
  moreover have "mapping_block_in_range sim_bmtd x \<noteq> None" for x
    by (simp add: mapping_block_in_range_def sim_bmtd_def)
  moreover have "inj_on (\<lambda>n. cell v2_sample (bb_ix n)) {1..<1 + 2}"
  proof -
    have "cell v2_sample (bb_ix 1) = 1" "cell v2_sample (bb_ix 2) = 2"
      by (simp_all add: bb_ix_def v2_sample_def v2_words_def w16_def le_bytes2)
    moreover have "{1..<1 + 2} = {1, 2 :: nat}" by auto
    ultimately show ?thesis by simp
  qed
  ultimately show ?thesis
    using v2_write_read [OF sim.working_chip_axioms, of v2_sample 1 2 150 sample_data]
    by (force simp: sample_data_length)
qed

section \<open>Erasing\<close>

text \<open>
  \<open>mtk_bmt_mtd_erase\<close> starts at the block of the address modulo \<open>2 ^ 32\<close> while it ends at the
  full address: above 4 GiB it erases the low blocks of the device too.
\<close>

theorem core_erase_start:
  assumes "geom_ok env"
  shows "mtk_bmt_mtd_erase env ops addr len s =
    mtk_bmt_erase_loop env ops (of_nat ((unat addr mod 2 ^ 32) div bsz env * bsz env)) (addr + len) 0 None s"
  by (simp only: mtk_bmt_mtd_erase_def erase_start [OF assms])

theorem core_erase_start_witness:
  "mtk_bmt_mtd_erase sim_bmtd (v2_ops sim_bmtd) 0x100000080 128 v2_sample =
    mtk_bmt_erase_loop sim_bmtd (v2_ops sim_bmtd) 128 0x100000100 0 None v2_sample"
  using core_erase_start [OF sim_geom_ok, of "v2_ops sim_bmtd" "0x100000080" 128 v2_sample]
  by (simp add: sim_bmtd_def)

end
