(* ===== verification/Bmt_Live.thy ===== *)
theory Bmt_Live
  imports Bmt_Scheme Bmt_Bbt_Theorems Bmt_Copy
begin

text \<open>
  Requests come to an end. The loops of \<open>mtk_bmt_write\<close> and \<open>mtk_bmt_mtd_erase\<close> repeat a block up to
  ten times after the scheme has remapped it. The locale \<open>live_scheme\<close> says what they rely on for
  that: on the blocks of the device the scheme has a mapping and can remap, in every state that it
  reaches, whatever the chip returns. The BBT scheme satisfies it.
\<close>

section \<open>The contract\<close>

lemma ucast_block32: "unat (w :: u32) = b \<Longrightarrow> b < 65536 \<Longrightarrow> ucast (ucast w :: u16) = w"
proof -
  assume w: "unat w = b" "b < 65536"
  then have "unat (ucast w :: u16) = b" by (simp add: unsigned_ucast_eq take_bit_nat_eq_self)
  then have "unat (ucast (ucast w :: u16) :: u32) = unat w" using w by (simp only: unat_u16_u32)
  then show ?thesis by (simp only: word_unat_eq_iff)
qed

locale live_scheme = bmt_scheme ops
  for ops :: "('s, 'd) bmt_ops" +
  fixes env :: "'d bmtd" and Inv :: "'s \<Rightarrow> bool" and N :: nat
  assumes geom: "geom_ok env" and blocks: "N \<le> 65536"
    and map_defined: "Inv s \<Longrightarrow> b < N \<Longrightarrow> \<exists>p. get_mapping_block ops (of_nat b) s = Some p"
    and remap_defined: "Inv s \<Longrightarrow> b < N \<Longrightarrow> get_mapping_block ops (of_nat b) s = Some p \<Longrightarrow>
      \<exists>r s'. mtk_bmt_remap_block env ops (of_nat b) (word_of_int p) n s = Some (r, s') \<and> Inv s'"
    and chip_inv: "Inv (set_chip ops d s) = Inv s"

text \<open>A driver that reports a write as successful has written everything.\<close>

definition drv_honest :: "'d bmtd \<Rightarrow> bool" where
  "drv_honest env \<longleftrightarrow> (\<forall>d a dat oo. let res = fst (drv_write_oob env d a dat [] oo)
     in 0 \<le> wr_ret res \<longrightarrow> wr_retlen res = length dat)"

context live_scheme
begin

lemma write_ends:
  assumes "drv_honest env" and "Inv s" and "f + (length dat - n) \<le> N * bsz env" and "n \<le> length dat"
    and "length dat < 2 ^ 32" and "k \<le> 10"
  shows "\<exists>ret m o' s'. mtk_bmt_write_loop env ops dat [] (of_nat f) k oo n o2 s = Some (ret, m, o', s') \<and>
    Inv s' \<and> m \<le> length dat \<and> (ret = 0 \<longrightarrow> m = length dat)"
  using assms(2-4,6)
proof (induction "11 * (length dat - n) + (10 - k)" arbitrary: n k f oo o2 s rule: less_induct)
  case less
  show ?case
  proof (cases "n < length dat")
    case False
    then show ?thesis using less.prems by (subst mtk_bmt_write_loop.simps) simp
  next
    case True
    let ?n = "length dat - n"
    have n: "0 < ?n" "?n < 2 ^ 32" using True assms(5) by simp_all
    have f: "f < N * bsz env" using less.prems(2) n(1) by linarith
    then have fb: "f div bsz env < N" by (simp add: div_less_iff_less_mult)
    have f1: "f < 65536 * bsz env" using f mult_le_mono1 [OF blocks, of "bsz env"] by linarith
    note num = block_num_of_nat [OF geom f1]
    note len = chunk_length [OF geom f1 n(2)]
    let ?c = "chunk env f ?n" and ?b = "of_nat (f div bsz env) :: u32"
    let ?len = "min (blk_size env - block_off env (of_nat f)) (of_nat ?n)"
    have c: "0 < ?c" "?c \<le> ?n" using n(1) chunk_bounds(1) [of ?n env f] chunk_bounds(2) [of env f ?n] by simp_all
    obtain p where p: "get_mapping_block ops ?b s = Some p" using map_defined [OF less.prems(1) fb] by blast
    let ?d = "take ?c (drop n dat)"
    have d: "buf_get (drop n dat) 0 (unat ?len) = Some ?d"
      using c(2) by (simp add: len buf_get_def)
    obtain res d1 where wr: "drv_write_oob env (chip_of ops s) (cur_addr env p (block_off env (of_nat f))) ?d [] oo = (res, d1)"
      by (cases "drv_write_oob env (chip_of ops s) (cur_addr env p (block_off env (of_nat f))) ?d [] oo")
    let ?s1 = "set_chip ops d1 s"
    have inv1: "Inv ?s1" using less.prems(1) by (simp add: chip_inv)
    have p1: "get_mapping_block ops ?b ?s1 = Some p" by (simp add: map_set p)
    obtain r s2 where rm: "mtk_bmt_remap_block env ops ?b (word_of_int p) (uint (block_off env (of_nat f))) ?s1 = Some (r, s2)"
      and inv2: "Inv s2" using remap_defined [OF inv1 fb p1] by blast
    have again: "\<exists>ret m o' s'. mtk_bmt_write_loop env ops dat [] (of_nat f) (k + 1) oo n o2 s2 = Some (ret, m, o', s') \<and>
        Inv s' \<and> m \<le> length dat \<and> (ret = 0 \<longrightarrow> m = length dat)" if "k < 10"
      by (rule less.hyps) (use that less.prems inv2 in auto)
    have nxt: "(of_nat f :: u64) + ucast ?len = of_nat (f + ?c)" using next_addr [OF geom len] .
    have further: "\<exists>ret m o' s'. mtk_bmt_write_loop env ops dat [] (of_nat (f + ?c)) 0 0 (n + ?c) o3 ?s1 = Some (ret, m, o', s') \<and>
        Inv s' \<and> m \<le> length dat \<and> (ret = 0 \<longrightarrow> m = length dat)" for o3
      by (rule less.hyps) (use c less.prems inv1 in auto)
    have all: "wr_retlen res = ?c" if "0 \<le> wr_ret res"
      using assms(1) wr that c(2) unfolding drv_honest_def Let_def by (metis fst_conv length_drop length_take min.absorb2)
    have nz: "(?len = 0) = False" using c(1) len by (metis unat_0 less_irrefl)
    have step: "mtk_bmt_write_loop env ops dat [] (of_nat f) k oo n o2 s =
      (if p < 0 then Some (- EIO, n, o2, s)
       else if wr_ret res < 0
       then if r \<and> k < 10 then mtk_bmt_write_loop env ops dat [] (of_nat f) (k + 1) oo n o2 s2
            else Some (wr_ret res, n, o2, s2)
       else mtk_bmt_write_loop env ops dat [] (of_nat (f + ?c)) 0 0 (n + wr_retlen res) (o2 + wr_oobretlen res) ?s1)"
      by (subst mtk_bmt_write_loop.simps)
        (simp only: True num Let_def p d wr rm nz nxt bind.bind_lunit drop_Nil prod.case if_True if_False simp_thms
          cong: if_cong)
    show ?thesis
    proof (cases "p < 0 \<or> wr_ret res < 0 \<and> \<not> (r \<and> k < 10)")
      case True
      then show ?thesis
        unfolding step using less.prems(1,3) inv2 \<open>n < length dat\<close> by auto
    next
      case False
      then show ?thesis unfolding step using again further [of "o2 + wr_oobretlen res"] all
        by (cases "wr_ret res < 0") simp_all
    qed
  qed
qed

lemma erase_ends:
  assumes "Inv s" and "b + m \<le> N" and "0 < m \<or> ret \<noteq> None" and "k \<le> 10"
  shows "\<exists>ret' fail s'. mtk_bmt_erase_loop env ops (of_nat (b * bsz env)) (of_nat ((b + m) * bsz env)) k ret s = Some (ret', fail, s') \<and> Inv s'"
  using assms
proof (induction "11 * m + (10 - k)" arbitrary: b m k ret s rule: less_induct)
  case less
  have small: "x * bsz env < 2 ^ 64" if "x \<le> 65536" for x
  proof -
    have "x * bsz env \<le> 65536 * 16777216" by (rule mult_le_mono) (use that blk_pow_le [OF geom] in auto)
    then show ?thesis by simp
  qed
  have N: "b + m \<le> 65536" using less.prems(2) blocks by simp
  have ends: "unat (of_nat ((b + m) * bsz env) :: u64) = (b + m) * bsz env" "unat (of_nat (b * bsz env) :: u64) = b * bsz env"
    using small [of "b + m"] small [of b] N by (simp_all only: unat_of_nat64)
  show ?case
  proof (cases "m = 0")
    case True
    then show ?thesis using less.prems(1,3) by (subst mtk_bmt_erase_loop.simps) auto
  next
    case False
    then have b: "b < N" "b < 65536" using less.prems(2) N by simp_all
    have lt: "(of_nat (b * bsz env) :: u64) < of_nat ((b + m) * bsz env)"
      unfolding word_less_nat_alt ends using False by (intro mult_strict_right_mono) simp_all
    have "unat (drop_bit (unat (blk_shift env)) (of_nat (b * bsz env) :: u64)) = b"
      by (simp only: unat_drop_bit_eq ends) (simp add: drop_bit_eq_div)
    then have num: "ucast (ucast (drop_bit (unat (blk_shift env)) (of_nat (b * bsz env) :: u64)) :: u16) = (of_nat b :: u32)"
      by (rule ucast_block [OF _ b(2)])
    obtain p where p: "get_mapping_block ops (of_nat b) s = Some p" using map_defined [OF less.prems(1) b(1)] by blast
    obtain e d1 where er: "drv_erase env (chip_of ops s) (cur_addr env p 0) (ucast (blk_size env)) = (e, d1)"
      by (cases "drv_erase env (chip_of ops s) (cur_addr env p 0) (ucast (blk_size env))")
    let ?s1 = "set_chip ops d1 s"
    have inv1: "Inv ?s1" using less.prems(1) by (simp add: chip_inv)
    have p1: "get_mapping_block ops (of_nat b) ?s1 = Some p" by (simp add: map_set p)
    obtain r s2 where rm: "mtk_bmt_remap_block env ops (of_nat b) (word_of_int p) 0 ?s1 = Some (r, s2)"
      and inv2: "Inv s2" using remap_defined [OF inv1 b(1) p1] by blast
    have "unat (erasesize env) = bsz env" using geom by (simp add: geom_ok_def)
    from next_addr [OF geom this, of "b * bsz env"]
    have nxt: "(of_nat (b * bsz env) :: u64) + ucast (erasesize env) = of_nat (Suc b * bsz env)"
      by (simp add: add.commute)
    have step: "mtk_bmt_erase_loop env ops (of_nat (b * bsz env)) (of_nat ((b + m) * bsz env)) k ret s =
      (if p < 0 then Some (- EIO, None, s)
       else if e \<noteq> 0
       then if r \<and> k < 10 then mtk_bmt_erase_loop env ops (of_nat (b * bsz env)) (of_nat ((b + m) * bsz env)) (k + 1) (Some e) s2
            else Some (e, Some (of_nat (b * bsz env)), s2)
       else mtk_bmt_erase_loop env ops (of_nat (Suc b * bsz env)) (of_nat ((b + m) * bsz env)) 0 (Some e) ?s1)"
      by (subst mtk_bmt_erase_loop.simps)
        (simp only: lt num Let_def p er rm nxt bind.bind_lunit prod.case if_True simp_thms cong: if_cong)
    show ?thesis
    proof (cases "p < 0 \<or> e \<noteq> 0 \<and> \<not> (r \<and> k < 10)")
      case True
      then show ?thesis unfolding step using less.prems(1) inv2 by auto
    next
      case c: False
      show ?thesis
      proof (cases "e = 0")
        case True
        have bm: "Suc b + (m - 1) = b + m" using False by simp
        have "\<exists>ret' fail s'. mtk_bmt_erase_loop env ops (of_nat (Suc b * bsz env)) (of_nat ((Suc b + (m - 1)) * bsz env)) 0 (Some e) ?s1 =
            Some (ret', fail, s') \<and> Inv s'"
          by (rule less.hyps) (use False less.prems inv1 in auto)
        then show ?thesis unfolding step using True c bm by simp
      next
        case ne: False
        have "\<exists>ret' fail s'. mtk_bmt_erase_loop env ops (of_nat (b * bsz env)) (of_nat ((b + m) * bsz env)) (k + 1) (Some e) s2 =
            Some (ret', fail, s') \<and> Inv s'"
          by (rule less.hyps) (use ne c less.prems inv2 in auto)
        then show ?thesis unfolding step using ne c by simp
      qed
    qed
  qed
qed

end

section \<open>The BBT scheme\<close>

text \<open>
  The chip, its remap ranges and the size \<open>L\<close> of the table: every one of the first \<open>N\<close> blocks is inside
  its range, as blocks are counted, or has none.
\<close>

locale bbt_geometry =
  fixes env :: "'d bmtd" and N L :: nat
  assumes geom: "geom_ok env" and bounded: "drv_bounded env" and blocks: "N \<le> 65536" and covered: "N \<le> 4 * L"
    and ranges: "b < N \<Longrightarrow> bbt_range env (of_nat b) = Some (s, e) \<Longrightarrow> s \<le> b \<and> b < e"
    and table: "b < N \<Longrightarrow> length buf = L \<Longrightarrow> range_ok env (of_nat b) buf"

definition bbt_live :: "'d bmtd \<Rightarrow> nat \<Rightarrow> 'd bmt_bbt \<Rightarrow> bool" where
  "bbt_live env L s \<longleftrightarrow> length (bt_buf s) = L \<and> unat (push_bit (unat (pg_shift env)) (bt_pgs s)) \<le> L \<and>
     unat (pg_size env) \<le> length (bt_data_buf s)"

context bbt_geometry
begin

lemma unat_block: "b < N \<Longrightarrow> unat (of_nat b :: u32) = b"
  using blocks by (intro unat_of_nat32) simp

lemma bbt_mapped:
  assumes "b < N" and "length buf = L"
  shows "\<exists>p. get_mapping_block_index_bbt env (of_nat b) buf = Some (int p) \<and> p < 4 * L \<and> p < 65536"
proof (cases "mapping_block_in_range env (of_nat b)")
  case None
  then have "get_mapping_block_index_bbt env (of_nat b) buf = Some (sint (of_nat b :: u32))"
    by (simp add: get_mapping_block_index_bbt_def)
  moreover have "sint (of_nat b :: u32) = int b"
    using assms(1) blocks unat_block [OF assms(1)] by (subst sint_small) simp_all
  ultimately show ?thesis using assms(1) covered blocks by auto
next
  case (Some r)
  obtain lo hi where r: "r = (lo, hi)" by (cases r)
  let ?s = "unat lo div bsz env" and ?e = "unat hi div bsz env"
  have br: "bbt_range env (of_nat b) = Some (?s, ?e)" using Some r by (simp add: bbt_range_def)
  have ok: "range_ok env (of_nat b) buf" by (rule table [OF assms])
  have b: "?s \<le> b" "b < ?e" using ranges [OF assms(1) br] by simp_all
  have "get_mapping_block_index_bbt env (of_nat b) buf = Some (int (bbt_order buf ?s ?e ! (b - ?s)))"
    using bbt_map_eq [OF br ok] b unat_block [OF assms(1)] by simp
  moreover have "bbt_order buf ?s ?e ! (b - ?s) \<in> {?s..<?e}"
    using nth_mem [of "b - ?s" "bbt_order buf ?s ?e"] b by (simp add: bbt_order_length bbt_order_set)
  moreover have "?e \<le> 65536" "?e \<le> 4 * L" using ok Some r assms(2) by (auto simp: range_ok_def)
  ultimately show ?thesis by auto
qed

lemma bbt_remap_ends:
  assumes "bbt_live env L s" and "b < N" and "p < 4 * L" and "p < 65536"
  shows "\<exists>r s'. mtk_bmt_remap_block env (bbt_ops env) (of_nat b) (word_of_int (int p)) n s = Some (r, s') \<and> bbt_live env L s'"
proof (cases "mapping_block_in_range env (of_nat b)")
  case None
  then show ?thesis using assms(1) by (auto simp: mtk_bmt_remap_block_def intro: exI [of _ False])
next
  case (Some rg)
  have bb: "(ucast (ucast (of_nat b :: u32) :: u16) :: u32) = of_nat b"
    by (rule ucast_block32 [OF unat_block [OF assms(2)] less_le_trans [OF assms(2) blocks]])
  have up: "unat (ucast (word_of_int (int p) :: u32) :: u16) = p"
    using assms(4) by (simp add: unsigned_ucast_eq take_bit_nat_eq_self unat_of_nat)
  note live = assms(1) [unfolded bbt_live_def]
  let ?p = "ucast (word_of_int (int p) :: u32) :: u16"
  obtain s1 where s1: "bbt_set_block_state env ?p True s = Some s1" "length (bt_buf s1) = L"
    "bt_pgs s1 = bt_pgs s" "bt_data_buf s1 = bt_data_buf s"
    using set_block_state_spec [of ?p s env True] live assms(3) up
    by (auto simp: returns_eq bbt_set_block_state_def bbt_store_def bind_eq_Some_conv Let_def split_def)
  obtain q where q: "get_mapping_block_index_bbt env (of_nat b) (bt_buf s1) = Some (int q)"
    using bbt_mapped [OF assms(2) s1(2)] by blast
  let ?q = "word_of_int (int q) :: u16"
  obtain e d where er: "bbt_nand_erase env ?q (bt_dev s1) = (e, d)" by (cases "bbt_nand_erase env ?q (bt_dev s1)")
  have pg: "unat (pg_size env) \<le> length (bt_data_buf s1)" using live s1(4) by simp
  obtain r buf d' where cp: "bbt_nand_copy env ?q ?p n (bt_data_buf s1) d = Some (r, buf, d')" "length buf = length (bt_data_buf s1)"
    using copy_spec [OF geom bounded pg, of ?q ?p n d] by (auto simp: returns_eq)
  have "bbt_live env L (s1\<lparr>bt_dev := d\<rparr>)" "bbt_live env L (s1\<lparr>bt_dev := d, bt_data_buf := buf, bt_dev := d'\<rparr>)"
    using live s1 cp(2) by (simp_all add: bbt_live_def)
  then show ?thesis
    using Some s1(1) q er cp(1) bb
    by (auto simp: mtk_bmt_remap_block_def bbt_ops_def remap_block_bbt_def Let_def intro: exI [of _ True])
qed

lemma bbt_live_scheme: "live_scheme (bbt_ops env) env (bbt_live env L) N"
proof (rule live_scheme.intro [OF bbt_scheme.bmt_scheme_axioms], unfold_locales)
  show "geom_ok env" "N \<le> 65536" by (rule geom) (rule blocks)
  fix s :: "'d bmt_bbt" and b p n d
  show "bbt_live env L (set_chip (bbt_ops env) d s) = bbt_live env L s" by (simp add: bbt_live_def bbt_ops_def)
  assume live: "bbt_live env L s" and b: "b < N"
  then obtain q where q: "get_mapping_block_index_bbt env (of_nat b) (bt_buf s) = Some (int q)" "q < 4 * L" "q < 65536"
    using bbt_mapped by (auto simp: bbt_live_def)
  then show "\<exists>p. get_mapping_block (bbt_ops env) (of_nat b) s = Some p" by (simp add: bbt_ops_def)
  assume "get_mapping_block (bbt_ops env) (of_nat b) s = Some p"
  then have "p = int q" using q(1) by (simp add: bbt_ops_def)
  then show "\<exists>r s'. mtk_bmt_remap_block env (bbt_ops env) (of_nat b) (word_of_int p) n s = Some (r, s') \<and> bbt_live env L s'"
    using bbt_remap_ends [OF live b q(2,3)] by simp
qed

end

sublocale bbt_geometry \<subseteq> bbt: live_scheme "bbt_ops env" env "bbt_live env L" N
  by (rule bbt_live_scheme)

context bbt_geometry
begin

lemmas bbt_write_ends = bbt.write_ends

lemmas bbt_erase_ends = bbt.erase_ends

end

lemma sim_bounded: "drv_bounded bbt_sample_env"
  using sim_drv_bounded by (simp add: drv_bounded_def bbt_sample_env_def)

interpretation bbt_sample: bbt_geometry bbt_sample_env 8 128
proof
  show "geom_ok bbt_sample_env" using sim_geom_ok by (simp add: geom_ok_def bbt_sample_env_def)
  show "drv_bounded bbt_sample_env" by (rule sim_bounded)
qed (auto simp: sample_bbt_range intro: sample_range_ok)

section \<open>Requests come to an end\<close>

text \<open>
  C23: Through the BBT scheme every write and every erase of blocks of the device comes to an end,
  whatever the chip answers and however often: after at most ten remaps of a block the request
  goes on or fails. No access is outside a buffer, and a write that reports success has written all
  its data. The only assumption on the chip is that a successful write reports its length.
\<close>

theorem bbt_requests_end:
  assumes "bbt_geometry env N L" and "drv_honest env" and "bbt_live env L s"
    and "f + length dat \<le> N * bsz env" and "length dat < 2 ^ 32" and "b + m \<le> N" and "0 < m" and "b * bsz env < 2 ^ 32"
  shows "(\<exists>ret n o' s'. mtk_bmt_write env (bbt_ops env) (of_nat f) dat [] oo s = Some (ret, n, o', s') \<and>
      bbt_live env L s' \<and> (ret = 0 \<longrightarrow> n = length dat)) \<and>
    (\<exists>ret fail s'. mtk_bmt_mtd_erase env (bbt_ops env) (of_nat (b * bsz env)) (of_nat (m * bsz env)) s =
      Some (ret, fail, s') \<and> bbt_live env L s')"
proof
  show "\<exists>ret n o' s'. mtk_bmt_write env (bbt_ops env) (of_nat f) dat [] oo s = Some (ret, n, o', s') \<and>
      bbt_live env L s' \<and> (ret = 0 \<longrightarrow> n = length dat)"
    using bbt_geometry.bbt_write_ends [OF assms(1-3), of f dat 0 0 oo 0] assms(4,5) by (auto simp: mtk_bmt_write_def)
  have g: "geom_ok env" using assms(1) by (rule bbt_geometry.geom)
  have "(of_nat (b * bsz env) :: u64) AND ucast (NOT (erasesize env - 1)) = of_nat (b * bsz env)"
    unfolding erase_start [OF g] using assms(8) by (subst unat_of_nat64) simp_all
  moreover have "(of_nat (b * bsz env) :: u64) + of_nat (m * bsz env) = of_nat ((b + m) * bsz env)"
    by (simp add: algebra_simps)
  ultimately show "\<exists>ret fail s'. mtk_bmt_mtd_erase env (bbt_ops env) (of_nat (b * bsz env)) (of_nat (m * bsz env)) s =
      Some (ret, fail, s') \<and> bbt_live env L s'"
    using bbt_geometry.bbt_erase_ends [OF assms(1,3,6), of None 0] assms(7) by (simp only: mtk_bmt_mtd_erase_def) auto
qed

theorem bbt_requests_end_witness:
  "(\<exists>ret n o' s'. mtk_bmt_write bbt_sample_env (bbt_ops bbt_sample_env) 200 [1, 2, 3] [] 0 bbt_sample = Some (ret, n, o', s') \<and>
      bbt_live bbt_sample_env 128 s' \<and> (ret = 0 \<longrightarrow> n = 3)) \<and>
    (\<exists>ret fail s'. mtk_bmt_mtd_erase bbt_sample_env (bbt_ops bbt_sample_env) 128 256 bbt_sample =
      Some (ret, fail, s') \<and> bbt_live bbt_sample_env 128 s')"
proof -
  have "drv_honest bbt_sample_env" by (simp add: drv_honest_def bbt_sample_env_def sim_bmtd_def sim_write_def)
  moreover have "bbt_live bbt_sample_env 128 bbt_sample"
    by (simp add: bbt_live_def bbt_sample_def bbt_sample_env_def sim_bmtd_def)
  moreover have "bsz bbt_sample_env = 128" by (simp add: bbt_sample_env_def sim_bmtd_def)
  ultimately show ?thesis
    using bbt_requests_end [OF bbt_sample.bbt_geometry_axioms, of bbt_sample 200 "[1, 2, 3]" 1 2 0]
    by (simp add: numeral_3_eq_3)
qed

end
