(* ===== verification/En75_Tables.thy ===== *)
theory En75_Tables
  imports Bmt_Core
begin

text \<open>
  \<open>en75_bmt.c\<close>, the scheme of the EcoNet chips, first part: the two tables on flash (factory bad
  blocks, BBT, and mappings of worn blocks, BMT), the context and the functions in memory. Factory
  bad blocks shift every block behind them by one; a worn block is mapped to a block of the reserve
  area at the end of the chip. The byte order of the processor is a member of the context.
  \<^const>\<open>None\<close> is an access outside an array.
\<close>

section \<open>Data\<close>

abbreviation MAX_BMT_SIZE :: nat where "MAX_BMT_SIZE \<equiv> 256"
abbreviation MAX_BBT_SIZE :: nat where "MAX_BBT_SIZE \<equiv> 1000"
abbreviation DEFAULT_BBT_TABLE_SIZE :: u32 where "DEFAULT_BBT_TABLE_SIZE \<equiv> 1000"
abbreviation BLOCK_WORN_MARK :: u8 where "BLOCK_WORN_MARK \<equiv> 0x55"
abbreviation WRITE_TRIES :: nat where "WRITE_TRIES \<equiv> 3"
abbreviation ERASE_TRIES :: nat where "ERASE_TRIES \<equiv> 3"
abbreviation UPDATE_TABLE_TRIES :: nat where "UPDATE_TABLE_TRIES \<equiv> 3"
abbreviation REMAP_COPY_TRIES :: nat where "REMAP_COPY_TRIES \<equiv> 10"
abbreviation INITIAL_READ_TRIES :: nat where "INITIAL_READ_TRIES \<equiv> 3"

text \<open>\<open>REQUIRED_GOOD_BLOCKS\<close>\<close>

definition required_good_blocks :: "u16 \<Rightarrow> nat" where
  "required_good_blocks total_blocks = unat total_blocks * 8 div 100"

record bmt_entry =
  from_blk :: u16
  to_blk :: u16

record bmt_table =
  m_signature :: "u8 list"
  m_version :: u8
  m_bad_count :: u8
  m_size :: u8
  m_checksum :: u8
  m_reserved :: "u8 list"
  m_table :: "bmt_entry list"

record bbt_table =
  b_signature :: "u8 list"
  b_checksum :: u32
  b_version :: u8
  b_size :: u8
  b_reserved :: "u8 list"
  b_table :: "u16 list"

datatype block_status = BS_INVALID | BS_AVAILABLE | BS_BAD | BS_MAPPED | BS_BMT | BS_BBT | BS_NEED_ERASE

record block_info =
  bi_index :: u16
  bi_status :: block_status

text \<open>
  \<open>struct en75_bmt_m\<close>, with the chip and the page buffer of \<open>mtk\<close>, the size of the device that \<open>w_init\<close>
  sets, and the static workspace of \<open>try_parse_bbt\<close>. \<open>rblocks\<close> and \<open>can_remap_ranges\<close> have the entries
  that have been stored; the dirty counters are one byte.
\<close>

record 'd en75 =
  e_bbt :: bbt_table
  e_table_size :: u16
  e_bmt :: bmt_table
  e_rblocks :: "block_info list"
  e_begin :: u16
  e_ranges :: "(u16 \<times> u16) list"
  e_bbt_dirty :: u8
  e_bmt_dirty :: u8
  e_can_write_bbt :: bool
  e_workspace :: bbt_table
  e_big_endian :: bool
  e_buf :: "u8 list"
  e_mtd_size :: u64
  e_dev :: 'd

abbreviation sig_RAWB :: "u8 list" where "sig_RAWB \<equiv> [0x52, 0x41, 0x57, 0x42]"
abbreviation sig_BMT :: "u8 list" where "sig_BMT \<equiv> [0x42, 0x4D, 0x54]"

text \<open>The tables as the bytes that are written and read.\<close>

definition host_bytes :: "bool \<Rightarrow> nat \<Rightarrow> 'a::len word \<Rightarrow> u8 list" where
  "host_bytes big n w = (if big then rev (le_bytes n w) else le_bytes n w)"

definition host_val :: "bool \<Rightarrow> u8 list \<Rightarrow> 'a::len word" where
  "host_val big bs = le_val (if big then rev bs else bs)"

definition entry_bytes :: "bool \<Rightarrow> bmt_entry \<Rightarrow> u8 list" where
  "entry_bytes big e = host_bytes big 2 (from_blk e) @ host_bytes big 2 (to_blk e)"

definition entry_of :: "bool \<Rightarrow> u8 list \<Rightarrow> bmt_entry" where
  "entry_of big bs = \<lparr>from_blk = host_val big (take 2 bs), to_blk = host_val big (drop 2 bs)\<rparr>"

definition bmt_bytes :: "bool \<Rightarrow> bmt_table \<Rightarrow> u8 list" where
  "bmt_bytes big t =
     m_signature t @ [m_version t, m_bad_count t, m_size t, m_checksum t] @ m_reserved t @
     concat (map (entry_bytes big) (m_table t))"

definition bmt_of :: "bool \<Rightarrow> u8 list \<Rightarrow> bmt_table" where
  "bmt_of big bs =
     \<lparr>m_signature = take 3 bs, m_version = bs ! 3, m_bad_count = bs ! 4, m_size = bs ! 5,
      m_checksum = bs ! 6, m_reserved = take 13 (drop 7 bs),
      m_table = map (\<lambda>i. entry_of big (take 4 (drop (20 + 4 * i) bs))) [0..<MAX_BMT_SIZE]\<rparr>"

definition bbt_bytes :: "bool \<Rightarrow> bbt_table \<Rightarrow> u8 list" where
  "bbt_bytes big t =
     b_signature t @ host_bytes big 4 (b_checksum t) @ [b_version t, b_size t] @ b_reserved t @
     concat (map (host_bytes big 2) (b_table t))"

text \<open>\<open>memcpy\<close> of the header and the first \<open>n\<close> entries into a table that keeps its other entries.\<close>

definition bbt_load :: "bool \<Rightarrow> nat \<Rightarrow> u8 list \<Rightarrow> bbt_table \<Rightarrow> bbt_table" where
  "bbt_load big n bs t =
     \<lparr>b_signature = take 4 bs, b_checksum = host_val big (take 4 (drop 4 bs)), b_version = bs ! 8,
      b_size = bs ! 9, b_reserved = take 2 (drop 10 bs),
      b_table = map (\<lambda>i. host_val big (take 2 (drop (12 + 2 * i) bs))) [0..<n] @ drop n (b_table t)\<rparr>"

section \<open>In-memory functions\<close>

text \<open>The checksums add bytes, at 16 bits and at 8.\<close>

fun add_bytes :: "'a::len word \<Rightarrow> u8 list \<Rightarrow> 'a word" where
  "add_bytes c [] = c"
| "add_bytes c (x # xs) = add_bytes (c + ucast x) xs"

definition bbt_checksum :: "bool \<Rightarrow> bbt_table \<Rightarrow> nat \<Rightarrow> u16 option" where
  "bbt_checksum big t table_size = do {
     es \<leftarrow> buf_get (b_table t) 0 table_size;
     Some (add_bytes (ucast (b_version t) + ucast (b_size t)) (concat (map (host_bytes big 2) es)))
   }"

definition bmt_checksum :: "bool \<Rightarrow> bmt_table \<Rightarrow> nat \<Rightarrow> u8 option" where
  "bmt_checksum big t check_entries = do {
     es \<leftarrow> buf_get (m_table t) 0 (min check_entries MAX_BMT_SIZE);
     Some (add_bytes (m_version t + m_size t) (concat (map (entry_bytes big) es)))
   }"

definition reserve_block_count :: "'d bmtd \<Rightarrow> 'd en75 \<Rightarrow> int" where
  "reserve_block_count env s = uint (total_blks env) - uint (e_begin s)"

text \<open>The position in \<open>rblocks\<close> of the first available block in the order of the indices given.\<close>

fun find_status :: "block_info list \<Rightarrow> nat list \<Rightarrow> block_status \<Rightarrow> nat option option" where
  "find_status rb [] st = Some None"
| "find_status rb (i # is) st = do {
     b \<leftarrow> arr_get rb i;
     if bi_status b = st then Some (Some i) else find_status rb is st
   }"

definition find_available_block :: "'d bmtd \<Rightarrow> bool \<Rightarrow> 'd en75 \<Rightarrow> nat option option" where
  "find_available_block env start_from_end s =
     (let is = [0..<nat (reserve_block_count env s)]
      in find_status (e_rblocks s) (if start_from_end then is else rev is) BS_AVAILABLE)"

text \<open>\<open>sort\<close> orders the entries in use; they are numbers, so every sort gives the same.\<close>

definition sort_bbt :: "bbt_table \<Rightarrow> bbt_table" where
  "sort_bbt t = t\<lparr>b_table := sort (take (unat (b_size t)) (b_table t)) @ drop (unat (b_size t)) (b_table t)\<rparr>"

fun shift_bad :: "u16 list \<Rightarrow> int \<Rightarrow> int" where
  "shift_bad [] block = block"
| "shift_bad (b # bs) block = shift_bad bs (if uint b \<le> block then block + 1 else block)"

definition bbt_used :: "'d en75 \<Rightarrow> u16 list" where
  "bbt_used s = take (unat (b_size (e_bbt s))) (b_table (e_bbt s))"

definition bmt_used :: "'d en75 \<Rightarrow> bmt_entry list" where
  "bmt_used s = take (unat (m_size (e_bmt s))) (m_table (e_bmt s))"

definition get_mapping_block_bbt :: "'d en75 \<Rightarrow> int \<Rightarrow> int" where
  "get_mapping_block_bbt s block =
     (let block = shift_bad (bbt_used s) block
      in if block \<ge> uint (e_begin s) \<or> block < 0 then - EINVAL else block)"

text \<open>The last entry of the block counts.\<close>

definition get_mapping_block_en75 :: "'d en75 \<Rightarrow> int \<Rightarrow> int" where
  "get_mapping_block_en75 s block =
     (let block = get_mapping_block_bbt s block
      in if block < 0 then block
         else case find (\<lambda>e. uint (from_blk e) = block) (rev (bmt_used s)) of
           Some e \<Rightarrow> uint (to_blk e)
         | None \<Rightarrow> block)"

text \<open>The mapping depends on the tables and the start of the reserve area only.\<close>

lemma used_upd [simp]:
  "bbt_used (s\<lparr>e_dev := d\<rparr>) = bbt_used s" "bmt_used (s\<lparr>e_dev := d\<rparr>) = bmt_used s"
  "bbt_used (s\<lparr>e_buf := b\<rparr>) = bbt_used s" "bmt_used (s\<lparr>e_buf := b\<rparr>) = bmt_used s"
  "bbt_used (s\<lparr>e_rblocks := rb\<rparr>) = bbt_used s" "bmt_used (s\<lparr>e_rblocks := rb\<rparr>) = bmt_used s"
  "bbt_used (s\<lparr>e_bmt := t\<rparr>) = bbt_used s" "bmt_used (s\<lparr>e_bbt := u\<rparr>) = bmt_used s"
  "bbt_used (s\<lparr>e_bmt_dirty := k\<rparr>) = bbt_used s" "bmt_used (s\<lparr>e_bmt_dirty := k\<rparr>) = bmt_used s"
  "bbt_used (s\<lparr>e_bbt_dirty := k\<rparr>) = bbt_used s" "bmt_used (s\<lparr>e_bbt_dirty := k\<rparr>) = bmt_used s"
  by (simp_all add: bbt_used_def bmt_used_def)

lemma mapping_cong:
  "bbt_used s = bbt_used s' \<Longrightarrow> bmt_used s = bmt_used s' \<Longrightarrow> e_begin s = e_begin s' \<Longrightarrow>
   get_mapping_block_en75 s = get_mapping_block_en75 s'"
  by (rule ext) (simp add: get_mapping_block_en75_def get_mapping_block_bbt_def Let_def cong: option.case_cong)

definition block_index_is_sane :: "'d bmtd \<Rightarrow> 'd en75 \<Rightarrow> u16 \<Rightarrow> bool \<Rightarrow> bool" where
  "block_index_is_sane env s bi user_block \<longleftrightarrow>
     \<not> (bi \<ge> total_blks env) \<and> \<not> (user_block \<and> bi \<ge> e_begin s) \<and> \<not> (\<not> user_block \<and> bi < e_begin s)"

section \<open>Parsing\<close>

datatype block_is_bad = BB_GOOD | BB_FACTORY_BAD | BB_WORN | BB_UNKNOWN_BAD

definition fdm_is_bad :: "u8 list \<Rightarrow> block_is_bad" where
  "fdm_is_bad fdm =
     (if fdm ! 0 = 0xFF \<and> fdm ! 1 = 0xFF then BB_GOOD
      else if fdm ! 0 = BLOCK_WORN_MARK then BB_WORN
      else if fdm ! 0 = 0 \<or> fdm ! 1 = 0 then BB_FACTORY_BAD
      else BB_UNKNOWN_BAD)"

definition fdm_is_mapped :: "u8 list \<Rightarrow> bool" where
  "fdm_is_mapped fdm =
     (if fdm ! 0 \<noteq> 0xFF \<or> fdm ! 1 \<noteq> 0xFF then False else fdm ! 2 \<noteq> 0xFF \<or> fdm ! 3 \<noteq> 0xFF)"

definition block_is_erased :: "u8 list \<Rightarrow> u8 list \<Rightarrow> bool" where
  "block_is_erased dat oob \<longleftrightarrow> list_all (\<lambda>x. x = 0xFF) dat \<and> list_all (\<lambda>x. x = 0xFF) oob"

text \<open>The result, the table and the workspace, which is static.\<close>

definition try_parse_bbt ::
  "bool \<Rightarrow> bbt_table \<Rightarrow> u8 list \<Rightarrow> nat \<Rightarrow> nat \<Rightarrow> bbt_table \<Rightarrow> (int \<times> bbt_table \<times> bbt_table) option" where
  "try_parse_bbt big out buf len table_size ws =
     (if len < 12 + 2 * table_size then Some (- EINVAL, out, ws)
      else do {
        bs \<leftarrow> buf_get buf 0 (12 + 2 * table_size);
        let ws = bbt_load big table_size bs ws;
        if b_signature ws \<noteq> sig_RAWB then Some (- EINVAL, out, ws)
        else do {
          sum \<leftarrow> bbt_checksum big ws table_size;
          if b_checksum ws \<noteq> ucast sum then Some (- EINVAL, out, ws)
          else do {
            let ws = sort_bbt ws;
            Some (0, ws\<lparr>b_table := take table_size (b_table ws) @ drop table_size (b_table out)\<rparr>, ws)
          }
        }
      })"

definition try_parse_bmt :: "bool \<Rightarrow> bmt_table \<Rightarrow> u8 list \<Rightarrow> nat \<Rightarrow> (int \<times> bmt_table) option" where
  "try_parse_bmt big out buf len =
     (if len < 20 + 4 * MAX_BMT_SIZE then Some (- EINVAL, out)
      else do {
        bs \<leftarrow> buf_get buf 0 (20 + 4 * MAX_BMT_SIZE);
        let ws = bmt_of big bs;
        if m_signature ws \<noteq> sig_BMT then Some (- EINVAL, out)
        else do {
          sum \<leftarrow> bmt_checksum big ws (unat (m_size ws));
          if m_checksum ws \<noteq> sum then Some (- EINVAL, out) else Some (0, ws)
        }
      })"

end
