(* ===== verification/En75_Map.thy ===== *)
theory En75_Map
  imports En75_Tables
begin

text \<open>
  The mapping of the EcoNet scheme as arithmetic: shifting by the factory bad blocks enumerates the
  blocks that are not in the table, and the entries of the BMT are a finite map.
\<close>

section \<open>Shifting by the factory bad blocks\<close>

lemma shift_bad_none: "\<forall>x \<in> set bs. b < uint x \<Longrightarrow> shift_bad bs b = b"
  by (induction bs) auto

lemma shift_bad_spec:
  assumes "sorted_wrt (<) bs" and "r = shift_bad bs b"
  shows "b \<le> r \<and> r \<notin> uint ` set bs \<and> r = b + int (length (filter (\<lambda>x. uint x < r) bs))"
  using assms
proof (induction bs arbitrary: b)
  case (Cons t ts)
  show ?case
  proof (cases "uint t \<le> b")
    case True
    then have "b + 1 \<le> r \<and> r \<notin> uint ` set ts \<and> r = b + 1 + int (length (filter (\<lambda>x. uint x < r) ts))"
      using Cons.prems by (intro Cons.IH) simp_all
    then show ?thesis using True by auto
  next
    case False
    then have above: "\<forall>x \<in> set (t # ts). b < uint x"
      using Cons.prems(1) by (auto simp: word_less_def)
    then have "r = b" using Cons.prems(2) shift_bad_none [OF above] by simp
    moreover have "filter (\<lambda>x. uint x < b) (t # ts) = []" using above by (auto simp: filter_empty_conv)
    ultimately show ?thesis using above by auto
  qed
qed simp

text \<open>The blocks below a limit that are not in a list, in ascending order.\<close>

definition blocks_without :: "u16 list \<Rightarrow> nat \<Rightarrow> nat list" where
  "blocks_without bs n = filter (\<lambda>i. i \<notin> unat ` set bs) [0..<n]"

lemma blocks_without_count:
  assumes "distinct bs"
  shows "length (blocks_without bs n) + length (filter (\<lambda>x. unat x < n) bs) = n"
proof -
  have "{i. i < n \<and> i \<in> unat ` set bs} = unat ` set (filter (\<lambda>x. unat x < n) bs)" by auto
  moreover have "card (unat ` set (filter (\<lambda>x. unat x < n) bs)) = length (filter (\<lambda>x. unat x < n) bs)"
    using distinct_card [of "filter (\<lambda>x. unat x < n) bs"] assms
    by (subst card_image) (simp_all add: inj_on_def word_unat_eq_iff)
  moreover have "length (blocks_without bs n) = card {i. i < n \<and> i \<notin> unat ` set bs}"
    unfolding blocks_without_def by (subst distinct_length_filter) (auto intro: arg_cong [where f = card])
  moreover have "{i. i < n \<and> i \<notin> unat ` set bs} \<union> {i. i < n \<and> i \<in> unat ` set bs} = {..<n}" by auto
  then have "card {i. i < n \<and> i \<notin> unat ` set bs} + card {i. i < n \<and> i \<in> unat ` set bs} = card {..<n}"
    by (subst card_Un_disjoint [symmetric]) auto
  ultimately show ?thesis by simp
qed

lemma blocks_without_mono: "m \<le> n \<Longrightarrow> length (blocks_without bs m) \<le> length (blocks_without bs n)"
  unfolding blocks_without_def by (metis filter_append le_Suc_ex length_append le_add1 plus_nat.add_0 upt_add_eq_append zero_le)

lemma blocks_without_nth:
  assumes "r < n" and "r \<notin> unat ` set bs"
  shows "length (blocks_without bs r) < length (blocks_without bs n) \<and>
    blocks_without bs n ! length (blocks_without bs r) = r"
proof -
  have "[0..<n] = [0..<r] @ r # [Suc r..<n]"
    using assms(1) by (metis le_add_diff_inverse less_imp_le_nat upt_add_eq_append upt_conv_Cons zero_le)
  then have "blocks_without bs n = blocks_without bs r @ r # filter (\<lambda>i. i \<notin> unat ` set bs) [Suc r..<n]"
    using assms(2) by (simp add: blocks_without_def)
  then show ?thesis by simp
qed

lemma shift_bad_enum:
  assumes "sorted_wrt (<) bs" and "0 \<le> b"
  shows "if nat b < length (blocks_without bs n) then shift_bad bs b = int (blocks_without bs n ! nat b) \<and> shift_bad bs b < int n
    else int n \<le> shift_bad bs b"
proof -
  let ?r = "shift_bad bs b"
  note r = shift_bad_spec [OF assms(1) refl, of b]
  have "0 \<le> ?r" using r assms(2) by linarith
  then obtain k where k: "?r = int k" using nonneg_int_cases by blast
  have "length (filter (\<lambda>x. uint x < ?r) bs) = length (filter (\<lambda>x. unat x < k) bs)"
    unfolding k by (metis (no_types, opaque_lifting) of_nat_less_iff uint_nat)
  moreover have "distinct bs" using assms(1) by (metis strict_sorted_iff)
  ultimately have "int k = b + (int k - int (length (blocks_without bs k)))"
    using r blocks_without_count [of bs k] unfolding k by linarith
  then have b: "nat b = length (blocks_without bs k)" by simp
  show ?thesis
  proof (cases "k < n")
    case True
    have "k \<notin> unat ` set bs"
    proof
      assume "k \<in> unat ` set bs"
      then obtain x where "x \<in> set bs" "k = unat x" by blast
      then have "int k = uint x" "x \<in> set bs" by simp_all
      then have "int k \<in> uint ` set bs" by blast
      then show False using r unfolding k by blast
    qed
    note n = blocks_without_nth [OF True this]
    then have "blocks_without bs n ! nat b = k" unfolding b by (rule conjunct2)
    then show ?thesis using n True unfolding b [symmetric] by (simp add: k)
  next
    case False
    then have "\<not> nat b < length (blocks_without bs n)"
      using blocks_without_mono [of n k bs] unfolding b by simp
    then show ?thesis using False unfolding k by simp
  qed
qed

text \<open>The usable blocks of the user area.\<close>

definition user_blocks :: "'d en75 \<Rightarrow> nat list" where
  "user_blocks s = blocks_without (bbt_used s) (unat (e_begin s))"

lemma mapping_bbt_enum:
  assumes "sorted_wrt (<) (bbt_used s)"
  shows "get_mapping_block_bbt s b =
    (if 0 \<le> b \<and> nat b < length (user_blocks s) then int (user_blocks s ! nat b) else - EINVAL)"
proof (cases "0 \<le> b")
  case True
  let ?r = "shift_bad (bbt_used s) b"
  note e = shift_bad_enum [OF assms True, of "unat (e_begin s)", folded user_blocks_def]
  have "\<not> ?r < 0" using shift_bad_spec [OF assms refl, of b] True by linarith
  then have m: "get_mapping_block_bbt s b = (if int (unat (e_begin s)) \<le> ?r then - EINVAL else ?r)"
    by (simp add: get_mapping_block_bbt_def)
  show ?thesis
  proof (cases "nat b < length (user_blocks s)")
    case True
    then show ?thesis using e m \<open>0 \<le> b\<close> by simp
  next
    case False
    then show ?thesis using e m by simp
  qed
next
  case False
  then have "shift_bad (bbt_used s) b = b" by (intro shift_bad_none ballI) (rule less_le_trans [of b 0], simp_all)
  then show ?thesis using False by (simp add: get_mapping_block_bbt_def Let_def)
qed

lemma user_blocks_distinct: "distinct (user_blocks s)"
  by (simp add: user_blocks_def blocks_without_def)

lemma user_blocks_below: "i < length (user_blocks s) \<Longrightarrow> user_blocks s ! i < unat (e_begin s)"
  using nth_mem [of i "user_blocks s"] by (auto simp: user_blocks_def blocks_without_def)

section \<open>The entries of the BMT\<close>

text \<open>What a block is mapped to, with the last entry of the block.\<close>

definition bmt_map :: "bmt_entry list \<Rightarrow> u16 \<Rightarrow> u16" where
  "bmt_map es b = (case find (\<lambda>e. from_blk e = b) (rev es) of Some e \<Rightarrow> to_blk e | None \<Rightarrow> b)"

lemma find_Some_in: "find P xs = Some x \<Longrightarrow> P x \<and> x \<in> set xs"
  by (induction xs) (auto split: if_splits)

lemma find_None_in: "find P xs = None \<longleftrightarrow> (\<forall>x \<in> set xs. \<not> P x)"
  by (induction xs) auto

lemma find_entry:
  assumes "distinct (map from_blk es)" and "e \<in> set es"
  shows "find (\<lambda>e'. from_blk e' = from_blk e) (rev es) = Some e"
proof (cases "find (\<lambda>e'. from_blk e' = from_blk e) (rev es)")
  case None
  then show ?thesis using assms(2) by (auto simp: find_None_in)
next
  case (Some x)
  then have "from_blk x = from_blk e" "x \<in> set es" using find_Some_in [OF Some] by auto
  then have "x = e" using assms by (metis distinct_map inj_onD)
  then show ?thesis using Some by simp
qed

lemma bmt_map_entry: "distinct (map from_blk es) \<Longrightarrow> e \<in> set es \<Longrightarrow> bmt_map es (from_blk e) = to_blk e"
  by (simp add: bmt_map_def find_entry)

lemma bmt_map_other: "b \<notin> from_blk ` set es \<Longrightarrow> bmt_map es b = b"
  by (auto simp: bmt_map_def find_None_in split: option.split dest: find_Some_in)

lemma bmt_map_cases:
  obtains "b \<notin> from_blk ` set es" "bmt_map es b = b"
  | e where "e \<in> set es" "from_blk e = b" "bmt_map es b = to_blk e"
  by (cases "find (\<lambda>e. from_blk e = b) (rev es)")
    (auto simp: bmt_map_def find_None_in dest!: find_Some_in intro: that)

lemma mapping_en75:
  assumes "sorted_wrt (<) (bbt_used s)"
  shows "get_mapping_block_en75 s b =
    (if 0 \<le> b \<and> nat b < length (user_blocks s)
     then uint (bmt_map (bmt_used s) (of_nat (user_blocks s ! nat b))) else - EINVAL)"
proof (cases "0 \<le> b \<and> nat b < length (user_blocks s)")
  case True
  let ?u = "user_blocks s ! nat b"
  have "unat (e_begin s) < 2 ^ 16" using unsigned_less [of "e_begin s"] by simp
  then have "unat (of_nat ?u :: u16) = ?u"
    using user_blocks_below [of "nat b" s] True by (simp add: unat_of_nat take_bit_nat_eq_self)
  then have u: "uint (of_nat ?u :: u16) = int ?u" by (simp add: uint_nat)
  have "(\<lambda>e :: bmt_entry. uint (from_blk e) = int ?u) = (\<lambda>e. from_blk e = of_nat ?u)"
    by (rule ext) (metis u word_uint_eq_iff)
  then have "find (\<lambda>e :: bmt_entry. uint (from_blk e) = int ?u) xs = find (\<lambda>e. from_blk e = of_nat ?u) xs" for xs
    by (rule arg_cong)
  then show ?thesis using True u
    by (simp add: get_mapping_block_en75_def mapping_bbt_enum [OF assms] bmt_map_def Let_def split: option.split)
next
  case False
  then show ?thesis by (auto simp: get_mapping_block_en75_def mapping_bbt_enum [OF assms])
qed

end
