(* ===== verification/En75_Write.thy ===== *)
theory En75_Write
  imports En75_Tables
begin

text \<open>
  \<open>en75_bmt.c\<close>, second part: the functions that write, erase and mark blocks, update the tables on
  flash, and remap and unmap blocks. Messages of the kernel log are left out.
\<close>

section \<open>Writing\<close>

primrec w_write_tries :: "nat \<Rightarrow> 'd bmtd \<Rightarrow> u64 \<Rightarrow> u8 list \<Rightarrow> u8 list \<Rightarrow> int \<Rightarrow> 'd \<Rightarrow> int \<times> 'd" where
  "w_write_tries 0 env a dat oob ret d = (ret, d)"
| "w_write_tries (Suc n) env a dat oob ret d =
     (let (res, d) = drv_write_oob env d a dat oob 0
      in if wr_ret res = 0 then (0, d) else w_write_tries n env a dat oob (wr_ret res) d)"

definition w_write :: "'d bmtd \<Rightarrow> u16 \<Rightarrow> bool \<Rightarrow> u8 list \<Rightarrow> bool \<Rightarrow> 'd en75 \<Rightarrow> int \<times> 'd en75" where
  "w_write env bi user_area buf oob s =
     (if \<not> block_index_is_sane env s bi user_area then (- EINVAL, s)
      else let (ret, d) = w_write_tries WRITE_TRIES env (blk_addr env (ucast bi))
             (if oob then [] else buf) (if oob then buf else []) 0 (e_dev s)
           in (ret, s\<lparr>e_dev := d\<rparr>))"

definition w_mark_bad :: "'d bmtd \<Rightarrow> u16 \<Rightarrow> bool \<Rightarrow> 'd en75 \<Rightarrow> int \<times> 'd en75" where
  "w_mark_bad env bi user_area s = w_write env bi user_area [BLOCK_WORN_MARK, 0xFF, 0xFF, 0xFF] True s"

primrec w_erase_tries :: "nat \<Rightarrow> 'd bmtd \<Rightarrow> u16 \<Rightarrow> int \<Rightarrow> 'd \<Rightarrow> int \<times> 'd" where
  "w_erase_tries 0 env bi ret d = (ret, d)"
| "w_erase_tries (Suc n) env bi ret d =
     (let (ret, d) = bbt_nand_erase env bi d
      in if ret = 0 then (0, d) else w_erase_tries n env bi ret d)"

definition w_erase_one :: "'d bmtd \<Rightarrow> u16 \<Rightarrow> bool \<Rightarrow> 'd en75 \<Rightarrow> int \<times> 'd en75" where
  "w_erase_one env bi user_area s =
     (if \<not> block_index_is_sane env s bi user_area then (- EINVAL, s)
      else let (ret, d) = w_erase_tries ERASE_TRIES env bi 0 (e_dev s) in (ret, s\<lparr>e_dev := d\<rparr>))"

definition set_status :: "nat \<Rightarrow> block_status \<Rightarrow> 'd en75 \<Rightarrow> 'd en75 option" where
  "set_status i st s = do {
     b \<leftarrow> arr_get (e_rblocks s) i;
     rb \<leftarrow> arr_set (e_rblocks s) i (b\<lparr>bi_status := st\<rparr>);
     Some (s\<lparr>e_rblocks := rb\<rparr>)
   }"

text \<open>The loops over the reserve area take the indices in turn.\<close>

fun w_erase_pending_loop :: "'d bmtd \<Rightarrow> nat list \<Rightarrow> 'd en75 \<Rightarrow> 'd en75 option" where
  "w_erase_pending_loop env [] s = Some s"
| "w_erase_pending_loop env (i # is) s = do {
     bif \<leftarrow> arr_get (e_rblocks s) i;
     if bi_status bif \<noteq> BS_NEED_ERASE then w_erase_pending_loop env is s
     else do {
       let (ret, s) = w_erase_one env (bi_index bif) False s;
       s \<leftarrow> (if ret \<noteq> 0 then
               let s = (if ret = - EINVAL then s else snd (w_mark_bad env (bi_index bif) False s))
               in set_status i BS_BAD s
             else set_status i BS_AVAILABLE s);
       w_erase_pending_loop env is s
     }
   }"

definition w_erase_pending :: "'d bmtd \<Rightarrow> 'd en75 \<Rightarrow> 'd en75 option" where
  "w_erase_pending env s = w_erase_pending_loop env [0..<nat (reserve_block_count env s)] s"

fun mark_loop :: "nat list \<Rightarrow> block_status \<Rightarrow> 'd en75 \<Rightarrow> 'd en75 option" where
  "mark_loop [] st s = Some s"
| "mark_loop (i # is) st s = do {
     b \<leftarrow> arr_get (e_rblocks s) i;
     s \<leftarrow> (if bi_status b = st then set_status i BS_NEED_ERASE s else Some s);
     mark_loop is st s
   }"

definition mark_for_erasure :: "'d bmtd \<Rightarrow> block_status \<Rightarrow> 'd en75 \<Rightarrow> 'd en75 option" where
  "mark_for_erasure env with_status s = mark_loop [0..<nat (reserve_block_count env s)] with_status s"

section \<open>Updating the tables\<close>

text \<open>\<open>Inl\<close> is the error of the pointer, \<open>Inr\<close> the position of the block in \<open>rblocks\<close>.\<close>

primrec w_update_tries ::
  "nat \<Rightarrow> 'd bmtd \<Rightarrow> bool \<Rightarrow> u8 list \<Rightarrow> 'd en75 \<Rightarrow> ((int + nat) \<times> 'd en75) option" where
  "w_update_tries 0 env start_from_end buf s = Some (Inl (- EIO), s)"
| "w_update_tries (Suc n) env start_from_end buf s = do {
     bif \<leftarrow> find_available_block env start_from_end s;
     (case bif of
        None \<Rightarrow> Some (Inl (- ENOSPC), s)
      | Some i \<Rightarrow> do {
          b \<leftarrow> arr_get (e_rblocks s) i;
          let (ret, s) = w_write env (bi_index b) False buf False s;
          if ret \<noteq> 0 then do {
            s \<leftarrow> set_status i BS_NEED_ERASE s;
            w_update_tries n env start_from_end buf s
          }
          else Some (Inr i, s)
        })
   }"

definition w_update_table ::
  "'d bmtd \<Rightarrow> bool \<Rightarrow> u8 list \<Rightarrow> 'd en75 \<Rightarrow> ((int + nat) \<times> 'd en75) option" where
  "w_update_table env start_from_end buf s = w_update_tries UPDATE_TABLE_TRIES env start_from_end buf s"

fun zero_entries :: "'a \<Rightarrow> nat list \<Rightarrow> 'a list \<Rightarrow> 'a list option" where
  "zero_entries z [] xs = Some xs"
| "zero_entries z (i # is) xs = do { xs \<leftarrow> arr_set xs i z; zero_entries z is xs }"

abbreviation no_entry :: bmt_entry where "no_entry \<equiv> \<lparr>from_blk = 0, to_blk = 0\<rparr>"

definition w_sync_bmt :: "'d bmtd \<Rightarrow> 'd en75 \<Rightarrow> (int \<times> 'd en75) option" where
  "w_sync_bmt env s = do {
     let t = e_bmt s;
     es \<leftarrow> zero_entries no_entry [unat (m_size t)..<nat (reserve_block_count env s)] (m_table t);
     sum \<leftarrow> bmt_checksum (e_big_endian s) (t\<lparr>m_table := es\<rparr>) (unat (m_size t));
     let t = t\<lparr>m_table := es, m_checksum := sum\<rparr>;
     let s = s\<lparr>e_bmt := t\<rparr>;
     (r, s) \<leftarrow> w_update_table env True (bmt_bytes (e_big_endian s) t) s;
     (case r of
        Inl err \<Rightarrow> Some (err, s)
      | Inr i \<Rightarrow> do {
          s \<leftarrow> mark_for_erasure env BS_BMT s;
          s \<leftarrow> set_status i BS_BMT s;
          Some (0, s\<lparr>e_bmt_dirty := 0\<rparr>)
        })
   }"

text \<open>The bytes written for the BBT end with the entries that the configured size counts.\<close>

definition w_sync_bbt :: "'d bmtd \<Rightarrow> 'd en75 \<Rightarrow> (int \<times> 'd en75) option" where
  "w_sync_bbt env s = do {
     let t = e_bbt s;
     let n = unat (e_table_size s);
     es \<leftarrow> zero_entries 0 [unat (b_size t)..<n] (b_table t);
     sum \<leftarrow> bbt_checksum (e_big_endian s) (t\<lparr>b_table := es\<rparr>) n;
     let t = t\<lparr>b_table := es, b_checksum := ucast sum\<rparr>;
     let s = s\<lparr>e_bbt := t\<rparr>;
     buf \<leftarrow> buf_get (bbt_bytes (e_big_endian s) t) 0 (12 + 2 * n);
     (r, s) \<leftarrow> w_update_table env False buf s;
     (case r of
        Inl err \<Rightarrow> Some (err, s)
      | Inr i \<Rightarrow> do {
          s \<leftarrow> mark_for_erasure env BS_BBT s;
          s \<leftarrow> set_status i BS_BBT s;
          Some (0, s\<lparr>e_bbt_dirty := 0\<rparr>)
        })
   }"

definition w_sync_tables :: "'d bmtd \<Rightarrow> 'd en75 \<Rightarrow> (int \<times> 'd en75) option" where
  "w_sync_tables env s = do {
     s \<leftarrow> w_erase_pending env s;
     (ret, s) \<leftarrow> (if e_bmt_dirty s \<noteq> 0 then w_sync_bmt env s else Some (0, s));
     if ret \<noteq> 0 then Some (ret, s)
     else do {
       (ret, s) \<leftarrow> (if e_bbt_dirty s \<noteq> 0 \<and> \<not> e_can_write_bbt s then Some (0, s)
                   else if e_bbt_dirty s \<noteq> 0 then w_sync_bbt env s else Some (0, s));
       if ret \<noteq> 0 then Some (ret, s)
       else do {
         s \<leftarrow> w_erase_pending env s;
         Some (0, s)
       }
     }
   }"

section \<open>Remapping\<close>

definition w_make_mapping :: "'d bmtd \<Rightarrow> block_info \<Rightarrow> u16 \<Rightarrow> 'd en75 \<Rightarrow> int \<times> 'd en75" where
  "w_make_mapping env replacement_block bad_block_index s =
     (if bad_block_index \<ge> e_begin s then (- EINVAL, s)
      else if bi_status replacement_block \<noteq> BS_AVAILABLE then (- EINVAL, s)
      else w_write env (bi_index replacement_block) False
             ([0xFF, 0xFF] @ host_bytes (e_big_endian s) 2 bad_block_index) True s)"

primrec remap_copy_tries :: "nat \<Rightarrow> 'd bmtd \<Rightarrow> u16 \<Rightarrow> u16 \<Rightarrow> int \<Rightarrow> 'd en75 \<Rightarrow> 'd en75 option" where
  "remap_copy_tries 0 env dest src copy_len s = Some s"
| "remap_copy_tries (Suc n) env dest src copy_len s = do {
     (ret, buf, d) \<leftarrow> bbt_nand_copy env dest src copy_len (e_buf s) (e_dev s);
     let s = s\<lparr>e_buf := buf, e_dev := d\<rparr>;
     if ret = 0 then Some s else remap_copy_tries n env dest src copy_len s
   }"

text \<open>The first entry of the block is changed; the result is \<^const>\<open>None\<close> when there is none.\<close>

fun bmt_redirect :: "u16 \<Rightarrow> u16 \<Rightarrow> bmt_entry list \<Rightarrow> bmt_entry list option" where
  "bmt_redirect block new_block [] = None"
| "bmt_redirect block new_block (e # es) =
     (if from_blk e = block then Some (e\<lparr>to_blk := new_block\<rparr> # es)
      else map_option (Cons e) (bmt_redirect block new_block es))"

definition bmt_add :: "u16 \<Rightarrow> u16 \<Rightarrow> bmt_table \<Rightarrow> bmt_table option" where
  "bmt_add block new_block t = do {
     es \<leftarrow> arr_set (m_table t) (unat (m_size t)) \<lparr>from_blk = block, to_blk = new_block\<rparr>;
     Some (t\<lparr>m_table := es, m_size := m_size t + 1\<rparr>)
   }"

definition w_remap_block ::
  "'d bmtd \<Rightarrow> u16 \<Rightarrow> nat option \<Rightarrow> int \<Rightarrow> 'd en75 \<Rightarrow> (int \<times> 'd en75) option" where
  "w_remap_block env block maybe_mapped_block copy_len s =
     (if m_size (e_bmt s) = 0xFF then Some (- ENOSPC, s)
      else do {
        nb \<leftarrow> find_available_block env False s;
        (case nb of
           None \<Rightarrow> Some (- ENOSPC, s)
         | Some n \<Rightarrow> do {
             new_block \<leftarrow> arr_get (e_rblocks s) n;
             let (ret, s) = w_make_mapping env new_block block s;
             if ret \<noteq> 0 then do {
               s \<leftarrow> set_status n BS_NEED_ERASE s;
               Some (ret, s)
             }
             else do {
               s \<leftarrow> (if copy_len \<noteq> 0 then do {
                      copy_from \<leftarrow> (case maybe_mapped_block of
                        None \<Rightarrow> Some block
                      | Some k \<Rightarrow> map_option bi_index (arr_get (e_rblocks s) k));
                      remap_copy_tries REMAP_COPY_TRIES env (bi_index new_block) copy_from copy_len s
                    } else Some s);
               let t = e_bmt s;
               t \<leftarrow> (case bmt_redirect block (bi_index new_block) (bmt_used s) of
                      Some es \<Rightarrow> Some (t\<lparr>m_table := es @ drop (unat (m_size t)) (m_table t)\<rparr>)
                    | None \<Rightarrow> bmt_add block (bi_index new_block) t);
               let s = s\<lparr>e_bmt := t, e_bmt_dirty := e_bmt_dirty s + 1\<rparr>;
               s \<leftarrow> set_status n BS_MAPPED s;
               let s = snd (w_mark_bad env block True s);
               s \<leftarrow> (case maybe_mapped_block of None \<Rightarrow> Some s | Some k \<Rightarrow> set_status k BS_NEED_ERASE s);
               Some (0, s)
             }
           })
      })"

section \<open>Unmapping\<close>

datatype unmap_erase = UE_NO_ERASE | UE_ATTEMPT_ERASE | UE_REQUIRE_ERASE

text \<open>The position of the first entry of the block.\<close>

fun bmt_index :: "u16 \<Rightarrow> bmt_entry list \<Rightarrow> nat \<Rightarrow> nat option" where
  "bmt_index block [] i = None"
| "bmt_index block (e # es) i = (if from_blk e = block then Some i else bmt_index block es (i + 1))"

text \<open>The position in \<open>rblocks\<close> of the block with an index.\<close>

fun find_index :: "block_info list \<Rightarrow> nat list \<Rightarrow> u16 \<Rightarrow> nat option option" where
  "find_index rb [] b = Some None"
| "find_index rb (j # js) b = do {
     x \<leftarrow> arr_get rb j;
     if bi_index x = b then Some (Some j) else find_index rb js b
   }"

definition w_unmap_block :: "'d bmtd \<Rightarrow> u16 \<Rightarrow> unmap_erase \<Rightarrow> 'd en75 \<Rightarrow> (int \<times> 'd en75) option" where
  "w_unmap_block env block erase s = do {
     r \<leftarrow> (case bmt_index block (bmt_used s) 0 of
            None \<Rightarrow> Some None
          | Some i \<Rightarrow> do {
              e \<leftarrow> arr_get (m_table (e_bmt s)) i;
              j \<leftarrow> find_index (e_rblocks s) [0..<nat (reserve_block_count env s)] (to_blk e);
              Some (map_option (Pair i) j)
            });
     (case r of
        None \<Rightarrow> Some (- EINVAL, s)
      | Some (bmt_idx, mapped_block) \<Rightarrow> do {
          x \<leftarrow> arr_get (e_rblocks s) mapped_block;
          let (ret, s) = (if erase \<noteq> UE_NO_ERASE then w_erase_one env (bi_index x) False s else (0, s));
          if ret \<noteq> 0 \<and> erase = UE_REQUIRE_ERASE then Some (ret, s)
          else do {
            let t = e_bmt s;
            let bmt_size = unat (m_size t) - 1;
            last \<leftarrow> arr_get (m_table t) bmt_size;
            es \<leftarrow> arr_set (m_table t) bmt_idx last;
            es \<leftarrow> arr_set es bmt_size no_entry;
            let t = t\<lparr>m_table := es, m_size := of_nat bmt_size\<rparr>;
            s \<leftarrow> set_status mapped_block BS_NEED_ERASE (s\<lparr>e_bmt := t, e_bmt_dirty := e_bmt_dirty s + 1\<rparr>);
            Some (0, s)
          }
        })
   }"

end
