(* ===== verification/En75_Init.thy ===== *)
theory En75_Init
  imports En75_Write
begin

text \<open>
  \<open>en75_bmt.c\<close>, third part: scanning the reserve area, reconstructing the tables, the list of factory
  bad blocks of the device tree, \<open>w_init\<close>, and the operations that are registered with the core. The
  bytes that a driver leaves out of \<open>fdm\<close>, which is on the stack, are taken for zeros. The device tree
  is the record \<open>en75_node\<close>.
\<close>

section \<open>Reconstruction\<close>

text \<open>
  The second \<open>memset\<close> starts at the header and not at the table: it clears the header and the first
  251 entries.
\<close>

definition bmt_cleared :: "bmt_table \<Rightarrow> bmt_table" where
  "bmt_cleared t =
     \<lparr>m_signature = sig_BMT, m_version = 1, m_bad_count = 0, m_size = 0, m_checksum = 0,
      m_reserved = replicate 13 0, m_table = replicate 251 no_entry @ drop 251 (m_table t)\<rparr>"

function r_bmt_loop :: "'d bmtd \<Rightarrow> int \<Rightarrow> 'd en75 \<Rightarrow> 'd en75 option" where
  "r_bmt_loop env i s =
     (if i \<ge> uint (e_begin s) then do {
        (ret, buf, fdm, d) \<leftarrow> bbt_nand_read env 0 (blk_pg env (word_of_int i)) (e_buf s)
                               (unat (pg_size env)) (replicate 4 0) 4 (e_dev s);
        let s = s\<lparr>e_buf := buf, e_dev := d\<rparr>;
        if ret < 0 \<or> fdm_is_bad fdm \<noteq> BB_GOOD then r_bmt_loop env (i - 1) s
        else do {
          let mapped_block = (host_val (e_big_endian s) (drop 2 fdm) :: u16);
          if mapped_block \<ge> e_begin s then r_bmt_loop env (i - 1) s
          else do {
            t \<leftarrow> bmt_add mapped_block (word_of_int i) (e_bmt s);
            r_bmt_loop env (i - 1) (s\<lparr>e_bmt := t\<rparr>)
          }
        }
      }
      else Some s)"
  by pat_completeness auto
termination
  by (relation "measure (\<lambda>(env, i, s). nat (i - uint (e_begin s) + 1))") auto

declare r_bmt_loop.simps [simp del]

definition r_reconstruct_bmt :: "'d bmtd \<Rightarrow> 'd en75 \<Rightarrow> 'd en75 option" where
  "r_reconstruct_bmt env s =
     r_bmt_loop env (uint (total_blks env) - 1)
       (s\<lparr>e_bmt := bmt_cleared (e_bmt s), e_bmt_dirty := e_bmt_dirty s + 1\<rparr>)"

definition bbt_add :: "u16 \<Rightarrow> bbt_table \<Rightarrow> bbt_table option" where
  "bbt_add block t = do {
     es \<leftarrow> arr_set (b_table t) (unat (b_size t)) block;
     Some (t\<lparr>b_table := es, b_size := b_size t + 1\<rparr>)
   }"

fun r_bbt_loop :: "'d bmtd \<Rightarrow> nat list \<Rightarrow> 'd en75 \<Rightarrow> 'd en75 option" where
  "r_bbt_loop env [] s = Some s"
| "r_bbt_loop env (i # is) s =
     (if of_nat i \<in> set (map from_blk (bmt_used s)) then r_bbt_loop env is s
      else do {
        (ret, buf, fdm, d) \<leftarrow> bbt_nand_read env 0 (blk_pg env (of_nat i)) (e_buf s)
                               (unat (pg_size env)) (replicate 4 0) 4 (e_dev s);
        let s = s\<lparr>e_buf := buf, e_dev := d\<rparr>;
        if ret = 0 \<and> (fdm_is_bad fdm = BB_GOOD \<or> fdm_is_bad fdm = BB_WORN) then r_bbt_loop env is s
        else do {
          t \<leftarrow> bbt_add (of_nat i) (e_bbt s);
          r_bbt_loop env is (s\<lparr>e_bbt := t\<rparr>)
        }
      })"

definition r_reconstruct_bbt :: "'d bmtd \<Rightarrow> 'd en75 \<Rightarrow> (int \<times> 'd en75) option" where
  "r_reconstruct_bbt env s =
     (if m_version (e_bmt s) = 0 then Some (- EINVAL, s)
      else do {
        es \<leftarrow> buf_put (b_table (e_bbt s)) 0 (replicate (unat (e_table_size s)) 0);
        let t = \<lparr>b_signature = sig_RAWB, b_checksum = 0xFFFFFFFF, b_version = 1, b_size = 0,
                 b_reserved = [0xFF, 0xFF], b_table = es\<rparr>;
        s \<leftarrow> r_bbt_loop env [0..<unat (e_begin s)] (s\<lparr>e_bbt := t\<rparr>);
        Some (0, s\<lparr>e_bbt := sort_bbt (e_bbt s)\<rparr>)
      })"

section \<open>Scanning the reserve area\<close>

primrec scan_read_tries ::
  "nat \<Rightarrow> 'd bmtd \<Rightarrow> u32 \<Rightarrow> int \<Rightarrow> u8 list \<Rightarrow> 'd en75 \<Rightarrow> (int \<times> u8 list \<times> 'd en75) option" where
  "scan_read_tries 0 env page ret fdm s = Some (ret, fdm, s)"
| "scan_read_tries (Suc n) env page ret fdm s = do {
     (ret, buf, fdm, d) \<leftarrow> bbt_nand_read env 0 page (e_buf s) (unat (pg_size env)) fdm 4 (e_dev s);
     let s = s\<lparr>e_buf := buf, e_dev := d\<rparr>;
     if ret = 0 then Some (ret, fdm, s) else scan_read_tries n env page ret fdm s
   }"

text \<open>What a block of the reserve area holds; a table that is found is stored.\<close>

definition scan_classify ::
  "'d bmtd \<Rightarrow> int \<Rightarrow> u8 list \<Rightarrow> 'd en75 \<Rightarrow> (block_status \<times> 'd en75) option" where
  "scan_classify env ret fdm s =
     (if ret \<noteq> 0 \<or> fdm_is_bad fdm \<noteq> BB_GOOD then Some (BS_BAD, s)
      else if fdm_is_mapped fdm then Some (BS_MAPPED, s)
      else do {
        (r, bbt, ws) \<leftarrow> try_parse_bbt (e_big_endian s) (e_bbt s) (e_buf s) (unat (pg_size env))
                         (unat (e_table_size s)) (e_workspace s);
        let s = s\<lparr>e_bbt := bbt, e_workspace := ws\<rparr>;
        if r = 0 then Some (BS_BBT, s)
        else do {
          (r, bmt) \<leftarrow> try_parse_bmt (e_big_endian s) (e_bmt s) (e_buf s) (unat (pg_size env));
          let s = s\<lparr>e_bmt := bmt\<rparr>;
          if r = 0 then Some (BS_BMT, s)
          else do {
            dat \<leftarrow> buf_get (e_buf s) 0 (unat (pg_size env));
            Some (if block_is_erased dat fdm then BS_AVAILABLE else BS_NEED_ERASE, s)
          }
        }
      })"

text \<open>
  \<open>alloc\<close> is whether \<open>krealloc\<close> succeeds; \<open>available\<close> is \<open>rblocks_available\<close>. The result has the
  final \<open>cursor\<close>.
\<close>

function r_scan_loop ::
  "'d bmtd \<Rightarrow> bool \<Rightarrow> int \<Rightarrow> int \<Rightarrow> nat \<Rightarrow> u8 list \<Rightarrow> 'd en75 \<Rightarrow> (int \<times> int \<times> 'd en75) option" where
  "r_scan_loop env alloc cursor available good_blocks fdm s =
     (if cursor > 0 then
        if int (length (e_rblocks s)) \<ge> available \<and> \<not> alloc then Some (- ENOMEM, cursor, s)
        else do {
          let available = (if int (length (e_rblocks s)) \<ge> available then available + cursor else available);
          (ret, fdm, s) \<leftarrow> scan_read_tries INITIAL_READ_TRIES env (blk_pg env (word_of_int cursor)) 0 fdm s;
          (st, s) \<leftarrow> scan_classify env ret fdm s;
          if int (length (e_rblocks s)) \<ge> available then None
          else do {
            let s = s\<lparr>e_rblocks := e_rblocks s @ [\<lparr>bi_index = word_of_int cursor, bi_status = st\<rparr>]\<rparr>;
            let good_blocks = good_blocks + (if st \<noteq> BS_BAD then 1 else 0);
            if good_blocks \<ge> required_good_blocks (total_blks env) then Some (0, cursor, s)
            else r_scan_loop env alloc (cursor - 1) available good_blocks fdm s
          }
        }
      else Some (0, cursor, s))"
  by pat_completeness auto
termination
  by (relation "measure (\<lambda>(env, al, c, av, g, f, s). nat c)") auto

declare r_scan_loop.simps [simp del]

definition r_scan_reserve :: "'d bmtd \<Rightarrow> bool \<Rightarrow> 'd en75 \<Rightarrow> (int \<times> 'd en75) option" where
  "r_scan_reserve env alloc s = do {
     (ret, cursor, s) \<leftarrow> r_scan_loop env alloc (uint (total_blks env) - 1) 0 0 (replicate 4 0)
                         (s\<lparr>e_rblocks := []\<rparr>);
     Some (if ret \<noteq> 0 then (ret, s)
           else if cursor = 0 then (- ENOSPC, s)
           else (0, s\<lparr>e_begin := word_of_int cursor\<rparr>))
   }"

section \<open>Factory bad blocks of the device tree\<close>

text \<open>
  Removing the entries, from the last one: \<open>table[i]\<close> is what the swap with the last entry and its
  clearing have left there.
\<close>

fun fbb_clear_loop :: "'d bmtd \<Rightarrow> u32 list \<Rightarrow> nat list \<Rightarrow> 'd en75 \<Rightarrow> 'd en75 option" where
  "fbb_clear_loop env blocks [] s = Some s"
| "fbb_clear_loop env blocks (i # is) s = do {
     let t = e_bbt s;
     old \<leftarrow> arr_get (b_table t) i;
     let n = b_size t - 1;
     last \<leftarrow> arr_get (b_table t) (unat n);
     es \<leftarrow> arr_set (b_table t) i last;
     es \<leftarrow> arr_set es (unat n) 0;
     let s = s\<lparr>e_bbt := t\<lparr>b_table := es, b_size := n\<rparr>\<rparr>;
     if ucast old \<in> set blocks then fbb_clear_loop env blocks is s
     else do {
       b \<leftarrow> arr_get es i;
       fbb_clear_loop env blocks is (snd (w_erase_one env b True s))
     }
   }"

fun fbb_unmap_loop :: "'d bmtd \<Rightarrow> u32 list \<Rightarrow> 'd en75 \<Rightarrow> 'd en75 option" where
  "fbb_unmap_loop env [] s = Some s"
| "fbb_unmap_loop env (b # bs) s =
     (if get_mapping_block_en75 s (sint b) < uint (e_begin s) then fbb_unmap_loop env bs s
      else do {
        (_, s) \<leftarrow> w_unmap_block env (ucast b) UE_NO_ERASE s;
        fbb_unmap_loop env bs s
      })"

fun fbb_add_loop :: "'d bmtd \<Rightarrow> u32 list \<Rightarrow> 'd en75 \<Rightarrow> 'd en75 option" where
  "fbb_add_loop env [] s = Some s"
| "fbb_add_loop env (b # bs) s =
     (if b \<in> ucast ` set (bbt_used s) then fbb_add_loop env bs s
      else do {
        t \<leftarrow> bbt_add (ucast b) (e_bbt s);
        fbb_add_loop env bs (snd (w_mark_bad env (ucast b) True (s\<lparr>e_bbt := t\<rparr>)))
      })"

definition w_factory_badblocks :: "'d bmtd \<Rightarrow> u32 list \<Rightarrow> 'd en75 \<Rightarrow> (int \<times> 'd en75) option" where
  "w_factory_badblocks env blocks s =
     (if b_version (e_bbt s) = 0 then Some (- EINVAL, s)
      else if m_version (e_bmt s) = 0 then Some (- EINVAL, s)
      else if \<exists>b \<in> set blocks. b \<ge> ucast (e_begin s) then Some (- EINVAL, s)
      else if length blocks > unat (e_table_size s) then Some (- ENOSPC, s)
      else if \<not> e_can_write_bbt s then
        if unat (b_size (e_bbt s)) \<noteq> length blocks then Some (- EIO, s)
        else if \<exists>b \<in> set blocks. b \<notin> ucast ` set (bbt_used s) then Some (- EIO, s)
        else Some (0, s)
      else do {
        s \<leftarrow> fbb_clear_loop env blocks (rev [0..<unat (b_size (e_bbt s))]) s;
        s \<leftarrow> fbb_unmap_loop env blocks s;
        s \<leftarrow> fbb_add_loop env blocks s;
        Some (0, s\<lparr>e_bbt := sort_bbt (e_bbt s), e_bbt_dirty := e_bbt_dirty s + 1\<rparr>)
      })"

section \<open>Initialisation\<close>

record en75_node =
  of_table_size :: "u32 option"
  of_reserve_size :: "u32 option"
  of_can_write_bbt :: bool
  of_badblocks :: "u32 list option"
  of_enable_remap :: bool
  of_partitions :: "(u32 \<times> u32) option list"

text \<open>
  When \<open>krealloc\<close> fails, the ranges are gone but are still counted. With ranges stored before, the
  result is \<^const>\<open>None\<close>, for the null pointer that is read later on.
\<close>

definition add_remap_range :: "bool \<Rightarrow> u16 \<Rightarrow> u16 \<Rightarrow> 'd en75 \<Rightarrow> (int \<times> 'd en75) option" where
  "add_remap_range alloc begin_block size_blocks s =
     (if unat begin_block + unat size_blocks > unat (e_begin s) then Some (- EINVAL, s)
      else if \<not> alloc then (if e_ranges s = [] then Some (- ENOMEM, s) else None)
      else Some (0, s\<lparr>e_ranges := e_ranges s @ [(begin_block, begin_block + size_blocks)]\<rparr>))"

text \<open>The loop over the partitions; the property is looked for in \<open>np\<close>, the device.\<close>

fun add_partitions :: "'d bmtd \<Rightarrow> bool \<Rightarrow> en75_node \<Rightarrow> (u32 \<times> u32) option list \<Rightarrow> 'd en75 \<Rightarrow> 'd en75 option" where
  "add_partitions env alloc np [] s = Some s"
| "add_partitions env alloc np (reg # parts) s =
     (if \<not> of_enable_remap np then add_partitions env alloc np parts s
      else case reg of
        None \<Rightarrow> add_partitions env alloc np parts s
      | Some (start, len) \<Rightarrow>
          let low = push_bit (unat (blk_shift env)) 1 - 1
          in if start AND low \<noteq> 0 then add_partitions env alloc np parts s
             else if len AND low \<noteq> 0 then add_partitions env alloc np parts s
             else do {
               (_, s) \<leftarrow> add_remap_range alloc (ucast (drop_bit (unat (blk_shift env)) start))
                           (ucast (drop_bit (unat (blk_shift env)) len)) s;
               add_partitions env alloc np parts s
             })"

text \<open>Which tables are found decides which are reconstructed.\<close>

definition w_init_tables :: "'d bmtd \<Rightarrow> en75_node \<Rightarrow> 'd en75 \<Rightarrow> (int \<times> 'd en75) option" where
  "w_init_tables env np s =
     (if b_version (e_bbt s) \<noteq> 0 then
        if m_version (e_bmt s) = 0 then do { s \<leftarrow> r_reconstruct_bmt env s; Some (0, s) } else Some (0, s)
      else if \<not> e_can_write_bbt s then Some (- EIO, s)
      else if of_badblocks np \<noteq> None then
        if m_version (e_bmt s) = 0 then do { s \<leftarrow> r_reconstruct_bmt env s; Some (0, s) } else Some (0, s)
      else if m_version (e_bmt s) \<noteq> 0 then r_reconstruct_bbt env s
      else do { s \<leftarrow> r_reconstruct_bmt env s; r_reconstruct_bbt env s })"

definition w_init :: "'d bmtd \<Rightarrow> bool \<Rightarrow> en75_node \<Rightarrow> 'd en75 \<Rightarrow> (int \<times> 'd en75) option" where
  "w_init env alloc np s =
     (let table_size = (case of_table_size np of Some n \<Rightarrow> n | None \<Rightarrow> DEFAULT_BBT_TABLE_SIZE)
      in if table_size > 1000 then Some (- EINVAL, s)
      else do {
        (ret, s) \<leftarrow> r_scan_reserve env alloc (s\<lparr>e_table_size := ucast table_size\<rparr>);
        if ret \<noteq> 0 then Some (ret, s)
        else if \<exists>n. of_reserve_size np = Some n \<and> sint n \<noteq> reserve_block_count env s then Some (- EINVAL, s)
        else do {
          let s = (if of_can_write_bbt np then s\<lparr>e_can_write_bbt := True\<rparr> else s);
          s \<leftarrow> (if of_enable_remap np then do {
                 (_, s) \<leftarrow> add_remap_range alloc 0 (e_begin s) s;
                 Some s
               } else add_partitions env alloc np (of_partitions np) s);
          (ret, s) \<leftarrow> w_init_tables env np s;
          if ret \<noteq> 0 then Some (ret, s)
          else do {
            (ret, s) \<leftarrow> (case of_badblocks np of
              Some blocks \<Rightarrow> w_factory_badblocks env blocks s
            | None \<Rightarrow> Some (0, s));
            if ret \<noteq> 0 then Some (ret, s)
            else Some (0, s\<lparr>e_mtd_size :=
              scast (push_bit (unat (blk_shift env)) (ucast (e_begin s) - ucast (b_size (e_bbt s)) :: u32))\<rparr>)
          }
        }
      })"

section \<open>The operations of the scheme\<close>

definition pub_init :: "'d bmtd \<Rightarrow> bool \<Rightarrow> en75_node \<Rightarrow> 'd en75 \<Rightarrow> (int \<times> 'd en75) option" where
  "pub_init env alloc np s = do {
     (ret, s) \<leftarrow> w_init env alloc np s;
     s \<leftarrow> (if ret = 0 then do { (_, s) \<leftarrow> w_sync_tables env s; Some s } else Some s);
     Some (ret, s)
   }"

text \<open>\<open>block\<close> is a \<open>u16\<close>, so an error of the mapping is never noticed.\<close>

definition pub_remap_block :: "'d bmtd \<Rightarrow> u16 \<Rightarrow> u16 \<Rightarrow> int \<Rightarrow> 'd en75 \<Rightarrow> (bool \<times> 'd en75) option" where
  "pub_remap_block env user_block mapped_block_idx copy_len s =
     (if \<not> (\<exists>(lo, hi) \<in> set (e_ranges s). lo \<le> user_block \<and> user_block < hi) then Some (False, s)
      else
        let block = (word_of_int (get_mapping_block_bbt s (uint user_block)) :: u16)
        in if user_block \<ge> e_begin s then Some (False, s)
        else do {
          maybe_mapped_block \<leftarrow> (if mapped_block_idx \<noteq> block
            then find_index (e_rblocks s) [0..<nat (reserve_block_count env s)] mapped_block_idx
            else Some None);
          if mapped_block_idx \<noteq> block \<and> maybe_mapped_block = None then Some (False, s)
          else do {
            (ret, s) \<leftarrow> w_remap_block env block maybe_mapped_block copy_len s;
            (_, s) \<leftarrow> w_sync_tables env s;
            Some (ret \<noteq> - ENOSPC, s)
          }
        })"

definition pub_unmap_block :: "'d bmtd \<Rightarrow> u16 \<Rightarrow> 'd en75 \<Rightarrow> 'd en75 option" where
  "pub_unmap_block env user_block s =
     (let block = get_mapping_block_bbt s (uint user_block)
      in if block < 0 \<or> user_block \<ge> e_begin s then Some s
      else do {
        (_, s) \<leftarrow> w_unmap_block env (word_of_int block) UE_REQUIRE_ERASE s;
        (_, s) \<leftarrow> w_sync_tables env s;
        Some s
      })"

definition en75_ops :: "'d bmtd \<Rightarrow> ('d en75, 'd) bmt_ops" where
  "en75_ops env =
     \<lparr>remap_block = pub_remap_block env, unmap_block = pub_unmap_block env,
      get_mapping_block = (\<lambda>block s. Some (get_mapping_block_en75 s (sint block))),
      chip_of = e_dev, set_chip = (\<lambda>d s. s\<lparr>e_dev := d\<rparr>), page_buf = e_buf,
      set_page_buf = (\<lambda>b s. s\<lparr>e_buf := b\<rparr>)\<rparr>"

lemma mapping_dev: "get_mapping_block_en75 (s\<lparr>e_dev := d\<rparr>) = get_mapping_block_en75 s"
  by (rule mapping_cong) simp_all

interpretation en75_scheme: bmt_scheme "en75_ops env" for env
  by unfold_locales (simp_all add: en75_ops_def mapping_dev)

end
