(* ===== verification/En75_Steps.thy ===== *)
theory En75_Steps
  imports En75_Map En75_Init Bmt_Copy
begin

text \<open>
  What the writing functions of \<open>en75_bmt.c\<close> leave alone. \<open>quiet\<close> relates two states with the same
  tables in use, the same blocks in the reserve area and the same mapped ones, whose chips differ by
  operations inside the reserve area. Erasing pending blocks and updating the tables on flash is
  quiet; it is defined when the reserve area has no more blocks than the BMT has entries.
\<close>

section \<open>Layout and quiet steps\<close>

definition en75_env :: "'d bmtd \<Rightarrow> bool" where
  "en75_env env \<longleftrightarrow> geom_ok env \<and> drv_bounded env \<and> 2048 \<le> unat (blk_size env)"

definition shape :: "'d en75 \<Rightarrow> _" where
  "shape s =
     ((e_begin s, e_table_size s, e_ranges s, e_can_write_bbt s, e_big_endian s, length (e_buf s)),
      (b_size (e_bbt s), length (b_table (e_bbt s)), b_signature (e_bbt s), length (b_reserved (e_bbt s))),
      (m_size (e_bmt s), length (m_table (e_bmt s)), m_signature (e_bmt s), length (m_reserved (e_bmt s))),
      (map bi_index (e_rblocks s), map (\<lambda>b. bi_status b = BS_MAPPED) (e_rblocks s)), (bbt_used s, bmt_used s))"

definition reserve_addrs :: "'d bmtd \<Rightarrow> 'd en75 \<Rightarrow> u64 \<Rightarrow> bool" where
  "reserve_addrs env s = in_blocks env (ucast (e_begin s)) (ucast (total_blks env))"

definition quiet :: "'d bmtd \<Rightarrow> 'd en75 \<Rightarrow> 'd en75 \<Rightarrow> bool" where
  "quiet env s s' \<longleftrightarrow> shape s' = shape s \<and> dev_steps env (reserve_addrs env s) (e_dev s) (e_dev s')"

lemma shape_begin: "shape s' = shape s \<Longrightarrow> e_begin s' = e_begin s"
  by (simp add: shape_def)

lemma quiet_refl [simp]: "quiet env s s"
  by (simp add: quiet_def steps_refl)

lemma quiet_trans [trans]: "quiet env s s1 \<Longrightarrow> quiet env s1 s2 \<Longrightarrow> quiet env s s2"
  using shape_begin [of s1 s] by (auto simp: quiet_def reserve_addrs_def intro: dev_steps_trans)

text \<open>The layout that the scan leaves: the blocks of the reserve area from the last one down.\<close>

definition layout :: "'d bmtd \<Rightarrow> 'd en75 \<Rightarrow> bool" where
  "layout env s \<longleftrightarrow> e_begin s < total_blks env \<and>
     map bi_index (e_rblocks s) = map (\<lambda>i. total_blks env - 1 - of_nat i) [0..<unat (total_blks env) - unat (e_begin s)] \<and>
     length (b_table (e_bbt s)) = MAX_BBT_SIZE \<and> b_signature (e_bbt s) = sig_RAWB \<and> length (b_reserved (e_bbt s)) = 2 \<and>
     length (m_table (e_bmt s)) = MAX_BMT_SIZE \<and> m_signature (e_bmt s) = sig_BMT \<and> length (m_reserved (e_bmt s)) = 13 \<and>
     unat (e_table_size s) \<le> MAX_BBT_SIZE \<and> unat (pg_size env) \<le> length (e_buf s)"

lemma shape_layout: "shape s' = shape s \<Longrightarrow> layout env s' = layout env s"
  by (simp add: shape_def layout_def)

lemma quiet_layout: "quiet env s s' \<Longrightarrow> layout env s' = layout env s"
  by (rule shape_layout) (simp add: quiet_def)

lemma reserve_count:
  assumes "layout env s"
  shows "nat (reserve_block_count env s) = length (e_rblocks s)"
    and "length (e_rblocks s) = unat (total_blks env) - unat (e_begin s)"
proof -
  have "map bi_index (e_rblocks s) =
      map (\<lambda>i. total_blks env - 1 - of_nat i) [0..<unat (total_blks env) - unat (e_begin s)]"
    using assms by (simp add: layout_def)
  from arg_cong [OF this, of length] show len: "length (e_rblocks s) = unat (total_blks env) - unat (e_begin s)" by simp
  show "nat (reserve_block_count env s) = length (e_rblocks s)"
    unfolding len reserve_block_count_def uint_nat by arith
qed

lemma shape_status:
  assumes "shape s' = shape s" and "i < length (e_rblocks s)"
  shows "i < length (e_rblocks s')" "bi_index (e_rblocks s' ! i) = bi_index (e_rblocks s ! i)"
    "bi_status (e_rblocks s' ! i) = BS_MAPPED \<longleftrightarrow> bi_status (e_rblocks s ! i) = BS_MAPPED"
proof -
  have m: "map bi_index (e_rblocks s') = map bi_index (e_rblocks s)"
    "map (\<lambda>b. bi_status b = BS_MAPPED) (e_rblocks s') = map (\<lambda>b. bi_status b = BS_MAPPED) (e_rblocks s)"
    using assms(1) by (simp_all add: shape_def)
  have "length (e_rblocks s') = length (e_rblocks s)" using arg_cong [OF m(1), of length] by simp
  then show "i < length (e_rblocks s')" using assms(2) by simp
  then show "bi_index (e_rblocks s' ! i) = bi_index (e_rblocks s ! i)"
    "bi_status (e_rblocks s' ! i) = BS_MAPPED \<longleftrightarrow> bi_status (e_rblocks s ! i) = BS_MAPPED"
    using arg_cong [OF m(1), of "\<lambda>xs. xs ! i"] arg_cong [OF m(2), of "\<lambda>xs. xs ! i"] assms(2) by simp_all
qed

section \<open>Single operations\<close>

lemma write_tries_steps:
  "spans A a (length dat) \<Longrightarrow> dev_steps env A d (snd (w_write_tries n env a dat oob ret d))"
proof (induction n arbitrary: ret d)
  case (Suc n)
  have "dev_steps env A d (snd (drv_write_oob env d a dat oob 0))"
    by (rule dev_steps_single [OF step_write [OF Suc.prems]])
  then show ?case using dev_steps_trans [OF _ Suc.IH [OF Suc.prems]] by (auto simp: split_beta)
qed (simp add: steps_refl)

lemma erase_tries_steps:
  assumes "geom_ok env"
  shows "dev_steps env (block_addrs env (ucast bi)) d (snd (w_erase_tries n env bi ret d))"
proof (induction n arbitrary: ret d)
  case (Suc n)
  then show ?case using erase_step [OF assms, of bi d] dev_steps_trans [OF erase_step [OF assms]]
    by (auto simp: split_beta)
qed (simp add: steps_refl)

lemma spans_from_start:
  assumes "geom_ok env" and "n \<le> unat (blk_size env)"
  shows "spans (block_addrs env ba) (blk_addr env ba) n"
proof (cases "n = 0")
  case True
  then show ?thesis using block_addr_start [OF assms(1)] by (simp add: spans_def)
next
  case False
  then show ?thesis
    using assms by (intro spans_block) (simp_all add: unat_blk_addr geom_ok_def)
qed

lemma shape_dev [simp]: "shape (s\<lparr>e_dev := d\<rparr>) = shape s"
  by (simp add: shape_def)

lemma sane_reserve:
  "block_index_is_sane env s bi False \<Longrightarrow> block_addrs env (ucast bi) a \<Longrightarrow> reserve_addrs env s a"
  by (simp add: block_index_is_sane_def reserve_addrs_def block_addrs_def in_blocks_def unat_le not_le
      unat_less unsigned_ucast_eq take_bit_nat_eq_self unat_u16_u32)

lemma w_write_keeps:
  "\<exists>d. snd (w_write env bi user buf oob s) = s\<lparr>e_dev := d\<rparr>"
  by (cases "w_write env bi user buf oob s") (auto simp: w_write_def split: prod.splits if_splits intro: exI [of _ "e_dev s"])

lemma w_write_steps:
  assumes "en75_env env" and "length buf \<le> unat (blk_size env)"
  shows "dev_steps env (block_addrs env (ucast bi)) (e_dev s) (e_dev (snd (w_write env bi user buf oob s)))"
proof -
  have "spans (block_addrs env (ucast bi)) (blk_addr env (ucast bi)) (length (if oob then [] else buf))"
    using assms by (intro spans_from_start) (simp_all add: en75_env_def)
  from write_tries_steps [OF this] show ?thesis by (auto simp: w_write_def steps_refl split_beta)
qed

lemma w_write_quiet:
  assumes "en75_env env" and "length buf \<le> unat (blk_size env)"
  shows "quiet env s (snd (w_write env bi False buf oob s))"
proof (cases "block_index_is_sane env s bi False")
  case True
  obtain d where d: "snd (w_write env bi False buf oob s) = s\<lparr>e_dev := d\<rparr>"
    using w_write_keeps [of env bi False buf oob s] by auto
  have "dev_steps env (reserve_addrs env s) (e_dev s) (e_dev (snd (w_write env bi False buf oob s)))"
    by (rule dev_steps_mono [OF w_write_steps [OF assms] sane_reserve [OF True]])
  then show ?thesis by (simp add: quiet_def d)
qed (simp add: w_write_def)

lemma w_mark_bad_quiet: "en75_env env \<Longrightarrow> quiet env s (snd (w_mark_bad env bi False s))"
  unfolding w_mark_bad_def by (rule w_write_quiet) (simp_all add: en75_env_def)

lemma w_erase_one_quiet:
  assumes "en75_env env"
  shows "quiet env s (snd (w_erase_one env bi False s))"
proof (cases "block_index_is_sane env s bi False")
  case True
  have "dev_steps env (reserve_addrs env s) (e_dev s) (snd (w_erase_tries ERASE_TRIES env bi 0 (e_dev s)))"
    using assms by (intro dev_steps_mono [OF erase_tries_steps sane_reserve [OF True]]) (simp_all add: en75_env_def)
  then show ?thesis using True by (simp add: w_erase_one_def quiet_def split_beta)
qed (simp add: w_erase_one_def)

lemma set_status_shape:
  assumes "i < length (e_rblocks s)" and "bi_status (e_rblocks s ! i) = BS_MAPPED \<longleftrightarrow> st = BS_MAPPED"
  shows "returns (set_status i st s) (\<lambda>s'. quiet env s s' \<and>
    s' = s\<lparr>e_rblocks := (e_rblocks s)[i := (e_rblocks s ! i)\<lparr>bi_status := st\<rparr>]\<rparr>)"
proof -
  let ?rb = "(e_rblocks s)[i := (e_rblocks s ! i)\<lparr>bi_status := st\<rparr>]"
  have "map bi_index ?rb = map bi_index (e_rblocks s)"
    by (simp add: map_update list_update_same_conv assms(1))
  moreover have "map (\<lambda>b. bi_status b = BS_MAPPED) ?rb = map (\<lambda>b. bi_status b = BS_MAPPED) (e_rblocks s)"
    using assms by (simp add: map_update list_update_same_conv)
  ultimately have "shape (s\<lparr>e_rblocks := ?rb\<rparr>) = shape s" by (simp add: shape_def)
  then show ?thesis using assms(1)
    by (simp add: set_status_def arr_get_def arr_set_def quiet_def steps_refl)
qed

section \<open>Loops over the reserve area\<close>

abbreviation status :: "'d en75 \<Rightarrow> nat \<Rightarrow> block_status" where
  "status s i \<equiv> bi_status (e_rblocks s ! i)"

lemma find_status_spec:
  "\<forall>i \<in> set is. i < length rb \<Longrightarrow> returns (find_status rb is st) (\<lambda>r. case r of
     None \<Rightarrow> \<forall>i \<in> set is. bi_status (rb ! i) \<noteq> st | Some i \<Rightarrow> i \<in> set is \<and> bi_status (rb ! i) = st)"
  by (induction "is") (auto simp: arr_get_def elim!: returns_mono split: option.splits)

lemma find_available_spec:
  assumes "layout env s"
  shows "returns (find_available_block env fe s) (\<lambda>r. case r of
    None \<Rightarrow> \<forall>i < length (e_rblocks s). status s i \<noteq> BS_AVAILABLE
  | Some i \<Rightarrow> i < length (e_rblocks s) \<and> status s i = BS_AVAILABLE)"
  unfolding find_available_block_def Let_def reserve_count(1) [OF assms]
  by (rule returns_mono [OF find_status_spec]) (auto split: option.splits if_splits)

lemma quiet_length: "quiet env s s' \<Longrightarrow> length (e_rblocks s') = length (e_rblocks s)"
  unfolding quiet_def shape_def by (metis (no_types, lifting) length_map prod.inject)

definition tables :: "'d en75 \<Rightarrow> _" where
  "tables s = (e_bmt s, e_bmt_dirty s, e_bbt s, e_bbt_dirty s)"

lemma tables_upd [simp]: "tables (s\<lparr>e_dev := d\<rparr>) = tables s" "tables (s\<lparr>e_rblocks := rb\<rparr>) = tables s"
  by (simp_all add: tables_def)

text \<open>The tables and blocks are as before, or their status goes from one in \<open>P\<close> to one in \<open>Q\<close>.\<close>

definition moves :: "block_status set \<Rightarrow> block_status set \<Rightarrow> 'd en75 \<Rightarrow> 'd en75 \<Rightarrow> bool" where
  "moves P Q s s' \<longleftrightarrow> tables s' = tables s \<and> (\<forall>j < length (e_rblocks s). e_rblocks s' ! j = e_rblocks s ! j \<or>
     status s j \<in> P \<and> status s' j \<in> Q)"

lemma moves_refl [simp]: "moves P Q s s"
  by (simp add: moves_def)

lemma moves_trans:
  "moves P Q s s1 \<Longrightarrow> moves P' Q' s1 s2 \<Longrightarrow> length (e_rblocks s1) = length (e_rblocks s) \<Longrightarrow>
   moves (P \<union> P') (Q \<union> Q') s s2"
  unfolding moves_def by (metis UnCI)

lemma moves_again:
  "moves P Q s s1 \<Longrightarrow> moves P Q s1 s2 \<Longrightarrow> length (e_rblocks s1) = length (e_rblocks s) \<Longrightarrow> moves P Q s s2"
  using moves_trans [of P Q s s1 P Q s2] by simp

lemma moves_mono: "moves P Q s s' \<Longrightarrow> P \<subseteq> P' \<Longrightarrow> Q \<subseteq> Q' \<Longrightarrow> moves P' Q' s s'"
  unfolding moves_def by blast

lemma moves_stays: "moves P Q s s' \<Longrightarrow> j < length (e_rblocks s) \<Longrightarrow> status s j \<notin> P \<Longrightarrow> e_rblocks s' ! j = e_rblocks s ! j"
  unfolding moves_def by blast

lemma moves_none_new: "moves P Q s s' \<Longrightarrow> j < length (e_rblocks s) \<Longrightarrow> status s' j \<notin> Q \<Longrightarrow> e_rblocks s' ! j = e_rblocks s ! j"
  unfolding moves_def by blast

lemma erase_step_spec:
  assumes "en75_env env" and "i < length (e_rblocks s)" and "status s i = BS_NEED_ERASE"
  shows "returns (do {
      let (ret, s) = w_erase_one env (bi_index (e_rblocks s ! i)) False s;
      if ret \<noteq> 0 then
        let s = (if ret = - EINVAL then s else snd (w_mark_bad env (bi_index (e_rblocks s ! i)) False s))
        in set_status i BS_BAD s
      else set_status i BS_AVAILABLE s })
    (\<lambda>s'. quiet env s s' \<and> moves {BS_NEED_ERASE} {BS_BAD, BS_AVAILABLE} s s' \<and> status s' i \<noteq> BS_NEED_ERASE)"
proof -
  obtain ret s1 where e: "w_erase_one env (bi_index (e_rblocks s ! i)) False s = (ret, s1)" by force
  have q: "quiet env s s1" using w_erase_one_quiet [OF assms(1), of s "bi_index (e_rblocks s ! i)"] e by simp
  have rb: "e_rblocks s1 = e_rblocks s" "tables s1 = tables s"
    using e by (auto simp: w_erase_one_def split: if_splits prod.splits)
  define s2 where "s2 = (if ret = 0 \<or> ret = - EINVAL then s1 else snd (w_mark_bad env (bi_index (e_rblocks s1 ! i)) False s1))"
  obtain d where d: "snd (w_mark_bad env (bi_index (e_rblocks s1 ! i)) False s1) = s1\<lparr>e_dev := d\<rparr>"
    unfolding w_mark_bad_def by (rule exE [OF w_write_keeps])
  have "quiet env s1 s2" unfolding s2_def using w_mark_bad_quiet [OF assms(1)] by simp
  then have q2: "quiet env s s2" by (rule quiet_trans [OF q])
  have rb2: "e_rblocks s2 = e_rblocks s" "tables s2 = tables s" using rb d by (simp_all add: s2_def)
  have "returns (set_status i st s2) (\<lambda>s'. quiet env s s' \<and> moves {BS_NEED_ERASE} {BS_BAD, BS_AVAILABLE} s s' \<and>
      status s' i \<noteq> BS_NEED_ERASE)" if "st = BS_BAD \<or> st = BS_AVAILABLE" for st
  proof (rule returns_mono [OF set_status_shape])
    show "i < length (e_rblocks s2)" "bi_status (e_rblocks s2 ! i) = BS_MAPPED \<longleftrightarrow> st = BS_MAPPED"
      using assms(2,3) that by (auto simp: rb2)
    fix s' assume a: "quiet env s2 s' \<and> s' = s2\<lparr>e_rblocks := (e_rblocks s2)[i := (e_rblocks s2 ! i)\<lparr>bi_status := st\<rparr>]\<rparr>"
    then show "quiet env s s' \<and> moves {BS_NEED_ERASE} {BS_BAD, BS_AVAILABLE} s s' \<and> status s' i \<noteq> BS_NEED_ERASE"
      using quiet_trans [OF q2] assms(2,3) that by (auto simp: rb2 moves_def nth_list_update)
  qed
  from this [of "if ret = 0 then BS_AVAILABLE else BS_BAD"] show ?thesis
    using rb by (auto simp: e s2_def)
qed

lemma erase_pending_loop_spec:
  assumes "en75_env env" and "\<forall>i \<in> set is. i < length (e_rblocks s)"
  shows "returns (w_erase_pending_loop env is s) (\<lambda>s'. quiet env s s' \<and>
    moves {BS_NEED_ERASE} {BS_BAD, BS_AVAILABLE} s s' \<and> (\<forall>i \<in> set is. status s' i \<noteq> BS_NEED_ERASE))"
  using assms(2)
proof (induction "is" arbitrary: s)
  case (Cons i "is")
  let ?K = "moves {BS_NEED_ERASE} {BS_BAD, BS_AVAILABLE}"
  have i: "i < length (e_rblocks s)" using Cons.prems by simp
  show ?case
  proof (cases "status s i = BS_NEED_ERASE")
    case False
    then show ?thesis
      using i Cons.prems by (auto simp: arr_get_def elim!: returns_mono [OF Cons.IH] dest: moves_stays [of _ _ s _ i])
  next
    case True
    let ?m = "do {
      let (ret, s) = w_erase_one env (bi_index (e_rblocks s ! i)) False s;
      if ret \<noteq> 0 then
        let s = (if ret = - EINVAL then s else snd (w_mark_bad env (bi_index (e_rblocks s ! i)) False s))
        in set_status i BS_BAD s
      else set_status i BS_AVAILABLE s }"
    obtain s1 where s1: "?m = Some s1" "quiet env s s1" "?K s s1" "status s1 i \<noteq> BS_NEED_ERASE"
      using erase_step_spec [OF assms(1) i True] by (auto simp: returns_eq)
    have rb: "e_rblocks (snd (w_erase_one env (bi_index (e_rblocks s ! i)) False s)) = e_rblocks s"
      by (auto simp: w_erase_one_def split_beta)
    have run: "w_erase_pending_loop env (i # is) s = w_erase_pending_loop env is s1"
      using s1(1) i True rb by (auto simp: arr_get_def Let_def split_beta split: if_splits)
    note len = quiet_length [OF s1(2)]
    have "returns (w_erase_pending_loop env is s1) (\<lambda>s'. quiet env s1 s' \<and> ?K s1 s' \<and>
        (\<forall>i \<in> set is. status s' i \<noteq> BS_NEED_ERASE))"
      using Cons.prems len by (intro Cons.IH) simp
    then show ?thesis unfolding run
    proof (rule returns_mono)
      fix s' assume a: "quiet env s1 s' \<and> ?K s1 s' \<and> (\<forall>i \<in> set is. status s' i \<noteq> BS_NEED_ERASE)"
      have "e_rblocks s' ! i = e_rblocks s1 ! i"
        using a s1(4) i len by (intro moves_stays [of "{BS_NEED_ERASE}" "{BS_BAD, BS_AVAILABLE}"]) simp_all
      then show "quiet env s s' \<and> ?K s s' \<and> (\<forall>i \<in> set (i # is). status s' i \<noteq> BS_NEED_ERASE)"
        using a s1(2-4) len quiet_trans [OF s1(2)] moves_again [OF s1(3)] by auto
    qed
  qed
qed simp

lemma erase_pending_spec:
  assumes "en75_env env" and "layout env s"
  shows "returns (w_erase_pending env s) (\<lambda>s'. quiet env s s' \<and> moves {BS_NEED_ERASE} {BS_BAD, BS_AVAILABLE} s s' \<and>
    (\<forall>i < length (e_rblocks s). status s' i \<noteq> BS_NEED_ERASE))"
  unfolding w_erase_pending_def reserve_count(1) [OF assms(2)]
  by (rule returns_mono [OF erase_pending_loop_spec [OF assms(1)]]) auto

lemma mark_loop_spec:
  assumes "st \<noteq> BS_MAPPED" and "st \<noteq> BS_NEED_ERASE" and "\<forall>i \<in> set is. i < length (e_rblocks s)"
  shows "returns (mark_loop is st s) (\<lambda>s'. quiet env s s' \<and> moves {st} {BS_NEED_ERASE} s s' \<and>
    (\<forall>i \<in> set is. status s' i \<noteq> st))"
  using assms(3)
proof (induction "is" arbitrary: s)
  case (Cons i "is")
  let ?M = "moves {st} {BS_NEED_ERASE}"
  have i: "i < length (e_rblocks s)" using Cons.prems by simp
  show ?case
  proof (cases "status s i = st")
    case False
    then show ?thesis
      using i Cons.prems by (auto simp: arr_get_def elim!: returns_mono [OF Cons.IH] dest: moves_stays [of _ _ s _ i])
  next
    case True
    obtain s1 where s1: "set_status i BS_NEED_ERASE s = Some s1" "quiet env s s1"
      "s1 = s\<lparr>e_rblocks := (e_rblocks s)[i := (e_rblocks s ! i)\<lparr>bi_status := BS_NEED_ERASE\<rparr>]\<rparr>"
      using set_status_shape [OF i, of BS_NEED_ERASE env] True assms(1) by (auto simp: returns_eq)
    have m: "?M s s1" using s1(3) True i by (simp add: moves_def nth_list_update)
    note len = quiet_length [OF s1(2)]
    have "returns (mark_loop is st s1) (\<lambda>s'. quiet env s1 s' \<and> ?M s1 s' \<and> (\<forall>i \<in> set is. status s' i \<noteq> st))"
      using Cons.prems len by (intro Cons.IH) simp
    then show ?thesis using i True s1(1)
    proof (simp add: arr_get_def, elim returns_mono)
      fix s' assume a: "quiet env s1 s' \<and> ?M s1 s' \<and> (\<forall>i \<in> set is. status s' i \<noteq> st)"
      have "status s1 i \<notin> {st}" using s1(3) i assms(2) by simp
      then have "e_rblocks s' ! i = e_rblocks s1 ! i" using a i len by (intro moves_stays [of "{st}" "{BS_NEED_ERASE}"]) simp_all
      then show "quiet env s s' \<and> ?M s s' \<and> status s' i \<noteq> st \<and> (\<forall>i \<in> set is. status s' i \<noteq> st)"
        using a s1(2,3) i assms(2) len quiet_trans [OF s1(2)] moves_again [OF m] by auto
    qed
  qed
qed simp

lemma mark_for_erasure_spec:
  assumes "layout env s" and "st \<noteq> BS_MAPPED" and "st \<noteq> BS_NEED_ERASE"
  shows "returns (mark_for_erasure env st s) (\<lambda>s'. quiet env s s' \<and> moves {st} {BS_NEED_ERASE} s s' \<and>
    (\<forall>i < length (e_rblocks s). status s' i \<noteq> st))"
  unfolding mark_for_erasure_def reserve_count(1) [OF assms(1)]
  by (rule returns_mono [OF mark_loop_spec [OF assms(2,3)]]) auto

section \<open>Updating a table\<close>

text \<open>The driver has reported success for a write of the bytes to the start of the block.\<close>

definition stored :: "'d bmtd \<Rightarrow> u16 \<Rightarrow> u8 list \<Rightarrow> bool" where
  "stored env bi buf \<longleftrightarrow> (\<exists>d. wr_ret (fst (drv_write_oob env d (blk_addr env (ucast bi)) buf [] 0)) = 0)"

lemma write_tries_ok:
  "fst (w_write_tries n env a dat oob ret d) = 0 \<Longrightarrow> 0 < n \<Longrightarrow> \<exists>d. wr_ret (fst (drv_write_oob env d a dat oob 0)) = 0"
proof (induction n arbitrary: ret d)
  case (Suc n)
  then show ?case by (cases n) (auto simp: split_beta split: if_splits)
qed simp

lemma w_write_stored: "fst (w_write env bi False buf False s) = 0 \<Longrightarrow> stored env bi buf"
  unfolding w_write_def stored_def
  by (auto simp: split_beta dest!: write_tries_ok split: if_splits)

lemma update_tries_spec:
  assumes "en75_env env" and "layout env s" and "length buf \<le> unat (blk_size env)"
  shows "returns (w_update_tries n env fe buf s) (\<lambda>(r, s'). quiet env s s' \<and>
    moves {BS_AVAILABLE} {BS_NEED_ERASE} s s' \<and>
    (case r of Inl e \<Rightarrow> e \<noteq> 0
     | Inr i \<Rightarrow> i < length (e_rblocks s) \<and> status s' i = BS_AVAILABLE \<and> stored env (bi_index (e_rblocks s ! i)) buf))"
  using assms(2)
proof (induction n arbitrary: s)
  case (Suc n)
  let ?M = "moves {BS_AVAILABLE} {BS_NEED_ERASE}"
  obtain r where r: "find_available_block env fe s = Some r"
    "case r of None \<Rightarrow> True | Some i \<Rightarrow> i < length (e_rblocks s) \<and> status s i = BS_AVAILABLE"
    using find_available_spec [OF Suc.prems, of fe] by (auto simp: returns_eq split: option.splits)
  show ?case
  proof (cases r)
    case None
    then show ?thesis using r(1) by simp
  next
    case (Some i)
    then have i: "i < length (e_rblocks s)" "status s i = BS_AVAILABLE" using r(2) by auto
    obtain ret s1 where w: "w_write env (bi_index (e_rblocks s ! i)) False buf False s = (ret, s1)" by force
    have q1: "quiet env s s1" using w_write_quiet [OF assms(1,3), of s "bi_index (e_rblocks s ! i)" False] w by simp
    obtain d where "snd (w_write env (bi_index (e_rblocks s ! i)) False buf False s) = s\<lparr>e_dev := d\<rparr>"
      by (rule exE [OF w_write_keeps])
    then have rb1: "e_rblocks s1 = e_rblocks s" "tables s1 = tables s" using w by simp_all
    show ?thesis
    proof (cases "ret = 0")
      case True
      then have "stored env (bi_index (e_rblocks s ! i)) buf" using w_write_stored w by (metis fst_conv)
      then show ?thesis
        using r(1) Some i w True q1 rb1 by (simp add: arr_get_def moves_def)
    next
      case False
      obtain s2 where s2: "set_status i BS_NEED_ERASE s1 = Some s2" "quiet env s1 s2"
        "s2 = s1\<lparr>e_rblocks := (e_rblocks s1)[i := (e_rblocks s1 ! i)\<lparr>bi_status := BS_NEED_ERASE\<rparr>]\<rparr>"
        using set_status_shape [of i s1 BS_NEED_ERASE env] i rb1 by (auto simp: returns_eq)
      have q2: "quiet env s s2" by (rule quiet_trans [OF q1 s2(2)])
      have m: "?M s s2" using s2(3) i by (simp add: moves_def rb1 nth_list_update)
      note len = quiet_length [OF q2]
      have idx: "bi_index (e_rblocks s2 ! j) = bi_index (e_rblocks s ! j)" if "j < length (e_rblocks s)" for j
        using that q2 shape_status(2) by (auto simp: quiet_def)
      have "layout env s2" using quiet_layout [OF q2] Suc.prems by simp
      from Suc.IH [OF this]
      have "returns (w_update_tries n env fe buf s2) (\<lambda>(r, s'). quiet env s s' \<and> ?M s s' \<and>
        (case r of Inl e \<Rightarrow> e \<noteq> 0
         | Inr i \<Rightarrow> i < length (e_rblocks s) \<and> status s' i = BS_AVAILABLE \<and> stored env (bi_index (e_rblocks s ! i)) buf))"
        by (rule returns_mono)
          (use idx len q2 m in \<open>auto intro: quiet_trans split: sum.splits intro: moves_again [OF m]\<close>)
      then show ?thesis using r(1) Some i w False s2(1) by (simp add: arr_get_def)
    qed
  qed
qed simp

end
