(* ===== verification/En75_Codec.thy ===== *)
theory En75_Codec
  imports En75_Tables
begin

text \<open>
  The tables of \<open>en75_bmt.c\<close> as bytes: reading back what was written gives the table, in either byte
  order, and a table with its checksum passes the checks of the parsers.
\<close>

section \<open>Numbers\<close>

lemma length_host_bytes [simp]: "length (host_bytes big n w) = n"
  by (simp add: host_bytes_def)

lemma host_val_bytes: "LENGTH('a) \<le> 8 * n \<Longrightarrow> host_val big (host_bytes big n w) = (w :: 'a::len word)"
  by (simp add: host_val_def host_bytes_def le_val_le_bytes_full)

lemma length_entry_bytes [simp]: "length (entry_bytes big e) = 4"
  by (simp add: entry_bytes_def)

lemma entry_of_bytes: "entry_of big (entry_bytes big e) = e"
  by (simp add: entry_of_def entry_bytes_def host_val_bytes)

text \<open>The \<open>i\<close>-th piece of a concatenation of pieces of one length.\<close>

lemma concat_piece:
  assumes "\<forall>x \<in> set xs. length (f x) = k" and "i < length xs"
  shows "take k (drop (k * i) (concat (map f xs))) = f (xs ! i)"
  using assms
proof (induction xs arbitrary: i)
  case (Cons x xs)
  then show ?case by (cases i) simp_all
qed simp

lemma length_concat_pieces: "\<forall>x \<in> set xs. length (f x) = k \<Longrightarrow> length (concat (map f xs)) = k * length xs"
  by (induction xs) simp_all

lemma list_of_4: "length xs = 4 \<Longrightarrow> \<exists>a b c d. xs = [a, b, c, d]"
  and list_of_2: "length xs = 2 \<Longrightarrow> \<exists>a b. xs = [a, b]"
  by (auto simp: numeral_eq_Suc length_Suc_conv)

section \<open>The BMT\<close>

definition bmt_shaped :: "bmt_table \<Rightarrow> bool" where
  "bmt_shaped t \<longleftrightarrow> length (m_signature t) = 3 \<and> length (m_reserved t) = 13 \<and> length (m_table t) = MAX_BMT_SIZE"

lemma length_bmt_bytes: "bmt_shaped t \<Longrightarrow> length (bmt_bytes big t) = 1044"
  by (simp add: bmt_bytes_def bmt_shaped_def length_concat_pieces [where k = 4] del: length_concat)

lemma bmt_of_bytes:
  assumes "bmt_shaped t"
  shows "bmt_of big (bmt_bytes big t) = t"
proof -
  obtain a b c where sig: "m_signature t = [a, b, c]"
    using assms by (auto simp: bmt_shaped_def numeral_eq_Suc length_Suc_conv)
  note s = assms [unfolded bmt_shaped_def]
  have "map (\<lambda>i. entry_of big (take 4 (drop (20 + 4 * i) (bmt_bytes big t)))) [0..<MAX_BMT_SIZE] = m_table t"
  proof (rule nth_equalityI)
    fix i assume "i < length (map (\<lambda>i. entry_of big (take 4 (drop (20 + 4 * i) (bmt_bytes big t)))) [0..<MAX_BMT_SIZE])"
    then have i: "i < length (m_table t)" using s by simp
    let ?H = "m_signature t @ [m_version t, m_bad_count t, m_size t, m_checksum t] @ m_reserved t"
    have "length ?H = 20" "bmt_bytes big t = ?H @ concat (map (entry_bytes big) (m_table t))"
      using s by (simp_all add: bmt_bytes_def)
    then have "drop (20 + 4 * i) (bmt_bytes big t) = drop (4 * i) (concat (map (entry_bytes big) (m_table t)))"
      by (simp only: drop_append) simp
    then have "take 4 (drop (20 + 4 * i) (bmt_bytes big t)) = entry_bytes big (m_table t ! i)"
      using concat_piece [of "m_table t" "entry_bytes big" 4 i] i by simp
    then show "map (\<lambda>i. entry_of big (take 4 (drop (20 + 4 * i) (bmt_bytes big t)))) [0..<MAX_BMT_SIZE] ! i = m_table t ! i"
      using i s by (simp add: entry_of_bytes)
  qed (use s in simp)
  then show ?thesis using s by (simp add: bmt_of_def) (simp add: bmt_bytes_def sig)
qed

lemma parse_bmt:
  assumes "bmt_shaped t" and "m_signature t = sig_BMT" and "bmt_checksum big t (unat (m_size t)) = Some (m_checksum t)"
    and "1044 \<le> len"
  shows "try_parse_bmt big out (bmt_bytes big t @ rest) len = Some (0, t)"
  using assms by (simp add: try_parse_bmt_def buf_get_def length_bmt_bytes bmt_of_bytes)

section \<open>The BBT\<close>

definition bbt_shaped :: "bbt_table \<Rightarrow> bool" where
  "bbt_shaped t \<longleftrightarrow> length (b_signature t) = 4 \<and> length (b_reserved t) = 2 \<and> length (b_table t) = MAX_BBT_SIZE"

lemma length_bbt_bytes: "bbt_shaped t \<Longrightarrow> length (bbt_bytes big t) = 2012"
  by (simp add: bbt_bytes_def bbt_shaped_def length_concat_pieces [where k = 2] del: length_concat)

lemma bbt_load_bytes:
  assumes "bbt_shaped t" and "n \<le> MAX_BBT_SIZE"
  shows "bbt_load big n (take (12 + 2 * n) (bbt_bytes big t)) ws =
    t\<lparr>b_table := take n (b_table t) @ drop n (b_table ws)\<rparr>"
proof -
  note s = assms(1) [unfolded bbt_shaped_def]
  obtain a b c d where sig: "b_signature t = [a, b, c, d]" using list_of_4 s by blast
  obtain e f g h where sum: "host_bytes big 4 (b_checksum t) = [e, f, g, h]"
    using list_of_4 [OF length_host_bytes] by blast
  obtain k l where res: "b_reserved t = [k, l]" using list_of_2 s by blast
  let ?bs = "take (12 + 2 * n) (bbt_bytes big t)"
  define H where "H = [a, b, c, d, e, f, g, h, b_version t, b_size t, k, l]"
  have H: "length H = 12" by (simp add: H_def)
  have "bbt_bytes big t = H @ concat (map (host_bytes big 2) (b_table t))"
    by (simp add: bbt_bytes_def sig sum res H_def)
  then have bs: "?bs = H @ take (2 * n) (concat (map (host_bytes big 2) (b_table t)))"
    by (simp add: H)
  have "map (\<lambda>i. host_val big (take 2 (drop (12 + 2 * i) ?bs))) [0..<n] = take n (b_table t)"
  proof (rule nth_equalityI)
    fix i assume "i < length (map (\<lambda>i. host_val big (take 2 (drop (12 + 2 * i) ?bs)) :: u16) [0..<n])"
    then have i: "i < n" by simp
    have "take 2 (drop (12 + 2 * i) ?bs) = take 2 (drop (2 * i) (concat (map (host_bytes big 2) (b_table t))))"
      using i unfolding bs by (simp add: H drop_take min_def)
    also have "\<dots> = host_bytes big 2 (b_table t ! i)"
      using i s assms(2) by (intro concat_piece) simp_all
    finally show "map (\<lambda>i. host_val big (take 2 (drop (12 + 2 * i) ?bs))) [0..<n] ! i = take n (b_table t) ! i"
      using i by (simp add: host_val_bytes)
  qed (use s assms(2) in simp)
  moreover have "host_val big [e, f, g, h] = b_checksum t"
    unfolding sum [symmetric] by (rule host_val_bytes) simp
  ultimately show ?thesis unfolding bbt_load_def by (simp add: bs) (simp add: H_def sig res)
qed

lemma bbt_checksum_cong:
  "take n (b_table t) = take n (b_table u) \<Longrightarrow> n \<le> length (b_table t) \<Longrightarrow> n \<le> length (b_table u) \<Longrightarrow>
   b_version t = b_version u \<Longrightarrow> b_size t = b_size u \<Longrightarrow> bbt_checksum big t n = bbt_checksum big u n"
  by (simp add: bbt_checksum_def buf_get_def)

lemma sort_bbt_sorted: "sorted (take (unat (b_size t)) (b_table t)) \<Longrightarrow> sort_bbt t = t"
  by (simp add: sort_bbt_def sorted_sort_id)

lemma parse_bbt:
  assumes "bbt_shaped t" and "b_signature t = sig_RAWB" and "n \<le> MAX_BBT_SIZE" and "unat (b_size t) \<le> n"
    and "bbt_checksum big t n = Some c" and "b_checksum t = ucast c" and "sorted (take (unat (b_size t)) (b_table t))"
    and "12 + 2 * n \<le> len" and "length (b_table ws) = MAX_BBT_SIZE"
  shows "\<exists>ws'. try_parse_bbt big out (take (12 + 2 * n) (bbt_bytes big t) @ rest) len n ws =
    Some (0, t\<lparr>b_table := take n (b_table t) @ drop n (b_table out)\<rparr>, ws')"
proof -
  let ?t = "t\<lparr>b_table := take n (b_table t) @ drop n (b_table ws)\<rparr>"
  have len: "length (bbt_bytes big t) = 2012" "length (b_table t) = MAX_BBT_SIZE"
    using assms(1) by (simp_all add: length_bbt_bytes bbt_shaped_def)
  have load: "buf_get (take (12 + 2 * n) (bbt_bytes big t) @ rest) 0 (12 + 2 * n) = Some (take (12 + 2 * n) (bbt_bytes big t))"
    using len assms(3) by (simp add: buf_get_def min_def)
  have c: "bbt_checksum big ?t n = Some c"
    using bbt_checksum_cong [of n ?t t] len assms(3,5) by simp
  have "take (unat (b_size t)) (take n (b_table t) @ drop n (b_table ws)) = take (unat (b_size t)) (b_table t)"
    using assms(3,4) len by (simp add: min_def)
  then have "sort_bbt ?t = ?t" using assms(7) by (intro sort_bbt_sorted) simp
  then show ?thesis
    using assms(2,6,8) len assms(3)
    by (simp add: try_parse_bbt_def load bbt_load_bytes [OF assms(1,3)] c Let_def)
qed

end
