(* ===== verification/En75_Sync.thy ===== *)
theory En75_Sync
  imports En75_Steps En75_Codec
begin

text \<open>
  \<open>w_sync_tables\<close>: it is defined, quiet, and on success the tables that were changed are stored in a
  block of the reserve area, in a form that the scan reads back.
\<close>

section \<open>Clearing the unused entries\<close>

lemma zero_entries_spec:
  "\<forall>i \<in> set is. i < length xs \<Longrightarrow> returns (zero_entries z is xs) (\<lambda>ys. length ys = length xs \<and>
     (\<forall>k < length xs. ys ! k = (if k \<in> set is then z else xs ! k)))"
proof (induction "is" arbitrary: xs)
  case (Cons i "is")
  then have "returns (zero_entries z is (xs[i := z])) (\<lambda>ys. length ys = length (xs[i := z]) \<and>
      (\<forall>k < length (xs[i := z]). ys ! k = (if k \<in> set is then z else xs[i := z] ! k)))"
    by (intro Cons.IH) simp
  then show ?case using Cons.prems
    by (auto simp: arr_set_def nth_list_update elim!: returns_mono split: if_splits)
qed simp

lemma zero_tail:
  assumes "n \<le> length xs"
  shows "returns (zero_entries z [k..<n] xs) (\<lambda>ys. length ys = length xs \<and> take k ys = take k xs)"
proof (rule returns_mono [OF zero_entries_spec])
  fix ys assume a: "length ys = length xs \<and> (\<forall>j < length xs. ys ! j = (if j \<in> set [k..<n] then z else xs ! j))"
  then show "length ys = length xs \<and> take k ys = take k xs" by (auto intro: nth_equalityI)
qed (use assms in auto)

section \<open>Layout and tables\<close>

lemma layout_shaped:
  assumes "layout env s"
  shows "bmt_shaped (e_bmt s)" "bbt_shaped (e_bbt s)"
  using assms by (simp_all add: layout_def bmt_shaped_def bbt_shaped_def)

text \<open>A new table with the entries in use and a checksum.\<close>

lemma quiet_bmt:
  assumes "length es = length (m_table (e_bmt s))"
    and "take (unat (m_size (e_bmt s))) es = take (unat (m_size (e_bmt s))) (m_table (e_bmt s))"
  shows "quiet env s (s\<lparr>e_bmt := (e_bmt s)\<lparr>m_table := es, m_checksum := c\<rparr>\<rparr>)"
  using assms by (simp add: quiet_def shape_def steps_refl bmt_used_def)

lemma quiet_bbt:
  assumes "length es = length (b_table (e_bbt s))"
    and "take (unat (b_size (e_bbt s))) es = take (unat (b_size (e_bbt s))) (b_table (e_bbt s))"
  shows "quiet env s (s\<lparr>e_bbt := (e_bbt s)\<lparr>b_table := es, b_checksum := c\<rparr>\<rparr>)"
  using assms by (simp add: quiet_def shape_def steps_refl bbt_used_def)

lemma quiet_dirty: "quiet env s (s\<lparr>e_bmt_dirty := k\<rparr>)" "quiet env s (s\<lparr>e_bbt_dirty := k\<rparr>)"
  by (simp_all add: quiet_def shape_def steps_refl)

text \<open>Exactly one block has the status; \<open>buf\<close> was stored in it.\<close>

definition holds_table :: "'d bmtd \<Rightarrow> 'd en75 \<Rightarrow> block_status \<Rightarrow> u8 list \<Rightarrow> bool" where
  "holds_table env s st buf \<longleftrightarrow> (\<exists>i < length (e_rblocks s).
     (\<forall>j < length (e_rblocks s). status s j = st \<longleftrightarrow> j = i) \<and> stored env (bi_index (e_rblocks s ! i)) buf)"

lemma holds_table_moves:
  assumes "holds_table env s st buf" and "moves P Q s s'" and "st \<notin> P" and "st \<notin> Q"
    and "length (e_rblocks s') = length (e_rblocks s)"
  shows "holds_table env s' st buf"
proof -
  obtain i where i: "i < length (e_rblocks s)" "\<forall>j < length (e_rblocks s). status s j = st \<longleftrightarrow> j = i"
    "stored env (bi_index (e_rblocks s ! i)) buf"
    using assms(1) by (auto simp: holds_table_def)
  have "status s i = st" using i(1,2) by blast
  then have "e_rblocks s' ! i = e_rblocks s ! i" using moves_stays [OF assms(2) i(1)] assms(3) by simp
  moreover have "status s' j = st \<longleftrightarrow> status s j = st" if "j < length (e_rblocks s)" for j
    using assms(2-4) that unfolding moves_def by metis
  ultimately show ?thesis unfolding holds_table_def assms(5) using i by metis
qed

text \<open>The end of both updates: the block found becomes the holder of the table.\<close>

lemma take_over:
  assumes "layout env s" and "i < length (e_rblocks s)" and "status s i = BS_AVAILABLE"
    and "st \<notin> {BS_MAPPED, BS_NEED_ERASE, BS_AVAILABLE}" and "stored env (bi_index (e_rblocks s ! i)) buf"
  shows "returns (do { s \<leftarrow> mark_for_erasure env st s; set_status i st s })
    (\<lambda>s'. quiet env s s' \<and> moves {st, BS_AVAILABLE} {BS_NEED_ERASE, st} s s' \<and> holds_table env s' st buf)"
proof -
  obtain s1 where s1: "mark_for_erasure env st s = Some s1" "quiet env s s1" "moves {st} {BS_NEED_ERASE} s s1"
    "\<forall>j < length (e_rblocks s). status s1 j \<noteq> st"
    using mark_for_erasure_spec [OF assms(1), of st] assms(4) by (auto simp: returns_eq)
  note len = quiet_length [OF s1(2)]
  have i: "e_rblocks s1 ! i = e_rblocks s ! i"
    by (rule moves_stays [OF s1(3) assms(2)]) (use assms(3,4) in auto)
  obtain s2 where s2: "set_status i st s1 = Some s2" "quiet env s1 s2"
    "s2 = s1\<lparr>e_rblocks := (e_rblocks s1)[i := (e_rblocks s1 ! i)\<lparr>bi_status := st\<rparr>]\<rparr>"
    using set_status_shape [of i s1 st env] assms(2-4) i len by (auto simp: returns_eq)
  have "moves {BS_AVAILABLE} {st} s1 s2"
    using s2(3) i assms(2,3) len by (simp add: moves_def nth_list_update)
  from moves_trans [OF s1(3) this len] have m: "moves {st, BS_AVAILABLE} {BS_NEED_ERASE, st} s s2"
    by (simp add: insert_commute)
  have "holds_table env s2 st buf"
    unfolding holds_table_def using s2(3) i s1(4) assms(2,5) len by (auto simp: nth_list_update)
  then show ?thesis using s1(1) s2(1) quiet_trans [OF s1(2) s2(2)] m by simp
qed

section \<open>The two updates\<close>

lemma sync_bmt_spec:
  assumes "en75_env env" and "layout env s" and "length (e_rblocks s) \<le> MAX_BMT_SIZE"
  shows "returns (w_sync_bmt env s) (\<lambda>(r, s'). quiet env s s' \<and> e_bbt s' = e_bbt s \<and> e_bbt_dirty s' = e_bbt_dirty s \<and>
    (r = 0 \<longrightarrow> e_bmt_dirty s' = 0 \<and> holds_table env s' BS_BMT (bmt_bytes (e_big_endian s) (e_bmt s')) \<and>
       bmt_checksum (e_big_endian s) (e_bmt s') (unat (m_size (e_bmt s'))) = Some (m_checksum (e_bmt s'))))"
proof -
  let ?t = "e_bmt s" and ?big = "e_big_endian s"
  have len256: "length (m_table ?t) = MAX_BMT_SIZE" using assms(2) by (simp add: layout_def)
  obtain es where es: "zero_entries no_entry [unat (m_size ?t)..<nat (reserve_block_count env s)] (m_table ?t) = Some es"
    "length es = length (m_table ?t)" "take (unat (m_size ?t)) es = take (unat (m_size ?t)) (m_table ?t)"
    using zero_tail [of "nat (reserve_block_count env s)" "m_table ?t" no_entry "unat (m_size ?t)"]
      reserve_count(1) [OF assms(2)] assms(3) len256 by (auto simp: returns_eq)
  obtain c where c: "bmt_checksum ?big (?t\<lparr>m_table := es\<rparr>) (unat (m_size ?t)) = Some c"
    using es(2) len256 by (simp add: bmt_checksum_def buf_get_def)
  let ?t' = "?t\<lparr>m_table := es, m_checksum := c\<rparr>"
  let ?s = "s\<lparr>e_bmt := ?t'\<rparr>"
  have q: "quiet env s ?s" by (rule quiet_bmt [OF es(2,3)])
  have lay: "layout env ?s" using quiet_layout [OF q] assms(2) by simp
  have "length (bmt_bytes ?big ?t') \<le> unat (blk_size env)"
    using length_bmt_bytes [OF layout_shaped(1) [OF lay], of ?big] assms(1) by (simp add: en75_env_def)
  note u = update_tries_spec [OF assms(1) lay this]
  have c': "bmt_checksum ?big ?t' (unat (m_size ?t')) = Some c" using c by (simp add: bmt_checksum_def)
  obtain r s1 where r: "w_update_table env True (bmt_bytes ?big ?t') ?s = Some (r, s1)" "quiet env ?s s1"
    "moves {BS_AVAILABLE} {BS_NEED_ERASE} ?s s1"
    "case r of Inl e \<Rightarrow> e \<noteq> 0
     | Inr i \<Rightarrow> i < length (e_rblocks ?s) \<and> status s1 i = BS_AVAILABLE \<and> stored env (bi_index (e_rblocks ?s ! i)) (bmt_bytes ?big ?t')"
    using u [of UPDATE_TABLE_TRIES True] unfolding w_update_table_def by (auto simp: returns_eq)
  have q1: "quiet env s s1" by (rule quiet_trans [OF q r(2)])
  have t1: "e_bmt s1 = ?t'" "e_bbt s1 = e_bbt s" "e_bbt_dirty s1 = e_bbt_dirty s"
    using r(3) by (simp_all add: moves_def tables_def)
  show ?thesis
  proof (cases r)
    case (Inl e)
    then show ?thesis using r q1 t1 by (simp add: w_sync_bmt_def es(1) c Let_def)
  next
    case (Inr i)
    have lay1: "layout env s1" using quiet_layout [OF q1] assms(2) by simp
    have i: "i < length (e_rblocks s1)" "bi_index (e_rblocks s1 ! i) = bi_index (e_rblocks s ! i)"
      using r(4) Inr shape_status [of s1 s i] q1 by (simp_all add: quiet_def)
    obtain s2 s3 where s3: "mark_for_erasure env BS_BMT s1 = Some s2" "set_status i BS_BMT s2 = Some s3"
      "quiet env s1 s3" "moves {BS_BMT, BS_AVAILABLE} {BS_NEED_ERASE, BS_BMT} s1 s3"
      "holds_table env s3 BS_BMT (bmt_bytes ?big ?t')"
      using take_over [OF lay1 i(1), of BS_BMT "bmt_bytes ?big ?t'"] r(4) Inr i(2) by (auto simp: returns_eq bind_eq_Some_conv)
    have t3: "e_bmt s3 = ?t'" "e_bbt s3 = e_bbt s" "e_bbt_dirty s3 = e_bbt_dirty s"
      using s3(4) t1 by (simp_all add: moves_def tables_def)
    have "quiet env s (s3\<lparr>e_bmt_dirty := 0\<rparr>)"
      by (rule quiet_trans [OF quiet_trans [OF q1 s3(3)] quiet_dirty(1)])
    moreover have "holds_table env (s3\<lparr>e_bmt_dirty := 0\<rparr>) BS_BMT (bmt_bytes ?big ?t')"
      using s3(5) by (simp add: holds_table_def)
    ultimately show ?thesis using r(1) Inr s3(1,2) t3 c' by (simp add: w_sync_bmt_def es(1) c Let_def)
  qed
qed

lemma bbt_checksum_defined:
  "length (b_table t) = MAX_BBT_SIZE \<Longrightarrow> n \<le> MAX_BBT_SIZE \<Longrightarrow> \<exists>c. bbt_checksum big t n = Some c"
  by (simp add: bbt_checksum_def buf_get_def)

lemma sync_bbt_spec:
  assumes "en75_env env" and "layout env s"
  shows "returns (w_sync_bbt env s) (\<lambda>(r, s'). quiet env s s' \<and> e_bmt s' = e_bmt s \<and> e_bmt_dirty s' = e_bmt_dirty s \<and>
    moves {BS_BBT, BS_AVAILABLE} {BS_NEED_ERASE, BS_BBT} (s\<lparr>e_bbt := e_bbt s', e_bbt_dirty := e_bbt_dirty s'\<rparr>) s' \<and>
    (r = 0 \<longrightarrow> e_bbt_dirty s' = 0 \<and>
       holds_table env s' BS_BBT (take (12 + 2 * unat (e_table_size s)) (bbt_bytes (e_big_endian s) (e_bbt s'))) \<and>
       (\<exists>c. bbt_checksum (e_big_endian s) (e_bbt s') (unat (e_table_size s)) = Some c \<and> b_checksum (e_bbt s') = ucast c)))"
proof -
  let ?t = "e_bbt s" and ?big = "e_big_endian s" and ?n = "unat (e_table_size s)"
  have t: "length (b_table ?t) = MAX_BBT_SIZE" "?n \<le> MAX_BBT_SIZE" using assms(2) by (simp_all add: layout_def)
  obtain es where es: "zero_entries 0 [unat (b_size ?t)..<?n] (b_table ?t) = Some es"
    "length es = length (b_table ?t)" "take (unat (b_size ?t)) es = take (unat (b_size ?t)) (b_table ?t)"
    using zero_tail [of ?n "b_table ?t" 0 "unat (b_size ?t)"] t by (auto simp: returns_eq)
  obtain c where c: "bbt_checksum ?big (?t\<lparr>b_table := es\<rparr>) ?n = Some c"
    using bbt_checksum_defined [of "?t\<lparr>b_table := es\<rparr>" ?n ?big] es(2) t by auto
  let ?t' = "?t\<lparr>b_table := es, b_checksum := ucast c\<rparr>"
  let ?s = "s\<lparr>e_bbt := ?t'\<rparr>" and ?buf = "take (12 + 2 * ?n) (bbt_bytes ?big ?t')"
  have q: "quiet env s ?s" by (rule quiet_bbt [OF es(2,3)])
  have lay: "layout env ?s" using quiet_layout [OF q] assms(2) by simp
  have blen: "length (bbt_bytes ?big ?t') = 2012"
    using length_bbt_bytes [OF layout_shaped(2) [OF lay], of ?big] by simp
  then have buf: "buf_get (bbt_bytes ?big ?t') 0 (12 + 2 * ?n) = Some ?buf" "length ?buf \<le> unat (blk_size env)"
    using t(2) assms(1) by (simp_all add: buf_get_def en75_env_def)
  note u = update_tries_spec [OF assms(1) lay buf(2)]
  have c': "bbt_checksum ?big ?t' ?n = Some c" using c by (simp add: bbt_checksum_def)
  obtain r s1 where r: "w_update_table env False ?buf ?s = Some (r, s1)" "quiet env ?s s1"
    "moves {BS_AVAILABLE} {BS_NEED_ERASE} ?s s1"
    "case r of Inl e \<Rightarrow> e \<noteq> 0
     | Inr i \<Rightarrow> i < length (e_rblocks ?s) \<and> status s1 i = BS_AVAILABLE \<and> stored env (bi_index (e_rblocks ?s ! i)) ?buf"
    using u [of UPDATE_TABLE_TRIES False] unfolding w_update_table_def by (auto simp: returns_eq)
  have q1: "quiet env s s1" by (rule quiet_trans [OF q r(2)])
  have t1: "e_bbt s1 = ?t'" "e_bmt s1 = e_bmt s" "e_bmt_dirty s1 = e_bmt_dirty s" "e_bbt_dirty s1 = e_bbt_dirty s"
    using r(3) by (simp_all add: moves_def tables_def)
  have run: "w_sync_bbt env s = (case r of
        Inl err \<Rightarrow> Some (err, s1)
      | Inr i \<Rightarrow> do {
          s \<leftarrow> mark_for_erasure env BS_BBT s1;
          s \<leftarrow> set_status i BS_BBT s;
          Some (0, s\<lparr>e_bbt_dirty := 0\<rparr>)
        })"
    using r(1) by (simp add: w_sync_bbt_def es(1) c buf(1) Let_def)
  show ?thesis
  proof (cases r)
    case (Inl e)
    have "moves {BS_BBT, BS_AVAILABLE} {BS_NEED_ERASE, BS_BBT} (s\<lparr>e_bbt := e_bbt s1, e_bbt_dirty := e_bbt_dirty s1\<rparr>) s1"
      using r(3) t1 by (auto simp: moves_def tables_def)
    then show ?thesis using Inl r(4) q1 t1 by (simp add: run)
  next
    case (Inr i)
    have lay1: "layout env s1" using quiet_layout [OF q1] assms(2) by simp
    have i: "i < length (e_rblocks s1)" "bi_index (e_rblocks s1 ! i) = bi_index (e_rblocks s ! i)"
      using r(4) Inr shape_status [of s1 s i] q1 by (simp_all add: quiet_def)
    obtain s2 s3 where s3: "mark_for_erasure env BS_BBT s1 = Some s2" "set_status i BS_BBT s2 = Some s3"
      "quiet env s1 s3" "moves {BS_BBT, BS_AVAILABLE} {BS_NEED_ERASE, BS_BBT} s1 s3"
      "holds_table env s3 BS_BBT ?buf"
      using take_over [OF lay1 i(1), of BS_BBT ?buf] r(4) Inr i(2) by (auto simp: returns_eq bind_eq_Some_conv)
    let ?s3 = "s3\<lparr>e_bbt_dirty := 0\<rparr>"
    have t3: "e_bbt s3 = ?t'" "e_bmt s3 = e_bmt s" "e_bmt_dirty s3 = e_bmt_dirty s"
      using s3(4) t1 by (simp_all add: moves_def tables_def)
    have "moves {BS_BBT, BS_AVAILABLE} {BS_NEED_ERASE, BS_BBT} ?s s3"
      using moves_trans [OF r(3) s3(4)] quiet_length [OF r(2)] by (simp add: insert_commute moves_def t1 tables_def)
    then have m: "moves {BS_BBT, BS_AVAILABLE} {BS_NEED_ERASE, BS_BBT} (s\<lparr>e_bbt := ?t', e_bbt_dirty := 0\<rparr>) ?s3"
      using t3 by (simp add: moves_def tables_def)
    have "quiet env s ?s3" by (rule quiet_trans [OF quiet_trans [OF q1 s3(3)] quiet_dirty(2)])
    moreover have "holds_table env ?s3 BS_BBT ?buf" using s3(5) by (simp add: holds_table_def)
    ultimately show ?thesis using Inr s3(1,2) t3 c' m by (simp add: run)
  qed
qed

section \<open>The whole update\<close>

text \<open>The table in memory is the one that a parser finds in the block of this status.\<close>

definition bmt_stored :: "'d bmtd \<Rightarrow> 'd en75 \<Rightarrow> bool" where
  "bmt_stored env s \<longleftrightarrow> (\<exists>buf. holds_table env s BS_BMT buf \<and>
     (\<forall>out rest len. 1044 \<le> len \<longrightarrow> try_parse_bmt (e_big_endian s) out (buf @ rest) len = Some (0, e_bmt s)))"

definition bbt_stored :: "'d bmtd \<Rightarrow> 'd en75 \<Rightarrow> bool" where
  "bbt_stored env s \<longleftrightarrow> (\<exists>buf. holds_table env s BS_BBT buf \<and>
     (\<forall>out rest len ws. 12 + 2 * unat (e_table_size s) \<le> len \<and> length (b_table ws) = MAX_BBT_SIZE \<longrightarrow>
        (\<exists>ws'. try_parse_bbt (e_big_endian s) out (buf @ rest) len (unat (e_table_size s)) ws =
           Some (0, (e_bbt s)\<lparr>b_table := take (unat (e_table_size s)) (b_table (e_bbt s)) @
             drop (unat (e_table_size s)) (b_table out)\<rparr>, ws'))))"

lemma quiet_fields:
  assumes "quiet env s s'"
  shows "e_big_endian s' = e_big_endian s" "e_table_size s' = e_table_size s" "bbt_used s' = bbt_used s"
    "bmt_used s' = bmt_used s" "e_begin s' = e_begin s" "b_size (e_bbt s') = b_size (e_bbt s)" "e_ranges s' = e_ranges s"
    "e_can_write_bbt s' = e_can_write_bbt s"
  using assms by (simp_all add: quiet_def shape_def)

lemma bmt_stored_moves:
  assumes "bmt_stored env s" and "moves P Q s s'" and "BS_BMT \<notin> P" and "BS_BMT \<notin> Q" and "quiet env s s'"
  shows "bmt_stored env s'"
  using assms holds_table_moves [OF _ assms(2-4) quiet_length [OF assms(5)]] quiet_fields [OF assms(5)]
  by (auto simp: bmt_stored_def moves_def tables_def)

lemma bbt_stored_moves:
  assumes "bbt_stored env s" and "moves P Q s s'" and "BS_BBT \<notin> P" and "BS_BBT \<notin> Q" and "quiet env s s'"
  shows "bbt_stored env s'"
  using assms(1) holds_table_moves [OF _ assms(2-4) quiet_length [OF assms(5)]] quiet_fields [OF assms(5)] assms(2)
  by (auto simp: bbt_stored_def moves_def tables_def)

lemma sync_bmt_stored:
  assumes "en75_env env" and "layout env s" and "length (e_rblocks s) \<le> MAX_BMT_SIZE"
  shows "returns (w_sync_bmt env s) (\<lambda>(r, s'). quiet env s s' \<and> e_bbt s' = e_bbt s \<and> e_bbt_dirty s' = e_bbt_dirty s \<and>
    (r = 0 \<longrightarrow> e_bmt_dirty s' = 0 \<and> bmt_stored env s'))"
proof -
  obtain r s' where run: "w_sync_bmt env s = Some (r, s')"
    and a: "quiet env s s'" "e_bbt s' = e_bbt s" "e_bbt_dirty s' = e_bbt_dirty s"
    "r = 0 \<longrightarrow> e_bmt_dirty s' = 0 \<and> holds_table env s' BS_BMT (bmt_bytes (e_big_endian s) (e_bmt s')) \<and>
       bmt_checksum (e_big_endian s) (e_bmt s') (unat (m_size (e_bmt s'))) = Some (m_checksum (e_bmt s'))"
    using sync_bmt_spec [OF assms] by (auto simp: returns_eq)
  have lay: "layout env s'" using quiet_layout [OF a(1)] assms(2) by simp
  then have "m_signature (e_bmt s') = sig_BMT" by (simp add: layout_def)
  then have "bmt_stored env s'" if "r = 0"
    unfolding bmt_stored_def using a(4) that parse_bmt [OF layout_shaped(1) [OF lay]] quiet_fields(1) [OF a(1)]
    by (intro exI [of _ "bmt_bytes (e_big_endian s) (e_bmt s')"]) simp
  then show ?thesis using a run by simp
qed

lemma sync_bbt_stored:
  assumes "en75_env env" and "layout env s" and "sorted (bbt_used s)" and "unat (b_size (e_bbt s)) \<le> unat (e_table_size s)"
  shows "returns (w_sync_bbt env s) (\<lambda>(r, s'). quiet env s s' \<and> e_bmt_dirty s' = e_bmt_dirty s \<and>
    (bmt_stored env s \<longrightarrow> bmt_stored env s') \<and> (r = 0 \<longrightarrow> e_bbt_dirty s' = 0 \<and> bbt_stored env s'))"
proof -
  let ?n = "unat (e_table_size s)" and ?M = "moves {BS_BBT, BS_AVAILABLE} {BS_NEED_ERASE, BS_BBT}"
  obtain r s' where run: "w_sync_bbt env s = Some (r, s')"
    and a: "quiet env s s'" "e_bmt s' = e_bmt s" "e_bmt_dirty s' = e_bmt_dirty s"
      "?M (s\<lparr>e_bbt := e_bbt s', e_bbt_dirty := e_bbt_dirty s'\<rparr>) s'"
      "r = 0 \<longrightarrow> e_bbt_dirty s' = 0 \<and>
       holds_table env s' BS_BBT (take (12 + 2 * ?n) (bbt_bytes (e_big_endian s) (e_bbt s'))) \<and>
       (\<exists>c. bbt_checksum (e_big_endian s) (e_bbt s') ?n = Some c \<and> b_checksum (e_bbt s') = ucast c)"
    using sync_bbt_spec [OF assms(1,2)] by (auto simp: returns_eq)
  let ?buf = "take (12 + 2 * ?n) (bbt_bytes (e_big_endian s) (e_bbt s'))"
  note f = quiet_fields [OF a(1)]
  have lay: "layout env s'" using quiet_layout [OF a(1)] assms(2) by simp
  then have sig: "b_signature (e_bbt s') = sig_RAWB" "?n \<le> MAX_BBT_SIZE" using f by (simp_all add: layout_def)
  have "take (unat (b_size (e_bbt s'))) (b_table (e_bbt s')) = bbt_used s" using f(3) by (simp add: bbt_used_def)
  then have srt: "sorted (take (unat (b_size (e_bbt s'))) (b_table (e_bbt s')))" using assms(3) by simp
  have bbt: "bbt_stored env s'" if r: "r = 0"
  proof -
    obtain c where c: "bbt_checksum (e_big_endian s) (e_bbt s') ?n = Some c" "b_checksum (e_bbt s') = ucast c"
      using a(5) r by blast
    have "unat (b_size (e_bbt s')) \<le> ?n" using assms(4) f(6) by simp
    note p = parse_bbt [OF layout_shaped(2) [OF lay] sig this c srt]
    show ?thesis unfolding bbt_stored_def f(1,2)
      using a(5) r p by (intro exI [of _ ?buf]) blast
  qed
  have "holds_table env s' BS_BMT buf" if "holds_table env s BS_BMT buf" for buf
    by (rule holds_table_moves [OF _ a(4)])
      (use that quiet_length [OF a(1)] in \<open>simp_all add: holds_table_def\<close>)
  then have "bmt_stored env s \<longrightarrow> bmt_stored env s'" unfolding bmt_stored_def f(1) a(2) by blast
  then show ?thesis using a(1,3,5) bbt run by simp
qed

definition synced :: "'d bmtd \<Rightarrow> 'd en75 \<Rightarrow> 'd en75 \<Rightarrow> bool" where
  "synced env s s' \<longleftrightarrow> (\<forall>i < length (e_rblocks s'). status s' i \<noteq> BS_NEED_ERASE) \<and>
     (e_bmt_dirty s \<noteq> 0 \<longrightarrow> e_bmt_dirty s' = 0 \<and> bmt_stored env s') \<and>
     (e_bbt_dirty s \<noteq> 0 \<and> e_can_write_bbt s \<longrightarrow> e_bbt_dirty s' = 0 \<and> bbt_stored env s')"

lemma sync_tables_spec:
  assumes "en75_env env" and "layout env s" and "length (e_rblocks s) \<le> MAX_BMT_SIZE"
    and "sorted (bbt_used s)" and "unat (b_size (e_bbt s)) \<le> unat (e_table_size s)"
  shows "returns (w_sync_tables env s) (\<lambda>(r, s'). quiet env s s' \<and> (r = 0 \<longrightarrow> synced env s s'))"
proof -
  let ?E = "moves {BS_NEED_ERASE} {BS_BAD, BS_AVAILABLE}"
  obtain s1 where s1: "w_erase_pending env s = Some s1" "quiet env s s1" "?E s s1"
    using erase_pending_spec [OF assms(1,2)] by (auto simp: returns_eq)
  have lay1: "layout env s1" using quiet_layout [OF s1(2)] assms(2) by simp
  have d1: "e_bmt_dirty s1 = e_bmt_dirty s" "e_bbt_dirty s1 = e_bbt_dirty s"
    using s1(3) by (simp_all add: moves_def tables_def)
  obtain r2 s2 where s2: "(if e_bmt_dirty s1 \<noteq> 0 then w_sync_bmt env s1 else Some (0, s1)) = Some (r2, s2)"
    "quiet env s1 s2" "e_bbt_dirty s2 = e_bbt_dirty s"
    "r2 = 0 \<longrightarrow> e_bmt_dirty s \<noteq> 0 \<longrightarrow> e_bmt_dirty s2 = 0 \<and> bmt_stored env s2"
    using sync_bmt_stored [OF assms(1) lay1] assms(3) quiet_length [OF s1(2)] d1
    by (cases "e_bmt_dirty s1 = 0") (auto simp: returns_eq)
  have q2: "quiet env s s2" by (rule quiet_trans [OF s1(2) s2(2)])
  have lay2: "layout env s2" using quiet_layout [OF q2] assms(2) by simp
  note f2 = quiet_fields [OF q2]
  obtain r3 s3 where s3: "(if e_bbt_dirty s2 \<noteq> 0 \<and> \<not> e_can_write_bbt s2 then Some (0, s2)
      else if e_bbt_dirty s2 \<noteq> 0 then w_sync_bbt env s2 else Some (0, s2)) = Some (r3, s3)"
    "quiet env s2 s3" "e_bmt_dirty s3 = e_bmt_dirty s2" "bmt_stored env s2 \<longrightarrow> bmt_stored env s3"
    "r3 = 0 \<longrightarrow> e_bbt_dirty s \<noteq> 0 \<and> e_can_write_bbt s \<longrightarrow> e_bbt_dirty s3 = 0 \<and> bbt_stored env s3"
  proof (cases "e_bbt_dirty s2 \<noteq> 0 \<and> e_can_write_bbt s2")
    case True
    then show ?thesis using sync_bbt_stored [OF assms(1) lay2] assms(4,5) f2(2,3,6,8) s2(3) that
      by (auto simp: returns_eq)
  next
    case False
    then show ?thesis using that [of 0 s2] f2(8) s2(3) by (auto split: if_splits)
  qed
  have q3: "quiet env s s3" by (rule quiet_trans [OF q2 s3(2)])
  have lay3: "layout env s3" using quiet_layout [OF q3] assms(2) by simp
  obtain s4 where s4: "w_erase_pending env s3 = Some s4" "quiet env s3 s4" "?E s3 s4"
    "\<forall>i < length (e_rblocks s3). status s4 i \<noteq> BS_NEED_ERASE"
    using erase_pending_spec [OF assms(1) lay3] by (auto simp: returns_eq)
  have q4: "quiet env s s4" by (rule quiet_trans [OF q3 s4(2)])
  have d4: "e_bmt_dirty s4 = e_bmt_dirty s3" "e_bbt_dirty s4 = e_bbt_dirty s3"
    using s4(3) by (simp_all add: moves_def tables_def)
  have "synced env s s4" if "r2 = 0" "r3 = 0"
    unfolding synced_def using that s2(4) s3(3-5) s4(4) d4 quiet_length [OF s4(2)]
      bmt_stored_moves [OF _ s4(3) _ _ s4(2)] bbt_stored_moves [OF _ s4(3) _ _ s4(2)] by auto
  then show ?thesis
    using s1(1) s2(1) s3(1) s4(1) q2 q3 q4
    by (cases "r2 = 0"; cases "r3 = 0") (simp_all add: w_sync_tables_def)
qed

end
