(* ===== verification/En75_Remap.thy ===== *)
theory En75_Remap
  imports En75_Sync
begin

text \<open>
  Remapping and unmapping a block: the invariant of the context, and what the operations make of the
  mapping, the chip and the invariant.
\<close>

section \<open>The invariant\<close>

definition maps_to_reserve :: "'d en75 \<Rightarrow> bmt_entry \<Rightarrow> bool" where
  "maps_to_reserve s e \<longleftrightarrow> from_blk e < e_begin s \<and>
     (\<exists>i < length (e_rblocks s). e_rblocks s ! i = \<lparr>bi_index = to_blk e, bi_status = BS_MAPPED\<rparr>)"

definition en75_ok :: "'d bmtd \<Rightarrow> 'd en75 \<Rightarrow> bool" where
  "en75_ok env s \<longleftrightarrow> layout env s \<and> sorted_wrt (<) (bbt_used s) \<and>
     unat (b_size (e_bbt s)) \<le> unat (e_table_size s) \<and>
     distinct (map from_blk (bmt_used s)) \<and> distinct (map to_blk (bmt_used s)) \<and>
     (\<forall>e \<in> set (bmt_used s). maps_to_reserve s e)"

lemma block_info_eq: "(b :: block_info) = \<lparr>bi_index = i, bi_status = st\<rparr> \<longleftrightarrow> bi_index b = i \<and> bi_status b = st"
  by (cases b) auto

lemma quiet_maps:
  assumes "quiet env s s'" and "maps_to_reserve s e"
  shows "maps_to_reserve s' e"
proof -
  obtain i where i: "i < length (e_rblocks s)" "e_rblocks s ! i = \<lparr>bi_index = to_blk e, bi_status = BS_MAPPED\<rparr>"
    using assms(2) by (auto simp: maps_to_reserve_def)
  then show ?thesis
    using assms quiet_fields(5) [OF assms(1)] shape_status [of s' s i] quiet_length [OF assms(1)]
    by (auto simp: maps_to_reserve_def quiet_def block_info_eq)
qed

lemma quiet_ok: "quiet env s s' \<Longrightarrow> en75_ok env s \<Longrightarrow> en75_ok env s'"
  using quiet_fields [of env s s'] quiet_layout [of env s s'] quiet_maps [of env s s']
  by (simp add: en75_ok_def)

text \<open>The index of a block of the reserve area determines its position.\<close>

lemma rblock_index:
  assumes "layout env s" and "i < length (e_rblocks s)"
  shows "unat (bi_index (e_rblocks s ! i)) = unat (total_blks env) - 1 - i" and "e_begin s \<le> bi_index (e_rblocks s ! i)"
    and "bi_index (e_rblocks s ! i) < total_blks env"
proof -
  let ?n = "unat (total_blks env) - unat (e_begin s)"
  note n = reserve_count(2) [OF assms(1)]
  have "map bi_index (e_rblocks s) = map (\<lambda>i. total_blks env - 1 - of_nat i) [0..<?n]"
    using assms(1) by (simp add: layout_def)
  from arg_cong [OF this, of "\<lambda>xs. xs ! i"] have e: "bi_index (e_rblocks s ! i) = total_blks env - 1 - of_nat i"
    using assms(2) n by simp
  have t: "unat (total_blks env) < 2 ^ 16" using unsigned_less [of "total_blks env"] by simp
  have "e_begin s < total_blks env" using assms(1) by (simp add: layout_def)
  then have "total_blks env \<noteq> 0" by auto
  then have "unat (total_blks env - 1) = unat (total_blks env) - 1" by (rule unat_minus_one)
  moreover have "unat (of_nat i :: u16) = i" using assms(2) n t by (simp add: unat_of_nat take_bit_nat_eq_self)
  ultimately show u: "unat (bi_index (e_rblocks s ! i)) = unat (total_blks env) - 1 - i"
    unfolding e using assms(2) n by (subst unat_sub_le) (simp_all add: unat_le)
  show "e_begin s \<le> bi_index (e_rblocks s ! i)" "bi_index (e_rblocks s ! i) < total_blks env"
    using u assms(2) n by (simp_all add: unat_le unat_less)
qed

lemma rblock_index_inj:
  assumes "layout env s" and "i < length (e_rblocks s)" and "j < length (e_rblocks s)"
    and "bi_index (e_rblocks s ! i) = bi_index (e_rblocks s ! j)"
  shows "i = j"
  using rblock_index(1) [OF assms(1,2)] rblock_index(1) [OF assms(1,3)] assms(4) reserve_count(2) [OF assms(1)] assms(2,3)
  by simp

lemma maps_above: "layout env s \<Longrightarrow> maps_to_reserve s e \<Longrightarrow> e_begin s \<le> to_blk e \<and> to_blk e < total_blks env"
  using rblock_index(2,3) by (fastforce simp: maps_to_reserve_def)

section \<open>Changing an entry\<close>

definition bmt_upd :: "u16 \<Rightarrow> u16 \<Rightarrow> bmt_entry list \<Rightarrow> bmt_entry list" where
  "bmt_upd b n es =
     (if b \<in> from_blk ` set es then map (\<lambda>e. if from_blk e = b then e\<lparr>to_blk := n\<rparr> else e) es
      else es @ [\<lparr>from_blk = b, to_blk = n\<rparr>])"

lemma redirect_eq:
  assumes "distinct (map from_blk es)"
  shows "bmt_redirect b n es =
    (if b \<in> from_blk ` set es then Some (map (\<lambda>e. if from_blk e = b then e\<lparr>to_blk := n\<rparr> else e) es) else None)"
  using assms
proof (induction es)
  case (Cons e es)
  show ?case
  proof (cases "from_blk e = b")
    case True
    then have "\<forall>x \<in> set es. from_blk x \<noteq> b" using Cons.prems by (metis distinct.simps(2) image_eqI list.set_map list.simps(9))
    then have "map (\<lambda>e. if from_blk e = b then e\<lparr>to_blk := n\<rparr> else e) es = es" by (simp add: map_idI)
    then show ?thesis using True by simp
  next
    case False
    then show ?thesis using Cons by auto
  qed
qed simp

lemma upd_froms: "distinct (map from_blk es) \<Longrightarrow> distinct (map from_blk (bmt_upd b n es))"
proof -
  have "map from_blk (map (\<lambda>e. if from_blk e = b then e\<lparr>to_blk := n\<rparr> else e) es) = map from_blk es" by simp
  then show "distinct (map from_blk es) \<Longrightarrow> distinct (map from_blk (bmt_upd b n es))"
    unfolding bmt_upd_def by (auto simp del: map_map)
qed

lemma upd_set: "set (bmt_upd b n es) = {e \<in> set es. from_blk e \<noteq> b} \<union> {\<lparr>from_blk = b, to_blk = n\<rparr>}"
proof -
  have "e\<lparr>to_blk := n\<rparr> = \<lparr>from_blk = from_blk e, to_blk = n\<rparr>" for e :: bmt_entry by simp
  then show ?thesis by (auto simp: bmt_upd_def image_iff)
qed

lemma upd_map:
  assumes "distinct (map from_blk es)"
  shows "bmt_map (bmt_upd b n es) = (bmt_map es)(b := n)"
proof
  fix x
  note d = upd_froms [OF assms, of b n]
  show "bmt_map (bmt_upd b n es) x = ((bmt_map es)(b := n)) x"
  proof (cases "x = b")
    case True
    then show ?thesis using bmt_map_entry [OF d, of "\<lparr>from_blk = b, to_blk = n\<rparr>"] by (simp add: upd_set)
  next
    case False
    show ?thesis
    proof (cases "x \<in> from_blk ` set es")
      case True
      then obtain e where e: "e \<in> set es" "from_blk e = x" by blast
      then have "e \<in> set (bmt_upd b n es)" using False by (simp add: upd_set)
      then show ?thesis using bmt_map_entry [OF d] bmt_map_entry [OF assms] e False by fastforce
    next
      case n: False
      then have "x \<notin> from_blk ` set (bmt_upd b n es)" using False by (auto simp: upd_set)
      then show ?thesis using n False by (simp add: bmt_map_other)
    qed
  qed
qed

lemma upd_tos:
  assumes "distinct (map from_blk es)" and "distinct (map to_blk es)" and "n \<notin> to_blk ` set es"
  shows "distinct (map to_blk (bmt_upd b n es))"
proof -
  have "inj_on to_blk (set (bmt_upd b n es))"
    using assms(2,3) by (auto simp: upd_set inj_on_def distinct_map)
  moreover have "distinct (bmt_upd b n es)" using upd_froms [OF assms(1), of b n] by (simp add: distinct_map)
  ultimately show ?thesis by (simp add: distinct_map)
qed

text \<open>The update as the code does it.\<close>

lemma bmt_update:
  assumes "layout env s" and "distinct (map from_blk (bmt_used s))" and "m_size (e_bmt s) \<noteq> 0xFF"
  shows "\<exists>t. (case bmt_redirect b n (bmt_used s) of
        Some es \<Rightarrow> Some ((e_bmt s)\<lparr>m_table := es @ drop (unat (m_size (e_bmt s))) (m_table (e_bmt s))\<rparr>)
      | None \<Rightarrow> bmt_add b n (e_bmt s)) = Some t \<and>
    take (unat (m_size t)) (m_table t) = bmt_upd b n (bmt_used s) \<and> length (m_table t) = MAX_BMT_SIZE \<and>
    m_signature t = m_signature (e_bmt s) \<and> m_reserved t = m_reserved (e_bmt s)"
proof -
  let ?t = "e_bmt s"
  have len: "length (m_table ?t) = MAX_BMT_SIZE" using assms(1) by (simp add: layout_def)
  have "unat (m_size ?t) < 256" using unsigned_less [of "m_size ?t"] by simp
  moreover have "unat (m_size ?t) \<noteq> 255" using assms(3) word_unat_eq_iff [of "m_size ?t" "0xFF"] by simp
  ultimately have sz: "unat (m_size ?t) < 255" by simp
  then have used: "length (bmt_used s) = unat (m_size ?t)" using len by (simp add: bmt_used_def)
  show ?thesis
  proof (cases "b \<in> from_blk ` set (bmt_used s)")
    case True
    then show ?thesis using used len sz by (simp add: redirect_eq [OF assms(2)] bmt_upd_def)
  next
    case False
    have "unat (m_size ?t + 1) = unat (m_size ?t) + 1" using sz by (simp add: unat_word_ariths(1))
    moreover have "take (unat (m_size ?t) + 1) ((m_table ?t)[unat (m_size ?t) := x]) = bmt_used s @ [x]" for x
      using sz len by (simp add: take_Suc_conv_app_nth bmt_used_def)
    ultimately show ?thesis
      using False sz len by (simp add: redirect_eq [OF assms(2)] bmt_upd_def bmt_add_def arr_set_def)
  qed
qed

section \<open>Remapping\<close>

text \<open>The block that a block is mapped to so far, as its position in \<open>rblocks\<close>.\<close>

definition replaced_by :: "'d en75 \<Rightarrow> u16 \<Rightarrow> nat option \<Rightarrow> bool" where
  "replaced_by s b mb \<longleftrightarrow> (case mb of
     None \<Rightarrow> b \<notin> from_blk ` set (bmt_used s)
   | Some k \<Rightarrow> k < length (e_rblocks s) \<and> \<lparr>from_blk = b, to_blk = bi_index (e_rblocks s ! k)\<rparr> \<in> set (bmt_used s))"

definition freed :: "nat option \<Rightarrow> block_info list \<Rightarrow> block_info list" where
  "freed mb rb = (case mb of None \<Rightarrow> rb | Some k \<Rightarrow> rb[k := (rb ! k)\<lparr>bi_status := BS_NEED_ERASE\<rparr>])"

lemma freed_index [simp]: "length (freed mb rb) = length rb" "map bi_index (freed mb rb) = map bi_index rb"
  by (auto simp: freed_def map_update intro: list_update_id split: option.split)
    (metis (no_types, lifting) length_map linorder_not_le list_update_beyond list_update_id nth_map)

lemma index_update [simp]: "map bi_index (rb[n := (rb ! n)\<lparr>bi_status := st\<rparr>]) = map bi_index rb"
  by (cases "n < length rb") (simp_all add: map_update list_update_same_conv list_update_beyond)

lemma to_blk_inj:
  "distinct (map to_blk es) \<Longrightarrow> x \<in> set es \<Longrightarrow> y \<in> set es \<Longrightarrow> to_blk x = to_blk y \<Longrightarrow> x = y"
  by (auto simp: distinct_map dest: inj_onD)

lemma mapped_position:
  assumes "layout env s" and "maps_to_reserve s e" and "n < length (e_rblocks s)" and "bi_index (e_rblocks s ! n) = to_blk e"
  shows "status s n = BS_MAPPED"
proof -
  obtain i where i: "i < length (e_rblocks s)" "e_rblocks s ! i = \<lparr>bi_index = to_blk e, bi_status = BS_MAPPED\<rparr>"
    using assms(2) by (auto simp: maps_to_reserve_def)
  then have "i = n" using rblock_index_inj [OF assms(1) i(1) assms(3)] assms(4) by simp
  then show ?thesis using i by simp
qed

lemma remap_maps:
  assumes "en75_ok env s" and "n < length (e_rblocks s)" and "status s n = BS_AVAILABLE" and "replaced_by s b mb"
    and "e \<in> set (bmt_used s)" and "from_blk e \<noteq> b"
    and "e_begin s' = e_begin s"
    and "e_rblocks s' = freed mb ((e_rblocks s)[n := (e_rblocks s ! n)\<lparr>bi_status := BS_MAPPED\<rparr>])"
  shows "maps_to_reserve s' e"
proof -
  have ok: "layout env s" "distinct (map to_blk (bmt_used s))" "maps_to_reserve s e"
    using assms(1,5) by (simp_all add: en75_ok_def)
  then obtain i where i: "i < length (e_rblocks s)" "e_rblocks s ! i = \<lparr>bi_index = to_blk e, bi_status = BS_MAPPED\<rparr>"
    by (auto simp: maps_to_reserve_def)
  have "i \<noteq> n" using i assms(3) by auto
  moreover have "mb \<noteq> Some i"
  proof
    assume "mb = Some i"
    then have "\<lparr>from_blk = b, to_blk = to_blk e\<rparr> \<in> set (bmt_used s)" using assms(4) i by (simp add: replaced_by_def)
    from to_blk_inj [OF ok(2) this assms(5)] have "\<lparr>from_blk = b, to_blk = to_blk e\<rparr> = e" by simp
    then show False using assms(6) by (metis bmt_entry.select_convs(1))
  qed
  ultimately have "e_rblocks s' ! i = \<lparr>bi_index = to_blk e, bi_status = BS_MAPPED\<rparr>"
    using i by (cases mb) (simp_all add: assms(8) freed_def nth_list_update_neq)
  then show ?thesis using i ok(3) by (auto simp: maps_to_reserve_def assms(7,8))
qed

lemma remap_ok:
  fixes s s' :: "'d en75"
  assumes "en75_ok env s" and "n < length (e_rblocks s)" and "status s n = BS_AVAILABLE" and "replaced_by s b mb"
    and "b < e_begin s" and "length buf = length (e_buf s)"
    and t: "take (unat (m_size t)) (m_table t) = bmt_upd b (bi_index (e_rblocks s ! n)) (bmt_used s)"
      "length (m_table t) = MAX_BMT_SIZE" "m_signature t = m_signature (e_bmt s)" "m_reserved t = m_reserved (e_bmt s)"
    and s': "s' = s\<lparr>e_rblocks := freed mb ((e_rblocks s)[n := (e_rblocks s ! n)\<lparr>bi_status := BS_MAPPED\<rparr>]),
      e_bmt := t, e_bmt_dirty := k, e_buf := buf, e_dev := d\<rparr>"
  shows "en75_ok env s'"
proof -
  let ?new = "bi_index (e_rblocks s ! n)"
  have ok: "layout env s" "distinct (map from_blk (bmt_used s))" "distinct (map to_blk (bmt_used s))"
    "\<forall>e \<in> set (bmt_used s). maps_to_reserve s e"
    using assms(1) by (simp_all add: en75_ok_def)
  have used: "bmt_used s' = bmt_upd b ?new (bmt_used s)" "bbt_used s' = bbt_used s"
    using t(1) by (simp_all add: s' bmt_used_def bbt_used_def)
  have lay: "layout env s'" using ok(1) t assms(6) by (simp add: s' layout_def)
  have "?new \<notin> to_blk ` set (bmt_used s)"
  proof
    assume "?new \<in> to_blk ` set (bmt_used s)"
    then obtain e where "e \<in> set (bmt_used s)" "?new = to_blk e" by blast
    then show False using mapped_position [OF ok(1) _ assms(2)] ok(4) assms(3) by fastforce
  qed
  note d = upd_tos [OF ok(2,3) this, of b] upd_froms [OF ok(2), of b ?new]
  have "maps_to_reserve s' e" if e: "e \<in> set (bmt_upd b ?new (bmt_used s))" for e
  proof (cases "from_blk e = b")
    case False
    then show ?thesis using e by (intro remap_maps [OF assms(1-4)]) (auto simp: upd_set s')
  next
    case True
    then have "e = \<lparr>from_blk = b, to_blk = ?new\<rparr>" using e by (auto simp: upd_set)
    moreover have "mb \<noteq> Some n"
      using assms(3,4) mapped_position [OF ok(1) _ assms(2)] ok(4) by (fastforce simp: replaced_by_def)
    then have "e_rblocks s' ! n = \<lparr>bi_index = ?new, bi_status = BS_MAPPED\<rparr>"
      using assms(2) by (auto simp: s' freed_def nth_list_update block_info_eq split: option.split)
    ultimately show ?thesis using assms(2,5) by (auto simp: maps_to_reserve_def s')
  qed
  then show ?thesis
    using lay assms(1) d unfolding en75_ok_def used by (simp add: s')
qed

lemma copy_tries_spec:
  fixes s :: "'d en75"
  assumes "en75_env env" and "unat (pg_size env) \<le> length (e_buf s)"
  shows "returns (remap_copy_tries n env dest src copy_len s) (\<lambda>s'. \<exists>buf d. s' = s\<lparr>e_buf := buf, e_dev := d\<rparr> \<and>
    length buf = length (e_buf s) \<and> dev_steps env (block_addrs env (ucast dest)) (e_dev s) d)"
  using assms(2)
proof (induction n arbitrary: s)
  case 0
  show ?case by (simp, intro exI [of _ "e_buf s"] exI [of _ "e_dev s"]) (simp add: steps_refl)
next
  case (Suc n)
  obtain ret buf d where c: "bbt_nand_copy env dest src copy_len (e_buf s) (e_dev s) = Some (ret, buf, d)"
    "length buf = length (e_buf s)" "dev_steps env (block_addrs env (ucast dest)) (e_dev s) d"
    using copy_spec [of env "e_buf s" dest src copy_len "e_dev s"] assms(1) Suc.prems
    by (auto simp: returns_eq en75_env_def)
  have "returns (remap_copy_tries n env dest src copy_len (s\<lparr>e_buf := buf, e_dev := d\<rparr>))
      (\<lambda>s'. \<exists>buf d. s' = s\<lparr>e_buf := buf, e_dev := d\<rparr> \<and> length buf = length (e_buf s) \<and>
        dev_steps env (block_addrs env (ucast dest)) (e_dev s) d)"
    by (rule returns_mono [OF Suc.IH]) (use c Suc.prems in \<open>fastforce intro: dev_steps_trans\<close>)+
  then show ?case using c by (auto simp: Let_def)
qed

definition remap_addrs :: "'d bmtd \<Rightarrow> 'd en75 \<Rightarrow> u16 \<Rightarrow> u64 \<Rightarrow> bool" where
  "remap_addrs env s b a \<longleftrightarrow> reserve_addrs env s a \<or> block_addrs env (ucast b) a"

text \<open>The state after a successful remapping: a block that was available replaces the block.\<close>

definition remapped :: "'d bmtd \<Rightarrow> u16 \<Rightarrow> 'd en75 \<Rightarrow> 'd en75 \<Rightarrow> bool" where
  "remapped env b s s' \<longleftrightarrow> en75_ok env s' \<and> e_begin s' = e_begin s \<and> bbt_used s' = bbt_used s \<and>
     (\<exists>n < length (e_rblocks s). status s n = BS_AVAILABLE \<and>
        bmt_map (bmt_used s') = (bmt_map (bmt_used s))(b := bi_index (e_rblocks s ! n))) \<and>
     dev_steps env (remap_addrs env s b) (e_dev s) (e_dev s')"

lemma dev_steps_remap:
  "dev_steps env (reserve_addrs env s) d d' \<Longrightarrow> dev_steps env (remap_addrs env s b) d d'"
  "dev_steps env (block_addrs env (ucast b)) d d' \<Longrightarrow> dev_steps env (remap_addrs env s b) d d'"
  by (auto elim!: dev_steps_mono simp: remap_addrs_def)

lemma remap_done:
  fixes s :: "'d en75"
  assumes env: "en75_env env" and ok: "en75_ok env s" and n: "n < length (e_rblocks s)" "status s n = BS_AVAILABLE"
    and mb: "replaced_by s b mb" and b: "b < e_begin s"
    and full: "m_size (e_bmt s) \<noteq> 0xFF"
    and d: "dev_steps env (reserve_addrs env s) (e_dev s) d" and buf: "length buf = length (e_buf s)"
  shows "returns (do {
       let t = e_bmt s;
       t \<leftarrow> (case bmt_redirect b (bi_index (e_rblocks s ! n)) (bmt_used s) of
              Some es \<Rightarrow> Some (t\<lparr>m_table := es @ drop (unat (m_size t)) (m_table t)\<rparr>)
            | None \<Rightarrow> bmt_add b (bi_index (e_rblocks s ! n)) t);
       let s = s\<lparr>e_buf := buf, e_dev := d, e_bmt := t, e_bmt_dirty := e_bmt_dirty s + 1\<rparr>;
       s \<leftarrow> set_status n BS_MAPPED s;
       let s = snd (w_mark_bad env b True s);
       s \<leftarrow> (case mb of None \<Rightarrow> Some s | Some k \<Rightarrow> set_status k BS_NEED_ERASE s);
       Some (0, s)
     }) (\<lambda>(r, s'). r = (0::int) \<and> remapped env b s s')"
proof -
  let ?new = "bi_index (e_rblocks s ! n)"
  have l: "layout env s" "distinct (map from_blk (bmt_used s))" using ok by (simp_all add: en75_ok_def)
  obtain t where t: "(case bmt_redirect b ?new (bmt_used s) of
        Some es \<Rightarrow> Some ((e_bmt s)\<lparr>m_table := es @ drop (unat (m_size (e_bmt s))) (m_table (e_bmt s))\<rparr>)
      | None \<Rightarrow> bmt_add b ?new (e_bmt s)) = Some t"
    "take (unat (m_size t)) (m_table t) = bmt_upd b ?new (bmt_used s)" "length (m_table t) = MAX_BMT_SIZE"
    "m_signature t = m_signature (e_bmt s)" "m_reserved t = m_reserved (e_bmt s)"
    using bmt_update [OF l full, of b ?new] by blast
  let ?rb = "(e_rblocks s)[n := (e_rblocks s ! n)\<lparr>bi_status := BS_MAPPED\<rparr>]"
  define s1 where "s1 = s\<lparr>e_buf := buf, e_dev := d, e_bmt := t, e_bmt_dirty := e_bmt_dirty s + 1, e_rblocks := ?rb\<rparr>"
  have s1: "set_status n BS_MAPPED (s\<lparr>e_buf := buf, e_dev := d, e_bmt := t, e_bmt_dirty := e_bmt_dirty s + 1\<rparr>) = Some s1"
    using n by (simp add: set_status_def arr_get_def arr_set_def s1_def)
  obtain d2 where d2: "snd (w_mark_bad env b True s1) = s1\<lparr>e_dev := d2\<rparr>"
    unfolding w_mark_bad_def by (rule exE [OF w_write_keeps])
  have "length [BLOCK_WORN_MARK, 0xFF, 0xFF, 0xFF] \<le> unat (blk_size env)" using env by (simp add: en75_env_def)
  from w_write_steps [OF env this, of b s1 True True] d2
  have st: "dev_steps env (block_addrs env (ucast b)) d d2" by (simp add: w_mark_bad_def s1_def)
  define s2 where "s2 = s\<lparr>e_rblocks := freed mb ?rb, e_bmt := t, e_bmt_dirty := e_bmt_dirty s + 1, e_buf := buf, e_dev := d2\<rparr>"
  have s2: "(case mb of None \<Rightarrow> Some (s1\<lparr>e_dev := d2\<rparr>) | Some k \<Rightarrow> set_status k BS_NEED_ERASE (s1\<lparr>e_dev := d2\<rparr>)) = Some s2"
    using mb by (cases mb) (simp_all add: s1_def s2_def freed_def replaced_by_def set_status_def arr_get_def arr_set_def)
  have "en75_ok env s2" by (rule remap_ok [OF ok n mb b buf t(2-5) s2_def])
  moreover have "bmt_used s2 = bmt_upd b ?new (bmt_used s)" "bbt_used s2 = bbt_used s" "e_begin s2 = e_begin s"
    using t(2) by (simp_all add: s2_def bmt_used_def bbt_used_def)
  moreover have "dev_steps env (remap_addrs env s b) (e_dev s) (e_dev s2)"
    using dev_steps_trans [OF dev_steps_remap(1) [OF d] dev_steps_remap(2) [OF st]] by (simp add: s2_def)
  ultimately have "remapped env b s s2" using n upd_map [OF l(2)] by (auto simp: remapped_def)
  then show ?thesis by (simp add: t(1) s1 d2 s2)
qed

text \<open>
  An attempt either remaps the block or leaves mapping and tables alone. The copy need not succeed.
\<close>

lemma remap_spec:
  fixes s :: "'d en75"
  assumes env: "en75_env env" and ok: "en75_ok env s" and mb: "replaced_by s b mb"
  shows "returns (w_remap_block env b mb copy_len s)
    (\<lambda>(r, s'). if r = 0 then remapped env b s s' else quiet env s s')"
proof (cases "m_size (e_bmt s) = 0xFF")
  case True
  then show ?thesis by (simp add: w_remap_block_def)
next
  case full: False
  have l: "layout env s" using ok by (simp add: en75_ok_def)
  obtain r where r: "find_available_block env False s = Some r"
    "case r of None \<Rightarrow> True | Some i \<Rightarrow> i < length (e_rblocks s) \<and> status s i = BS_AVAILABLE"
    using find_available_spec [OF l, of False] by (auto simp: returns_eq split: option.splits)
  show ?thesis
  proof (cases r)
    case None
    then show ?thesis using r full by (simp add: w_remap_block_def)
  next
    case (Some n)
    then have n: "n < length (e_rblocks s)" "status s n = BS_AVAILABLE" using r(2) by auto
    let ?nb = "e_rblocks s ! n"
    let ?fdm = "[0xFF, 0xFF] @ host_bytes (e_big_endian s) 2 b"
    obtain ret s1 where m: "w_make_mapping env ?nb b s = (ret, s1)" by force
    have "length ?fdm \<le> unat (blk_size env)" using env by (simp add: en75_env_def host_bytes_def)
    from w_write_quiet [OF env this, of s "bi_index ?nb" True]
    have q: "quiet env s s1" and b: "ret = 0 \<longrightarrow> b < e_begin s" using m n
      by (auto simp: w_make_mapping_def split: if_splits dest: sym)
    obtain d1 where "snd (w_write env (bi_index ?nb) False ?fdm True s) = s\<lparr>e_dev := d1\<rparr>"
      by (rule exE [OF w_write_keeps])
    then obtain d where s1: "s1 = s\<lparr>e_dev := d\<rparr>"
      using m by (auto simp: w_make_mapping_def split: if_splits intro: that [of "e_dev s"])
    show ?thesis
    proof (cases "ret = 0")
      case False
      have "returns (set_status n BS_NEED_ERASE s1) (\<lambda>s'. quiet env s s')"
        by (rule returns_mono [OF set_status_shape [of _ _ _ env]])
          (use n s1 q in \<open>auto intro: quiet_trans\<close>)
      then show ?thesis using False r(1) Some n m full
        by (auto simp: w_remap_block_def arr_get_def returns_eq)
    next
      case True
      have buf: "unat (pg_size env) \<le> length (e_buf s1)" using l by (simp add: s1 layout_def)
      define src where "src = (case mb of None \<Rightarrow> b | Some k \<Rightarrow> bi_index (e_rblocks s ! k))"
      have src: "(case mb of None \<Rightarrow> Some b | Some k \<Rightarrow> map_option bi_index (arr_get (e_rblocks s1) k)) = Some src"
        using mb by (cases mb) (simp_all add: src_def s1 replaced_by_def arr_get_def)
      obtain buf' d' where c: "(if copy_len \<noteq> 0 then remap_copy_tries REMAP_COPY_TRIES env (bi_index ?nb) src copy_len s1
          else Some s1) = Some (s\<lparr>e_buf := buf', e_dev := d'\<rparr>)" "length buf' = length (e_buf s)"
        "dev_steps env (reserve_addrs env s) (e_dev s) d'"
      proof (cases "copy_len = 0")
        case True
        then show ?thesis using that [of d "e_buf s"] q by (simp add: s1 quiet_def)
      next
        case False
        have "block_index_is_sane env s (bi_index ?nb) False"
          using rblock_index(2,3) [OF l n(1)] by (simp add: block_index_is_sane_def not_le not_less)
        have step: "dev_steps env (reserve_addrs env s) (e_dev s) d2"
          if "dev_steps env (block_addrs env (ucast (bi_index ?nb))) d d2" for d2
          using q dev_steps_mono [OF that sane_reserve [OF \<open>block_index_is_sane _ _ _ _\<close>]]
          by (auto simp: s1 quiet_def intro: dev_steps_trans)
        show ?thesis
          using False that copy_tries_spec [OF env buf, of REMAP_COPY_TRIES "bi_index ?nb" src copy_len] step
          by (auto simp: returns_eq s1)
      qed
      have bound: "b < e_begin s" using b True by simp
      from remap_done [OF env ok n mb bound full c(3,2)]
      show ?thesis using True r(1) Some n m full src c(1)
        by (auto simp: w_remap_block_def arr_get_def returns_eq Let_def s1 cong: option.case_cong)
    qed
  qed
qed

end
