(* ===== verification/En75_Unmap.thy ===== *)
theory En75_Unmap
  imports En75_Remap "HOL-Library.Multiset"
begin

text \<open>
  Unmapping a block: the entry is overwritten by the last one, and its block of the reserve area is
  erased and becomes free again. What the operations make of the mapping as a whole.
\<close>

section \<open>Removing an entry\<close>

definition drop_entry :: "nat \<Rightarrow> bmt_entry list \<Rightarrow> bmt_entry list" where
  "drop_entry i es = butlast (es[i := last es])"

lemma drop_entry_mset:
  assumes "i < length es"
  shows "mset es = add_mset (es ! i) (mset (drop_entry i es))"
proof -
  have ne: "es[i := last es] \<noteq> []" "es \<noteq> []" using assms by auto
  have l: "last (es[i := last es]) = last es"
    using assms ne by (simp add: last_conv_nth nth_list_update)
  have "mset (es[i := last es]) = add_mset (last es) (mset (drop_entry i es))"
    using append_butlast_last_id [OF ne(1)] unfolding drop_entry_def l
    by (metis add_mset_add_single mset_append mset_single_iff_right)
  moreover have "add_mset (es ! i) (mset (es[i := last es])) = add_mset (last es) (mset es)"
    using assms mset_update [OF assms, of "last es"] by (simp add: insert_DiffM)
  ultimately have "add_mset (last es) (add_mset (es ! i) (mset (drop_entry i es))) = add_mset (last es) (mset es)"
    by (simp add: add_mset_commute)
  then show ?thesis by simp
qed

lemma drop_entry_distinct:
  assumes "i < length es" and "distinct (map f es)"
  shows "distinct (map f (drop_entry i es))" and "f (es ! i) \<notin> f ` set (drop_entry i es)"
    and "set es = insert (es ! i) (set (drop_entry i es))"
proof -
  have "mset (map f es) = mset (map f (es ! i # drop_entry i es))"
    using drop_entry_mset [OF assms(1)] by simp
  then have "distinct (map f (es ! i # drop_entry i es))"
    using assms(2) mset_eq_imp_distinct_iff by blast
  then show "distinct (map f (drop_entry i es))" "f (es ! i) \<notin> f ` set (drop_entry i es)" by auto
  show "set es = insert (es ! i) (set (drop_entry i es))"
    using drop_entry_mset [OF assms(1)] by (metis set_mset_add_mset_insert set_mset_mset)
qed

lemma drop_entry_map:
  assumes "distinct (map from_blk es)" and "i < length es"
  shows "bmt_map (drop_entry i es) = (bmt_map es)(from_blk (es ! i) := from_blk (es ! i))"
proof
  fix x
  note d = drop_entry_distinct [OF assms(2,1)]
  show "bmt_map (drop_entry i es) x = ((bmt_map es)(from_blk (es ! i) := from_blk (es ! i))) x"
  proof (cases "x \<in> from_blk ` set (drop_entry i es)")
    case True
    then obtain e where e: "e \<in> set (drop_entry i es)" "from_blk e = x" by blast
    then have "x \<noteq> from_blk (es ! i)" "e \<in> set es" using d(2,3) by (metis image_eqI, simp)
    then show ?thesis using e bmt_map_entry [OF d(1) e(1)] bmt_map_entry [OF assms(1), of e] by simp
  next
    case False
    then have "x = from_blk (es ! i) \<or> x \<notin> from_blk ` set es" using d(3) by auto
    then show ?thesis using bmt_map_other [OF False] bmt_map_other [of x es] by auto
  qed
qed

lemma bmt_index_spec:
  "case bmt_index b es k of None \<Rightarrow> b \<notin> from_blk ` set es
   | Some j \<Rightarrow> k \<le> j \<and> j - k < length es \<and> from_blk (es ! (j - k)) = b"
proof (induction es arbitrary: k)
  case (Cons e es)
  then show ?case
    using Cons.IH [of "k + 1"] by (auto split: option.splits simp: nth_Cons')
qed simp

lemma find_index_spec:
  "\<forall>j \<in> set js. j < length rb \<Longrightarrow> returns (find_index rb js b) (\<lambda>r. case r of
     None \<Rightarrow> \<forall>j \<in> set js. bi_index (rb ! j) \<noteq> b | Some j \<Rightarrow> j \<in> set js \<and> bi_index (rb ! j) = b)"
  by (induction js) (auto simp: arr_get_def elim!: returns_mono split: option.splits)

text \<open>The position of an entry's block is found.\<close>

lemma find_mapped:
  assumes "layout env s" and "maps_to_reserve s e"
  obtains j where "find_index (e_rblocks s) [0..<nat (reserve_block_count env s)] (to_blk e) = Some (Some j)"
    "j < length (e_rblocks s)" "e_rblocks s ! j = \<lparr>bi_index = to_blk e, bi_status = BS_MAPPED\<rparr>"
proof -
  obtain i where i: "i < length (e_rblocks s)" "bi_index (e_rblocks s ! i) = to_blk e"
    using assms(2) by (auto simp: maps_to_reserve_def)
  obtain r where r: "find_index (e_rblocks s) [0..<length (e_rblocks s)] (to_blk e) = Some r"
    "case r of None \<Rightarrow> \<forall>j \<in> set [0..<length (e_rblocks s)]. bi_index (e_rblocks s ! j) \<noteq> to_blk e
     | Some j \<Rightarrow> j \<in> set [0..<length (e_rblocks s)] \<and> bi_index (e_rblocks s ! j) = to_blk e"
    using find_index_spec [of "[0..<length (e_rblocks s)]" "e_rblocks s" "to_blk e"] by (auto simp: returns_eq)
  then obtain j where j: "r = Some j" "j < length (e_rblocks s)" "bi_index (e_rblocks s ! j) = to_blk e"
    using i by (cases r) auto
  then have "status s j = BS_MAPPED" using mapped_position [OF assms j(2,3)] by simp
  then show ?thesis using that [of j] r(1) j reserve_count(1) [OF assms(1)] by (simp add: block_info_eq)
qed

section \<open>Unmapping\<close>

text \<open>The state after a block is unmapped: it is mapped to itself.\<close>

definition unmapped :: "'d bmtd \<Rightarrow> u16 \<Rightarrow> 'd en75 \<Rightarrow> 'd en75 \<Rightarrow> bool" where
  "unmapped env b s s' \<longleftrightarrow> en75_ok env s' \<and> e_begin s' = e_begin s \<and> bbt_used s' = bbt_used s \<and>
     bmt_map (bmt_used s') = (bmt_map (bmt_used s))(b := b) \<and>
     dev_steps env (reserve_addrs env s) (e_dev s) (e_dev s')"

lemma drop_ok:
  fixes s s' :: "'d en75"
  assumes ok: "en75_ok env s" and i: "i < length (bmt_used s)" and j: "j < length (e_rblocks s)"
    and e: "bi_index (e_rblocks s ! j) = to_blk (bmt_used s ! i)"
    and t: "take (unat (m_size t)) (m_table t) = drop_entry i (bmt_used s)"
      "length (m_table t) = MAX_BMT_SIZE" "m_signature t = m_signature (e_bmt s)" "m_reserved t = m_reserved (e_bmt s)"
    and s': "s' = s\<lparr>e_rblocks := (e_rblocks s)[j := (e_rblocks s ! j)\<lparr>bi_status := BS_NEED_ERASE\<rparr>],
      e_bmt := t, e_bmt_dirty := k, e_dev := d\<rparr>"
  shows "en75_ok env s'"
proof -
  have l: "layout env s" "distinct (map from_blk (bmt_used s))" "distinct (map to_blk (bmt_used s))"
    "\<forall>e \<in> set (bmt_used s). maps_to_reserve s e"
    using ok by (simp_all add: en75_ok_def)
  have used: "bmt_used s' = drop_entry i (bmt_used s)" "bbt_used s' = bbt_used s"
    using t(1) by (simp_all add: s' bmt_used_def bbt_used_def)
  have lay: "layout env s'" using l(1) t by (simp add: s' layout_def)
  note to = drop_entry_distinct [OF i l(3)]
  have "maps_to_reserve s' x" if x: "x \<in> set (drop_entry i (bmt_used s))" for x
  proof -
    have "x \<in> set (bmt_used s)" "to_blk x \<noteq> to_blk (bmt_used s ! i)" using x to(2,3) by (simp, metis image_eqI)
    then obtain n where n: "n < length (e_rblocks s)" "e_rblocks s ! n = \<lparr>bi_index = to_blk x, bi_status = BS_MAPPED\<rparr>"
      "from_blk x < e_begin s" using l(4) by (auto simp: maps_to_reserve_def)
    then have "n \<noteq> j" using e \<open>to_blk x \<noteq> _\<close> by auto
    then show ?thesis using n by (auto simp: maps_to_reserve_def s' intro: exI [of _ n])
  qed
  then show ?thesis
    using lay ok to(1) drop_entry_distinct(1) [OF i l(2)] unfolding en75_ok_def used by (simp add: s')
qed

lemma drop_last_entry:
  assumes "i < n" and "n \<le> length xs"
  shows "take (n - 1) (xs[i := xs ! (n - 1), n - 1 := z]) = drop_entry i (take n xs)"
proof -
  have "take (n - 1) (xs[i := xs ! (n - 1), n - 1 := z]) = take (n - 1) (xs[i := xs ! (n - 1)])" by simp
  moreover have "last (take n xs) = xs ! (n - 1)" using assms by (subst last_conv_nth) auto
  then have "drop_entry i (take n xs) = take (n - 1) (xs[i := xs ! (n - 1)])"
    using assms by (simp add: drop_entry_def butlast_conv_take take_update_swap)
  ultimately show ?thesis by simp
qed

lemma unmap_spec:
  fixes s :: "'d en75"
  assumes env: "en75_env env" and ok: "en75_ok env s"
  shows "returns (w_unmap_block env b er s)
    (\<lambda>(r, s'). if r = 0 then unmapped env b s s' \<and> b \<in> from_blk ` set (bmt_used s) else quiet env s s')"
proof (cases "bmt_index b (bmt_used s) 0")
  case None
  then show ?thesis by (simp add: w_unmap_block_def)
next
  case (Some i)
  let ?t = "e_bmt s" and ?n = "unat (m_size (e_bmt s))"
  have l: "layout env s" "distinct (map from_blk (bmt_used s))" using ok by (simp_all add: en75_ok_def)
  have i: "i < length (bmt_used s)" "from_blk (bmt_used s ! i) = b"
    using bmt_index_spec [of b "bmt_used s" 0] Some by auto
  have len: "length (m_table ?t) = MAX_BMT_SIZE" using l(1) by (simp add: layout_def)
  moreover have "?n < 256" using unsigned_less [of "m_size ?t"] by simp
  ultimately have n: "i < ?n" "?n \<le> length (m_table ?t)" "m_table ?t ! i = bmt_used s ! i"
    using i(1) by (simp_all add: bmt_used_def)
  have "maps_to_reserve s (bmt_used s ! i)" using ok i(1) by (simp add: en75_ok_def)
  then obtain j where j: "find_index (e_rblocks s) [0..<nat (reserve_block_count env s)] (to_blk (bmt_used s ! i)) = Some (Some j)"
    "j < length (e_rblocks s)" "bi_index (e_rblocks s ! j) = to_blk (bmt_used s ! i)"
    using find_mapped [OF l(1)] by (metis block_info.select_convs(1))
  obtain ret s1 where e: "(if er \<noteq> UE_NO_ERASE then w_erase_one env (bi_index (e_rblocks s ! j)) False s else (0, s)) = (ret, s1)"
    by force
  have q: "quiet env s s1" using w_erase_one_quiet [OF env, of s] e by (auto split: if_splits dest!: sym [of "w_erase_one _ _ _ _"] simp: prod_eq_iff)
  obtain d where s1: "s1 = s\<lparr>e_dev := d\<rparr>"
    using e by (auto simp: w_erase_one_def split: if_splits prod.splits intro: that [of "e_dev s"])
  define t where "t = ?t\<lparr>m_table := (m_table ?t)[i := m_table ?t ! (?n - 1), ?n - 1 := no_entry], m_size := of_nat (?n - 1)\<rparr>"
  have t: "take (unat (m_size t)) (m_table t) = drop_entry i (bmt_used s)" "length (m_table t) = MAX_BMT_SIZE"
    "m_signature t = m_signature ?t" "m_reserved t = m_reserved ?t"
    using drop_last_entry [OF n(1,2)] len \<open>?n < 256\<close>
    by (simp_all add: t_def bmt_used_def unat_of_nat take_bit_nat_eq_self)
  define s2 where "s2 = s\<lparr>e_rblocks := (e_rblocks s)[j := (e_rblocks s ! j)\<lparr>bi_status := BS_NEED_ERASE\<rparr>],
    e_bmt := t, e_bmt_dirty := e_bmt_dirty s + 1, e_dev := d\<rparr>"
  have run: "w_unmap_block env b er s = Some (if ret \<noteq> 0 \<and> er = UE_REQUIRE_ERASE then (ret, s1) else (0, s2))"
    using Some n j e len \<open>?n < 256\<close>
    by (simp add: Let_def less_imp_diff_less w_unmap_block_def arr_get_def arr_set_def s1 set_status_def s2_def t_def)
  have "unmapped env b s s2"
    using drop_ok [OF ok i(1) j(2,3) t s2_def] drop_entry_map [OF l(2) i(1)] t(1) q i(2)
    by (simp add: unmapped_def s2_def bmt_used_def bbt_used_def quiet_def s1)
  moreover have "b \<in> from_blk ` set (bmt_used s)" using i nth_mem by blast
  ultimately show ?thesis using run q by simp
qed

end
