(* ===== verification/En75_Ops.thy ===== *)
theory En75_Ops
  imports En75_Unmap
begin

text \<open>
  The operations that are registered with the core, on states that satisfy the invariant: what they
  make of the mapping of logical blocks and which addresses of the chip they modify.
\<close>

section \<open>The mapping as a whole\<close>

lemma quiet_mapping:
  "quiet env s s' \<Longrightarrow> get_mapping_block_en75 s' = get_mapping_block_en75 s"
  using quiet_fields [of env s s'] by (intro mapping_cong) simp_all

text \<open>The block of the user area that a logical block has before the BMT is looked at.\<close>

definition own_block :: "'d en75 \<Rightarrow> u16 \<Rightarrow> u16" where
  "own_block s ub = of_nat (user_blocks s ! unat ub)"

lemma own_block_unat:
  assumes "i < length (user_blocks s)"
  shows "unat (of_nat (user_blocks s ! i) :: u16) = user_blocks s ! i"
proof -
  have "unat (e_begin s) < 2 ^ 16" using unsigned_less [of "e_begin s"] by simp
  then have "user_blocks s ! i < 2 ^ 16" using user_blocks_below [OF assms] by simp
  then show ?thesis by (simp add: unat_of_nat take_bit_nat_eq_self)
qed

lemma own_block_bbt:
  assumes "sorted_wrt (<) (bbt_used s)" and "unat ub < length (user_blocks s)"
  shows "get_mapping_block_bbt s (uint ub) = uint (own_block s ub)"
proof -
  have "uint (own_block s ub) = int (user_blocks s ! unat ub)"
    unfolding own_block_def uint_nat own_block_unat [OF assms(2)] ..
  then show ?thesis using assms by (simp add: mapping_bbt_enum)
qed

lemma mapping_upd:
  assumes "sorted_wrt (<) (bbt_used s)" and "e_begin s' = e_begin s" and "bbt_used s' = bbt_used s"
    and "bmt_map (bmt_used s') = (bmt_map (bmt_used s))(own_block s ub := n)" and ub: "unat ub < length (user_blocks s)"
  shows "get_mapping_block_en75 s' = (get_mapping_block_en75 s)(uint ub := uint n)"
proof
  fix x
  have sorted': "sorted_wrt (<) (bbt_used s')" using assms(1,3) by simp
  have u: "user_blocks s' = user_blocks s" using assms(2,3) by (simp add: user_blocks_def)
  show "get_mapping_block_en75 s' x = ((get_mapping_block_en75 s)(uint ub := uint n)) x"
  proof (cases "0 \<le> x \<and> nat x < length (user_blocks s) \<and> x \<noteq> uint ub")
    case True
    have "x = int (nat x)" "uint ub = int (unat ub)" using True by simp_all
    then have x: "nat x < length (user_blocks s)" "nat x \<noteq> unat ub" using True by metis+
    then have "user_blocks s ! nat x \<noteq> user_blocks s ! unat ub"
      using nth_eq_iff_index_eq [OF user_blocks_distinct x(1) ub] by blast
    then have "(of_nat (user_blocks s ! nat x) :: u16) \<noteq> own_block s ub"
      unfolding own_block_def using own_block_unat [OF x(1)] own_block_unat [OF ub] by metis
    then show ?thesis using True by (simp add: mapping_en75 [OF sorted'] mapping_en75 [OF assms(1)] u assms(4))
  next
    case False
    show ?thesis
    proof (cases "x = uint ub")
      case True
      then show ?thesis using ub by (simp add: mapping_en75 [OF sorted'] u assms(4) own_block_def)
    next
      case n: False
      then have "\<not> (0 \<le> x \<and> nat x < length (user_blocks s))" using False by blast
      then show ?thesis using n by (simp only: mapping_en75 [OF sorted'] mapping_en75 [OF assms(1)] u fun_upd_apply if_False)
    qed
  qed
qed

lemma ok_sync:
  assumes "en75_env env" and "en75_ok env s" and "length (e_rblocks s) \<le> MAX_BMT_SIZE"
  shows "returns (w_sync_tables env s) (\<lambda>(r, s'). quiet env s s')"
proof -
  have "sorted (bbt_used s)" using assms(2) by (simp add: en75_ok_def strict_sorted_iff)
  then show ?thesis using assms
    by (intro returns_mono [OF sync_tables_spec]) (auto simp: en75_ok_def)
qed

lemma ok_length:
  assumes "en75_ok env s" and "en75_ok env s'" and "e_begin s' = e_begin s"
  shows "length (e_rblocks s') = length (e_rblocks s)"
  using assms reserve_count(2) [of env s] reserve_count(2) [of env s'] by (simp add: en75_ok_def)

lemma quiet_reserve: "quiet env s s' \<Longrightarrow> e_begin s = e_begin s0 \<Longrightarrow> dev_steps env (reserve_addrs env s0) (e_dev s) (e_dev s')"
  by (simp add: quiet_def reserve_addrs_def)

section \<open>Remapping\<close>

text \<open>What is found for the physical block that the core passes.\<close>

lemma remap_position:
  assumes ok: "en75_ok env s" and ub: "unat ub < length (user_blocks s)"
    and m: "m = word_of_int (get_mapping_block_en75 s (uint ub))" and b: "b = own_block s ub"
  obtains mb where "(if m \<noteq> b then find_index (e_rblocks s) [0..<nat (reserve_block_count env s)] m else Some None) = Some mb"
    "m \<noteq> b \<longrightarrow> mb \<noteq> None" "replaced_by s b mb"
proof -
  have l: "layout env s" "sorted_wrt (<) (bbt_used s)" "\<forall>e \<in> set (bmt_used s). maps_to_reserve s e"
    "distinct (map from_blk (bmt_used s))" using ok by (simp_all add: en75_ok_def)
  have m': "m = bmt_map (bmt_used s) b" using ub unfolding m b by (simp add: mapping_en75 [OF l(2)] own_block_def)
  show ?thesis
  proof (cases "b \<in> from_blk ` set (bmt_used s)")
    case False
    then show ?thesis using that [of None] bmt_map_other [OF False] by (simp add: m' replaced_by_def)
  next
    case True
    then obtain e where e: "e \<in> set (bmt_used s)" "from_blk e = b" by blast
    then have t: "m = to_blk e" using bmt_map_entry [OF l(4) e(1)] m' by simp
    have "maps_to_reserve s e" using l(3) e(1) by blast
    then have "from_blk e < e_begin s" "e_begin s \<le> to_blk e" using maps_above [OF l(1)] by (auto simp: maps_to_reserve_def)
    then have "m \<noteq> b" using t e(2) by auto
    obtain j where j: "find_index (e_rblocks s) [0..<nat (reserve_block_count env s)] (to_blk e) = Some (Some j)"
      "j < length (e_rblocks s)" "e_rblocks s ! j = \<lparr>bi_index = to_blk e, bi_status = BS_MAPPED\<rparr>"
      using find_mapped [OF l(1) \<open>maps_to_reserve s e\<close>] .
    have "\<lparr>from_blk = b, to_blk = to_blk e\<rparr> = e" using e(2) by simp
    then show ?thesis using that [of "Some j"] j e(1) \<open>m \<noteq> b\<close> t by (simp add: replaced_by_def)
  qed
qed

definition remap_outcome :: "'d bmtd \<Rightarrow> u16 \<Rightarrow> 'd en75 \<Rightarrow> bool \<times> 'd en75 \<Rightarrow> bool" where
  "remap_outcome env ub s = (\<lambda>(r, s'). en75_ok env s' \<and> e_begin s' = e_begin s \<and> bbt_used s' = bbt_used s \<and>
     dev_steps env (remap_addrs env s (own_block s ub)) (e_dev s) (e_dev s') \<and>
     (get_mapping_block_en75 s' = get_mapping_block_en75 s \<or>
      r \<and> (\<exists>n < length (e_rblocks s). status s n = BS_AVAILABLE \<and>
        get_mapping_block_en75 s' = (get_mapping_block_en75 s)(uint ub := uint (bi_index (e_rblocks s ! n))))))"

lemma remap_then_sync:
  assumes env: "en75_env env" and ok: "en75_ok env s" and size: "length (e_rblocks s) \<le> MAX_BMT_SIZE"
    and mb: "replaced_by s (own_block s ub) mb" and ub: "unat ub < length (user_blocks s)"
  shows "returns (do {
      (ret, s) \<leftarrow> w_remap_block env (own_block s ub) mb copy_len s;
      (_, s) \<leftarrow> w_sync_tables env s;
      Some (ret \<noteq> - ENOSPC, s) }) (remap_outcome env ub s)"
proof -
  obtain ret s1 where r: "w_remap_block env (own_block s ub) mb copy_len s = Some (ret, s1)"
    "if ret = 0 then remapped env (own_block s ub) s s1 else quiet env s s1"
    using remap_spec [OF env ok mb, of copy_len] by (auto simp: returns_eq)
  have ok1: "en75_ok env s1" "e_begin s1 = e_begin s" and bbt1: "bbt_used s1 = bbt_used s"
    using r(2) quiet_ok [OF _ ok] quiet_fields(3,5) by (auto simp: remapped_def split: if_splits)
  have "length (e_rblocks s1) \<le> MAX_BMT_SIZE" using ok_length [OF ok ok1] size by simp
  then obtain r2 s2 where s2: "w_sync_tables env s1 = Some (r2, s2)" "quiet env s1 s2"
    using ok_sync [OF env ok1(1)] by (auto simp: returns_eq)
  have ok2: "en75_ok env s2" "e_begin s2 = e_begin s" "bbt_used s2 = bbt_used s"
    using quiet_ok [OF s2(2) ok1(1)] quiet_fields(3,5) [OF s2(2)] ok1(2) bbt1 by simp_all
  have "dev_steps env (remap_addrs env s (own_block s ub)) (e_dev s) (e_dev s1)"
    using r(2) by (auto simp: remapped_def quiet_def intro: dev_steps_remap split: if_splits)
  then have st: "dev_steps env (remap_addrs env s (own_block s ub)) (e_dev s) (e_dev s2)"
    using dev_steps_remap(1) [OF quiet_reserve [OF s2(2) ok1(2)]] by (rule dev_steps_trans)
  have "remap_outcome env ub s (ret \<noteq> - ENOSPC, s2)"
  proof (cases "ret = 0")
    case True
    then have rm: "remapped env (own_block s ub) s s1" using r(2) by simp
    then obtain n where n: "n < length (e_rblocks s)" "status s n = BS_AVAILABLE"
      "bmt_map (bmt_used s1) = (bmt_map (bmt_used s))(own_block s ub := bi_index (e_rblocks s ! n))"
      by (auto simp: remapped_def)
    have "sorted_wrt (<) (bbt_used s)" using ok by (simp add: en75_ok_def)
    from mapping_upd [OF this ok1(2) _ n(3) ub] rm n
    show ?thesis using True ok2 st quiet_mapping [OF s2(2)] by (auto simp: remap_outcome_def remapped_def)
  next
    case False
    then show ?thesis
      using ok2 st quiet_mapping [OF s2(2)] quiet_mapping [of env s s1] r(2) by (simp add: remap_outcome_def)
  qed
  then show ?thesis using r(1) s2(1) by simp
qed

lemma remap_outcome_refl: "en75_ok env s \<Longrightarrow> remap_outcome env ub s (r, s)"
  by (simp add: remap_outcome_def steps_refl)

lemma pub_remap_spec:
  assumes "en75_env env" and "en75_ok env s" and "length (e_rblocks s) \<le> MAX_BMT_SIZE" and "unat ub < length (user_blocks s)"
  shows "returns (pub_remap_block env ub (word_of_int (get_mapping_block_en75 s (uint ub))) copy_len s)
    (remap_outcome env ub s)"
proof -
  have "sorted_wrt (<) (bbt_used s)" using assms(2) by (simp add: en75_ok_def)
  from own_block_bbt [OF this assms(4)] have b: "word_of_int (get_mapping_block_bbt s (uint ub)) = own_block s ub" by simp
  obtain mb where mb: "(if word_of_int (get_mapping_block_en75 s (uint ub)) \<noteq> own_block s ub
      then find_index (e_rblocks s) [0..<nat (reserve_block_count env s)] (word_of_int (get_mapping_block_en75 s (uint ub)))
      else Some None) = Some mb"
    "word_of_int (get_mapping_block_en75 s (uint ub)) \<noteq> own_block s ub \<longrightarrow> mb \<noteq> None" "replaced_by s (own_block s ub) mb"
    using remap_position [OF assms(2,4) refl refl] .
  show ?thesis
    using remap_then_sync [OF assms(1-3) mb(3) assms(4), of copy_len] remap_outcome_refl [OF assms(2)] mb(1,2)
    unfolding pub_remap_block_def Let_def b by auto
qed

section \<open>Unmapping\<close>

definition unmap_outcome :: "'d bmtd \<Rightarrow> u16 \<Rightarrow> 'd en75 \<Rightarrow> 'd en75 \<Rightarrow> bool" where
  "unmap_outcome env ub s s' \<longleftrightarrow> en75_ok env s' \<and> e_begin s' = e_begin s \<and> bbt_used s' = bbt_used s \<and>
     dev_steps env (reserve_addrs env s) (e_dev s) (e_dev s') \<and>
     (get_mapping_block_en75 s' = get_mapping_block_en75 s \<or>
      get_mapping_block_en75 s' = (get_mapping_block_en75 s)(uint ub := get_mapping_block_bbt s (uint ub)))"

lemma pub_unmap_spec:
  assumes env: "en75_env env" and ok: "en75_ok env s" and size: "length (e_rblocks s) \<le> MAX_BMT_SIZE"
  shows "returns (pub_unmap_block env ub s) (unmap_outcome env ub s)"
proof (cases "get_mapping_block_bbt s (uint ub) < 0 \<or> ub \<ge> e_begin s")
  case True
  then show ?thesis using ok by (auto simp: pub_unmap_block_def unmap_outcome_def steps_refl)
next
  case False
  have sorted: "sorted_wrt (<) (bbt_used s)" using ok by (simp add: en75_ok_def)
  then have ub: "unat ub < length (user_blocks s)" using False by (auto simp: mapping_bbt_enum split: if_splits)
  note b = own_block_bbt [OF sorted this]
  obtain ret s1 where r: "w_unmap_block env (own_block s ub) UE_REQUIRE_ERASE s = Some (ret, s1)"
    "if ret = 0 then unmapped env (own_block s ub) s s1 else quiet env s s1"
    using unmap_spec [OF env ok, of "own_block s ub" UE_REQUIRE_ERASE] by (auto simp: returns_eq split: if_splits)
  have ok1: "en75_ok env s1" "e_begin s1 = e_begin s" and bbt1: "bbt_used s1 = bbt_used s"
    using r(2) quiet_ok [OF _ ok] quiet_fields(3,5) by (auto simp: unmapped_def split: if_splits)
  have "length (e_rblocks s1) \<le> MAX_BMT_SIZE" using ok_length [OF ok ok1] size by simp
  then obtain r2 s2 where s2: "w_sync_tables env s1 = Some (r2, s2)" "quiet env s1 s2"
    using ok_sync [OF env ok1(1)] by (auto simp: returns_eq)
  have "dev_steps env (reserve_addrs env s) (e_dev s) (e_dev s1)"
    using r(2) by (auto simp: unmapped_def quiet_def split: if_splits)
  then have st: "dev_steps env (reserve_addrs env s) (e_dev s) (e_dev s2)"
    using quiet_reserve [OF s2(2) ok1(2)] by (rule dev_steps_trans)
  have "get_mapping_block_en75 s1 = get_mapping_block_en75 s \<or>
      get_mapping_block_en75 s1 = (get_mapping_block_en75 s)(uint ub := get_mapping_block_bbt s (uint ub))"
    using r(2) mapping_upd [OF sorted ok1(2) _ _ ub, of "own_block s ub"] quiet_mapping [of env s s1]
    by (auto simp: unmapped_def b split: if_splits)
  then have "unmap_outcome env ub s s2"
    using st quiet_ok [OF s2(2) ok1(1)] quiet_fields(3,5) [OF s2(2)] ok1(2) bbt1 quiet_mapping [OF s2(2)]
    by (simp add: unmap_outcome_def)
  then show ?thesis using False b r(1) s2(1) by (auto simp: pub_unmap_block_def)
qed

section \<open>No block is used twice\<close>

lemma mapping_inj:
  assumes ok: "en75_ok env s" and xy: "x < length (user_blocks s)" "y < length (user_blocks s)"
    and eq: "get_mapping_block_en75 s (int x) = get_mapping_block_en75 s (int y)"
  shows "x = y"
proof -
  let ?m = "bmt_map (bmt_used s)" and ?b = "\<lambda>i. of_nat (user_blocks s ! i) :: u16"
  have l: "layout env s" "sorted_wrt (<) (bbt_used s)" "\<forall>e \<in> set (bmt_used s). maps_to_reserve s e"
    "distinct (map to_blk (bmt_used s))" using ok by (simp_all add: en75_ok_def)
  have "uint (?m (?b x)) = uint (?m (?b y))" using eq xy by (simp add: mapping_en75 [OF l(2)])
  then have m: "?m (?b x) = ?m (?b y)" using word_uint_eq_iff by blast
  have low: "?b i < e_begin s" if "i < length (user_blocks s)" for i
    using user_blocks_below [OF that] own_block_unat [OF that] by (simp add: unat_less)
  have high: "e_begin s \<le> to_blk e" if "e \<in> set (bmt_used s)" for e
    using maps_above [OF l(1)] l(3) that by blast
  have "?b x = ?b y"
  proof (rule bmt_map_cases [of "?b x" "bmt_used s"]; rule bmt_map_cases [of "?b y" "bmt_used s"])
    fix e e' assume "e \<in> set (bmt_used s)" "from_blk e = ?b x" "?m (?b x) = to_blk e"
      "e' \<in> set (bmt_used s)" "from_blk e' = ?b y" "?m (?b y) = to_blk e'"
    then show ?thesis using m to_blk_inj [OF l(4), of e e'] by simp
  next
    fix e assume "e \<in> set (bmt_used s)" "?m (?b y) = to_blk e" "?m (?b x) = ?b x"
    then show ?thesis using m low [OF xy(1)] high [of e] by simp
  next
    fix e assume "e \<in> set (bmt_used s)" "?m (?b x) = to_blk e" "?m (?b y) = ?b y"
    then show ?thesis using m low [OF xy(2)] high [of e] by simp
  next
    assume "?m (?b x) = ?b x" "?m (?b y) = ?b y"
    then show ?thesis using m by metis
  qed
  then have "user_blocks s ! x = user_blocks s ! y" using own_block_unat xy by metis
  then show ?thesis using nth_eq_iff_index_eq [OF user_blocks_distinct xy] by blast
qed

end
