(* ===== verification/En75_Scan.thy ===== *)
theory En75_Scan
  imports En75_Init Bmt_V2_Theorems
begin

text \<open>
  The scan for the reserve area always has a result: the blocks from the last one down to the first
  with which the number of good blocks is reached. Nothing is modified on the chip.
\<close>

definition scan_ready :: "'d bmtd \<Rightarrow> 'd en75 \<Rightarrow> bool" where
  "scan_ready env s \<longleftrightarrow> drv_bounded env \<and> unat (pg_size env) \<le> length (e_buf s) \<and>
     unat (e_table_size s) \<le> MAX_BBT_SIZE \<and> length (b_table (e_workspace s)) = MAX_BBT_SIZE \<and>
     length (b_table (e_bbt s)) = MAX_BBT_SIZE \<and> length (m_table (e_bmt s)) = MAX_BMT_SIZE"

lemma parse_bbt_defined:
  assumes "len \<le> length buf" and "n \<le> length (b_table out)" and "length (b_table ws) = length (b_table out)"
  shows "returns (try_parse_bbt big out buf len n ws)
    (\<lambda>(r, out', ws'). length (b_table out') = length (b_table out) \<and> length (b_table ws') = length (b_table ws))"
  using assms by (auto simp: try_parse_bbt_def buf_get_def bbt_checksum_def bbt_load_def sort_bbt_def Let_def)

lemma parse_bmt_defined:
  assumes "len \<le> length buf"
  shows "returns (try_parse_bmt big out buf len)
    (\<lambda>(r, out'). length (m_table out) = MAX_BMT_SIZE \<longrightarrow> length (m_table out') = MAX_BMT_SIZE)"
  using assms by (auto simp: try_parse_bmt_def buf_get_def bmt_checksum_def bmt_of_def Let_def)

lemma classify_spec:
  assumes "scan_ready env s"
  shows "returns (scan_classify env ret fdm s) (\<lambda>(st, s'). scan_ready env s' \<and> e_rblocks s' = e_rblocks s \<and> e_dev s' = e_dev s)"
proof -
  have len: "unat (pg_size env) \<le> length (e_buf s)" "unat (e_table_size s) \<le> length (b_table (e_bbt s))"
    "length (b_table (e_workspace s)) = length (b_table (e_bbt s))"
    using assms by (simp_all add: scan_ready_def)
  obtain r bbt ws where p: "try_parse_bbt (e_big_endian s) (e_bbt s) (e_buf s) (unat (pg_size env))
      (unat (e_table_size s)) (e_workspace s) = Some (r, bbt, ws)"
    "length (b_table bbt) = length (b_table (e_bbt s))" "length (b_table ws) = length (b_table (e_workspace s))"
    using parse_bbt_defined [OF len, of "e_big_endian s"] by (auto simp: returns_eq)
  obtain r2 bmt where q: "try_parse_bmt (e_big_endian s) (e_bmt s) (e_buf s) (unat (pg_size env)) = Some (r2, bmt)"
    "length (m_table (e_bmt s)) = MAX_BMT_SIZE \<longrightarrow> length (m_table bmt) = MAX_BMT_SIZE"
    using parse_bmt_defined [OF len(1), of "e_big_endian s" "e_bmt s"] by (auto simp: returns_eq)
  show ?thesis
    using assms p q len(1) by (auto simp: scan_classify_def scan_ready_def buf_get_def Let_def)
qed

lemma scan_tries_spec:
  fixes s :: "'d en75"
  assumes "scan_ready env s" and "length fdm = 4"
  shows "returns (scan_read_tries n env page ret fdm s) (\<lambda>(ret', fdm', s'). scan_ready env s' \<and>
    length fdm' = 4 \<and> e_rblocks s' = e_rblocks s \<and> dev_steps env (\<lambda>_. False) (e_dev s) (e_dev s'))"
  using assms
proof (induction n arbitrary: ret fdm s)
  case (Suc n)
  obtain r buf fdm' d where rd: "bbt_nand_read env 0 page (e_buf s) (unat (pg_size env)) fdm 4 (e_dev s) = Some (r, buf, fdm', d)"
    "length buf = length (e_buf s)" "length fdm' = 4" "dev_steps env (\<lambda>_. False) (e_dev s) d"
    using nand_read_spec [of env "unat (pg_size env)" "e_buf s" 4 fdm 0 page "e_dev s"] Suc.prems
    by (auto simp: scan_ready_def returns_eq)
  have "scan_ready env (s\<lparr>e_buf := buf, e_dev := d\<rparr>)" using Suc.prems(1) rd(2) by (simp add: scan_ready_def)
  note ih = Suc.IH [OF this rd(3), of r]
  show ?case using rd ih Suc.prems(1)
    by (auto simp: Let_def scan_ready_def elim!: returns_mono intro: dev_steps_trans [OF rd(4)])
qed (simp add: steps_refl)

section \<open>The loop\<close>

definition goods :: "block_info list \<Rightarrow> nat" where
  "goods rb = length (filter (\<lambda>b. bi_status b \<noteq> BS_BAD) rb)"

definition indexed :: "'d bmtd \<Rightarrow> block_info list \<Rightarrow> bool" where
  "indexed env rb \<longleftrightarrow> map bi_index rb = map (\<lambda>i. total_blks env - 1 - of_nat i) [0..<length rb]"

lemma indexed_append:
  assumes "indexed env rb" and "int (length rb) + c = uint (total_blks env) - 1"
  shows "indexed env (rb @ [\<lparr>bi_index = word_of_int c, bi_status = st\<rparr>])"
proof -
  have "c = uint (total_blks env) - 1 - int (length rb)" using assms(2) by simp
  then have "(word_of_int c :: u16) = total_blks env - 1 - of_nat (length rb)" by simp
  then show ?thesis using assms(1) by (simp add: indexed_def)
qed

text \<open>As many blocks as are needed, and no more; the cursor is at the last one.\<close>

definition enough :: "'d bmtd \<Rightarrow> block_info list \<Rightarrow> bool" where
  "enough env rb \<longleftrightarrow> required_good_blocks (total_blks env) \<le> goods rb \<and>
     (goods (butlast rb) < required_good_blocks (total_blks env) \<or> length rb = 1)"

definition scan_result :: "'d bmtd \<Rightarrow> int \<Rightarrow> 'd en75 \<Rightarrow> bool" where
  "scan_result env c s \<longleftrightarrow> scan_ready env s \<and> indexed env (e_rblocks s) \<and>
     (if c = 0 then goods (e_rblocks s) < required_good_blocks (total_blks env) \<or> e_rblocks s = []
      else 0 < c \<and> int (length (e_rblocks s)) + c = uint (total_blks env) \<and> enough env (e_rblocks s))"

lemma scan_loop_spec:
  fixes s :: "'d en75"
  assumes "scan_ready env s" and "length fdm = 4" and "0 \<le> c" and "indexed env (e_rblocks s)"
    and "int (length (e_rblocks s)) + c = uint (total_blks env) - 1"
    and "g = goods (e_rblocks s)" and "g < required_good_blocks (total_blks env) \<or> e_rblocks s = []"
    and "av = uint (total_blks env) - 1 \<or> e_rblocks s = [] \<and> av = 0"
  shows "returns (r_scan_loop env True c av g fdm s) (\<lambda>(r, c', s'). r = 0 \<and> scan_result env c' s' \<and>
    dev_steps env (\<lambda>_. False) (e_dev s) (e_dev s'))"
  using assms
proof (induction "nat c" arbitrary: c av g fdm s)
  case 0
  then show ?case by (simp add: r_scan_loop.simps scan_result_def steps_refl)
next
  case (Suc k)
  have c: "0 < c" "k = nat (c - 1)" using Suc.hyps(2) by auto
  let ?total = "uint (total_blks env)" and ?rb = "e_rblocks s"
  let ?av = "if int (length ?rb) \<ge> av then av + c else av"
  have av: "?av = ?total - 1" "\<not> int (length ?rb) \<ge> ?total - 1" using Suc.prems(5,8) c(1) by auto
  obtain r fdm' s1 where s1: "scan_read_tries INITIAL_READ_TRIES env (blk_pg env (word_of_int c)) 0 fdm s = Some (r, fdm', s1)"
    "scan_ready env s1" "length fdm' = 4" "e_rblocks s1 = ?rb" "dev_steps env (\<lambda>_. False) (e_dev s) (e_dev s1)"
    using scan_tries_spec [OF Suc.prems(1,2), of INITIAL_READ_TRIES "blk_pg env (word_of_int c)" 0] by (auto simp: returns_eq)
  obtain st s2 where s2: "scan_classify env r fdm' s1 = Some (st, s2)" "scan_ready env s2" "e_rblocks s2 = ?rb"
    "dev_steps env (\<lambda>_. False) (e_dev s) (e_dev s2)"
    using classify_spec [OF s1(2), of r fdm'] s1(4,5) by (auto simp: returns_eq)
  define rb where "rb = ?rb @ [\<lparr>bi_index = word_of_int c, bi_status = st\<rparr>]"
  define s3 where "s3 = s2\<lparr>e_rblocks := rb\<rparr>"
  have rb: "indexed env rb" "int (length rb) + c = ?total" "g + (if st \<noteq> BS_BAD then 1 else 0) = goods rb"
    using indexed_append [OF Suc.prems(4,5)] Suc.prems(5,6) by (simp_all add: rb_def goods_def)
  have r3: "scan_ready env s3" using s2(2) by (simp add: s3_def scan_ready_def)
  have run: "r_scan_loop env True c av g fdm s = (if goods rb \<ge> required_good_blocks (total_blks env) then Some (0, c, s3)
      else r_scan_loop env True (c - 1) (?total - 1) (goods rb) fdm' s3)"
    unfolding r_scan_loop.simps [of env True c av g fdm s] using c(1) av s1(1) s2(1,3) rb(3)
    by (simp add: Let_def s3_def rb_def cong: if_cong)
  show ?case
  proof (cases "required_good_blocks (total_blks env) \<le> goods rb")
    case True
    then have "enough env rb" using Suc.prems(6,7) by (auto simp: enough_def rb_def)
    then show ?thesis using True r3 rb c(1) s2(4) unfolding run by (simp add: scan_result_def s3_def)
  next
    case False
    have "returns (r_scan_loop env True (c - 1) (?total - 1) (goods rb) fdm' s3) (\<lambda>(r, c', s'). r = 0 \<and>
        scan_result env c' s' \<and> dev_steps env (\<lambda>_. False) (e_dev s3) (e_dev s'))"
      by (rule Suc.hyps(1) [OF c(2) r3 s1(3)]) (use c rb False in \<open>simp_all add: s3_def\<close>)
    then show ?thesis using False s2(4) unfolding run
      by (auto simp: s3_def elim!: returns_mono intro: dev_steps_trans [OF s2(4)])
  qed
qed

section \<open>The reserve area\<close>

text \<open>The reserve area: the blocks from \<open>reserve_area_begin\<close> on, with just enough good ones.\<close>

definition reserve_found :: "'d bmtd \<Rightarrow> 'd en75 \<Rightarrow> bool" where
  "reserve_found env s \<longleftrightarrow> e_begin s < total_blks env \<and>
     map bi_index (e_rblocks s) = map (\<lambda>i. total_blks env - 1 - of_nat i) [0..<unat (total_blks env) - unat (e_begin s)] \<and>
     enough env (e_rblocks s)"

lemma scan_reserve_spec:
  fixes s :: "'d en75"
  assumes "scan_ready env s" and "total_blks env \<noteq> 0"
  shows "returns (r_scan_reserve env True s) (\<lambda>(r, s'). scan_ready env s' \<and>
    dev_steps env (\<lambda>_. False) (e_dev s) (e_dev s') \<and> (if r = 0 then reserve_found env s'
     else r = - ENOSPC \<and> (e_rblocks s' = [] \<or> goods (e_rblocks s') < required_good_blocks (total_blks env))))"
proof -
  let ?s = "s\<lparr>e_rblocks := []\<rparr>"
  have "0 < unat (total_blks env)" using assms(2) by (simp add: unat_gt_0)
  then have t: "0 \<le> uint (total_blks env) - 1" unfolding uint_nat by linarith
  have "returns (r_scan_loop env True (uint (total_blks env) - 1) 0 0 (replicate 4 0) ?s) (\<lambda>(r, c', s'). r = 0 \<and>
      scan_result env c' s' \<and> dev_steps env (\<lambda>_. False) (e_dev ?s) (e_dev s'))"
    by (rule scan_loop_spec) (use assms(1) t in \<open>simp_all add: scan_ready_def indexed_def goods_def\<close>)
  then obtain c s' where r: "r_scan_loop env True (uint (total_blks env) - 1) 0 0 (replicate 4 0) ?s = Some (0, c, s')"
    "scan_result env c s'" "dev_steps env (\<lambda>_. False) (e_dev s) (e_dev s')"
    by (auto simp: returns_eq)
  have "reserve_found env (s'\<lparr>e_begin := word_of_int c\<rparr>)" if "c \<noteq> 0"
  proof -
    have c: "0 < c" "int (length (e_rblocks s')) + c = uint (total_blks env)" "enough env (e_rblocks s')"
      "indexed env (e_rblocks s')" using r(2) that by (simp_all add: scan_result_def)
    then have "e_rblocks s' \<noteq> []" by (auto simp: enough_def goods_def)
    then have below: "c < uint (total_blks env)" using c(2) by (cases "e_rblocks s'") simp_all
    then have u: "uint (word_of_int c :: u16) = c"
      using c(1) uint_bounded [of "total_blks env"] by (simp add: uint_word_of_int_eq take_bit_int_eq_self)
    then have "int (unat (word_of_int c :: u16)) = c" by (simp add: uint_nat [symmetric])
    then have "unat (total_blks env) - unat (word_of_int c :: u16) = length (e_rblocks s')"
      using c(2) unfolding uint_nat by linarith
    then show ?thesis using c below u by (simp add: reserve_found_def indexed_def word_less_def)
  qed
  moreover have "scan_ready env (s'\<lparr>e_begin := word_of_int c\<rparr>)" "scan_ready env s'"
    using r(2) by (simp_all add: scan_result_def scan_ready_def)
  ultimately show ?thesis using r by (auto simp: r_scan_reserve_def scan_result_def)
qed

end
