(* ===== verification/En75_Theorems.thy ===== *)
theory En75_Theorems
  imports En75_Ops En75_Scan
begin

text \<open>
  Properties of the EcoNet scheme (\<open>en75_bmt.c\<close>): the mapping, remapping and unmapping, the tables on
  flash, the reserve area, and the treatment of factory bad blocks.
\<close>

section \<open>A sample\<close>

text \<open>
  A chip of 50 blocks: block 5 is a factory bad block, the worn block 3 is mapped to block 47 of the
  reserve area, which begins at block 46.
\<close>

definition en75_sample_env :: "sim_nand bmtd" where
  "en75_sample_env = sim_bmtd\<lparr>blk_shift := 12, pg_shift := 11, blk_size := 4096, pg_size := 2048,
     erasesize := 4096, total_blks := 50\<rparr>"

definition en75_sample :: "sim_nand en75" where
  "en75_sample =
     \<lparr>e_bbt = \<lparr>b_signature = sig_RAWB, b_checksum = 0, b_version = 1, b_size = 1, b_reserved = [0xFF, 0xFF],
               b_table = 5 # replicate 999 0\<rparr>,
      e_table_size = 1000,
      e_bmt = \<lparr>m_signature = sig_BMT, m_version = 1, m_bad_count = 0, m_size = 1, m_checksum = 0,
               m_reserved = replicate 13 0, m_table = \<lparr>from_blk = 3, to_blk = 47\<rparr> # replicate 255 no_entry\<rparr>,
      e_rblocks = [\<lparr>bi_index = 49, bi_status = BS_BMT\<rparr>, \<lparr>bi_index = 48, bi_status = BS_AVAILABLE\<rparr>,
                   \<lparr>bi_index = 47, bi_status = BS_MAPPED\<rparr>, \<lparr>bi_index = 46, bi_status = BS_BBT\<rparr>],
      e_begin = 46, e_ranges = [(0, 46)], e_bbt_dirty = 0, e_bmt_dirty = 0, e_can_write_bbt = True,
      e_workspace = \<lparr>b_signature = [], b_checksum = 0, b_version = 0, b_size = 0, b_reserved = [],
                     b_table = replicate 1000 0\<rparr>,
      e_big_endian = False, e_buf = replicate 2048 0, e_mtd_size = 0, e_dev = sim_blank\<rparr>"

lemma sample_used: "bbt_used en75_sample = [5]" "bmt_used en75_sample = [\<lparr>from_blk = 3, to_blk = 47\<rparr>]"
  by (simp_all add: bbt_used_def bmt_used_def en75_sample_def)

lemma sample_user_blocks: "user_blocks en75_sample = [0, 1, 2, 3, 4] @ [6..<46]"
  by (simp add: user_blocks_def blocks_without_def sample_used) (simp add: en75_sample_def upt_conv_Cons)

lemma sample_en75_env: "en75_env en75_sample_env"
  by (simp add: en75_env_def geom_ok_def drv_bounded_def en75_sample_env_def sim_bmtd_def sim_read_def)

lemma en75_sample_layout: "layout en75_sample_env en75_sample"
  by (simp add: layout_def en75_sample_def en75_sample_env_def sim_bmtd_def upt_conv_Cons)

lemma sample_en75_ok: "en75_ok en75_sample_env en75_sample"
proof -
  have "maps_to_reserve en75_sample \<lparr>from_blk = 3, to_blk = 47\<rparr>"
    by (auto simp: maps_to_reserve_def en75_sample_def intro: exI [of _ 2])
  then show ?thesis using en75_sample_layout
    by (simp add: en75_ok_def sample_used) (simp add: en75_sample_def)
qed

section \<open>The mapping\<close>

text \<open>
  C11: The shifting loop of \<open>get_mapping_block_bbt\<close> equals the enumeration of the usable blocks: logical
  block \<open>b\<close> is the \<open>b\<close>-th block of the user area that is not a factory bad block, and \<open>-EINVAL\<close> is
  returned exactly for the others; \<open>get_mapping_block\<close> then follows the entry of the BMT.
\<close>

theorem en75_mapping_order:
  assumes "sorted_wrt (<) (bbt_used s)"
  shows "get_mapping_block_bbt s b =
      (if 0 \<le> b \<and> nat b < length (user_blocks s) then int (user_blocks s ! nat b) else - EINVAL) \<and>
    get_mapping_block_en75 s b =
      (if 0 \<le> b \<and> nat b < length (user_blocks s)
       then uint (bmt_map (bmt_used s) (of_nat (user_blocks s ! nat b))) else - EINVAL)"
  using mapping_bbt_enum [OF assms] mapping_en75 [OF assms] by blast

theorem en75_mapping_order_witness:
  "get_mapping_block_bbt en75_sample 7 = 8 \<and> get_mapping_block_en75 en75_sample 3 = 47 \<and>
   get_mapping_block_en75 en75_sample 45 = - EINVAL"
proof -
  have "sorted_wrt (<) (bbt_used en75_sample)" by (simp add: sample_used)
  note m = en75_mapping_order [OF this]
  show ?thesis using m [of 7] m [of 3] m [of 45]
    by (simp add: sample_user_blocks sample_used bmt_map_def nth_append)
qed

text \<open>
  C15: No physical block is used twice: on a consistent context different logical blocks are mapped to
  different physical ones, worn blocks and factory bad blocks included.
\<close>

theorem en75_mapping_injective:
  assumes "en75_ok env s"
  shows "inj_on (get_mapping_block_en75 s) (int ` {..<length (user_blocks s)})"
  using mapping_inj [OF assms] by (auto intro!: inj_onI)

theorem en75_mapping_injective_witness:
  "inj_on (get_mapping_block_en75 en75_sample) (int ` {..<45})"
proof -
  have "length (user_blocks en75_sample) = 45" by (simp add: sample_user_blocks)
  then show ?thesis using en75_mapping_injective [OF sample_en75_ok] by (simp only:)
qed

section \<open>Remapping and unmapping\<close>

text \<open>
  C10: \<open>pub_remap_block\<close>, called by the core for a logical block and the physical block it is mapped to,
  ends on every chip. It leaves the mapping alone, or returns true and maps this logical block, and
  no other, to a block of the reserve area that was available; the context stays consistent, and the
  chip is modified in the reserve area and in the block's own block of the user area only.
\<close>

theorem en75_remap:
  assumes "en75_env env" and "en75_ok env s" and "length (e_rblocks s) \<le> MAX_BMT_SIZE"
    and "unat ub < length (user_blocks s)"
  shows "\<exists>r s'. pub_remap_block env ub (word_of_int (get_mapping_block_en75 s (uint ub))) copy_len s = Some (r, s') \<and>
    en75_ok env s' \<and> bbt_used s' = bbt_used s \<and>
    (get_mapping_block_en75 s' = get_mapping_block_en75 s \<or>
     r \<and> (\<exists>n < length (e_rblocks s). bi_status (e_rblocks s ! n) = BS_AVAILABLE \<and>
       get_mapping_block_en75 s' = (get_mapping_block_en75 s)(uint ub := uint (bi_index (e_rblocks s ! n))))) \<and>
    dev_steps env (remap_addrs env s (of_nat (user_blocks s ! unat ub))) (e_dev s) (e_dev s')"
  using pub_remap_spec [OF assms, of copy_len] by (auto simp: returns_eq remap_outcome_def own_block_def)

theorem en75_remap_witness:
  "\<exists>r s'. pub_remap_block en75_sample_env 3 47 4096 en75_sample = Some (r, s') \<and> en75_ok en75_sample_env s' \<and>
    (get_mapping_block_en75 s' 3 = 47 \<or> get_mapping_block_en75 s' 3 = 48)"
proof -
  have m: "get_mapping_block_en75 en75_sample 3 = 47"
    using mapping_en75 [of en75_sample 3] by (simp add: sample_used sample_user_blocks bmt_map_def)
  obtain r s' where r: "pub_remap_block en75_sample_env 3 47 4096 en75_sample = Some (r, s')" "en75_ok en75_sample_env s'"
    "get_mapping_block_en75 s' = get_mapping_block_en75 en75_sample \<or>
     (\<exists>n < length (e_rblocks en75_sample). bi_status (e_rblocks en75_sample ! n) = BS_AVAILABLE \<and>
       get_mapping_block_en75 s' = (get_mapping_block_en75 en75_sample)(3 := uint (bi_index (e_rblocks en75_sample ! n))))"
    using en75_remap [OF sample_en75_env sample_en75_ok, of 3 4096] m
    by (auto simp: sample_user_blocks) (auto simp: en75_sample_def)
  have "bi_index (e_rblocks en75_sample ! n) = 48"
    if "n < length (e_rblocks en75_sample)" "bi_status (e_rblocks en75_sample ! n) = BS_AVAILABLE" for n
    using that by (auto simp: en75_sample_def less_Suc_eq numeral_eq_Suc)
  then show ?thesis using r m by (intro exI [of _ r] exI [of _ s']) fastforce
qed

text \<open>
  C16: \<open>pub_unmap_block\<close> ends on every chip, for every number. It leaves the mapping alone, or gives the
  block back its own block of the user area and changes the mapping of no other block; the context
  stays consistent, and only the reserve area of the chip is modified.
\<close>

theorem en75_unmap:
  assumes "en75_env env" and "en75_ok env s" and "length (e_rblocks s) \<le> MAX_BMT_SIZE"
  shows "\<exists>s'. pub_unmap_block env ub s = Some s' \<and> en75_ok env s' \<and> bbt_used s' = bbt_used s \<and>
    (get_mapping_block_en75 s' = get_mapping_block_en75 s \<or>
     get_mapping_block_en75 s' = (get_mapping_block_en75 s)(uint ub := get_mapping_block_bbt s (uint ub))) \<and>
    dev_steps env (reserve_addrs env s) (e_dev s) (e_dev s')"
  using pub_unmap_spec [OF assms, of ub] by (auto simp: returns_eq unmap_outcome_def)

theorem en75_unmap_witness:
  "\<exists>s'. pub_unmap_block en75_sample_env 3 en75_sample = Some s' \<and> en75_ok en75_sample_env s' \<and>
    (get_mapping_block_en75 s' 3 = 47 \<or> get_mapping_block_en75 s' 3 = 3)"
proof -
  have "sorted_wrt (<) (bbt_used en75_sample)" by (simp add: sample_used)
  from mapping_en75 [OF this, of 3] mapping_bbt_enum [OF this, of 3]
  have m: "get_mapping_block_en75 en75_sample 3 = 47" "get_mapping_block_bbt en75_sample 3 = 3"
    by (simp_all add: sample_user_blocks sample_used bmt_map_def)
  show ?thesis
    using en75_unmap [OF sample_en75_env sample_en75_ok, of 3] m by (force simp: en75_sample_def)
qed

section \<open>The tables on flash\<close>

lemma bmt_stored_reads:
  assumes "bmt_stored env s"
  shows "\<exists>buf. holds_table env s BS_BMT buf \<and>
    (\<forall>out len. 1044 \<le> len \<longrightarrow> try_parse_bmt (e_big_endian s) out buf len = Some (0, e_bmt s))"
proof -
  obtain buf where b: "holds_table env s BS_BMT buf"
    "\<forall>out rest len. 1044 \<le> len \<longrightarrow> try_parse_bmt (e_big_endian s) out (buf @ rest) len = Some (0, e_bmt s)"
    using assms unfolding bmt_stored_def by (elim exE conjE)
  have "try_parse_bmt (e_big_endian s) out buf len = Some (0, e_bmt s)" if "1044 \<le> len" for out len
    using b(2) [rule_format, OF that, of out "[]"] by (simp only: append_Nil2)
  then show ?thesis using b(1) by (intro exI [of _ buf] conjI allI impI)
qed

text \<open>
  C12: \<open>w_sync_tables\<close> ends on every chip, keeps tables, mapping and mapped blocks and modifies the
  reserve area only. When it returns 0, no block is left pending for erasure, and each table that was
  dirty (the BBT when writing it is allowed) lies in exactly one block, was stored there with the
  driver's report of success, and is read back by its parser to the table in memory.
\<close>

theorem en75_sync_persists:
  assumes "en75_env env" and "layout env s" and "length (e_rblocks s) \<le> MAX_BMT_SIZE"
    and "sorted (bbt_used s)" and "unat (b_size (e_bbt s)) \<le> unat (e_table_size s)"
  shows "\<exists>r s'. w_sync_tables env s = Some (r, s') \<and> quiet env s s' \<and>
    (r = 0 \<longrightarrow> (\<forall>i < length (e_rblocks s'). bi_status (e_rblocks s' ! i) \<noteq> BS_NEED_ERASE) \<and>
      (e_bmt_dirty s \<noteq> 0 \<longrightarrow> e_bmt_dirty s' = 0 \<and> (\<exists>buf. holds_table env s' BS_BMT buf \<and>
         (\<forall>out len. 1044 \<le> len \<longrightarrow> try_parse_bmt (e_big_endian s') out buf len = Some (0, e_bmt s')))) \<and>
      (e_bbt_dirty s \<noteq> 0 \<and> e_can_write_bbt s \<longrightarrow> e_bbt_dirty s' = 0 \<and> bbt_stored env s'))"
proof -
  obtain r s' where r: "w_sync_tables env s = Some (r, s')" "quiet env s s'" "r = 0 \<longrightarrow> synced env s s'"
    using sync_tables_spec [OF assms] by (auto simp: returns_eq)
  show ?thesis
  proof (intro exI [of _ r] exI [of _ s'] conjI impI r(1,2))
    assume "r = 0"
    then have y: "synced env s s'" using r(3) by simp
    then show "\<forall>i < length (e_rblocks s'). bi_status (e_rblocks s' ! i) \<noteq> BS_NEED_ERASE" by (simp add: synced_def)
    show "e_bmt_dirty s' = 0" "\<exists>buf. holds_table env s' BS_BMT buf \<and>
        (\<forall>out len. 1044 \<le> len \<longrightarrow> try_parse_bmt (e_big_endian s') out buf len = Some (0, e_bmt s'))"
      if "e_bmt_dirty s \<noteq> 0"
      using y that bmt_stored_reads [of env s'] by (simp_all add: synced_def)
    show "e_bbt_dirty s' = 0" "bbt_stored env s'" if "e_bbt_dirty s \<noteq> 0 \<and> e_can_write_bbt s"
      using y that by (simp_all add: synced_def)
  qed
qed

theorem en75_sync_persists_witness:
  "\<exists>r s'. w_sync_tables en75_sample_env (en75_sample\<lparr>e_bmt_dirty := 1\<rparr>) = Some (r, s') \<and>
    (r = 0 \<longrightarrow> e_bmt_dirty s' = 0 \<and> (\<exists>buf. holds_table en75_sample_env s' BS_BMT buf \<and>
      (\<forall>out len. 1044 \<le> len \<longrightarrow> try_parse_bmt (e_big_endian s') out buf len = Some (0, e_bmt s'))))"
proof -
  let ?s = "en75_sample\<lparr>e_bmt_dirty := 1\<rparr>"
  have l: "layout en75_sample_env ?s" using en75_sample_layout by (simp add: layout_def)
  have o: "length (e_rblocks ?s) \<le> MAX_BMT_SIZE" "sorted (bbt_used ?s)" "e_bmt_dirty ?s \<noteq> 0"
    "unat (b_size (e_bbt ?s)) \<le> unat (e_table_size ?s)"
    by (simp_all add: sample_used) (simp_all add: en75_sample_def)
  show ?thesis using en75_sync_persists [OF sample_en75_env l o(1,2,4)] o(3) by blast
qed

lemma zero_entries_overrun: "\<exists>i \<in> set is. length xs \<le> i \<Longrightarrow> zero_entries z is xs = None"
proof (induction "is" arbitrary: xs)
  case (Cons i "is")
  show ?case
  proof (cases "length xs \<le> i")
    case False
    then have "\<exists>j \<in> set is. length (xs[i := z]) \<le> j" using Cons.prems by auto
    from Cons.IH [OF this] show ?thesis by (simp add: arr_set_def)
  qed (simp add: arr_set_def)
qed simp

text \<open>
  C19: A reserve area of more than 256 blocks, as every chip of more than 3,200 blocks has one, makes
  \<open>w_sync_tables\<close> write beyond the table: it clears as many entries as the area has blocks.
\<close>

theorem en75_large_reserve_overruns:
  assumes "en75_env env" and "layout env s" and "MAX_BMT_SIZE < length (e_rblocks s)" and "e_bmt_dirty s \<noteq> 0"
  shows "w_sync_tables env s = None"
proof -
  obtain s1 where s1: "w_erase_pending env s = Some s1" "quiet env s s1" "moves {BS_NEED_ERASE} {BS_BAD, BS_AVAILABLE} s s1"
    using erase_pending_spec [OF assms(1,2)] by (auto simp: returns_eq)
  have lay: "layout env s1" using quiet_layout [OF s1(2)] assms(2) by simp
  have d: "e_bmt_dirty s1 \<noteq> 0" using s1(3) assms(4) by (simp add: moves_def tables_def)
  have n: "nat (reserve_block_count env s1) > MAX_BMT_SIZE"
    using reserve_count(1) [OF lay] quiet_length [OF s1(2)] assms(3) by simp
  have "unat (m_size (e_bmt s1)) < 256" using unsigned_less [of "m_size (e_bmt s1)"] by simp
  then have "256 \<in> set [unat (m_size (e_bmt s1))..<nat (reserve_block_count env s1)]"
    unfolding set_upt atLeastLessThan_iff using n by linarith
  moreover have "length (m_table (e_bmt s1)) \<le> 256" using lay by (simp add: layout_def)
  ultimately have z: "zero_entries no_entry [unat (m_size (e_bmt s1))..<nat (reserve_block_count env s1)] (m_table (e_bmt s1)) = None"
    by (rule zero_entries_overrun [OF bexI [rotated]])
  have "w_sync_bmt env s1 = None" by (simp only: w_sync_bmt_def Let_def z bind.bind_lzero)
  then show ?thesis using d by (simp add: w_sync_tables_def s1(1))
qed

definition en75_large_env :: "sim_nand bmtd" where
  "en75_large_env = en75_sample_env\<lparr>total_blks := 4096\<rparr>"

definition en75_large :: "sim_nand en75" where
  "en75_large = en75_sample\<lparr>e_begin := 3769, e_bmt_dirty := 1,
     e_rblocks := map (\<lambda>i. \<lparr>bi_index = 4095 - of_nat i, bi_status = BS_AVAILABLE\<rparr>) [0..<327]\<rparr>"

lemma large_fields:
  "e_rblocks en75_large = map (\<lambda>i. \<lparr>bi_index = 4095 - of_nat i, bi_status = BS_AVAILABLE\<rparr>) [0..<327]"
  "e_begin en75_large = 3769" "total_blks en75_large_env = 4096" "e_bmt_dirty en75_large = 1"
  by (simp_all add: en75_large_def en75_large_env_def del: upt_rec_numeral)

lemma large_layout: "layout en75_large_env en75_large"
proof -
  have a: "map bi_index (map (\<lambda>i. \<lparr>bi_index = 4095 - of_nat i, bi_status = BS_AVAILABLE\<rparr>) xs) =
      map (\<lambda>i. (4096 :: u16) - 1 - of_nat i) xs" for xs :: "nat list" by simp
  have b: "unat (4096 :: u16) - unat (3769 :: u16) = 327" by simp
  have "map bi_index (e_rblocks en75_large) =
      map (\<lambda>i. total_blks en75_large_env - 1 - of_nat i) [0..<unat (total_blks en75_large_env) - unat (e_begin en75_large)]"
    by (simp only: large_fields a b)
  then show ?thesis using en75_sample_layout by (simp add: layout_def en75_large_env_def en75_large_def del: upt_rec_numeral)
qed

theorem en75_large_reserve_overruns_witness:
  "length (e_rblocks en75_large) = required_good_blocks (total_blks en75_large_env) \<and>
   w_sync_tables en75_large_env en75_large = None"
proof -
  have e: "en75_env en75_large_env"
    by (simp add: en75_env_def geom_ok_def drv_bounded_def en75_large_env_def en75_sample_env_def sim_bmtd_def sim_read_def)
  have "required_good_blocks (total_blks en75_large_env) = 327" by (simp add: required_good_blocks_def large_fields)
  then show ?thesis using en75_large_reserve_overruns [OF e large_layout] by (simp add: large_fields del: upt_rec_numeral)
qed

section \<open>The reserve area\<close>

text \<open>
  C14: \<open>r_scan_reserve\<close> ends on every chip, whatever is read, without writing to it or accessing anything
  beyond a buffer. It returns 0 or \<open>-ENOSPC\<close>; on success the reserve area is the blocks from the last
  one down to \<open>reserve_area_begin\<close>, where the number of good blocks reaches what is required and
  without the lowest one does not; otherwise the whole chip has too few good blocks.
\<close>

theorem en75_scan_reserve:
  assumes "scan_ready env s" and "total_blks env \<noteq> 0"
  shows "\<exists>r s'. r_scan_reserve env True s = Some (r, s') \<and> dev_steps env (\<lambda>_. False) (e_dev s) (e_dev s') \<and>
    (if r = 0 then e_begin s' < total_blks env \<and>
       map bi_index (e_rblocks s') = map (\<lambda>i. total_blks env - 1 - of_nat i) [0..<unat (total_blks env) - unat (e_begin s')] \<and>
       required_good_blocks (total_blks env) \<le> goods (e_rblocks s') \<and>
       (goods (butlast (e_rblocks s')) < required_good_blocks (total_blks env) \<or> length (e_rblocks s') = 1)
     else r = - ENOSPC \<and> (e_rblocks s' = [] \<or> goods (e_rblocks s') < required_good_blocks (total_blks env)))"
proof -
  obtain r s' where "r_scan_reserve env True s = Some (r, s')" "dev_steps env (\<lambda>_. False) (e_dev s) (e_dev s')"
    "scan_ready env s'" "if r = 0 then reserve_found env s' else r = - ENOSPC \<and>
       (e_rblocks s' = [] \<or> goods (e_rblocks s') < required_good_blocks (total_blks env))"
    using scan_reserve_spec [OF assms] by (auto simp: returns_eq)
  then show ?thesis by (intro exI [of _ r] exI [of _ s']) (simp add: reserve_found_def enough_def split: if_splits)
qed

theorem en75_scan_reserve_witness:
  "\<exists>r s'. r_scan_reserve en75_sample_env True en75_sample = Some (r, s') \<and> (r = 0 \<or> r = - ENOSPC)"
proof -
  have "scan_ready en75_sample_env en75_sample"
    by (simp add: scan_ready_def drv_bounded_def en75_sample_def en75_sample_env_def sim_bmtd_def sim_read_def)
  moreover have "total_blks en75_sample_env \<noteq> 0" by (simp add: en75_sample_env_def)
  ultimately show ?thesis using en75_scan_reserve [of en75_sample_env en75_sample] by (auto split: if_splits)
qed

section \<open>Factory bad blocks\<close>

text \<open>An entry is taken from the end of the table, so what stands in its place is the cleared entry.\<close>

lemma erase_one_bbt: "w_erase_one env b u (s\<lparr>e_bbt := t\<rparr>) = (\<lambda>(r, s'). (r, s'\<lparr>e_bbt := t\<rparr>)) (w_erase_one env b u s)"
  by (simp add: w_erase_one_def block_index_is_sane_def split_beta)

lemma erase_one_keeps: "e_bbt (snd (w_erase_one env b u s)) = e_bbt s"
  by (simp add: w_erase_one_def split_beta)

abbreviation erase_zero :: "'d bmtd \<Rightarrow> 'd en75 \<Rightarrow> 'd en75" where
  "erase_zero env s \<equiv> snd (w_erase_one env 0 True s)"

lemma erase_zero_bbt: "erase_zero env (s\<lparr>e_bbt := t\<rparr>) = (erase_zero env s)\<lparr>e_bbt := t\<rparr>"
  by (simp add: erase_one_bbt split_beta)

lemma clear_loop:
  assumes "unat (b_size (e_bbt s)) = n" and "n \<le> length (b_table (e_bbt s))"
  shows "fbb_clear_loop env blocks (rev [0..<n]) s =
    Some ((erase_zero env ^^ length (filter (\<lambda>b. ucast b \<notin> set blocks) (bbt_used s)))
      (s\<lparr>e_bbt := (e_bbt s)\<lparr>b_table := replicate n 0 @ drop n (b_table (e_bbt s)), b_size := 0\<rparr>\<rparr>))"
  using assms
proof (induction n arbitrary: s)
  case 0
  then have "b_size (e_bbt s) = 0" by (simp add: word_unat_eq_iff)
  then have "(e_bbt s)\<lparr>b_size := 0\<rparr> = e_bbt s" by (metis bbt_table.surjective bbt_table.update_convs(4))
  then show ?case using 0 by (simp add: bbt_used_def)
next
  case (Suc n)
  let ?t = "e_bbt s"
  let ?xs = "b_table ?t"
  have n: "n < length ?xs" using Suc.prems(2) by simp
  have "b_size ?t \<noteq> 0" using Suc.prems(1) by auto
  then have size: "unat (b_size ?t - 1) = n" using Suc.prems(1) by (simp add: unat_minus_one)
  define t1 where "t1 = ?t\<lparr>b_table := ?xs[n := 0], b_size := b_size ?t - 1\<rparr>"
  define s1 where "s1 = (if ucast (?xs ! n) \<in> set blocks then s else erase_zero env s)\<lparr>e_bbt := t1\<rparr>"
  have run: "fbb_clear_loop env blocks (rev [0..<Suc n]) s = fbb_clear_loop env blocks (rev [0..<n]) s1"
    using n size by (simp add: arr_get_def arr_set_def Let_def s1_def t1_def erase_zero_bbt)
  have "unat (b_size (e_bbt s1)) = n" "n \<le> length (b_table (e_bbt s1))"
    using size n by (simp_all add: s1_def t1_def)
  note ih = Suc.IH [OF this, unfolded run [symmetric]]
  have used: "bbt_used s1 = take n ?xs" "bbt_used s = take n ?xs @ [?xs ! n]"
    using size n Suc.prems(1) by (simp_all add: bbt_used_def s1_def t1_def take_Suc_conv_app_nth)
  have "replicate n 0 @ drop n (?xs[n := 0]) = replicate (Suc n) 0 @ drop (Suc n) ?xs"
    using n by (simp add: drop_update_swap Cons_nth_drop_Suc [symmetric] replicate_append_same)
  then have tab: "t1\<lparr>b_table := replicate n 0 @ drop n (b_table t1), b_size := 0\<rparr> =
      ?t\<lparr>b_table := replicate (Suc n) 0 @ drop (Suc n) ?xs, b_size := 0\<rparr>" by (simp add: t1_def)
  have s1t: "s1\<lparr>e_bbt := u\<rparr> = (if ucast (?xs ! n) \<in> set blocks then s\<lparr>e_bbt := u\<rparr> else erase_zero env (s\<lparr>e_bbt := u\<rparr>))" for u
    by (simp add: s1_def erase_zero_bbt)
  have e1: "e_bbt s1 = t1" by (simp add: s1_def)
  show ?case
    unfolding ih used filter_append length_append e1 tab s1t by (simp add: funpow_swap1 [of "\<lambda>s. snd (w_erase_one env 0 True s)"])
qed

text \<open>
  C17: When \<open>w_factory_badblocks\<close> replaces the table, the blocks whose entries are dropped are not erased,
  which would make them usable again: in place of every one of them block 0 is erased, the first
  block of the device.
\<close>

theorem en75_factory_list_erases_block_0:
  assumes "unat (b_size (e_bbt s)) \<le> length (b_table (e_bbt s))" and "e_can_write_bbt s"
    and "b_version (e_bbt s) \<noteq> 0" and "m_version (e_bmt s) \<noteq> 0" and "\<forall>b \<in> set blocks. b < ucast (e_begin s)"
    and "length blocks \<le> unat (e_table_size s)"
  shows "w_factory_badblocks env blocks s = do {
      let n = unat (b_size (e_bbt s));
      s \<leftarrow> Some (((\<lambda>s. snd (w_erase_one env 0 True s)) ^^ length (filter (\<lambda>b. ucast b \<notin> set blocks) (bbt_used s)))
        (s\<lparr>e_bbt := (e_bbt s)\<lparr>b_table := replicate n 0 @ drop n (b_table (e_bbt s)), b_size := 0\<rparr>\<rparr>));
      s \<leftarrow> fbb_unmap_loop env blocks s;
      s \<leftarrow> fbb_add_loop env blocks s;
      Some (0, s\<lparr>e_bbt := sort_bbt (e_bbt s), e_bbt_dirty := e_bbt_dirty s + 1\<rparr>)
    }"
  using assms clear_loop [OF refl assms(1), of env blocks]
  by (auto simp: w_factory_badblocks_def Let_def not_le [symmetric])

theorem en75_factory_list_erases_block_0_witness:
  "\<exists>s. w_factory_badblocks en75_sample_env [] en75_sample = Some (0, s) \<and>
     cells (e_dev s) = cells (snd (sim_erase (e_dev en75_sample) 0 4096)) \<and> bbt_used s = []"
proof -
  have "unat (b_size (e_bbt en75_sample)) \<le> length (b_table (e_bbt en75_sample))" "e_can_write_bbt en75_sample"
    "b_version (e_bbt en75_sample) \<noteq> 0" "m_version (e_bmt en75_sample) \<noteq> 0" by (simp_all add: en75_sample_def)
  note f = en75_factory_list_erases_block_0 [OF this, of "[]" en75_sample_env]
  show ?thesis
    using f by (simp add: sample_used)
      (simp add: en75_sample_def en75_sample_env_def sim_bmtd_def w_erase_one_def block_index_is_sane_def bbt_nand_erase_def
        blk_addr_def split_beta numeral_3_eq_3 Let_def bbt_used_def sort_bbt_def sim_erase_def)
qed

section \<open>Initialisation\<close>

lemma bmt_loop_spec:
  assumes "scan_ready env s"
  shows "returns (r_bmt_loop env i s) (\<lambda>s'. scan_ready env s' \<and> e_bbt s' = e_bbt s \<and>
    dev_steps env (\<lambda>_. False) (e_dev s) (e_dev s'))"
  using assms
proof (induction "nat (i - uint (e_begin s) + 1)" arbitrary: i s)
  case 0
  then show ?case by (simp add: r_bmt_loop.simps steps_refl)
next
  case (Suc k)
  have i: "uint (e_begin s) \<le> i" "k = nat (i - 1 - uint (e_begin s) + 1)" using Suc.hyps(2) by auto
  obtain r buf fdm d where rd: "bbt_nand_read env 0 (blk_pg env (word_of_int i)) (e_buf s) (unat (pg_size env)) (replicate 4 0) 4 (e_dev s)
      = Some (r, buf, fdm, d)" "length buf = length (e_buf s)" "dev_steps env (\<lambda>_. False) (e_dev s) d"
    using nand_read_spec [of env "unat (pg_size env)" "e_buf s" 4 "replicate 4 0" 0 "blk_pg env (word_of_int i)" "e_dev s"] Suc.prems
    by (auto simp: scan_ready_def returns_eq)
  let ?s = "s\<lparr>e_buf := buf, e_dev := d\<rparr>" and ?b = "host_val (e_big_endian s) (drop 2 fdm) :: u16"
  have ready: "scan_ready env ?s" using Suc.prems rd(2) by (simp add: scan_ready_def)
  have "unat (m_size (e_bmt s)) < length (m_table (e_bmt s))"
    using Suc.prems unsigned_less [of "m_size (e_bmt s)"] by (simp add: scan_ready_def)
  then obtain t where t: "bmt_add ?b (word_of_int i) (e_bmt s) = Some t" "length (m_table t) = length (m_table (e_bmt s))"
    by (simp add: bmt_add_def arr_set_def)
  define s1 where "s1 = (if r < 0 \<or> fdm_is_bad fdm \<noteq> BB_GOOD \<or> ?b \<ge> e_begin s then ?s else ?s\<lparr>e_bmt := t\<rparr>)"
  have s1: "scan_ready env s1" "e_begin s1 = e_begin s" "e_bbt s1 = e_bbt s" "e_dev s1 = d"
    using ready t(2) by (simp_all add: s1_def scan_ready_def)
  have run: "r_bmt_loop env i s = r_bmt_loop env (i - 1) s1"
    using i(1) rd(1) t(1) by (subst r_bmt_loop.simps) (simp add: Let_def s1_def)
  show ?case unfolding run
    by (rule returns_mono [OF Suc.hyps(1) [of "i - 1" s1]])
      (use i(2) s1 rd(3) in \<open>auto intro: dev_steps_trans\<close>)
qed

lemma reconstruct_bmt_spec:
  assumes "scan_ready env s"
  shows "returns (r_reconstruct_bmt env s) (\<lambda>s'. scan_ready env s' \<and> e_bbt s' = e_bbt s \<and>
    dev_steps env (\<lambda>_. False) (e_dev s) (e_dev s'))"
proof -
  have "scan_ready env (s\<lparr>e_bmt := bmt_cleared (e_bmt s), e_bmt_dirty := e_bmt_dirty s + 1\<rparr>)"
    using assms by (simp add: scan_ready_def bmt_cleared_def)
  from bmt_loop_spec [OF this, of "uint (total_blks env) - 1"] show ?thesis by (simp add: r_reconstruct_bmt_def)
qed

lemma add_range_keeps:
  "\<exists>r rs. add_remap_range True b n s = Some (r, s\<lparr>e_ranges := rs\<rparr>)"
  by (auto simp: add_remap_range_def intro: exI [of _ "e_ranges s"])

lemma add_partitions_keeps: "\<exists>rs. add_partitions env True np parts s = Some (s\<lparr>e_ranges := rs\<rparr>)"
proof (induction parts arbitrary: s)
  case Nil
  show ?case by (simp, intro exI [of _ "e_ranges s"], simp)
next
  case (Cons p parts)
  show ?case
  proof (cases p)
    case None
    then show ?thesis using Cons.IH by simp
  next
    case (Some r)
    obtain start len where r: "r = (start, len)" by (cases r)
    obtain e rs where "add_remap_range True (ucast (drop_bit (unat (blk_shift env)) start))
        (ucast (drop_bit (unat (blk_shift env)) len)) s = Some (e, s\<lparr>e_ranges := rs\<rparr>)" using add_range_keeps by blast
    then show ?thesis using Some r Cons.IH [of s] Cons.IH [of "s\<lparr>e_ranges := rs\<rparr>"] by (auto simp: Let_def)
  qed
qed

text \<open>A list of factory bad blocks does not make up for a missing table.\<close>

lemma init_tables_without_bbt:
  assumes "scan_ready env s" and "b_version (e_bbt s) = 0" and "of_badblocks np \<noteq> None"
  shows "returns (w_init_tables env np s) (\<lambda>(r, s'). (r = 0 \<or> r = - EIO) \<and> b_version (e_bbt s') = 0 \<and>
    dev_steps env (\<lambda>_. False) (e_dev s) (e_dev s'))"
  using assms reconstruct_bmt_spec [OF assms(1)]
  by (auto simp: w_init_tables_def returns_eq steps_refl)

text \<open>
  C18: When no BBT is found, the list of factory bad blocks of the device tree does not help, although
  the code announces that it reconstructs the table from the list: \<open>pub_init\<close> always fails, with
  \<open>-EIO\<close> or \<open>-EINVAL\<close>, and writes nothing.
\<close>

theorem en75_init_without_bbt:
  assumes "n = (case of_table_size np of Some n \<Rightarrow> n | None \<Rightarrow> DEFAULT_BBT_TABLE_SIZE)" and "n \<le> 1000"
    and "scan_ready env (s\<lparr>e_table_size := ucast n\<rparr>)" and "total_blks env \<noteq> 0"
    and scan: "r_scan_reserve env True (s\<lparr>e_table_size := ucast n\<rparr>) = Some (0, s1)"
    and none: "b_version (e_bbt s1) = 0" and list: "of_badblocks np = Some blocks"
  shows "\<exists>r s'. pub_init env True np s = Some (r, s') \<and> (r = - EINVAL \<or> r = - EIO) \<and>
    dev_steps env (\<lambda>_. False) (e_dev s) (e_dev s')"
proof -
  have s1: "scan_ready env s1" "dev_steps env (\<lambda>_. False) (e_dev s) (e_dev s1)"
    using scan_reserve_spec [OF assms(3,4)] scan by (auto simp: returns_eq)
  let ?s2 = "if of_can_write_bbt np then s1\<lparr>e_can_write_bbt := True\<rparr> else s1"
  obtain rs where rs: "(if of_enable_remap np then do { (_, s) \<leftarrow> add_remap_range True 0 (e_begin ?s2) ?s2; Some s }
      else add_partitions env True np (of_partitions np) ?s2) = Some (?s2\<lparr>e_ranges := rs\<rparr>)"
    using add_partitions_keeps [of env np "of_partitions np" ?s2] add_range_keeps [of 0 "e_begin ?s2" ?s2]
    by (cases "of_enable_remap np") auto
  have "scan_ready env (?s2\<lparr>e_ranges := rs\<rparr>)" "b_version (e_bbt (?s2\<lparr>e_ranges := rs\<rparr>)) = 0"
    using s1(1) none by (simp_all add: scan_ready_def)
  then obtain r s3 where s3: "w_init_tables env np (?s2\<lparr>e_ranges := rs\<rparr>) = Some (r, s3)" "r = 0 \<or> r = - EIO"
    "b_version (e_bbt s3) = 0" "dev_steps env (\<lambda>_. False) (e_dev s1) (e_dev s3)"
    using init_tables_without_bbt [of env "?s2\<lparr>e_ranges := rs\<rparr>" np] list by (auto simp: returns_eq split: if_splits)
  have "w_factory_badblocks env blocks s3 = Some (- EINVAL, s3)" using s3(3) by (simp add: w_factory_badblocks_def)
  then have "\<exists>r s'. w_init env True np s = Some (r, s') \<and> (r = - EINVAL \<or> r = - EIO) \<and>
      dev_steps env (\<lambda>_. False) (e_dev s) (e_dev s')"
    using assms(1,2) scan rs s3 s1(2) list dev_steps_trans [OF s1(2) s3(4)]
    by (auto simp: w_init_def Let_def not_le [symmetric] split: if_splits)
  then show ?thesis by (auto simp: pub_init_def)
qed

definition en75_new :: "sim_nand en75" where
  "en75_new = en75_sample\<lparr>e_bbt := (e_bbt en75_sample)\<lparr>b_version := 0\<rparr>, e_buf := replicate 64 0\<rparr>"

definition en75_new_node :: en75_node where
  "en75_new_node = \<lparr>of_table_size = None, of_reserve_size = None, of_can_write_bbt = True, of_badblocks = Some [5],
     of_enable_remap = True, of_partitions = []\<rparr>"

lemma new_read:
  "bbt_nand_read sim_bmtd 0 page (replicate 64 x) 64 (replicate 4 0) 4 sim_blank =
    Some (0, replicate 64 0xFF, replicate 4 0xFF, sim_blank)"
  by (simp add: bbt_nand_read_def sim_bmtd_def sim_read_def sim_blank_def buf_put_def map_replicate_const)

lemma new_scan:
  "\<exists>s1. r_scan_reserve sim_bmtd True en75_new = Some (0, s1) \<and> b_version (e_bbt s1) = 0"
proof -
  have "required_good_blocks 16 = 1" by (simp add: required_good_blocks_def)
  moreover have "scan_read_tries INITIAL_READ_TRIES sim_bmtd page r (replicate 4 0) (en75_new\<lparr>e_rblocks := []\<rparr>) =
      Some (0, replicate 4 0xFF, en75_new\<lparr>e_rblocks := [], e_buf := replicate 64 0xFF, e_dev := sim_blank\<rparr>)" for page r
  proof -
    have "pg_size sim_bmtd = 64" by (simp add: sim_bmtd_def)
    then show ?thesis by (simp add: numeral_3_eq_3 new_read en75_new_def en75_sample_def Let_def)
  qed
  ultimately show ?thesis
    by (simp add: r_scan_reserve_def r_scan_loop.simps scan_classify_def)
      (simp add: sim_bmtd_def en75_new_def en75_sample_def fdm_is_bad_def fdm_is_mapped_def try_parse_bbt_def try_parse_bmt_def
        buf_get_def block_is_erased_def Let_def)
qed

theorem en75_init_without_bbt_witness:
  "\<exists>r s'. pub_init sim_bmtd True en75_new_node en75_new = Some (r, s') \<and> (r = - EINVAL \<or> r = - EIO)"
proof -
  have e: "en75_new\<lparr>e_table_size := ucast (1000 :: u32)\<rparr> = en75_new" by (simp add: en75_new_def en75_sample_def)
  obtain s1 where s1: "r_scan_reserve sim_bmtd True (en75_new\<lparr>e_table_size := ucast (1000 :: u32)\<rparr>) = Some (0, s1)"
    "b_version (e_bbt s1) = 0" using new_scan unfolding e by blast
  have "scan_ready sim_bmtd (en75_new\<lparr>e_table_size := ucast (1000 :: u32)\<rparr>)" unfolding e
    by (simp add: scan_ready_def sim_drv_bounded) (simp add: en75_new_def en75_sample_def sim_bmtd_def)
  from en75_init_without_bbt [OF _ _ this _ s1, of en75_new_node "[5]"] show ?thesis
    by (auto simp: en75_new_node_def sim_bmtd_def)
qed

section \<open>Limits\<close>

text \<open>
  Remapping changes the first entry of a block, the mapping follows the last one: when a block has two
  entries, as reconstruction makes them of two blocks that carry its number, remapping it has no effect.
\<close>

lemma find_append: "find P (xs @ ys) = (case find P xs of None \<Rightarrow> find P ys | Some x \<Rightarrow> Some x)"
  by (induction xs) auto

lemma bmt_map_later:
  assumes "b \<in> from_blk ` set es"
  shows "bmt_map (x # es) b = bmt_map es b"
proof -
  have "find (\<lambda>e. from_blk e = b) (rev es) \<noteq> None" using assms by (auto simp: find_None_in)
  then show ?thesis by (auto simp: bmt_map_def find_append split: option.split)
qed

lemma redirect_froms: "bmt_redirect b n es = Some ds \<Longrightarrow> map from_blk ds = map from_blk es"
  by (induction es arbitrary: ds) (auto split: if_splits)

theorem en75_duplicate_entry_wins:
  assumes "bmt_redirect b n es = Some es'" and "2 \<le> length (filter (\<lambda>e. from_blk e = b) es)"
  shows "bmt_map es' b = bmt_map es b"
  using assms
proof (induction es arbitrary: es')
  case (Cons e es)
  show ?case
  proof (cases "from_blk e = b")
    case True
    then have "filter (\<lambda>e. from_blk e = b) es \<noteq> []" using Cons.prems(2) by auto
    then have "b \<in> from_blk ` set es" by (auto simp: filter_empty_conv)
    then show ?thesis using True Cons.prems(1) by (auto simp: bmt_map_later)
  next
    case False
    then obtain ds where ds: "bmt_redirect b n es = Some ds" "es' = e # ds" using Cons.prems(1) by auto
    have two: "2 \<le> length (filter (\<lambda>e. from_blk e = b) es)" using False Cons.prems(2) by simp
    then have "b \<in> from_blk ` set es" using filter_empty_conv [of "\<lambda>e. from_blk e = b" es] by fastforce
    moreover have "from_blk ` set ds = from_blk ` set es" using redirect_froms [OF ds(1)] by (metis set_map)
    ultimately show ?thesis using Cons.IH [OF ds(1) two] by (simp add: ds(2) bmt_map_later)
  qed
qed simp

theorem en75_duplicate_entry_wins_witness:
  "bmt_map [\<lparr>from_blk = 3, to_blk = 48\<rparr>, \<lparr>from_blk = 3, to_blk = 46\<rparr>] 3 =
   bmt_map [\<lparr>from_blk = 3, to_blk = 47\<rparr>, \<lparr>from_blk = 3, to_blk = 46\<rparr>] 3"
  by (rule en75_duplicate_entry_wins [of 3 48]) simp_all

text \<open>
  The property of a partition that enables remapping is looked for in the node of the device: without
  it there no range is added, and every request to remap is refused.
\<close>

lemma add_partitions_none: "\<not> of_enable_remap np \<Longrightarrow> add_partitions env alloc np parts s = Some s"
  by (induction parts) simp_all

theorem en75_partition_remap_refused:
  assumes "\<not> of_enable_remap np" and "e_ranges s = []"
  shows "\<exists>s'. add_partitions env alloc np parts s = Some s' \<and> pub_remap_block env b m n s' = Some (False, s')"
  using assms by (simp add: add_partitions_none pub_remap_block_def)

theorem en75_partition_remap_refused_witness:
  "\<exists>s'. add_partitions en75_sample_env True (en75_new_node\<lparr>of_enable_remap := False\<rparr>) [Some (0, 8192)] (en75_sample\<lparr>e_ranges := []\<rparr>) =
    Some s' \<and> pub_remap_block en75_sample_env 1 1 4096 s' = Some (False, s')"
  by (rule en75_partition_remap_refused) simp_all

text \<open>A BBT that is reconstructed is not marked dirty, so it is not stored.\<close>

lemma bbt_loop_dirty: "r_bbt_loop env is s = Some s' \<Longrightarrow> e_bbt_dirty s' = e_bbt_dirty s"
proof (induction "is" arbitrary: s)
  case (Cons i "is")
  then show ?case by (auto simp: bind_eq_Some_conv Let_def split: if_splits)
qed simp

lemma bmt_loop_dirty: "r_bmt_loop env i s = Some s' \<Longrightarrow> e_bbt_dirty s' = e_bbt_dirty s"
proof (induction "nat (i - uint (e_begin s) + 1)" arbitrary: i s)
  case 0
  then show ?case by (simp add: r_bmt_loop.simps)
next
  case (Suc k)
  have i: "uint (e_begin s) \<le> i" "k = nat (i - 1 - uint (e_begin s) + 1)" using Suc.hyps(2) by auto
  have ih: "r_bmt_loop env (i - 1) s1 = Some s' \<Longrightarrow> e_begin s1 = e_begin s \<Longrightarrow> e_bbt_dirty s' = e_bbt_dirty s1" for s1
    using Suc.hyps(1) [of "i - 1" s1] i(2) by simp
  show ?case using Suc.prems i(1)
    by (subst (asm) r_bmt_loop.simps) (auto simp: bind_eq_Some_conv Let_def dest!: ih split: if_splits)
qed

theorem en75_reconstructed_bbt_not_stored:
  assumes "w_init_tables env np s = Some (0, s')" and "b_version (e_bbt s) = 0" and "of_badblocks np = None"
  shows "e_bbt_dirty s' = e_bbt_dirty s"
  using assms
  by (auto simp: w_init_tables_def r_reconstruct_bbt_def r_reconstruct_bmt_def bind_eq_Some_conv Let_def
    dest!: bbt_loop_dirty bmt_loop_dirty split: if_splits)

end
