(* ===== verification/En75_Io.thy ===== *)
theory En75_Io
  imports En75_Theorems Bmt_Core_Theorems Bmt_Live
begin

text \<open>
  The core with the EcoNet scheme behind it: the scheme satisfies the contracts of the core for data
  that are read back and for requests that come to an end.
\<close>

section \<open>Data written are read back\<close>

sublocale working_chip \<subseteq> en75_core: working_core "en75_ops env" env mem
  by (rule working_coreI [OF en75_scheme.bmt_scheme_axioms working_chip_axioms])

context working_chip
begin

lemmas en75_erase_write_read = en75_core.erase_write_read

end

lemma sint_block: "b < 65536 \<Longrightarrow> sint (of_nat b :: u32) = int b"
  using unat_of_nat32 [of b] by (subst sint_small) simp_all

lemma ok_user_blocks: "length (user_blocks s) \<le> unat (e_begin s)"
  using length_filter_le [of _ "[0..<unat (e_begin s)]"] by (simp add: user_blocks_def blocks_without_def)

lemma ok_mapped:
  assumes "en75_ok env s" and "b < length (user_blocks s)"
  shows "get_mapping_block (en75_ops env) (of_nat b) s = Some (int (nat (get_mapping_block_en75 s (int b)))) \<and>
    nat (get_mapping_block_en75 s (int b)) < 65536"
proof -
  have "sorted_wrt (<) (bbt_used s)" using assms(1) by (simp add: en75_ok_def)
  then obtain w where w: "get_mapping_block_en75 s (int b) = uint (w :: u16)"
    using assms(2) by (simp add: mapping_en75)
  have "unat (e_begin s) < 65536" using unsigned_less [of "e_begin s"] by simp
  then have "b < 65536" using assms(2) ok_user_blocks [of s] by simp
  moreover have "unat w < 65536" using unsigned_less [of w] by simp
  ultimately show ?thesis by (simp add: en75_ops_def sint_block w)
qed

text \<open>
  C9: Through the EcoNet scheme data written into freshly erased blocks are read back unchanged,
  whatever blocks are bad or worn, and no physical block changes but those that the blocks of the
  request are mapped to.
\<close>

theorem en75_write_read:
  assumes "working_chip env mem" and "en75_ok env s" and "b + k \<le> length (user_blocks s)" and "0 < k"
    and "b * bsz env < 2 ^ 32" and "b * bsz env \<le> f" and "f + length dat \<le> (b + k) * bsz env" and "length dat < 2 ^ 32"
  shows "\<exists>s1 s2. mtk_bmt_mtd_erase env (en75_ops env) (of_nat (b * bsz env)) (of_nat (k * bsz env)) s = Some (0, None, s1) \<and>
    mtk_bmt_write env (en75_ops env) (of_nat f) dat [] 0 s1 = Some (0, length dat, 0, s2) \<and>
    mtk_bmt_read env (en75_ops env) (of_nat f) (length dat) 0 0 s2 = Some (0, dat, [], s2) \<and>
    (\<forall>x. unat x div bsz env \<notin> (\<lambda>n. nat (get_mapping_block_en75 s (int n))) ` {b..<b + k} \<longrightarrow>
       mem (e_dev s2) x = mem (e_dev s) x)"
proof -
  let ?p = "\<lambda>n. nat (get_mapping_block_en75 s (int n))"
  have m: "get_mapping_block (en75_ops env) (of_nat n) s = Some (int (?p n)) \<and> ?p n < 65536" if "n < b + k" for n
    using ok_mapped [OF assms(2), of n] that assms(3) by simp
  have "unat (e_begin s) < 65536" using unsigned_less [of "e_begin s"] by simp
  then have "b + k \<le> 65536" using assms(3) ok_user_blocks [of s] by simp
  then have mapped: "mapped_by (en75_ops env) s ?p b (b + k)"
    using m by (fastforce simp: mapped_by_def)
  have inj: "inj_on ?p {b..<b + k}"
  proof (rule inj_onI)
    fix x y assume xy: "x \<in> {b..<b + k}" "y \<in> {b..<b + k}" "?p x = ?p y"
    have "get_mapping_block_en75 s (int n) = int (?p n)" if "n \<in> {b..<b + k}" for n
    proof -
      have n: "n < length (user_blocks s)" using that assms(3) by simp
      have "sorted_wrt (<) (bbt_used s)" using assms(2) by (simp add: en75_ok_def)
      then show ?thesis using n by (simp add: mapping_en75)
    qed
    from this [OF xy(1)] this [OF xy(2)]
    show "x = y" using xy assms(3) by (intro mapping_inj [OF assms(2)]) simp_all
  qed
  have chip: "chip_of (en75_ops env) s' = e_dev s'" for s' by (simp add: en75_ops_def)
  show ?thesis
    using working_chip.en75_erase_write_read [OF assms(1) mapped inj assms(4-), of 0 0] by (simp only: chip)
qed

lemma sample_en75_works: "working_chip en75_sample_env cells"
proof
  show "geom_ok en75_sample_env" using sample_en75_env by (simp add: en75_env_def)
qed (auto simp: en75_sample_env_def sim_bmtd_def sim_read_def sim_write_def sim_erase_def)

theorem en75_write_read_witness:
  "\<exists>s1 s2. mtk_bmt_mtd_erase en75_sample_env (en75_ops en75_sample_env) 12288 12288 en75_sample = Some (0, None, s1) \<and>
    mtk_bmt_write en75_sample_env (en75_ops en75_sample_env) 16300 sample_data [] 0 s1 = Some (0, 200, 0, s2) \<and>
    mtk_bmt_read en75_sample_env (en75_ops en75_sample_env) 16300 200 0 0 s2 = Some (0, sample_data, [], s2)"
proof -
  have "bsz en75_sample_env = 4096" by (simp add: en75_sample_env_def)
  then show ?thesis
    using en75_write_read [OF sample_en75_works sample_en75_ok, of 3 3 16300 sample_data]
    by (force simp: sample_user_blocks sample_data_length)
qed

section \<open>Requests come to an end\<close>

definition en75_live :: "'d bmtd \<Rightarrow> nat \<Rightarrow> 'd en75 \<Rightarrow> bool" where
  "en75_live env N s \<longleftrightarrow> en75_ok env s \<and> length (e_rblocks s) \<le> MAX_BMT_SIZE \<and> N \<le> length (user_blocks s)"

locale en75_geometry =
  fixes env :: "'d bmtd" and N :: nat
  assumes env: "en75_env env" and blocks: "N \<le> 65536"

context en75_geometry
begin

lemma en75_remap_live:
  assumes live: "en75_live env N s" and b: "b < N"
  shows "\<exists>r s'. mtk_bmt_remap_block env (en75_ops env) (of_nat b) (word_of_int (get_mapping_block_en75 s (int b))) n s =
    Some (r, s') \<and> en75_live env N s'"
proof (cases "mapping_block_in_range env (of_nat b)")
  case None
  then show ?thesis using live by (auto simp: mtk_bmt_remap_block_def intro: exI [of _ False])
next
  case (Some rg)
  note l = live [unfolded en75_live_def]
  let ?ub = "of_nat b :: u16" and ?p = "get_mapping_block_en75 s (int b)"
  have b16: "b < 65536" using b blocks by simp
  then have ub: "unat ?ub = b" by (simp add: unat_of_nat take_bit_nat_eq_self)
  then have ui: "uint ?ub = int b" by (metis uint_nat)
  have cast: "(ucast (of_nat b :: u32) :: u16) = ?ub"
    using b16 ub unat_of_nat32 [of b] by (simp add: word_unat_eq_iff unsigned_ucast_eq take_bit_nat_eq_self)
  obtain q where q: "?p = int q" "q < 65536"
  proof (rule that [of "nat ?p"])
    show "?p = int (nat ?p)" "nat ?p < 65536"
      using ok_mapped [of env s b] l b b16 by (simp_all add: en75_ops_def sint_block)
  qed
  have castp: "(ucast (word_of_int ?p :: u32) :: u16) = word_of_int ?p"
    using q by (simp add: word_unat_eq_iff unsigned_ucast_eq take_bit_nat_eq_self unat_of_nat)
  have "unat ?ub < length (user_blocks s)" using ub b l by simp
  from pub_remap_spec [OF env _ _ this, of n] l
  obtain r s' where r: "pub_remap_block env ?ub (word_of_int ?p) n s = Some (r, s')" "en75_ok env s'"
    "e_begin s' = e_begin s" "bbt_used s' = bbt_used s"
    by (auto simp: returns_eq remap_outcome_def ui)
  have "en75_live env N s'"
    using l r(2-4) ok_length [OF _ r(2,3)] by (simp add: en75_live_def user_blocks_def)
  then show ?thesis using Some r(1) cast castp by (simp add: mtk_bmt_remap_block_def en75_ops_def)
qed

lemma en75_live_scheme: "live_scheme (en75_ops env) env (en75_live env N) N"
proof (rule live_scheme.intro [OF en75_scheme.bmt_scheme_axioms], unfold_locales)
  show "geom_ok env" "N \<le> 65536" using env by (simp_all add: en75_env_def blocks)
  fix s :: "'d en75" and b p n d
  show "en75_live env N (set_chip (en75_ops env) d s) = en75_live env N s"
    by (simp add: en75_live_def en75_ops_def en75_ok_def layout_def maps_to_reserve_def user_blocks_def)
  assume live: "en75_live env N s" and b: "b < N"
  have m: "get_mapping_block (en75_ops env) (of_nat b) s = Some (get_mapping_block_en75 s (int b))"
    using b blocks by (simp add: en75_ops_def sint_block)
  then show "\<exists>p. get_mapping_block (en75_ops env) (of_nat b) s = Some p" by simp
  assume "get_mapping_block (en75_ops env) (of_nat b) s = Some p"
  then have "p = get_mapping_block_en75 s (int b)" using m by simp
  then show "\<exists>r s'. mtk_bmt_remap_block env (en75_ops env) (of_nat b) (word_of_int p) n s = Some (r, s') \<and> en75_live env N s'"
    using en75_remap_live [OF live b] by simp
qed

end

sublocale en75_geometry \<subseteq> en75: live_scheme "en75_ops env" env "en75_live env N" N
  by (rule en75_live_scheme)

context en75_geometry
begin

lemmas en75_write_ends = en75.write_ends

lemmas en75_erase_ends = en75.erase_ends

end

interpretation en75_sample: en75_geometry en75_sample_env 45
  by unfold_locales (simp_all add: sample_en75_env)

text \<open>
  C13: Through the EcoNet scheme every write and every erase of logical blocks comes to an end, whatever
  the chip answers and however often blocks are remapped on the way: no access is outside a table or
  a buffer, the context stays consistent, and a write that reports success has written all its data.
\<close>

theorem en75_requests_end:
  assumes "en75_env env" and "drv_honest env" and "en75_ok env s" and "length (e_rblocks s) \<le> MAX_BMT_SIZE"
    and "f + length dat \<le> length (user_blocks s) * bsz env" and "length dat < 2 ^ 32"
    and "b + m \<le> length (user_blocks s)" and "0 < m" and "b * bsz env < 2 ^ 32"
  shows "(\<exists>ret n o' s'. mtk_bmt_write env (en75_ops env) (of_nat f) dat [] oo s = Some (ret, n, o', s') \<and>
      en75_ok env s' \<and> (ret = 0 \<longrightarrow> n = length dat)) \<and>
    (\<exists>ret fail s'. mtk_bmt_mtd_erase env (en75_ops env) (of_nat (b * bsz env)) (of_nat (m * bsz env)) s =
      Some (ret, fail, s') \<and> en75_ok env s')"
proof -
  let ?N = "length (user_blocks s)"
  have "unat (e_begin s) < 65536" using unsigned_less [of "e_begin s"] by simp
  then have geo: "en75_geometry env ?N" using assms(1) ok_user_blocks [of s] by unfold_locales simp_all
  have live: "en75_live env ?N s" using assms(3,4) by (simp add: en75_live_def)
  have g: "geom_ok env" using assms(1) by (simp add: en75_env_def)
  have start: "(of_nat (b * bsz env) :: u64) AND ucast (NOT (erasesize env - 1)) = of_nat (b * bsz env)"
    unfolding erase_start [OF g] using assms(9) by (subst unat_of_nat64) simp_all
  have sum: "(of_nat (b * bsz env) :: u64) + of_nat (m * bsz env) = of_nat ((b + m) * bsz env)"
    by (simp add: algebra_simps)
  have "\<exists>ret n o' s'. mtk_bmt_write env (en75_ops env) (of_nat f) dat [] oo s = Some (ret, n, o', s') \<and>
      en75_live env ?N s' \<and> (ret = 0 \<longrightarrow> n = length dat)"
    using en75_geometry.en75_write_ends [OF geo assms(2) live, of f dat 0 0 oo 0] assms(5,6) by (auto simp: mtk_bmt_write_def)
  moreover have "\<exists>ret fail s'. mtk_bmt_mtd_erase env (en75_ops env) (of_nat (b * bsz env)) (of_nat (m * bsz env)) s =
      Some (ret, fail, s') \<and> en75_live env ?N s'"
    using en75_geometry.en75_erase_ends [OF geo live assms(7), of None 0] assms(8) start sum
    by (simp only: mtk_bmt_mtd_erase_def) auto
  ultimately show ?thesis by (auto simp: en75_live_def)
qed

theorem en75_requests_end_witness:
  "(\<exists>ret n o' s'. mtk_bmt_write en75_sample_env (en75_ops en75_sample_env) 5000 [1, 2, 3] [] 0 en75_sample = Some (ret, n, o', s') \<and>
      en75_ok en75_sample_env s' \<and> (ret = 0 \<longrightarrow> n = 3)) \<and>
    (\<exists>ret fail s'. mtk_bmt_mtd_erase en75_sample_env (en75_ops en75_sample_env) 4096 8192 en75_sample =
      Some (ret, fail, s') \<and> en75_ok en75_sample_env s')"
proof -
  have "drv_honest en75_sample_env" by (simp add: drv_honest_def en75_sample_env_def sim_bmtd_def sim_write_def)
  moreover have "length (e_rblocks en75_sample) \<le> MAX_BMT_SIZE" by (simp add: en75_sample_def)
  moreover have "bsz en75_sample_env = 4096" by (simp add: en75_sample_env_def)
  moreover have "length (user_blocks en75_sample) = 45" by (simp add: sample_user_blocks)
  ultimately show ?thesis
    using en75_requests_end [OF sample_en75_env _ sample_en75_ok, of 5000 "[1, 2, 3]" 1 2 0]
    by (simp add: numeral_3_eq_3)
qed

end
