(* ===== verification/Kv_Table.thy ===== *)
theory Kv_Table
  imports Main
begin

text \<open>
  The interface between a table of named values and the code that fills it from a list or
  empties it: looking up after storing or deleting. \<open>fits\<close> says which values the table
  accepts. Proved from the interface: what a table holds after storing a list of pairs, of
  which the last one of each name counts.
\<close>

locale kv_table =
  fixes inv :: "'t \<Rightarrow> bool"
    and get :: "'t \<Rightarrow> 'k \<Rightarrow> 'v option"
    and put :: "'k \<Rightarrow> 'v \<Rightarrow> 't \<Rightarrow> 't"
    and del :: "'k \<Rightarrow> 't \<Rightarrow> 't"
    and fits :: "'t \<Rightarrow> 'v \<Rightarrow> bool"
  assumes inv_put: "inv t \<Longrightarrow> fits t v \<Longrightarrow> inv (put k v t)"
    and get_put: "inv t \<Longrightarrow> fits t v \<Longrightarrow> get (put k v t) m = (if m = k then Some v else get t m)"
    and fits_put: "inv t \<Longrightarrow> fits t v \<Longrightarrow> fits (put k v t) w = fits t w"
    and inv_del: "inv t \<Longrightarrow> inv (del k t)"
    and get_del: "inv t \<Longrightarrow> get (del k t) m = (if m = k then None else get t m)"
    and fits_del: "inv t \<Longrightarrow> fits (del k t) w = fits t w"
begin

definition put_all :: "('k \<times> 'v) list \<Rightarrow> 't \<Rightarrow> 't" where
  "put_all kvs t = fold (\<lambda>(k, v) t. put k v t) kvs t"

lemma put_all_inv:
  "inv t \<Longrightarrow> \<forall>(k, v)\<in>set kvs. fits t v \<Longrightarrow>
   inv (put_all kvs t) \<and> (\<forall>w. fits (put_all kvs t) w = fits t w)"
proof (induction kvs arbitrary: t)
  case (Cons kv kvs)
  obtain k v where kv: "kv = (k, v)" by (cases kv)
  have "inv (put k v t)" and "\<And>w. fits (put k v t) w = fits t w"
    using Cons.prems by (auto simp: kv inv_put fits_put)
  then show ?case using Cons.IH [of "put k v t"] Cons.prems(2) by (simp add: put_all_def kv)
qed (simp add: put_all_def)

lemma get_put_all:
  "inv t \<Longrightarrow> \<forall>(k, v)\<in>set kvs. fits t v \<Longrightarrow>
   get (put_all kvs t) m = (case map_of (rev kvs) m of None \<Rightarrow> get t m | Some v \<Rightarrow> Some v)"
proof (induction kvs arbitrary: t)
  case (Cons kv kvs)
  obtain k v where kv: "kv = (k, v)" by (cases kv)
  have 1: "inv (put k v t)" and 2: "\<And>w. fits (put k v t) w = fits t w"
    using Cons.prems by (auto simp: kv inv_put fits_put)
  have "get (put_all kvs (put k v t)) m =
      (case map_of (rev kvs) m of None \<Rightarrow> get (put k v t) m | Some v \<Rightarrow> Some v)"
    using Cons.prems(2) by (intro Cons.IH [OF 1]) (auto simp: 2)
  then show ?case using Cons.prems
    by (auto simp: put_all_def kv get_put map_add_def split: option.splits)
qed (simp add: put_all_def)

lemma get_put_all_distinct:
  assumes "inv t" and "\<forall>(k, v)\<in>set kvs. fits t v" and "distinct (map fst kvs)"
    and "(k, v) \<in> set kvs"
  shows "get (put_all kvs t) k = Some v"
proof -
  have "map_of (rev kvs) k = Some v"
    using assms(3,4) by (intro map_of_is_SomeI) (auto simp flip: rev_map)
  then show ?thesis by (simp add: get_put_all [OF assms(1,2)])
qed

lemma get_del_put: "inv t \<Longrightarrow> fits t v \<Longrightarrow> get (del k (put k v t)) m = get (del k t) m"
  by (simp add: get_put get_del inv_put)

end

end
