(* ===== verification/Nvram_Table.thy ===== *)
theory Nvram_Table
  imports Nvram_Crc Kv_Table
begin

text \<open>
  \<open>nvram.c\<close> of the \<open>nvram\<close> utility, first part: the handle and its hash table of variables with
  \<open>nvram_get\<close>, \<open>nvram_set\<close>, \<open>nvram_unset\<close> and \<open>nvram_getall\<close>.

  A C string is the list of its bytes without the terminating NUL. A bucket is the list of
  its tuples from the head of the chain on; \<open>value\<close> is \<^const>\<open>None\<close> when the pointer is
  \<open>NULL\<close>. The numeric value of a \<open>char\<close> is implementation defined and a member of the handle,
  \<open>char_val\<close>, as are the address of the mapping and the size of the partition.
\<close>

section \<open>The handle\<close>

record nvram_tuple =
  tname :: "u8 list"
  tvalue :: "u8 list option"

record nvram_handle =
  h_mmap :: "u8 list"
  h_length :: u32
  h_offset :: u32
  nvram_hash :: "nvram_tuple list list"
  nvram_dead :: "nvram_tuple list"
  char_val :: "u8 \<Rightarrow> u32"
  h_addr :: u32
  nvram_part_size :: u32

abbreviation NVRAM_BUCKETS :: nat where "NVRAM_BUCKETS \<equiv> 257"

fun nvram_hash_loop :: "(u8 \<Rightarrow> u32) \<Rightarrow> u32 \<Rightarrow> u8 list \<Rightarrow> u32" where
  "nvram_hash_loop cv h [] = h"
| "nvram_hash_loop cv h (c # s) = nvram_hash_loop cv (31 * h + cv c) s"

definition bucket_of :: "nvram_handle \<Rightarrow> u8 list \<Rightarrow> nat" where
  "bucket_of h name = unat (nvram_hash_loop (char_val h) 0 name) mod NVRAM_BUCKETS"

definition nvram_free :: "nvram_handle \<Rightarrow> nvram_handle" where
  "nvram_free h = h\<lparr>nvram_hash := map (\<lambda>_. []) (nvram_hash h), nvram_dead := []\<rparr>"

section \<open>Chains\<close>

fun chain_find :: "u8 list \<Rightarrow> nvram_tuple list \<Rightarrow> nvram_tuple option" where
  "chain_find name [] = None"
| "chain_find name (t # ts) = (if tname t = name then Some t else chain_find name ts)"

fun chain_unlink :: "u8 list \<Rightarrow> nvram_tuple list \<Rightarrow> nvram_tuple list" where
  "chain_unlink name [] = []"
| "chain_unlink name (t # ts) = (if tname t = name then ts else t # chain_unlink name ts)"

fun chain_update :: "u8 list \<Rightarrow> u8 list option \<Rightarrow> nvram_tuple list \<Rightarrow> nvram_tuple list" where
  "chain_update name v [] = []"
| "chain_update name v (t # ts) =
     (if tname t = name then t\<lparr>tvalue := v\<rparr> # ts else t # chain_update name v ts)"

section \<open>Operations\<close>

text \<open>
  \<open>_nvram_realloc\<close>: the value the tuple has afterwards, whether an existing tuple \<open>t\<close> lost its
  value, and whether it succeeded. \<open>alloc\<close> is whether the allocations it makes succeed. An
  existing tuple is changed in place; the result is \<^const>\<open>None\<close> for a \<open>NULL\<close> return without a
  change, \<open>Some None\<close> for one that left the value \<open>NULL\<close>.
\<close>

definition nvram_realloc ::
  "nvram_handle \<Rightarrow> bool \<Rightarrow> nvram_tuple option \<Rightarrow> u8 list \<Rightarrow> u8 list option option" where
  "nvram_realloc h alloc t value =
     (if length value + 1 > unat (h_length h - h_offset h) then None
      else case t of
        None \<Rightarrow> if alloc then Some (Some value) else None
      | Some t \<Rightarrow>
          if tvalue t = Some value then Some (Some value)
          else if alloc then Some (Some value) else Some None)"

definition nvram_get :: "nvram_handle \<Rightarrow> u8 list option \<Rightarrow> u8 list option option" where
  "nvram_get h name =
     (case name of
        None \<Rightarrow> Some None
      | Some n \<Rightarrow> do {
          chain \<leftarrow> arr_get (nvram_hash h) (bucket_of h n);
          Some (Option.bind (chain_find n chain) tvalue)
        })"

definition nvram_set ::
  "nvram_handle \<Rightarrow> bool \<Rightarrow> u8 list \<Rightarrow> u8 list \<Rightarrow> (int \<times> nvram_handle) option" where
  "nvram_set h alloc name value = do {
     let i = bucket_of h name;
     chain \<leftarrow> arr_get (nvram_hash h) i;
     let t = chain_find name chain;
     (case nvram_realloc h alloc t value of
        None \<Rightarrow> Some (- 12, h)
      | Some None \<Rightarrow> do {
          b \<leftarrow> arr_set (nvram_hash h) i (chain_update name None chain);
          Some (- 12, h\<lparr>nvram_hash := b\<rparr>)
        }
      | Some (Some v) \<Rightarrow> do {
          let chain = (case t of
            None \<Rightarrow> \<lparr>tname = name, tvalue = Some v\<rparr> # chain
          | Some _ \<Rightarrow> chain_update name (Some v) chain);
          b \<leftarrow> arr_set (nvram_hash h) i chain;
          Some (0, h\<lparr>nvram_hash := b\<rparr>)
        })
   }"

definition nvram_unset :: "nvram_handle \<Rightarrow> u8 list option \<Rightarrow> (int \<times> nvram_handle) option" where
  "nvram_unset h name =
     (case name of
        None \<Rightarrow> Some (0, h)
      | Some n \<Rightarrow> do {
          let i = bucket_of h n;
          chain \<leftarrow> arr_get (nvram_hash h) i;
          (case chain_find n chain of
             None \<Rightarrow> Some (0, h)
           | Some t \<Rightarrow> do {
               b \<leftarrow> arr_set (nvram_hash h) i (chain_unlink n chain);
               Some (0, h\<lparr>nvram_hash := b, nvram_dead := t # nvram_dead h\<rparr>)
             })
        })"

text \<open>
  \<open>nvram_getall\<close>: each allocation may fail, which ends the walk of its bucket; \<open>alloc\<close> decides
  for each bucket and tuple. The list is built by pushing at its front.
\<close>

fun getall_chain :: "(nat \<Rightarrow> bool) \<Rightarrow> nat \<Rightarrow> nvram_tuple list \<Rightarrow> nvram_tuple list \<Rightarrow> nvram_tuple list" where
  "getall_chain alloc k [] l = l"
| "getall_chain alloc k (t # ts) l = (if alloc k then getall_chain alloc (k + 1) ts (t # l) else l)"

definition nvram_getall :: "nvram_handle \<Rightarrow> (nat \<Rightarrow> nat \<Rightarrow> bool) \<Rightarrow> nvram_tuple list" where
  "nvram_getall h alloc =
     fold (\<lambda>i l. getall_chain (alloc i) 0 (nvram_hash h ! i) l) [0..<length (nvram_hash h)] []"

section \<open>The table as a map\<close>

definition nv_wf :: "nvram_handle \<Rightarrow> bool" where
  "nv_wf h \<longleftrightarrow> length (nvram_hash h) = NVRAM_BUCKETS \<and>
     (\<forall>i < NVRAM_BUCKETS. distinct (map tname (nvram_hash h ! i)) \<and>
        (\<forall>t \<in> set (nvram_hash h ! i). bucket_of h (tname t) = i))"

definition nv_room :: "nvram_handle \<Rightarrow> nat" where
  "nv_room h = unat (h_length h - h_offset h)"

definition nv_map :: "nvram_handle \<Rightarrow> u8 list \<Rightarrow> u8 list option" where
  "nv_map h name = Option.bind (chain_find name (nvram_hash h ! bucket_of h name)) tvalue"

lemma bucket_bound [simp]: "bucket_of h name < NVRAM_BUCKETS"
  by (simp add: bucket_of_def)

lemma bucket_upd [simp]:
  "bucket_of (h\<lparr>nvram_hash := b\<rparr>) n = bucket_of h n"
  "bucket_of (h\<lparr>nvram_dead := d\<rparr>) n = bucket_of h n"
  "bucket_of (h\<lparr>h_mmap := m\<rparr>) n = bucket_of h n"
  by (simp_all add: bucket_of_def)

lemma chain_find_name: "chain_find n ts = Some t \<Longrightarrow> tname t = n \<and> t \<in> set ts"
  by (induction ts) (auto split: if_splits)

lemma chain_find_None: "chain_find n ts = None \<longleftrightarrow> n \<notin> tname ` set ts"
  by (induction ts) auto

lemma chain_find_unlink:
  "distinct (map tname ts) \<Longrightarrow> chain_find m (chain_unlink n ts) = (if m = n then None else chain_find m ts)"
  by (induction ts) (auto simp: chain_find_None)

lemma chain_find_update:
  "chain_find m (chain_update n v ts) =
     (if m = n then map_option (\<lambda>t. t\<lparr>tvalue := v\<rparr>) (chain_find n ts) else chain_find m ts)"
  by (induction ts) auto

lemma map_tname_update [simp]: "map tname (chain_update n v ts) = map tname ts"
  by (induction ts) auto

lemma set_tname_update: "tname ` set (chain_update n v ts) = tname ` set ts"
  by (metis list.set_map map_tname_update)

lemma chain_unlink_subset: "set (chain_unlink n ts) \<subseteq> set ts"
  by (induction ts) auto

lemma chain_unlink_distinct: "distinct (map tname ts) \<Longrightarrow> distinct (map tname (chain_unlink n ts))"
  by (induction ts) (use chain_unlink_subset in fastforce)+

lemma nv_get: "nv_wf h \<Longrightarrow> nvram_get h (Some n) = Some (nv_map h n)"
  by (simp add: nvram_get_def nv_map_def arr_get_def nv_wf_def)

lemma nv_wf_put:
  assumes "nv_wf h" and "distinct (map tname c)" and "\<forall>t \<in> set c. bucket_of h (tname t) = i"
  shows "nv_wf (h\<lparr>nvram_hash := (nvram_hash h)[i := c]\<rparr>)"
  unfolding nv_wf_def
proof (intro conjI allI impI)
  show "length (nvram_hash (h\<lparr>nvram_hash := (nvram_hash h)[i := c]\<rparr>)) = NVRAM_BUCKETS"
    using assms(1) by (simp add: nv_wf_def)
next
  fix k assume k: "k < NVRAM_BUCKETS"
  show "distinct (map tname (nvram_hash (h\<lparr>nvram_hash := (nvram_hash h)[i := c]\<rparr>) ! k))"
    using assms k by (cases "i = k") (auto simp: nv_wf_def)
  show "\<forall>t \<in> set (nvram_hash (h\<lparr>nvram_hash := (nvram_hash h)[i := c]\<rparr>) ! k).
      bucket_of (h\<lparr>nvram_hash := (nvram_hash h)[i := c]\<rparr>) (tname t) = k"
    using assms k by (cases "i = k") (auto simp: nv_wf_def)
qed

lemma nv_map_put:
  assumes "nv_wf h"
  shows "nv_map (h\<lparr>nvram_hash := (nvram_hash h)[i := c]\<rparr>) m =
    (if bucket_of h m = i then Option.bind (chain_find m c) tvalue else nv_map h m)"
  using assms by (auto simp: nv_map_def nv_wf_def)

lemma nv_chain:
  assumes "nv_wf h"
  shows "distinct (map tname (nvram_hash h ! bucket_of h n))"
    "\<And>t. t \<in> set (nvram_hash h ! bucket_of h n) \<Longrightarrow> bucket_of h (tname t) = bucket_of h n"
  using assms by (auto simp: nv_wf_def)

text \<open>What \<open>nvram_set\<close> does when its value fits and no allocation fails.\<close>

definition nv_put :: "u8 list \<Rightarrow> u8 list \<Rightarrow> nvram_handle \<Rightarrow> nvram_handle" where
  "nv_put n v h = h\<lparr>nvram_hash := (nvram_hash h)[bucket_of h n :=
     (let chain = nvram_hash h ! bucket_of h n in
      case chain_find n chain of
        None \<Rightarrow> \<lparr>tname = n, tvalue = Some v\<rparr> # chain
      | Some _ \<Rightarrow> chain_update n (Some v) chain)]\<rparr>"

definition nv_del :: "u8 list \<Rightarrow> nvram_handle \<Rightarrow> nvram_handle" where
  "nv_del n h = snd (the (nvram_unset h (Some n)))"

definition nv_fits :: "nvram_handle \<Rightarrow> u8 list \<Rightarrow> bool" where
  "nv_fits h v \<longleftrightarrow> length v + 1 \<le> nv_room h"

lemma nv_set_fits:
  assumes "nv_wf h" and "nv_fits h v"
  shows "nvram_set h True n v = Some (0, nv_put n v h)"
proof -
  have b: "bucket_of h n < length (nvram_hash h)" using assms(1) by (simp add: nv_wf_def)
  then show ?thesis using assms(2)
    by (cases "chain_find n (nvram_hash h ! bucket_of h n)")
      (auto simp: nvram_set_def nv_put_def nvram_realloc_def arr_get_def arr_set_def nv_fits_def
        nv_room_def Let_def)
qed

lemma nv_set_too_long:
  assumes "nv_wf h" and "\<not> nv_fits h v"
  shows "nvram_set h alloc n v = Some (- 12, h)"
  using assms
  by (auto simp: nvram_set_def nvram_realloc_def arr_get_def nv_fits_def nv_room_def nv_wf_def Let_def)

lemma nv_unset_eq:
  assumes "nv_wf h"
  shows "nvram_unset h (Some n) =
    (case chain_find n (nvram_hash h ! bucket_of h n) of
       None \<Rightarrow> Some (0, h)
     | Some t \<Rightarrow> Some (0, h\<lparr>nvram_hash := (nvram_hash h)[bucket_of h n :=
          chain_unlink n (nvram_hash h ! bucket_of h n)], nvram_dead := t # nvram_dead h\<rparr>))"
  using assms by (auto simp: nvram_unset_def arr_get_def arr_set_def nv_wf_def Let_def split: option.splits)

lemma chain_tnames: "t \<in> set (chain_update n v ts) \<Longrightarrow> \<exists>t' \<in> set ts. tname t = tname t'"
  using set_tname_update [of n v ts] by (metis image_iff imageI)

lemma nv_wf_put_wf:
  assumes "nv_wf h"
  shows "nv_wf (nv_put n v h)"
  unfolding nv_put_def Let_def
proof (rule nv_wf_put [OF assms]; cases "chain_find n (nvram_hash h ! bucket_of h n)")
  let ?c = "nvram_hash h ! bucket_of h n"
  note ch = nv_chain [OF assms, where n = n]
  {
    assume none: "chain_find n ?c = None"
    then show "distinct (map tname (case chain_find n ?c of
        None \<Rightarrow> \<lparr>tname = n, tvalue = Some v\<rparr> # ?c | Some _ \<Rightarrow> chain_update n (Some v) ?c))"
      using ch(1) chain_find_None [THEN iffD1, OF none] by (simp add: none)
    show "\<forall>t \<in> set (case chain_find n ?c of
        None \<Rightarrow> \<lparr>tname = n, tvalue = Some v\<rparr> # ?c | Some _ \<Rightarrow> chain_update n (Some v) ?c).
        bucket_of h (tname t) = bucket_of h n"
      using none ch(2) by simp
  next
    fix u assume some: "chain_find n ?c = Some u"
    then show "distinct (map tname (case chain_find n ?c of
        None \<Rightarrow> \<lparr>tname = n, tvalue = Some v\<rparr> # ?c | Some _ \<Rightarrow> chain_update n (Some v) ?c))"
      using ch(1) by simp
    show "\<forall>t \<in> set (case chain_find n ?c of
        None \<Rightarrow> \<lparr>tname = n, tvalue = Some v\<rparr> # ?c | Some _ \<Rightarrow> chain_update n (Some v) ?c).
        bucket_of h (tname t) = bucket_of h n"
      using some ch(2) by (auto dest!: chain_tnames)
  }
qed

lemma nv_get_put:
  assumes "nv_wf h"
  shows "nv_map (nv_put n v h) m = (if m = n then Some v else nv_map h m)"
proof -
  let ?c = "nvram_hash h ! bucket_of h n"
  have "nv_map (nv_put n v h) m =
    (if bucket_of h m = bucket_of h n
     then Option.bind (chain_find m (case chain_find n ?c of
        None \<Rightarrow> \<lparr>tname = n, tvalue = Some v\<rparr> # ?c | Some _ \<Rightarrow> chain_update n (Some v) ?c)) tvalue
     else nv_map h m)"
    unfolding nv_put_def Let_def by (rule nv_map_put [OF assms])
  then show ?thesis
    by (auto simp: nv_map_def chain_find_update split: option.splits)
qed

lemma nv_wf_del:
  assumes wf: "nv_wf h"
  shows "nv_wf (nv_del n h)"
proof (cases "chain_find n (nvram_hash h ! bucket_of h n)")
  case (Some t)
  have "nv_wf (h\<lparr>nvram_hash := (nvram_hash h)[bucket_of h n := chain_unlink n (nvram_hash h ! bucket_of h n)]\<rparr>)"
    by (rule nv_wf_put [OF wf])
      (use nv_chain [OF wf, where n = n] chain_unlink_subset in \<open>fastforce intro: chain_unlink_distinct\<close>)+
  then show ?thesis
    by (simp add: nv_del_def nv_unset_eq wf Some) (simp add: nv_wf_def)
qed (simp add: nv_del_def nv_unset_eq wf)

lemma nv_get_del:
  assumes "nv_wf h"
  shows "nv_map (nv_del n h) m = (if m = n then None else nv_map h m)"
proof (cases "chain_find n (nvram_hash h ! bucket_of h n)")
  case None
  then show ?thesis using assms by (auto simp: nv_del_def nv_unset_eq nv_map_def)
next
  case (Some t)
  have "nv_map (nv_del n h) m =
     nv_map (h\<lparr>nvram_hash := (nvram_hash h)[bucket_of h n := chain_unlink n (nvram_hash h ! bucket_of h n)]\<rparr>) m"
    by (simp add: nv_del_def nv_unset_eq assms Some nv_map_def)
  also have "\<dots> = (if m = n then None else nv_map h m)"
    unfolding nv_map_put [OF assms]
    by (auto simp: nv_map_def chain_find_unlink nv_chain(1) [OF assms, where n = n])
  finally show ?thesis .
qed

lemma nv_fits_upd: "nv_fits (nv_put n v h) w = nv_fits h w"
  by (simp add: nv_fits_def nv_room_def nv_put_def)

lemma nv_fits_del: "nv_wf h \<Longrightarrow> nv_fits (nv_del n h) w = nv_fits h w"
  by (auto simp: nv_fits_def nv_room_def nv_del_def nv_unset_eq split: option.splits)

interpretation nv: kv_table nv_wf nv_map nv_put nv_del nv_fits
  by unfold_locales (simp_all add: nv_wf_put_wf nv_get_put nv_fits_upd nv_wf_del nv_get_del nv_fits_del)

end
