(* ===== verification/C_Text.thy ===== *)
theory C_Text
  imports Flash_Prelude
begin

text \<open>
  C strings as lists of bytes and the conversions of the C library that the programs of this
  development call on them.
\<close>

text \<open>A string literal as bytes.\<close>

definition cstr :: "string \<Rightarrow> u8 list" where
  "cstr s = map of_char s"

text \<open>
  \<open>strtoul(s, NULL, 0)\<close> for an \<open>unsigned long\<close> of the width of the result: white space, a
  sign, the base from the prefix, digits; the largest value on overflow.
\<close>

definition digit_val :: "u8 \<Rightarrow> nat option" where
  "digit_val c =
     (if 0x30 \<le> c \<and> c \<le> 0x39 then Some (unat c - 0x30)
      else if 0x41 \<le> c \<and> c \<le> 0x5A then Some (unat c - 0x37)
      else if 0x61 \<le> c \<and> c \<le> 0x7A then Some (unat c - 0x57)
      else None)"

fun strtoul_digits :: "nat \<Rightarrow> nat \<Rightarrow> u8 list \<Rightarrow> nat" where
  "strtoul_digits base acc [] = acc"
| "strtoul_digits base acc (c # cs) =
     (case digit_val c of
        Some d \<Rightarrow> if d < base then strtoul_digits base (acc * base + d) cs else acc
      | None \<Rightarrow> acc)"

definition strtoul_base :: "u8 list \<Rightarrow> nat" where
  "strtoul_base cs =
     (case cs of
        a # b # c # rest \<Rightarrow>
          if a = 0x30 \<and> (b = 0x78 \<or> b = 0x58) \<and> (case digit_val c of Some d \<Rightarrow> d < 16 | None \<Rightarrow> False)
          then strtoul_digits 16 0 (c # rest)
          else strtoul_digits (if a = 0x30 then 8 else 10) 0 cs
      | a # rest \<Rightarrow> strtoul_digits (if a = 0x30 then 8 else 10) 0 cs
      | [] \<Rightarrow> 0)"

text \<open>White space and the sign; the magnitude of the number.\<close>

definition strto_sign :: "u8 list \<Rightarrow> bool \<times> u8 list" where
  "strto_sign s =
     (let cs = dropWhile (\<lambda>c. c = 0x20 \<or> 9 \<le> c \<and> c \<le> 13) s
      in (cs \<noteq> [] \<and> hd cs = 0x2D, if cs \<noteq> [] \<and> (hd cs = 0x2D \<or> hd cs = 0x2B) then tl cs else cs))"

definition strtoul :: "u8 list \<Rightarrow> 'a::len word" where
  "strtoul s =
     (let (neg, cs) = strto_sign s; n = strtoul_base cs
      in if n \<ge> 2 ^ LENGTH('a) then - 1 else if neg then - of_nat n else of_nat n)"

text \<open>Whether the number is one of a 64-bit \<open>unsigned long\<close>; \<open>errno\<close> is set otherwise.\<close>

definition strtoul_range :: "u8 list \<Rightarrow> bool" where
  "strtoul_range s = (strtoul_base (snd (strto_sign s)) < 2 ^ 64)"

text \<open>\<open>atoi\<close>, for a number that is an \<open>int\<close> (the result is undefined otherwise).\<close>

definition atoi :: "u8 list \<Rightarrow> int option" where
  "atoi s =
     (let (neg, cs) = strto_sign s; n = int (strtoul_digits 10 0 cs); v = (if neg then - n else n)
      in if - (2 ^ 31) \<le> v \<and> v < 2 ^ 31 then Some v else None)"

end
