(* ===== verification/Nvram_Commit.thy ===== *)
theory Nvram_Commit
  imports Nvram_Table C_Text
begin

text \<open>
  \<open>nvram.c\<close>, second part: the partition as bytes. \<open>_nvram_rehash\<close> fills the table from the data
  area, \<open>nvram_commit\<close> writes the header and the data area, \<open>nvram_open\<close> finds the header in
  the partition. Words are little-endian, the byte order of the supported Broadcom CPUs, and
  allocations during a rehash succeed.
\<close>

section \<open>The header\<close>

abbreviation NVRAM_MAGIC :: u32 where "NVRAM_MAGIC \<equiv> 0x48534C46"
abbreviation NVRAM_VERSION :: u32 where "NVRAM_VERSION \<equiv> 1"
abbreviation NVRAM_MIN_SPACE :: u32 where "NVRAM_MIN_SPACE \<equiv> 0x8000"
abbreviation NVRAM_HEADER_SIZE :: nat where "NVRAM_HEADER_SIZE \<equiv> 20"
abbreviation NVRAM_CRC_START_POSITION :: nat where "NVRAM_CRC_START_POSITION \<equiv> 9"
abbreviation SDRAM_INIT :: u32 where "SDRAM_INIT \<equiv> 0x419"
abbreviation SDRAM_CONFIG :: u32 where "SDRAM_CONFIG \<equiv> 0"
abbreviation SDRAM_REFRESH :: u32 where "SDRAM_REFRESH \<equiv> 0x8040"

record nvram_hdr =
  nh_magic :: u32
  nh_len :: u32
  crc_ver_init :: u32
  config_refresh :: u32
  config_ncdl :: u32

definition nv_header_bytes :: "nvram_hdr \<Rightarrow> u8 list" where
  "nv_header_bytes g =
     le32 (nh_magic g) @ le32 (nh_len g) @ le32 (crc_ver_init g) @ le32 (config_refresh g) @
     le32 (config_ncdl g)"

definition nv_header_of :: "u8 list \<Rightarrow> nvram_hdr" where
  "nv_header_of bs =
     \<lparr>nh_magic = le_val (take 4 bs), nh_len = le_val (take 4 (drop 4 bs)),
      crc_ver_init = le_val (take 4 (drop 8 bs)), config_refresh = le_val (take 4 (drop 12 bs)),
      config_ncdl = le_val (take 4 (drop 16 bs))\<rparr>"

text \<open>\<open>nvram_header\<close>: the header in the mapping.\<close>

definition nvram_header :: "nvram_handle \<Rightarrow> nvram_hdr option" where
  "nvram_header h =
     map_option nv_header_of (buf_get (h_mmap h) (unat (h_offset h)) NVRAM_HEADER_SIZE)"

section \<open>Numbers as text\<close>

definition hex_digit :: "u32 \<Rightarrow> u8" where
  "hex_digit d = (if d < 10 then 0x30 + ucast d else 0x37 + ucast d)"

text \<open>\<open>sprintf\<close> with \<open>0x%0nX\<close>, for a value below \<open>16 ^ n\<close>.\<close>

definition fmt_hex :: "nat \<Rightarrow> u32 \<Rightarrow> u8 list" where
  "fmt_hex n w =
     [0x30, 0x78] @ map (\<lambda>i. hex_digit (drop_bit (4 * (n - 1 - i)) w AND 15)) [0..<n]"

section \<open>Filling the table\<close>

text \<open>
  \<open>strlen\<close> and \<open>strchr\<close> on the bytes of the mapping: a string must be terminated inside it.
\<close>

definition c_string :: "u8 list \<Rightarrow> u8 list option" where
  "c_string bs = (if 0 \<in> set bs then Some (takeWhile (\<lambda>c. c \<noteq> 0) bs) else None)"

lemma c_string_length: "c_string bs = Some s \<Longrightarrow> length s < length bs"
  by (induction bs arbitrary: s) (auto simp: c_string_def split: if_splits)

text \<open>The loop of \<open>_nvram_rehash\<close>.\<close>

function rehash_loop :: "u8 list \<Rightarrow> nvram_handle \<Rightarrow> nvram_handle option" where
  "rehash_loop bs h =
     (case c_string bs of
        None \<Rightarrow> None
      | Some s \<Rightarrow>
          if s = [] \<or> 0x3D \<notin> set s then Some h
          else do {
            let name = takeWhile (\<lambda>c. c \<noteq> 0x3D) s;
            let value = tl (dropWhile (\<lambda>c. c \<noteq> 0x3D) s);
            (_, h) \<leftarrow> nvram_set h True name value;
            rehash_loop (drop (length s + 1) bs) h
          })"
  by pat_completeness auto
termination
  by (relation "measure (\<lambda>(bs, h). length bs)") (auto dest: c_string_length)

declare rehash_loop.simps [simp del]

text \<open>One of the special SDRAM parameters: set when the table has no value for it.\<close>

definition set_missing :: "u8 list \<Rightarrow> u8 list \<Rightarrow> nvram_handle \<Rightarrow> nvram_handle option" where
  "set_missing name value h = do {
     v \<leftarrow> nvram_get h (Some name);
     if v = None then do {
       (_, h) \<leftarrow> nvram_set h True name value;
       Some h
     }
     else Some h
   }"

definition nvram_rehash :: "nvram_handle \<Rightarrow> (int \<times> nvram_handle) option" where
  "nvram_rehash h = do {
     g \<leftarrow> nvram_header h;
     let h = nvram_free h;
     h \<leftarrow> rehash_loop (drop (unat (h_offset h) + NVRAM_HEADER_SIZE) (h_mmap h)) h;
     h \<leftarrow> set_missing (cstr ''sdram_init'') (fmt_hex 4 (drop_bit 16 (crc_ver_init g))) h;
     h \<leftarrow> set_missing (cstr ''sdram_config'') (fmt_hex 4 (config_refresh g AND 0xFFFF)) h;
     h \<leftarrow> set_missing (cstr ''sdram_refresh'')
            (fmt_hex 4 (drop_bit 16 (config_refresh g) AND 0xFFFF)) h;
     h \<leftarrow> set_missing (cstr ''sdram_ncdl'') (fmt_hex 8 (config_ncdl g)) h;
     Some (0, h)
   }"

section \<open>Writing the partition\<close>

text \<open>The SDRAM members of the new header.\<close>

definition commit_header :: "nvram_handle \<Rightarrow> nvram_hdr \<Rightarrow> nvram_hdr option" where
  "commit_header h g = do {
     let g = g\<lparr>nh_magic := NVRAM_MAGIC, crc_ver_init := push_bit 8 NVRAM_VERSION\<rparr>;
     init \<leftarrow> nvram_get h (Some (cstr ''sdram_init''));
     config \<leftarrow> nvram_get h (Some (cstr ''sdram_config''));
     refresh \<leftarrow> nvram_get h (Some (cstr ''sdram_refresh''));
     ncdl \<leftarrow> nvram_get h (Some (cstr ''sdram_ncdl''));
     (case (init, config, refresh, ncdl) of
        (Some init, Some config, Some refresh, Some ncdl) \<Rightarrow>
          Some (g\<lparr>crc_ver_init := crc_ver_init g OR push_bit 16 (strtoul init AND 0xFFFF),
                  config_refresh := (strtoul config AND 0xFFFF) OR
                                    push_bit 16 (strtoul refresh AND 0xFFFF),
                  config_ncdl := strtoul ncdl\<rparr>)
      | _ \<Rightarrow>
          Some (g\<lparr>crc_ver_init := crc_ver_init g OR push_bit 16 SDRAM_INIT,
                  config_refresh := SDRAM_CONFIG OR push_bit 16 SDRAM_REFRESH,
                  config_ncdl := 0\<rparr>))
   }"

text \<open>
  Writing the tuples of a chain: \<open>m\<close> is the mapping, \<open>ptr\<close> and \<open>lim\<close> offsets in it. The first
  tuple that does not fit ends the chain, not the whole loop. A tuple without a value makes
  the code read through \<open>NULL\<close>.
\<close>

fun commit_chain :: "nat \<Rightarrow> nvram_tuple list \<Rightarrow> u8 list \<Rightarrow> nat \<Rightarrow> (u8 list \<times> nat) option" where
  "commit_chain lim [] m ptr = Some (m, ptr)"
| "commit_chain lim (t # ts) m ptr =
     (case tvalue t of
        None \<Rightarrow> None
      | Some v \<Rightarrow>
          if ptr + length (tname t) + 1 + length v + 1 > lim then Some (m, ptr)
          else do {
            m \<leftarrow> buf_put m ptr (tname t @ [0x3D] @ v @ [0]);
            commit_chain lim ts m (ptr + length (tname t) + 1 + length v + 1)
          })"

fun commit_tuples ::
  "nat \<Rightarrow> nvram_tuple list list \<Rightarrow> u8 list \<Rightarrow> nat \<Rightarrow> (u8 list \<times> nat) option" where
  "commit_tuples lim [] m ptr = Some (m, ptr)"
| "commit_tuples lim (c # cs) m ptr = do {
     (m, ptr) \<leftarrow> commit_chain lim c m ptr;
     commit_tuples lim cs m ptr
   }"

text \<open>
  \<open>4 - ((int)ptr % 4)\<close>, the number of zero bytes, for the address \<open>p\<close>: the remainder of a
  negative \<open>int\<close> is negative or zero, so an address above \<open>2 ^ 31\<close> pads more bytes.
\<close>

definition commit_pad :: "u32 \<Rightarrow> nat" where
  "commit_pad p =
     (let r = (if sint p < 0 then - ((- sint p) mod 4) else sint p mod 4)
      in if r = 0 then 0 else nat (4 - r))"

definition nvram_commit :: "nvram_handle \<Rightarrow> (int \<times> nvram_handle) option" where
  "nvram_commit h = do {
     g \<leftarrow> nvram_header h;
     g \<leftarrow> commit_header h g;
     let off = unat (h_offset h);
     let size = unat (nvram_part_size h) - off;
     m \<leftarrow> buf_put (h_mmap h) off (nv_header_bytes g);
     m \<leftarrow> buf_put m (off + NVRAM_HEADER_SIZE) (replicate (size - NVRAM_HEADER_SIZE) 0xFF);
     (m, ptr) \<leftarrow> commit_tuples (off + size - 2) (nvram_hash h) m (off + NVRAM_HEADER_SIZE);
     m \<leftarrow> buf_put m ptr [0];
     m \<leftarrow> buf_put m (ptr + 1) (replicate (commit_pad (h_addr h + of_nat (ptr + 1))) 0);
     let g = g\<lparr>nh_len := of_nat ((ptr + 2 - off + 3) div 4 * 4)\<rparr>;
     let tmp = \<lparr>nh_magic = 0, nh_len = 0, crc_ver_init = crc_ver_init g,
                config_refresh = config_refresh g, config_ncdl = config_ncdl g\<rparr>;
     crc \<leftarrow> hndcrc8 (drop NVRAM_CRC_START_POSITION (nv_header_bytes tmp))
             (NVRAM_HEADER_SIZE - NVRAM_CRC_START_POSITION) 0xFF;
     crc \<leftarrow> hndcrc8 (drop (off + NVRAM_HEADER_SIZE) m) (unat (nh_len g - of_nat NVRAM_HEADER_SIZE)) crc;
     m \<leftarrow> buf_put m off (nv_header_bytes (g\<lparr>crc_ver_init := crc_ver_init g OR ucast crc\<rparr>));
     nvram_rehash (h\<lparr>h_mmap := m\<rparr>)
   }"

section \<open>Opening\<close>

text \<open>
  The search for the magic number, word by word; \<open>n\<close> is the last word looked at. A partition
  smaller than \<open>NVRAM_MIN_SPACE\<close> makes the bound wrap.
\<close>

function find_magic :: "u8 list \<Rightarrow> nat \<Rightarrow> nat \<Rightarrow> nat option option" where
  "find_magic m n i =
     (if i \<le> n then do {
        w \<leftarrow> buf_get m (4 * i) 4;
        if le_val w = NVRAM_MAGIC then Some (Some (4 * i)) else find_magic m n (i + 1)
      }
      else Some None)"
  by pat_completeness auto
termination
  by (relation "measure (\<lambda>(m, n, i). Suc n - i)") auto

declare find_magic.simps [simp del]

text \<open>
  \<open>nvram_open\<close> on the mapped contents of the file; \<open>part_size\<close> is \<open>nvram_part_size\<close>, \<open>addr\<close> the
  address of the mapping, \<open>alloc\<close> whether \<open>calloc\<close> succeeds. The result is \<^const>\<open>None\<close> inside
  for a \<open>NULL\<close> return.
\<close>

definition nvram_open ::
  "u8 list \<Rightarrow> u32 \<Rightarrow> u32 \<Rightarrow> (u8 \<Rightarrow> u32) \<Rightarrow> bool \<Rightarrow> bool \<Rightarrow> nvram_handle option option" where
  "nvram_open m part_size addr cv alloc rdonly = do {
     r \<leftarrow> find_magic m (unat ((part_size - NVRAM_MIN_SPACE) div 4)) 0;
     (case r of
        None \<Rightarrow> Some None
      | Some offset \<Rightarrow>
          if \<not> alloc then Some None
          else do {
            let h = \<lparr>h_mmap = m, h_length = part_size, h_offset = of_nat offset,
                     nvram_hash = replicate NVRAM_BUCKETS [], nvram_dead = [], char_val = cv,
                     h_addr = addr, nvram_part_size = part_size\<rparr>;
            g \<leftarrow> nvram_header h;
            if nh_magic g = NVRAM_MAGIC \<and> (rdonly \<or> nh_len g < h_length h - h_offset h)
            then do {
              (_, h) \<leftarrow> nvram_rehash h;
              Some (Some h)
            }
            else Some None
          })
   }"

end
