(* ===== verification/Nvram_Cli.thy ===== *)
theory Nvram_Cli
  imports Nvram_Commit
begin

text \<open>
  \<open>cli.c\<close> and the file operations of \<open>nvram.c\<close>: the staging file \<open>/tmp/.nvram\<close>, to which the
  partition is copied before the first change, and the command line.

  The world is a record of the two files, \<^const>\<open>None\<close> when absent; \<open>nvram_find_mtd\<close> finds the
  device and its size when there is one. Mapping a file shared makes the changes of the
  handle changes of the file. File operations on existing files and allocations succeed.
\<close>

record nvram_fs =
  fs_mtd :: "u8 list option"
  fs_staging :: "u8 list option"
  fs_part_size :: u32
  fs_addr :: u32
  fs_char_val :: "u8 \<Rightarrow> u32"

text \<open>\<open>write\<close> of a buffer at the start of a file that is not truncated.\<close>

definition write_front :: "u8 list \<Rightarrow> u8 list \<Rightarrow> u8 list" where
  "write_front file buf = buf @ drop (length buf) file"

definition nvram_to_staging :: "nvram_fs \<Rightarrow> int \<times> nvram_fs" where
  "nvram_to_staging w =
     (let n = unat (fs_part_size w) in
      case fs_mtd w of
        None \<Rightarrow> (- 1, w)
      | Some mtd \<Rightarrow>
          if n > 0 \<and> length mtd \<ge> n
          then (0, w\<lparr>fs_staging := Some (write_front
                 (case fs_staging w of None \<Rightarrow> [] | Some f \<Rightarrow> f) (take n mtd))\<rparr>)
          else (- 1, w))"

text \<open>\<open>unlink_ok\<close> is whether the staging file can be removed.\<close>

definition staging_to_nvram :: "bool \<Rightarrow> nvram_fs \<Rightarrow> int \<times> nvram_fs" where
  "staging_to_nvram unlink_ok w =
     (let n = unat (fs_part_size w) in
      case (fs_mtd w, fs_staging w) of
        (Some mtd, Some stg) \<Rightarrow>
          if n > 0 \<and> length stg \<ge> n
          then (let w = w\<lparr>fs_mtd := Some (write_front mtd (take n stg))\<rparr>
                in if unlink_ok then (0, w\<lparr>fs_staging := None\<rparr>) else (1, w))
          else (- 1, w)
      | _ \<Rightarrow> (- 1, w))"

text \<open>
  \<open>nvram_open\<close> of a file: the size of the partition is known once the device has been found.
\<close>

definition nvram_open_file ::
  "nvram_fs \<Rightarrow> u8 list \<Rightarrow> bool \<Rightarrow> nvram_handle option option" where
  "nvram_open_file w file rdonly =
     (if fs_mtd w = None \<or> fs_part_size w = 0 then Some None
      else nvram_open (take (unat (fs_part_size w)) file) (fs_part_size w) (fs_addr w)
             (fs_char_val w) True rdonly)"

definition nvram_open_rdonly :: "nvram_fs \<Rightarrow> nvram_handle option option" where
  "nvram_open_rdonly w =
     (case fs_staging w of
        Some f \<Rightarrow> nvram_open_file w f True
      | None \<Rightarrow>
          (case fs_mtd w of
             Some f \<Rightarrow> nvram_open_file w f True
           | None \<Rightarrow> Some None))"

definition nvram_open_staging :: "nvram_fs \<Rightarrow> (nvram_handle option \<times> nvram_fs) option" where
  "nvram_open_staging w = do {
     let (stat, w) = (if fs_staging w \<noteq> None then (0, w) else nvram_to_staging w);
     (case fs_staging w of
        Some f \<Rightarrow>
          if stat = 0 then do {
            h \<leftarrow> nvram_open_file w f False;
            Some (h, w)
          }
          else Some (None, w)
      | None \<Rightarrow> Some (None, w))
   }"

section \<open>The commands\<close>

text \<open>What a command prints; \<open>Info\<close> has the numbers of \<open>do_info\<close> in the order printed.\<close>

datatype cli_event = Line "u8 list" | Info "u32 list" | Usage | Needs_Arg "u8 list"
  | Unknown_Option "u8 list" | No_Nvram

fun show_lines :: "nvram_tuple list \<Rightarrow> cli_event list option" where
  "show_lines [] = Some []"
| "show_lines (t # ts) = do {
     v \<leftarrow> tvalue t;
     rest \<leftarrow> show_lines ts;
     Some (Line (tname t @ [0x3D] @ v) # rest)
   }"

definition do_show :: "nvram_handle \<Rightarrow> (int \<times> cli_event list) option" where
  "do_show h = do {
     let l = nvram_getall h (\<lambda>_ _. True);
     es \<leftarrow> show_lines l;
     Some (if l = [] then 1 else 0, es)
   }"

definition do_get :: "nvram_handle \<Rightarrow> u8 list \<Rightarrow> (int \<times> cli_event list) option" where
  "do_get h var = do {
     r \<leftarrow> nvram_get h (Some var);
     Some (case r of None \<Rightarrow> (1, []) | Some v \<Rightarrow> (0, [Line v]))
   }"

definition do_unset :: "nvram_handle \<Rightarrow> u8 list \<Rightarrow> (int \<times> nvram_handle) option" where
  "do_unset h var = nvram_unset h (Some var)"

definition do_set :: "nvram_handle \<Rightarrow> u8 list \<Rightarrow> (int \<times> nvram_handle) option" where
  "do_set h pair =
     (if 0x3D \<in> set pair
      then nvram_set h True (takeWhile (\<lambda>c. c \<noteq> 0x3D) pair) (tl (dropWhile (\<lambda>c. c \<noteq> 0x3D) pair))
      else Some (1, h))"

definition do_info :: "nvram_handle \<Rightarrow> (int \<times> cli_event list) option" where
  "do_info h = do {
     hdr \<leftarrow> nvram_header h;
     crc \<leftarrow> hndcrc8 (drop (unat (h_offset h) + NVRAM_CRC_START_POSITION) (h_mmap h))
             (unat (nh_len hdr - of_nat NVRAM_CRC_START_POSITION)) 0xFF;
     Some (0, [Info [nh_magic hdr, nh_len hdr, h_offset h, crc_ver_init hdr AND 0xFF, ucast crc,
       drop_bit 8 (crc_ver_init hdr) AND 0xFF, drop_bit 16 (crc_ver_init hdr) AND 0xFFFF,
       config_refresh hdr AND 0xFFFF, drop_bit 16 (config_refresh hdr) AND 0xFFFF,
       config_ncdl hdr, nh_len hdr, h_length h - h_offset h - nh_len hdr]])
   }"

text \<open>The loop over the arguments: the status, \<open>done\<close>, \<open>commit\<close>, the handle and the output.\<close>

fun cli_loop ::
  "u8 list list \<Rightarrow> int \<Rightarrow> nat \<Rightarrow> bool \<Rightarrow> nvram_handle \<Rightarrow> cli_event list \<Rightarrow>
   (int \<times> nat \<times> bool \<times> nvram_handle \<times> cli_event list) option" where
  "cli_loop [] stat dn commit h out = Some (stat, dn, commit, h, out)"
| "cli_loop (a # args) stat dn commit h out =
     (if a = cstr ''show'' then do {
        (stat, es) \<leftarrow> do_show h;
        cli_loop args stat (dn + 1) commit h (out @ es)
      }
      else if a = cstr ''info'' then do {
        (stat, es) \<leftarrow> do_info h;
        cli_loop args stat (dn + 1) commit h (out @ es)
      }
      else if a = cstr ''get'' \<or> a = cstr ''unset'' \<or> a = cstr ''set'' then
        (case args of
           [] \<Rightarrow> Some (stat, 0, commit, h, out @ [Needs_Arg a])
         | b # rest \<Rightarrow>
             if a = cstr ''get'' then do {
               (stat, es) \<leftarrow> do_get h b;
               cli_loop rest stat (dn + 1) commit h (out @ es)
             }
             else if a = cstr ''unset'' then do {
               (stat, h) \<leftarrow> do_unset h b;
               cli_loop rest stat (dn + 1) commit h out
             }
             else do {
               (stat, h) \<leftarrow> do_set h b;
               cli_loop rest stat (dn + 1) commit h out
             })
      else if a = cstr ''commit'' then cli_loop args stat (dn + 1) True h out
      else Some (stat, 0, commit, h, out @ [Unknown_Option a]))"

text \<open>Whether the first argument makes the run a writing one.\<close>

definition cli_writes :: "u8 list list \<Rightarrow> bool" where
  "cli_writes args \<longleftrightarrow>
     (case args of
        [] \<Rightarrow> False
      | a # rest \<Rightarrow> (a = cstr ''set'' \<or> a = cstr ''unset'') \<and> rest \<noteq> [] \<or> a = cstr ''commit'')"

text \<open>
  \<open>main\<close> with the arguments after the program name: the exit status, the output and the files.
\<close>

definition cli_main ::
  "bool \<Rightarrow> u8 list list \<Rightarrow> nvram_fs \<Rightarrow> (int \<times> cli_event list \<times> nvram_fs) option" where
  "cli_main unlink_ok args w =
     (if args = [] then Some (1, [Usage], w)
      else do {
        let wr = cli_writes args;
        (nvram, w) \<leftarrow> (if wr then nvram_open_staging w
                      else do { h \<leftarrow> nvram_open_rdonly w; Some (h, w) });
        (case nvram of
           None \<Rightarrow> Some (1, [No_Nvram], w)
         | Some h \<Rightarrow> do {
             (stat, dn, commit, h, out) \<leftarrow> cli_loop args 1 0 False h [];
             (stat, w) \<leftarrow>
               (if wr then do {
                  (stat, h) \<leftarrow> nvram_commit h;
                  Some (stat, w\<lparr>fs_staging := map_option (\<lambda>f. write_front f (h_mmap h)) (fs_staging w)\<rparr>)
                } else Some (stat, w));
             let (stat, w) = (if commit then staging_to_nvram unlink_ok w else (stat, w));
             if dn = 0 then Some (1, out @ [Usage], w) else Some (stat, out, w)
           })
      })"

end
