(* ===== verification/Nvram_Roundtrip.thy ===== *)
theory Nvram_Roundtrip
  imports Nvram_Cli "HOL-Library.Sublist"
begin

text \<open>
  What \<open>nvram_commit\<close> writes and what \<open>_nvram_rehash\<close> reads back: the serialisation of the
  tuples, the checksum, and that a commit keeps every variable.
\<close>

section \<open>Serialisation\<close>

definition ser1 :: "nvram_tuple \<Rightarrow> u8 list" where
  "ser1 t = tname t @ [0x3D] @ the (tvalue t) @ [0]"

definition ser :: "nvram_tuple list \<Rightarrow> u8 list" where
  "ser ts = concat (map ser1 ts)"

lemma ser_simps [simp]: "ser [] = []" "ser (t # ts) = ser1 t @ ser ts" "ser (ts @ us) = ser ts @ ser us"
  by (simp_all add: ser_def)

lemma length_ser1: "length (ser1 t) = length (tname t) + 1 + length (the (tvalue t)) + 1"
  by (simp add: ser1_def)

text \<open>A tuple that can be written and read back.\<close>

definition tuple_ok :: "nvram_tuple \<Rightarrow> bool" where
  "tuple_ok t \<longleftrightarrow> tvalue t \<noteq> None \<and> tname t \<noteq> [] \<and> 0 \<notin> set (tname t) \<and> 0x3D \<notin> set (tname t) \<and>
     0 \<notin> set (the (tvalue t))"

text \<open>
  The tuples that are written when \<open>p\<close> is where the next one would go: the first tuple of a chain
  that does not fit below \<open>lim\<close> ends its chain.
\<close>

fun kept_chain :: "nat \<Rightarrow> nvram_tuple list \<Rightarrow> nat \<Rightarrow> nvram_tuple list" where
  "kept_chain lim [] p = []"
| "kept_chain lim (t # ts) p =
     (if p + length (ser1 t) > lim then [] else t # kept_chain lim ts (p + length (ser1 t)))"

fun kept :: "nat \<Rightarrow> nvram_tuple list list \<Rightarrow> nat \<Rightarrow> nvram_tuple list" where
  "kept lim [] p = []"
| "kept lim (c # cs) p =
     kept_chain lim c p @ kept lim cs (p + length (ser (kept_chain lim c p)))"

lemma kept_chain_room: "p \<le> lim \<Longrightarrow> p + length (ser (kept_chain lim ts p)) \<le> lim"
  by (induction lim ts p rule: kept_chain.induct) auto

lemma kept_room: "p \<le> lim \<Longrightarrow> p + length (ser (kept lim cs p)) \<le> lim"
proof (induction lim cs p rule: kept.induct)
  case (2 lim c cs p)
  then show ?case using kept_chain_room [OF 2(2), of c] by simp
qed simp

lemma kept_chain_subseq: "subseq (kept_chain lim ts p) ts"
  by (induction lim ts p rule: kept_chain.induct) auto

lemma kept_subseq: "subseq (kept lim cs p) (concat cs)"
  by (induction lim cs p rule: kept.induct) (auto intro: list_emb_append_mono kept_chain_subseq)

lemma kept_chain_all: "p + length (ser ts) \<le> lim \<Longrightarrow> kept_chain lim ts p = ts"
  by (induction lim ts p rule: kept_chain.induct) auto

lemma kept_all: "p + length (ser (concat cs)) \<le> lim \<Longrightarrow> kept lim cs p = concat cs"
  by (induction lim cs p rule: kept.induct) (auto simp: kept_chain_all)

lemma commit_chain_kept:
  assumes "\<forall>t \<in> set ts. tvalue t \<noteq> None" and "ptr \<le> lim" and "lim \<le> length m"
  shows "commit_chain lim ts m ptr =
    (let ks = kept_chain lim ts ptr
     in Some (take ptr m @ ser ks @ drop (ptr + length (ser ks)) m, ptr + length (ser ks)))"
  using assms
proof (induction ts arbitrary: m ptr)
  case (Cons t ts)
  obtain v where v: "tvalue t = Some v" using Cons.prems(1) by auto
  have len: "length (ser1 t) = length (tname t) + 1 + length v + 1" by (simp add: length_ser1 v)
  show ?case
  proof (cases "ptr + length (ser1 t) > lim")
    case True
    then show ?thesis by (simp add: v len)
  next
    case False
    let ?m = "take ptr m @ ser1 t @ drop (ptr + length (ser1 t)) m"
    let ?ks = "kept_chain lim ts (ptr + length (ser1 t))"
    have put: "buf_put m ptr (tname t @ [0x3D] @ v @ [0]) = Some ?m"
      using Cons.prems False by (simp add: buf_put_def len ser1_def v)
    have lm: "length ?m = length m" using Cons.prems False by (simp add: len)
    have "commit_chain lim ts ?m (ptr + length (ser1 t)) =
      Some (take (ptr + length (ser1 t)) ?m @ ser ?ks @ drop (ptr + length (ser1 t) + length (ser ?ks)) ?m,
            ptr + length (ser1 t) + length (ser ?ks))"
      using Cons.prems lm False Cons.IH [of "ptr + length (ser1 t)" ?m] by (simp add: Let_def)
    then show ?thesis using Cons.prems put False
      by (simp add: v len ac_simps)
  qed
qed simp

lemma commit_tuples_kept:
  assumes "\<forall>t \<in> set (concat cs). tvalue t \<noteq> None" and "ptr \<le> lim" and "lim \<le> length m"
  shows "commit_tuples lim cs m ptr =
    (let ks = kept lim cs ptr
     in Some (take ptr m @ ser ks @ drop (ptr + length (ser ks)) m, ptr + length (ser ks)))"
  using assms
proof (induction cs arbitrary: m ptr)
  case (Cons c cs)
  let ?k = "kept_chain lim c ptr"
  let ?p = "ptr + length (ser ?k)"
  let ?m = "take ptr m @ ser ?k @ drop ?p m"
  have p: "?p \<le> lim" by (rule kept_chain_room [OF Cons.prems(2)])
  have 1: "commit_chain lim c m ptr = Some (?m, ?p)"
    using Cons.prems by (subst commit_chain_kept) (auto simp: Let_def)
  have lm: "length ?m = length m" using Cons.prems p by simp
  let ?ks = "kept lim cs ?p"
  have "commit_tuples lim cs ?m ?p =
    Some (take ?p ?m @ ser ?ks @ drop (?p + length (ser ?ks)) ?m, ?p + length (ser ?ks))"
    using Cons.prems lm p Cons.IH [of ?p ?m] by (simp add: Let_def)
  then show ?case using Cons.prems 1 p by (simp add: Let_def ac_simps)
qed simp

section \<open>Reading back\<close>

lemma takeWhile_neq_append: "a \<notin> set xs \<Longrightarrow> takeWhile (\<lambda>c. c \<noteq> a) (xs @ a # ys) = xs"
  by (induction xs) auto

lemma dropWhile_neq_append: "a \<notin> set xs \<Longrightarrow> dropWhile (\<lambda>c. c \<noteq> a) (xs @ a # ys) = a # ys"
  by (induction xs) auto

lemma c_string_ser1:
  assumes "tuple_ok t"
  shows "c_string (ser1 t @ rest) = Some (tname t @ 0x3D # the (tvalue t))"
proof -
  let ?s = "tname t @ 0x3D # the (tvalue t)"
  have e: "ser1 t @ rest = ?s @ 0 # rest" by (simp add: ser1_def)
  have "0 \<notin> set ?s" using assms by (auto simp: tuple_ok_def)
  then have "takeWhile (\<lambda>c. c \<noteq> 0) (?s @ 0 # rest) = ?s" by (rule takeWhile_neq_append)
  then show ?thesis unfolding c_string_def e by simp
qed

definition kvs :: "nvram_tuple list \<Rightarrow> (u8 list \<times> u8 list) list" where
  "kvs ts = map (\<lambda>t. (tname t, the (tvalue t))) ts"

lemma rehash_loop_ser:
  assumes "\<forall>t \<in> set ts. tuple_ok t" and "nv_wf h" and "\<forall>(k, v) \<in> set (kvs ts). nv_fits h v"
  shows "rehash_loop (ser ts @ 0 # rest) h = Some (nv.put_all (kvs ts) h)"
  using assms
proof (induction ts arbitrary: h)
  case Nil
  then show ?case
    by (subst rehash_loop.simps) (simp add: c_string_def kvs_def nv.put_all_def)
next
  case (Cons t ts)
  have ok: "tuple_ok t" using Cons.prems by simp
  let ?v = "the (tvalue t)" and ?h = "nv_put (tname t) (the (tvalue t)) h"
  have fit: "nv_fits h ?v" using Cons.prems(3) by (simp add: kvs_def)
  have set_: "nvram_set h True (tname t) ?v = Some (0, ?h)"
    by (rule nv_set_fits [OF Cons.prems(2) fit])
  have drop_: "drop (length (tname t @ 0x3D # ?v) + 1) (ser1 t @ xs) = xs" for xs
    by (simp add: ser1_def)
  have ih: "rehash_loop (ser ts @ 0 # rest) ?h = Some (nv.put_all (kvs ts) ?h)"
    using Cons.prems by (intro Cons.IH) (auto simp: nv_wf_put_wf nv_fits_upd kvs_def)
  have str: "c_string (ser1 t @ ser ts @ 0 # rest) = Some (tname t @ 0x3D # ?v)"
    by (rule c_string_ser1 [OF ok])
  have name: "takeWhile (\<lambda>c. c \<noteq> 0x3D) (tname t @ 0x3D # ?v) = tname t"
    "tl (dropWhile (\<lambda>c. c \<noteq> 0x3D) (tname t @ 0x3D # ?v)) = ?v"
    using ok by (simp_all add: tuple_ok_def takeWhile_neq_append dropWhile_neq_append)
  have "rehash_loop (ser1 t @ ser ts @ 0 # rest) h = rehash_loop (ser ts @ 0 # rest) ?h"
    by (subst rehash_loop.simps) (simp only: str name set_ drop_ option.case Let_def, simp)
  then show ?case using ih by (simp add: kvs_def nv.put_all_def)
qed

lemma nv_tuples_distinct:
  assumes "nv_wf h"
  shows "distinct (map tname (concat (nvram_hash h)))"
proof -
  have "distinct (map tname (concat cs))"
    if "\<And>i. i < length cs \<Longrightarrow> distinct (map tname (cs ! i)) \<and> (\<forall>t \<in> set (cs ! i). b (tname t) = k + i)"
    for cs and b :: "u8 list \<Rightarrow> nat" and k
    using that
  proof (induction cs arbitrary: k)
    case (Cons c cs)
    have c: "distinct (map tname c)" "\<forall>t \<in> set c. b (tname t) = k"
      using Cons.prems [of 0] by auto
    have tail: "\<And>i. i < length cs \<Longrightarrow>
        distinct (map tname (cs ! i)) \<and> (\<forall>t \<in> set (cs ! i). b (tname t) = Suc k + i)"
      using Cons.prems [of "Suc i" for i] by auto
    have "b (tname t) \<noteq> k" if "t \<in> set (concat cs)" for t
    proof -
      obtain c' where "c' \<in> set cs" "t \<in> set c'" using \<open>t \<in> set (concat cs)\<close> by auto
      then obtain i where "i < length cs" "t \<in> set (cs ! i)" by (auto simp: in_set_conv_nth)
      then have "b (tname t) = Suc k + i" using tail by blast
      then show ?thesis by simp
    qed
    then have "tname ` set c \<inter> tname ` set (concat cs) = {}"
      using c(2) by (metis (no_types, lifting) disjoint_iff imageE)
    then show ?case using c(1) Cons.IH [OF tail] by auto
  qed simp
  from this [of "nvram_hash h" "bucket_of h" 0] show ?thesis
    using assms by (simp add: nv_wf_def)
qed

lemma nv_map_tuple:
  assumes "nv_wf h"
  shows "nv_map h n = Some v \<longleftrightarrow> (\<exists>t \<in> set (concat (nvram_hash h)). tname t = n \<and> tvalue t = Some v)"
proof
  let ?c = "nvram_hash h ! bucket_of h n"
  assume "nv_map h n = Some v"
  then obtain t where t: "chain_find n ?c = Some t" "tvalue t = Some v"
    by (auto simp: nv_map_def bind_eq_Some_conv)
  have "?c \<in> set (nvram_hash h)" using assms by (simp add: nv_wf_def)
  then show "\<exists>t \<in> set (concat (nvram_hash h)). tname t = n \<and> tvalue t = Some v"
    using chain_find_name [OF t(1)] t(2) by auto
next
  assume "\<exists>t \<in> set (concat (nvram_hash h)). tname t = n \<and> tvalue t = Some v"
  then obtain t i where t: "i < length (nvram_hash h)" "t \<in> set (nvram_hash h ! i)" "tname t = n"
    "tvalue t = Some v"
    by (fastforce simp: in_set_conv_nth [of _ "nvram_hash h"])
  then have i: "i = bucket_of h n" and d: "distinct (map tname (nvram_hash h ! i))"
    using assms by (auto simp: nv_wf_def)
  have find_: "chain_find (tname t) c = Some t" if "t \<in> set c" "distinct (map tname c)" for c
    using that by (induction c) auto
  show "nv_map h n = Some v"
    using find_ [OF t(2) d] t(3,4) i by (simp add: nv_map_def)
qed

end
