(* ===== verification/Nvram_Persist.thy ===== *)
theory Nvram_Persist
  imports Nvram_Roundtrip
begin

text \<open>
  The whole commit: what \<open>nvram_commit\<close> leaves in the mapping (header, checksum and tuples), what
  \<open>_nvram_rehash\<close> makes of such a mapping, and so that a commit keeps every variable and that a
  program that opens the partition afterwards finds them.
\<close>

section \<open>Reading a partition\<close>

text \<open>The handle differs in its table only.\<close>

definition same_part :: "nvram_handle \<Rightarrow> nvram_handle \<Rightarrow> bool" where
  "same_part h h' \<longleftrightarrow> (\<exists>c d. h' = h\<lparr>nvram_hash := c, nvram_dead := d\<rparr>)"

lemma same_part_fields:
  "same_part h h' \<Longrightarrow> h_mmap h' = h_mmap h \<and> h_offset h' = h_offset h \<and> h_length h' = h_length h \<and>
     h_addr h' = h_addr h \<and> nvram_part_size h' = nvram_part_size h"
  by (auto simp: same_part_def)

lemma same_part_trans [trans]: "same_part h h1 \<Longrightarrow> same_part h1 h2 \<Longrightarrow> same_part h h2"
  by (clarsimp simp: same_part_def) blast

lemma same_part_refl [simp]: "same_part h h"
  unfolding same_part_def by (rule exI [of _ "nvram_hash h"], rule exI [of _ "nvram_dead h"]) simp

lemma same_part_put: "same_part h (nv_put n v h)"
  unfolding same_part_def nv_put_def by (intro exI [of _ "nvram_dead h"] exI) simp

lemma same_part_free: "same_part h (nvram_free h)"
  unfolding same_part_def nvram_free_def by (intro exI) simp

lemma same_part_put_all: "same_part h (nv.put_all ts h)"
proof (induction ts arbitrary: h)
  case (Cons t ts)
  obtain k v where t: "t = (k, v)" by (cases t)
  show ?case using same_part_trans [OF same_part_put Cons.IH, of h k v]
    by (simp add: nv.put_all_def t)
qed (simp add: nv.put_all_def)

definition sdram_names :: "u8 list list" where
  "sdram_names = [cstr ''sdram_init'', cstr ''sdram_config'', cstr ''sdram_refresh'', cstr ''sdram_ncdl'']"

text \<open>The map with a value for a name that has none.\<close>

definition with_default :: "'k \<Rightarrow> 'v \<Rightarrow> ('k \<rightharpoonup> 'v) \<Rightarrow> ('k \<rightharpoonup> 'v)" where
  "with_default n v m = (if m n = None then m(n \<mapsto> v) else m)"

lemma set_missing_spec:
  assumes "nv_wf h" and "nv_fits h v"
  obtains h' where "set_missing n v h = Some h'" "nv_wf h'" "\<And>w. nv_fits h' w = nv_fits h w"
    "nv_map h' = with_default n v (nv_map h)" "same_part h h'"
proof (cases "nv_map h n")
  case None
  with assms have "set_missing n v h = Some (nv_put n v h)"
    by (simp add: set_missing_def nv_get nv_set_fits)
  moreover have "nv_map (nv_put n v h) = with_default n v (nv_map h)"
    using None assms(1) by (auto simp: nv_get_put with_default_def)
  ultimately show ?thesis using assms
    by (intro that [of "nv_put n v h"]) (auto simp: nv_wf_put_wf nv_fits_upd same_part_put)
next
  case (Some x)
  with assms have "set_missing n v h = Some h" by (simp add: set_missing_def nv_get)
  with assms Some show ?thesis by (intro that [of h]) (auto simp: with_default_def)
qed

text \<open>The four \<open>sdram_\<close> variables, each added when it is missing.\<close>

definition with_sdram :: "u32 \<Rightarrow> u32 \<Rightarrow> u32 \<Rightarrow> u32 \<Rightarrow> (u8 list \<rightharpoonup> u8 list) \<Rightarrow> (u8 list \<rightharpoonup> u8 list)" where
  "with_sdram a b c d m =
     with_default (cstr ''sdram_ncdl'') (fmt_hex 8 d)
       (with_default (cstr ''sdram_refresh'') (fmt_hex 4 c)
         (with_default (cstr ''sdram_config'') (fmt_hex 4 b)
           (with_default (cstr ''sdram_init'') (fmt_hex 4 a) m)))"

lemma with_sdram_other: "n \<notin> set sdram_names \<or> m n \<noteq> None \<Longrightarrow> with_sdram a b c d m n = m n"
  by (auto simp: with_sdram_def with_default_def sdram_names_def)

lemma with_sdram_new:
  assumes "\<forall>n \<in> set sdram_names. m n = None"
  shows "map (with_sdram a b c d m) sdram_names = map Some [fmt_hex 4 a, fmt_hex 4 b, fmt_hex 4 c, fmt_hex 8 d]"
  using assms by (simp add: with_sdram_def with_default_def sdram_names_def cstr_def)

lemma set_missing_all:
  assumes wf: "nv_wf h" and fit: "\<And>n w. n \<le> 8 \<Longrightarrow> nv_fits h (fmt_hex n w)"
  obtains h4 where "(do {
       h \<leftarrow> set_missing (cstr ''sdram_init'') (fmt_hex 4 a) h;
       h \<leftarrow> set_missing (cstr ''sdram_config'') (fmt_hex 4 b) h;
       h \<leftarrow> set_missing (cstr ''sdram_refresh'') (fmt_hex 4 c) h;
       set_missing (cstr ''sdram_ncdl'') (fmt_hex 8 d) h }) = Some h4"
    "nv_wf h4" "same_part h h4" "nv_map h4 = with_sdram a b c d (nv_map h)"
proof -
  have step: "\<exists>h'. set_missing n v h = Some h' \<and> nv_wf h' \<and> (\<forall>w. nv_fits h' w = nv_fits h w) \<and>
      nv_map h' = with_default n v (nv_map h) \<and> same_part h h'" if "nv_wf h" "nv_fits h v" for n v h
    by (rule set_missing_spec [OF that]) blast
  obtain h1 where h1: "set_missing (cstr ''sdram_init'') (fmt_hex 4 a) h = Some h1" "nv_wf h1"
    "\<forall>w. nv_fits h1 w = nv_fits h w" "nv_map h1 = with_default (cstr ''sdram_init'') (fmt_hex 4 a) (nv_map h)"
    "same_part h h1"
    using step [OF wf fit [of 4 a]] by auto
  obtain h2 where h2: "set_missing (cstr ''sdram_config'') (fmt_hex 4 b) h1 = Some h2" "nv_wf h2"
    "\<forall>w. nv_fits h2 w = nv_fits h w" "nv_map h2 = with_default (cstr ''sdram_config'') (fmt_hex 4 b) (nv_map h1)"
    "same_part h h2"
    using step [OF h1(2), of "fmt_hex 4 b"] fit [of 4 b] h1(3,5) same_part_trans by auto blast
  obtain h3 where h3: "set_missing (cstr ''sdram_refresh'') (fmt_hex 4 c) h2 = Some h3" "nv_wf h3"
    "\<forall>w. nv_fits h3 w = nv_fits h w" "nv_map h3 = with_default (cstr ''sdram_refresh'') (fmt_hex 4 c) (nv_map h2)"
    "same_part h h3"
    using step [OF h2(2), of "fmt_hex 4 c"] fit [of 4 c] h2(3,5) same_part_trans by auto blast
  obtain h4 where h4: "set_missing (cstr ''sdram_ncdl'') (fmt_hex 8 d) h3 = Some h4" "nv_wf h4"
    "nv_map h4 = with_default (cstr ''sdram_ncdl'') (fmt_hex 8 d) (nv_map h3)" "same_part h h4"
    using step [OF h3(2), of "fmt_hex 8 d"] fit [of 8 d] h3(3,5) same_part_trans by auto blast
  have "nv_map h4 = with_sdram a b c d (nv_map h)"
    by (simp add: with_sdram_def h4(3) h3(4) h2(4) h1(4))
  then show thesis using h1(1) h2(1) h3(1) h4 by (intro that [of h4]) simp_all
qed

lemma free_wf: "nv_wf h \<Longrightarrow> nv_wf (nvram_free h)"
  by (auto simp: nv_wf_def nvram_free_def)

lemma free_map: "nv_wf h \<Longrightarrow> nv_map (nvram_free h) n = None"
  by (auto simp: nv_wf_def nv_map_def nvram_free_def bucket_of_def)

lemma free_fields [simp]:
  "h_offset (nvram_free h) = h_offset h" "h_mmap (nvram_free h) = h_mmap h"
  "nv_room (nvram_free h) = nv_room h" "h_length (nvram_free h) = h_length h"
  by (simp_all add: nvram_free_def nv_room_def)

lemma length_fmt_hex [simp]: "length (fmt_hex n w) = n + 2"
  by (simp add: fmt_hex_def)

lemma kvs_small: "(k, v) \<in> set (kvs ts) \<Longrightarrow> length v < length (ser ts)"
proof (induction ts)
  case (Cons t ts)
  then show ?case by (auto simp: kvs_def ser1_def)
qed (simp add: kvs_def)

text \<open>
  A partition that holds the tuples \<open>ts\<close> is read into a table that maps their names to their
  values, and otherwise only the \<open>sdram_\<close> names.
\<close>

lemma rehash_spec:
  assumes wf: "nv_wf h" and hd: "buf_get (h_mmap h) (unat (h_offset h)) 20 \<noteq> None"
    and data: "drop (unat (h_offset h) + 20) (h_mmap h) = ser ts @ 0 # rest"
    and ok: "\<forall>t \<in> set ts. tuple_ok t" and dist: "distinct (map tname ts)"
    and room: "length (ser ts) + 22 \<le> nv_room h"
  obtains h' where "nvram_rehash h = Some (0, h')" "nv_wf h'" "same_part h h'"
    "\<And>g. nvram_header h = Some g \<Longrightarrow> nv_map h' = with_sdram (drop_bit 16 (crc_ver_init g))
       (config_refresh g AND 0xFFFF) (drop_bit 16 (config_refresh g) AND 0xFFFF) (config_ncdl g)
       (map_of (kvs ts))"
    "\<And>n. n \<notin> set sdram_names \<or> map_of (kvs ts) n \<noteq> None \<Longrightarrow> nv_map h' n = map_of (kvs ts) n"
proof -
  let ?h0 = "nvram_free h" and ?h1 = "nv.put_all (kvs ts) (nvram_free h)"
  have wf0: "nv_wf ?h0" by (rule free_wf [OF wf])
  have fits: "\<forall>(k, v) \<in> set (kvs ts). nv_fits ?h0 v"
    using room by (auto simp: nv_fits_def dest: kvs_small)
  have loop: "rehash_loop (ser ts @ 0 # rest) ?h0 = Some ?h1"
    by (rule rehash_loop_ser [OF ok wf0 fits])
  have wf1: "nv_wf ?h1" and fits1: "\<And>w. nv_fits ?h1 w = nv_fits ?h0 w"
    using nv.put_all_inv [OF wf0 fits] by auto
  have d: "distinct (map fst (kvs ts))" using dist by (simp add: kvs_def comp_def)
  have "map_of (rev (kvs ts)) = map_of (kvs ts)"
    by (rule map_of_inject_set [THEN iffD2]) (use d in \<open>simp_all flip: rev_map\<close>)
  note rev_kvs = this
  have map1: "nv_map ?h1 = map_of (kvs ts)"
  proof
    fix n
    show "nv_map ?h1 n = map_of (kvs ts) n" using rev_kvs nv.get_put_all [OF wf0 fits, of n] by (auto simp: free_map [OF wf] split: option.splits)
  qed
  have fmt: "n \<le> 8 \<Longrightarrow> nv_fits ?h1 (fmt_hex n w)" for n w
    unfolding fits1 using room by (simp add: nv_fits_def)
  obtain g where g: "nvram_header h = Some g" using hd by (auto simp: nvram_header_def)
  obtain h4 where h4: "(do {
       h \<leftarrow> set_missing (cstr ''sdram_init'') (fmt_hex 4 (drop_bit 16 (crc_ver_init g))) ?h1;
       h \<leftarrow> set_missing (cstr ''sdram_config'') (fmt_hex 4 (config_refresh g AND 0xFFFF)) h;
       h \<leftarrow> set_missing (cstr ''sdram_refresh'') (fmt_hex 4 (drop_bit 16 (config_refresh g) AND 0xFFFF)) h;
       set_missing (cstr ''sdram_ncdl'') (fmt_hex 8 (config_ncdl g)) h }) = Some h4"
    "nv_wf h4" "same_part ?h1 h4"
    "nv_map h4 = with_sdram (drop_bit 16 (crc_ver_init g)) (config_refresh g AND 0xFFFF)
       (drop_bit 16 (config_refresh g) AND 0xFFFF) (config_ncdl g) (nv_map ?h1)"
    by (rule set_missing_all [OF wf1 fmt]) (assumption, rule that)
  have "nvram_rehash h = Some (0, h4)"
    using h4(1) by (auto simp: nvram_rehash_def g data loop Let_def bind_eq_Some_conv)
  moreover have "same_part h h4"
    using same_part_trans [OF same_part_trans [OF same_part_free same_part_put_all] h4(3)] .
  ultimately show thesis using h4(2,4) by (intro that [of h4]) (simp_all add: map1 g with_sdram_other)
qed

section \<open>The mapping after a commit\<close>

lemma length_nv_header_bytes [simp]: "length (nv_header_bytes g) = 20"
  by (simp add: nv_header_bytes_def)

lemma nv_header_of_bytes: "nv_header_of (nv_header_bytes g) = g"
  by (simp add: nv_header_of_def nv_header_bytes_def)

definition nv_tuples :: "nvram_handle \<Rightarrow> nvram_tuple list" where
  "nv_tuples h = concat (nvram_hash h)"

text \<open>The tuples that a commit writes: those that fit the partition.\<close>

definition kept_tuples :: "nvram_handle \<Rightarrow> nvram_tuple list" where
  "kept_tuples h = kept (unat (nvram_part_size h) - 2) (nvram_hash h) (unat (h_offset h) + 20)"

text \<open>
  A handle that can be committed: the table is consistent, every variable has a name and a value
  without the bytes that separate them, the mapping covers the partition, is word-aligned and
  lies below \<open>2 ^ 31\<close>.
\<close>

definition nv_ready :: "nvram_handle \<Rightarrow> bool" where
  "nv_ready h \<longleftrightarrow> nv_wf h \<and> (\<forall>t \<in> set (nv_tuples h). tuple_ok t) \<and>
     length (h_mmap h) = unat (nvram_part_size h) \<and> h_length h = nvram_part_size h \<and>
     unat (h_offset h) + 22 \<le> unat (nvram_part_size h) \<and>
     4 dvd unat (nvram_part_size h) \<and> 4 dvd unat (h_offset h) \<and> 4 dvd unat (h_addr h) \<and>
     unat (h_addr h) + unat (nvram_part_size h) \<le> 2 ^ 31"

lemma kept_tuples_room:
  assumes "nv_ready h"
  shows "unat (h_offset h) + 22 + length (ser (kept_tuples h)) \<le> unat (nvram_part_size h)"
proof -
  have fit: "unat (h_offset h) + 22 \<le> unat (nvram_part_size h)" using assms by (simp add: nv_ready_def)
  then have "unat (h_offset h) + 20 \<le> unat (nvram_part_size h) - 2" by linarith
  from kept_room [OF this, of "nvram_hash h"] fit show ?thesis
    unfolding kept_tuples_def by linarith
qed

lemma kept_tuples_subseq: "subseq (kept_tuples h) (nv_tuples h)"
  unfolding kept_tuples_def nv_tuples_def by (rule kept_subseq)

lemma kept_tuples_ok: "nv_ready h \<Longrightarrow> \<forall>t \<in> set (kept_tuples h). tuple_ok t"
  using kept_tuples_subseq [of h] by (auto simp: nv_ready_def dest: list_emb_set)

lemma kept_tuples_distinct:
  assumes "nv_wf h"
  shows "distinct (map tname (kept_tuples h))"
proof -
  have "subseq (map tname (kept_tuples h)) (map tname (nv_tuples h))"
    by (rule subseq_map [OF kept_tuples_subseq])
  then obtain I where "map tname (kept_tuples h) = nths (map tname (nv_tuples h)) I"
    by (auto simp: subseq_conv_nths)
  then show ?thesis using nv_tuples_distinct [OF assms] by (simp add: nv_tuples_def distinct_nthsI)
qed

lemma kept_tuples_all:
  "unat (h_offset h) + 22 + length (ser (nv_tuples h)) \<le> unat (nvram_part_size h) \<Longrightarrow>
   kept_tuples h = nv_tuples h"
  unfolding kept_tuples_def nv_tuples_def by (rule kept_all) simp

lemma commit_header_Some: "nv_wf h \<Longrightarrow> \<exists>g'. commit_header h g = Some g'"
  by (auto simp: commit_header_def nv_get Let_def split: option.splits)

lemma pad_small:
  assumes "unat p < 2 ^ 31" and "4 dvd n" and "unat p \<le> n"
  shows "unat p + commit_pad p \<le> n"
proof -
  have s: "sint p = int (unat p)" using assms(1) by (simp add: sint_small)
  have r: "sint p mod 4 = int (unat p mod 4)" by (simp only: s zmod_int) simp
  have neg: "\<not> sint p < 0" using s by simp
  have "commit_pad p = (if unat p mod 4 = 0 then 0 else nat (4 - int (unat p mod 4)))"
    unfolding commit_pad_def Let_def if_not_P [OF neg] r by simp
  also have "nat (4 - int (unat p mod 4)) = 4 - unat p mod 4" by linarith
  finally have pad: "commit_pad p = (if unat p mod 4 = 0 then 0 else 4 - unat p mod 4)" .
  obtain k where k: "n = 4 * k" using assms(2) by auto
  define a b where "a = unat p div 4" and "b = unat p mod 4"
  have p: "unat p = 4 * a + b" and b: "b < 4" by (simp_all add: a_def b_def)
  show ?thesis
  proof (cases "b = 0")
    case True
    then show ?thesis using assms(3) pad by (simp add: b_def)
  next
    case False
    then have "a < k" using assms(3) p k by linarith
    then show ?thesis using False pad p b k by (simp add: b_def [symmetric])
  qed
qed


lemma drop_split:
  assumes "a \<le> b" and "b \<le> length m"
  shows "drop a m = drop a (take b m) @ drop b m"
proof -
  have "drop a (take b m @ drop b m) = drop a (take b m) @ drop (a - length (take b m)) (drop b m)"
    by (rule drop_append)
  then show ?thesis using assms by simp
qed

text \<open>The stored checksum is the one over the rest of the header and the data.\<close>

definition crc_valid :: "u8 list \<Rightarrow> nat \<Rightarrow> bool" where
  "crc_valid m off \<longleftrightarrow> (\<exists>hb c. buf_get m off 20 = Some hb \<and>
     hndcrc8 (drop (off + NVRAM_CRC_START_POSITION) m)
       (unat (nh_len (nv_header_of hb) - of_nat NVRAM_CRC_START_POSITION)) 0xFF = Some c \<and>
     crc_ver_init (nv_header_of hb) AND 0xFF = ucast c)"

lemma byte_mask: "(0xFF :: u32) = mask 8"
  by (simp add: mask_eq_exp_minus_1)

lemma commit_header_low:
  assumes "commit_header h g = Some g'"
  shows "crc_ver_init g' AND 0xFF = 0"
proof -
  have "(0x100 OR push_bit 16 w AND 0xFFFF0000 :: u32) AND 0xFF = 0" for w :: u32
  proof (rule bit_word_eqI)
    fix n assume "n < LENGTH(32)"
    have "\<not> (bit (0x100 :: u32) n \<and> n < 8)" by (auto simp: bit_simps numeral_eq_Suc less_Suc_eq)
    then show "bit ((0x100 OR push_bit 16 w AND 0xFFFF0000 :: u32) AND 0xFF) n = bit (0 :: u32) n"
      unfolding byte_mask by (auto simp: bit_simps)
  qed
  then show ?thesis
    using assms
    by (clarsimp simp: commit_header_def Let_def bind_eq_Some_conv) (auto split: option.split_asm)
qed

lemma low_byte_insert:
  assumes "w AND 0xFF = (0 :: u32)"
  shows "drop_bit 8 (w OR ucast (c :: u8)) = drop_bit 8 w" and "(w OR ucast c) AND 0xFF = ucast c"
proof -
  have w: "\<not> bit w n" if "n < 8" for n
  proof -
    have "bit (w AND mask 8) n = bit (0 :: u32) n" using assms by (simp only: byte_mask)
    then show ?thesis using that by (simp add: bit_simps)
  qed
  have c: "n < 8" if "bit c n" for n using bit_imp_le_length [OF that] by simp
  show "drop_bit 8 (w OR ucast c) = drop_bit 8 w"
    by (rule bit_word_eqI) (auto simp: bit_simps dest: c)
  show "(w OR ucast c) AND 0xFF = ucast c"
    unfolding byte_mask by (rule bit_word_eqI) (auto simp: bit_simps dest: w c)
qed

lemma header_tail:
  assumes "crc_ver_init g AND 0xFF = 0"
  shows "drop 9 (nv_header_bytes (g\<lparr>nh_len := n, crc_ver_init := crc_ver_init g OR ucast (c :: u8)\<rparr>)) =
    drop 9 (nv_header_bytes \<lparr>nh_magic = 0, nh_len = 0, crc_ver_init = crc_ver_init g,
      config_refresh = config_refresh g, config_ncdl = config_ncdl g\<rparr>)"
  using low_byte_insert(1) [OF assms, of c]
  by (simp add: nv_header_bytes_def numeral_eq_Suc)

definition commit_end :: "nvram_handle \<Rightarrow> nat" where
  "commit_end h = unat (h_offset h) + 20 + length (ser (kept_tuples h))"

lemma commit_pad_fits:
  assumes "nv_ready h"
  shows "commit_end h + 1 + commit_pad (h_addr h + of_nat (commit_end h + 1)) \<le> unat (nvram_part_size h)"
proof -
  let ?ptr = "commit_end h" and ?N = "unat (nvram_part_size h)"
  let ?p = "h_addr h + of_nat (?ptr + 1)"
  note r = assms [unfolded nv_ready_def]
  have room: "?ptr + 2 \<le> ?N" using kept_tuples_room [OF assms] by (simp add: commit_end_def)
  have "unat (of_nat (?ptr + 1) :: u32) = ?ptr + 1"
    using room unat32_bound [of "nvram_part_size h"] by (intro unat_of_nat32) simp
  moreover have "unat (h_addr h) + (?ptr + 1) < 2 ^ 31" using r room by linarith
  ultimately have p: "unat ?p = unat (h_addr h) + (?ptr + 1)"
    by (simp add: unat_word_ariths)
  have "unat ?p + commit_pad ?p \<le> unat (h_addr h) + ?N"
    by (rule pad_small) (use r p room in auto)
  then show ?thesis using p by simp
qed

text \<open>The length that the header records.\<close>

definition commit_len :: "nvram_handle \<Rightarrow> nat" where
  "commit_len h = (length (ser (kept_tuples h)) + 25) div 4 * 4"

lemma commit_len_eq: "(commit_end h + 2 - unat (h_offset h) + 3) div 4 * 4 = commit_len h"
  by (simp add: commit_end_def commit_len_def)

lemma commit_len_fits:
  assumes "nv_ready h" and "L = commit_len h"
  shows "24 \<le> L" and "L \<le> unat (nvram_part_size h) - unat (h_offset h)"
    and "unat (of_nat L :: u32) = L" and "unat (of_nat L - 20 :: u32) = L - 20"
    and "unat (of_nat L - of_nat 9 :: u32) = 11 + (L - 20)"
proof -
  let ?off = "unat (h_offset h)" and ?N = "unat (nvram_part_size h)" and ?S = "ser (kept_tuples h)"
  note r = assms(1) [unfolded nv_ready_def]
  have room: "?off + 22 + length ?S \<le> ?N" using kept_tuples_room [OF assms(1)] by simp
  have L: "L = (length ?S + 25) div 4 * 4" by (simp add: assms(2) commit_len_def)
  have "24 div 4 * 4 \<le> (length ?S + 25) div 4 * (4 :: nat)"
    by (intro mult_le_mono1 div_le_mono) simp
  then show lo: "24 \<le> L" by (simp add: L)
  obtain k where k: "?N - ?off = 4 * k" using r by (metis dvd_def dvd_diff_nat)
  then have "length ?S + 22 \<le> 4 * k" using room by linarith
  then have "(length ?S + 25) div 4 \<le> k" by presburger
  then show hi: "L \<le> ?N - ?off" by (simp add: L k)
  show u: "unat (of_nat L :: u32) = L"
    using hi unat32_bound [of "nvram_part_size h"] by (intro unat_of_nat32) simp
  then show "unat (of_nat L - 20 :: u32) = L - 20" and "unat (of_nat L - of_nat 9 :: u32) = 11 + (L - 20)"
    using lo by (simp_all add: unat_sub_le unat_le)
qed

text \<open>The buffers up to the padding: the tuples stand behind the header, closed by a zero byte.\<close>

lemma commit_data:
  assumes "nv_ready h"
  obtains hb g m1 m2 m3 m4 m5 rest where "buf_get (h_mmap h) (unat (h_offset h)) 20 = Some hb"
    "commit_header h (nv_header_of hb) = Some g"
    "buf_put (h_mmap h) (unat (h_offset h)) (nv_header_bytes g) = Some m1"
    "buf_put m1 (unat (h_offset h) + 20)
       (replicate (unat (nvram_part_size h) - unat (h_offset h) - 20) 0xFF) = Some m2"
    "commit_tuples (unat (h_offset h) + (unat (nvram_part_size h) - unat (h_offset h)) - 2)
       (nvram_hash h) m2 (unat (h_offset h) + 20) = Some (m3, commit_end h)"
    "buf_put m3 (commit_end h) [0] = Some m4"
    "buf_put m4 (commit_end h + 1)
       (replicate (commit_pad (h_addr h + of_nat (commit_end h + 1))) 0) = Some m5"
    "length m5 = unat (nvram_part_size h)"
    "drop (unat (h_offset h) + 20) m5 = ser (kept_tuples h) @ 0 # rest"
    "take (unat (h_offset h)) m5 = take (unat (h_offset h)) (h_mmap h)"
proof -
  let ?off = "unat (h_offset h)" and ?N = "unat (nvram_part_size h)" and ?S = "ser (kept_tuples h)"
  let ?ptr = "commit_end h"
  note r = assms [unfolded nv_ready_def]
  have wf: "nv_wf h" using r by simp
  have ptr: "?ptr = ?off + 20 + length ?S" by (simp add: commit_end_def)
  have room: "?ptr + 2 \<le> ?N" using kept_tuples_room [OF assms] by (simp add: ptr)
  have len: "length (h_mmap h) = ?N" using r by simp
  obtain hb where hb: "buf_get (h_mmap h) ?off 20 = Some hb"
    using buf_get_ok [of ?off 20 "h_mmap h"] len room ptr by auto
  obtain g where g: "commit_header h (nv_header_of hb) = Some g"
    using commit_header_Some [OF wf] by blast
  obtain m1 where m1: "buf_put (h_mmap h) ?off (nv_header_bytes g) = Some m1" "length m1 = ?N"
    using buf_put_ok [of ?off "nv_header_bytes g" "h_mmap h"] room len ptr by auto
  obtain m2 where m2: "buf_put m1 (?off + 20) (replicate (?N - ?off - 20) 0xFF) = Some m2" "length m2 = ?N"
    using buf_put_ok [of "?off + 20" "replicate (?N - ?off - 20) (0xFF :: u8)" m1] room m1 ptr by auto
  define m3 where "m3 = take (?off + 20) m2 @ ?S @ drop ?ptr m2"
  have vals: "\<forall>t \<in> set (concat (nvram_hash h)). tvalue t \<noteq> None"
    using r by (auto simp: nv_tuples_def tuple_ok_def)
  have lim: "?off + (?N - ?off) - 2 = ?N - 2" using room ptr by simp
  have m3: "commit_tuples (?off + (?N - ?off) - 2) (nvram_hash h) m2 (?off + 20) = Some (m3, ?ptr)"
    unfolding lim m3_def ptr kept_tuples_def
    by (subst commit_tuples_kept [OF vals]) (use room m2 ptr in \<open>auto simp: Let_def\<close>)
  have l3: "length m3 = ?N" using room m2 by (simp add: m3_def ptr)
  obtain m4 where m4: "buf_put m3 ?ptr [0] = Some m4" "length m4 = ?N"
    using buf_put_ok [of ?ptr "[0]" m3] room l3 by auto
  let ?pad = "replicate (commit_pad (h_addr h + of_nat (?ptr + 1))) (0 :: u8)"
  obtain m5 where m5: "buf_put m4 (?ptr + 1) ?pad = Some m5" "length m5 = ?N"
    using buf_put_ok [of "?ptr + 1" ?pad m4] commit_pad_fits [OF assms] m4 by auto
  have "drop (?off + 20) m5 = drop (?off + 20) (take (?ptr + 1) m5) @ drop (?ptr + 1) m5"
    using room m5(2) ptr by (intro drop_split) auto
  also have "take (?ptr + 1) m5 = take (?ptr + 1) m4"
    by (rule buf_put_take [OF m5(1)]) simp
  also have "drop (?off + 20) (take (?ptr + 1) m4) = ?S @ [0]"
  proof -
    have "m4 = take ?ptr m3 @ [0] @ drop (?ptr + 1) m3" using m4(1) room l3 by (auto simp: buf_put_def)
    moreover have "take ?ptr m3 = take (?off + 20) m2 @ ?S" using room m2(2) by (simp add: m3_def ptr)
    ultimately show ?thesis using room m2(2) ptr by simp
  qed
  finally have tail: "drop (?off + 20) m5 = ?S @ 0 # drop (?ptr + 1) m5" by simp
  have front: "take ?off m5 = take ?off (h_mmap h)"
  proof -
    have "take ?off m5 = take ?off m4" by (rule buf_put_take [OF m5(1)]) (simp add: ptr)
    also have "\<dots> = take ?off m3" by (rule buf_put_take [OF m4(1)]) (simp add: ptr)
    also have "\<dots> = take ?off m2" by (simp add: m3_def m2(2) min_absorb1) (use room ptr m2(2) in simp)
    also have "\<dots> = take ?off m1" by (rule buf_put_take [OF m2(1)]) simp
    also have "\<dots> = take ?off (h_mmap h)" by (rule buf_put_take [OF m1(1)]) simp
    finally show ?thesis .
  qed
  show thesis by (rule that [OF hb g m1(1) m2(1) m3 m4(1) m5 tail front])
qed

text \<open>The header with the checksum goes in front of them and makes the mapping valid.\<close>

lemma commit_crc:
  assumes low: "crc_ver_init g AND 0xFF = 0" and L: "20 \<le> L" "off + L \<le> length m"
    and uL: "unat (of_nat L :: u32) = L" "unat (of_nat L - of_nat 9 :: u32) = 11 + (L - 20)"
  obtains c1 c2 m' where
    "hndcrc8 (drop 9 (nv_header_bytes \<lparr>nh_magic = 0, nh_len = 0, crc_ver_init = crc_ver_init g,
       config_refresh = config_refresh g, config_ncdl = config_ncdl g\<rparr>)) 11 0xFF = Some c1"
    "hndcrc8 (drop (off + 20) m) (L - 20) c1 = Some c2"
    "buf_put m off (nv_header_bytes (g\<lparr>nh_len := of_nat L, crc_ver_init := crc_ver_init g OR ucast c2\<rparr>)) = Some m'"
    "length m' = length m" "drop (off + 20) m' = drop (off + 20) m" "crc_valid m' off"
    "take off m' = take off m"
    "buf_get m' off 20 = Some (nv_header_bytes
       (g\<lparr>nh_len := of_nat L, crc_ver_init := crc_ver_init g OR ucast c2\<rparr>))"
proof -
  let ?tmp = "\<lparr>nh_magic = 0, nh_len = 0, crc_ver_init = crc_ver_init g,
     config_refresh = config_refresh g, config_ncdl = config_ncdl g\<rparr>"
  obtain c1 where c1: "hndcrc8 (drop 9 (nv_header_bytes ?tmp)) 11 0xFF = Some c1"
    using hndcrc8_defined [of 11 "drop 9 (nv_header_bytes ?tmp)" "0xFF"] by auto
  have "L - 20 \<le> length (drop (off + 20) m)" using L by simp
  then obtain c2 where c2: "hndcrc8 (drop (off + 20) m) (L - 20) c1 = Some c2"
    using hndcrc8_defined by blast
  let ?hb = "nv_header_bytes (g\<lparr>nh_len := of_nat L, crc_ver_init := crc_ver_init g OR ucast c2\<rparr>)"
  obtain m' where m': "buf_put m off ?hb = Some m'" "length m' = length m"
    using buf_put_ok [of off ?hb m] L by auto
  have d: "drop (off + 20) m' = drop (off + 20) m"
    by (rule buf_put_drop [OF m'(1)]) simp
  have hd: "buf_get m' off 20 = Some ?hb" using buf_get_put_same [OF m'(1)] by simp
  have "drop (off + 9) m' = drop 9 (drop off m')" by (simp add: add.commute)
  also have "drop off m' = ?hb @ drop (off + 20) m'"
    using hd L m'(2) by (auto simp: buf_get_def) (metis append_take_drop_id drop_drop add.commute)
  also have "drop 9 \<dots> = drop 9 ?hb @ drop (off + 20) m" by (simp add: d)
  finally have tail: "drop (off + 9) m' = drop 9 (nv_header_bytes ?tmp) @ drop (off + 20) m"
    by (simp only: header_tail [OF low])
  have "hndcrc8 (drop (off + 9) m') (11 + (L - 20)) 0xFF = Some c2"
    using hndcrc8_append [of "drop 9 (nv_header_bytes ?tmp)" "drop (off + 20) m" "L - 20" "0xFF"]
      c1 c2 by (simp add: tail)
  then have "crc_valid m' off"
    using hd low_byte_insert(2) [OF low, of c2] uL by (auto simp: crc_valid_def nv_header_of_bytes)
  moreover have "take off m' = take off m" by (rule buf_put_take [OF m'(1)]) simp
  ultimately show thesis using c1 c2 m' d hd by (intro that)
qed

text \<open>
  The mapping \<open>m\<close> holds what a commit of \<open>h\<close> writes: a valid header of the right length, the
  tuples that fit and a terminator; the bytes before the header are as they were.
\<close>

definition committed :: "nvram_handle \<Rightarrow> u8 list \<Rightarrow> bool" where
  "committed h m \<longleftrightarrow> length m = length (h_mmap h) \<and> crc_valid m (unat (h_offset h)) \<and>
     take (unat (h_offset h)) m = take (unat (h_offset h)) (h_mmap h) \<and>
     (\<exists>rest. drop (unat (h_offset h) + 20) m = ser (kept_tuples h) @ 0 # rest) \<and>
     (\<exists>g. buf_get m (unat (h_offset h)) 20 = Some (nv_header_bytes g) \<and> nh_magic g = NVRAM_MAGIC \<and>
        nh_len g = of_nat (commit_len h))"

lemma commit_header_magic: "commit_header h g = Some g' \<Longrightarrow> nh_magic g' = NVRAM_MAGIC"
  by (clarsimp simp: commit_header_def Let_def bind_eq_Some_conv) (auto split: option.split_asm)

lemma commit_body:
  assumes "nv_ready h"
  obtains m where "nvram_commit h = nvram_rehash (h\<lparr>h_mmap := m\<rparr>)" "committed h m"
proof -
  let ?off = "unat (h_offset h)" and ?N = "unat (nvram_part_size h)"
  obtain hb g m1 m2 m3 m4 m5 rest where hb: "buf_get (h_mmap h) ?off 20 = Some hb"
    and g: "commit_header h (nv_header_of hb) = Some g"
    and m1: "buf_put (h_mmap h) ?off (nv_header_bytes g) = Some m1"
    and m2: "buf_put m1 (?off + 20) (replicate (?N - ?off - 20) 0xFF) = Some m2"
    and m3: "commit_tuples (?off + (?N - ?off) - 2) (nvram_hash h) m2 (?off + 20) = Some (m3, commit_end h)"
    and m4: "buf_put m3 (commit_end h) [0] = Some m4"
    and m5: "buf_put m4 (commit_end h + 1)
       (replicate (commit_pad (h_addr h + of_nat (commit_end h + 1))) 0) = Some m5" "length m5 = ?N"
    and data: "drop (?off + 20) m5 = ser (kept_tuples h) @ 0 # rest"
    and front: "take ?off m5 = take ?off (h_mmap h)"
    by (rule commit_data [OF assms]) (rule that, assumption+)
  let ?L = "commit_len h"
  note Ls = commit_len_fits [OF assms refl]
  have off: "?off + 20 \<le> ?N" using assms by (simp add: nv_ready_def)
  have low: "crc_ver_init g AND 0xFF = 0" by (rule commit_header_low [OF g])
  have "20 \<le> ?L" "?off + ?L \<le> length m5" using Ls(1,2) off m5(2) by simp_all
  from commit_crc [OF low this Ls(3,5)] obtain c1 c2 m where
    c1: "hndcrc8 (drop 9 (nv_header_bytes \<lparr>nh_magic = 0, nh_len = 0, crc_ver_init = crc_ver_init g,
       config_refresh = config_refresh g, config_ncdl = config_ncdl g\<rparr>)) 11 0xFF = Some c1"
    and c2: "hndcrc8 (drop (?off + 20) m5) (?L - 20) c1 = Some c2"
    and m: "buf_put m5 ?off (nv_header_bytes (g\<lparr>nh_len := of_nat ?L, crc_ver_init := crc_ver_init g OR ucast c2\<rparr>)) = Some m"
    and res: "length m = length m5" "drop (?off + 20) m = drop (?off + 20) m5" "crc_valid m ?off"
      "take ?off m = take ?off m5"
      "buf_get m ?off 20 = Some (nv_header_bytes
         (g\<lparr>nh_len := of_nat ?L, crc_ver_init := crc_ver_init g OR ucast c2\<rparr>))" .
  have c1': "hndcrc8 (drop 9 (nv_header_bytes \<lparr>nh_magic = 0, nh_len = 0, crc_ver_init = crc_ver_init g,
       config_refresh = config_refresh g, config_ncdl = config_ncdl g\<rparr>)) (20 - 9) 0xFF = Some c1"
    using c1 by simp
  have sel: "crc_ver_init (g\<lparr>nh_len := x\<rparr>) = crc_ver_init g" "config_ncdl (g\<lparr>nh_len := x\<rparr>) = config_ncdl g"
    "config_refresh (g\<lparr>nh_len := x\<rparr>) = config_refresh g" "nh_len (g\<lparr>nh_len := x\<rparr>) = x"
    "(of_nat 20 :: u32) = 20" for x
    by simp_all
  have run: "nvram_commit h = nvram_rehash (h\<lparr>h_mmap := m\<rparr>)"
    unfolding nvram_commit_def nvram_header_def
    apply (simp only: Let_def hb option.map Option.bind.simps g m1 m2 m3 prod.case m4 m5(1)
        commit_len_eq)
    apply (simp only: sel Ls c1' Option.bind.simps c2 m)
    done
  have "length m = length (h_mmap h)" using res(1) m5(2) assms by (simp add: nv_ready_def)
  then have "committed h m"
    using res data front commit_header_magic [OF g] unfolding committed_def
    by (intro conjI exI [of _ rest] exI [of _ "g\<lparr>nh_len := of_nat ?L, crc_ver_init := crc_ver_init g OR ucast c2\<rparr>"])
      simp_all
  then show thesis using run by (intro that)
qed

lemma map_of_tuples:
  assumes "nv_wf h" and "\<forall>t \<in> set (nv_tuples h). tvalue t \<noteq> None"
  shows "map_of (kvs (nv_tuples h)) n = nv_map h n"
proof (cases "nv_map h n")
  case (Some v)
  then obtain t where t: "t \<in> set (nv_tuples h)" "tname t = n" "tvalue t = Some v"
    using nv_map_tuple [OF assms(1)] by (auto simp: nv_tuples_def)
  then have "(n, v) \<in> set (kvs (nv_tuples h))" by (force simp: kvs_def)
  moreover have "distinct (map fst (kvs (nv_tuples h)))"
    using nv_tuples_distinct [OF assms(1)] by (simp add: kvs_def nv_tuples_def comp_def)
  ultimately show ?thesis using Some by simp
next
  case None
  have False if "(n, v) \<in> set (kvs (nv_tuples h))" for v
  proof -
    from that have "n \<in> tname ` set (nv_tuples h)" by (force simp: kvs_def)
    then obtain t where t: "t \<in> set (nv_tuples h)" "tname t = n" by blast
    then have "\<exists>u \<in> set (concat (nvram_hash h)). tname u = n \<and> tvalue u = Some (the (tvalue t))"
      using assms(2) by (intro bexI [of _ t]) (auto simp: nv_tuples_def)
    then have "nv_map h n = Some (the (tvalue t))" by (rule nv_map_tuple [OF assms(1), THEN iffD2])
    then show False using None by simp
  qed
  then show ?thesis using None by (cases "map_of (kvs (nv_tuples h)) n") (auto dest: map_of_SomeD)
qed

text \<open>
  After a commit the table holds the variables of before, the mapping is valid and holds
  their serialisation.
\<close>

lemma commit_spec:
  assumes "nv_ready h"
  obtains h' where "nvram_commit h = Some (0, h')" "nv_wf h'"
    "\<And>n. n \<notin> set sdram_names \<or> map_of (kvs (kept_tuples h)) n \<noteq> None \<Longrightarrow>
       nv_map h' n = map_of (kvs (kept_tuples h)) n"
    "same_part (h\<lparr>h_mmap := h_mmap h'\<rparr>) h'" "committed h (h_mmap h')"
proof -
  obtain m where run: "nvram_commit h = nvram_rehash (h\<lparr>h_mmap := m\<rparr>)" and c: "committed h m"
    by (rule commit_body [OF assms])
  obtain rest where data: "drop (unat (h_offset h) + 20) m = ser (kept_tuples h) @ 0 # rest"
    using c by (auto simp: committed_def)
  note r = assms [unfolded nv_ready_def]
  have wf: "nv_wf h" using r by simp
  let ?h = "h\<lparr>h_mmap := m\<rparr>"
  have 1: "nv_wf ?h" using wf by (simp add: nv_wf_def)
  have 2: "buf_get (h_mmap ?h) (unat (h_offset ?h)) 20 \<noteq> None" using c by (auto simp: committed_def)
  have 3: "drop (unat (h_offset ?h) + 20) (h_mmap ?h) = ser (kept_tuples h) @ 0 # rest"
    using data by simp
  have 5: "length (ser (kept_tuples h)) + 22 \<le> nv_room ?h"
    using r kept_tuples_room [OF assms] by (simp add: nv_room_def unat_sub_le unat_le)
  obtain h' where h': "nvram_rehash ?h = Some (0, h')" "nv_wf h'" "same_part ?h h'"
    "\<And>n. n \<notin> set sdram_names \<or> map_of (kvs (kept_tuples h)) n \<noteq> None \<Longrightarrow>
       nv_map h' n = map_of (kvs (kept_tuples h)) n"
    by (rule rehash_spec [OF 1 2 3 kept_tuples_ok [OF assms] kept_tuples_distinct [OF wf] 5]) (rule that)
  have "h_mmap h' = m" using same_part_fields [OF h'(3)] by simp
  then show thesis using h' run c
    by (intro that [of h']) simp_all
qed

end
