(* ===== verification/Nvram_Open.thy ===== *)
theory Nvram_Open
  imports Nvram_Persist
begin

text \<open>
  Opening a partition after a commit, the text form of the SDRAM parameters, and the command
  line over both: what a later program sees of what an earlier one stored.
\<close>

section \<open>Finding the header again\<close>

lemma find_magic_ge: "find_magic m n i = Some (Some off) \<Longrightarrow> 4 * i \<le> off"
proof (induction m n i rule: find_magic.induct)
  case (1 m n i)
  from 1(2) show ?case
    by (subst (asm) find_magic.simps)
      (auto simp: bind_eq_Some_conv split: if_splits dest!: 1(1))
qed

lemma buf_get_front:
  assumes "take off m' = take off m" and "a + n \<le> off" and "length m' = length m"
  shows "buf_get m' a n = buf_get m a n"
proof -
  have "take n (drop a (take off m')) = take n (drop a (take off m))" using assms(1) by simp
  moreover have "min n (off - a) = n" using assms(2) by simp
  ultimately have "take n (drop a m') = take n (drop a m)" by (simp add: drop_take)
  then show ?thesis using assms(3) by (simp add: buf_get_def)
qed

text \<open>Changing the bytes from the header on does not change where it is found.\<close>

lemma find_magic_same:
  assumes "find_magic m n i = Some (Some off)" and "length m' = length m" and "take off m' = take off m"
    and "buf_get m' off 4 = Some w" and "le_val w = NVRAM_MAGIC"
  shows "find_magic m' n i = Some (Some off)"
  using assms(1-3)
proof (induction m n i rule: find_magic.induct [case_names step])
  case (step m n i)
  from step.prems obtain w where le: "i \<le> n" and w: "buf_get m (4 * i) 4 = Some w"
    by (subst (asm) find_magic.simps) (auto simp: bind_eq_Some_conv split: if_splits)
  show ?case
  proof (cases "le_val w = NVRAM_MAGIC")
    case True
    then have "off = 4 * i" using step.prems le w by (subst (asm) find_magic.simps) simp
    then show ?thesis using le assms(4,5) by (subst find_magic.simps) simp
  next
    case False
    then have next_: "find_magic m n (i + 1) = Some (Some off)"
      using step.prems le w by (subst (asm) find_magic.simps) simp
    have "buf_get m' (4 * i) 4 = Some w"
      using buf_get_front [OF step.prems(3), of "4 * i" 4] find_magic_ge [OF next_] step.prems(2) w by simp
    then show ?thesis using False le step.IH [OF le w False next_ step.prems(2,3)]
      by (subst find_magic.simps) simp
  qed
qed

text \<open>The number of the last word that the search of \<open>nvram_open\<close> looks at.\<close>

abbreviation last_word :: "u32 \<Rightarrow> nat" where
  "last_word part_size \<equiv> unat ((part_size - NVRAM_MIN_SPACE) div 4)"

definition found_at :: "nvram_handle \<Rightarrow> bool" where
  "found_at h \<longleftrightarrow> find_magic (h_mmap h) (last_word (nvram_part_size h)) 0 = Some (Some (unat (h_offset h)))"

lemma le_val_header_magic: "le_val (take 4 (nv_header_bytes g)) = nh_magic g"
  using nv_header_of_bytes [of g] by (simp add: nv_header_of_def nvram_hdr.ext_inject [symmetric]) (metis nvram_hdr.select_convs(1))

lemma committed_found:
  assumes "found_at h" and "committed h m"
  shows "find_magic m (last_word (nvram_part_size h)) 0 = Some (Some (unat (h_offset h)))"
proof -
  obtain g where g: "buf_get m (unat (h_offset h)) 20 = Some (nv_header_bytes g)" "nh_magic g = NVRAM_MAGIC"
    using assms(2) by (auto simp: committed_def)
  then have "take 20 (drop (unat (h_offset h)) m) = nv_header_bytes g" "unat (h_offset h) + 20 \<le> length m"
    by (auto simp: buf_get_def split: if_splits)
  then have "buf_get m (unat (h_offset h)) 4 = Some (take 4 (nv_header_bytes g))"
    by (auto simp: buf_get_def simp flip: \<open>take 20 _ = _\<close>)
  from find_magic_same [OF assms(1) [unfolded found_at_def] _ _ this] show ?thesis
    using assms(2) g(2) by (simp add: committed_def le_val_header_magic)
qed

text \<open>
  A committed partition opens for reading, and for writing when its data do not reach the end of
  the partition; the table then has the variables that were written.
\<close>

lemma open_committed:
  assumes ready: "nv_ready h" and "found_at h" and com: "committed h m"
  obtains h2 where "nvram_open m (nvram_part_size h) addr cv True rdonly =
      Some (if rdonly \<or> commit_len h < unat (nvram_part_size h) - unat (h_offset h) then Some h2 else None)"
    "nv_wf h2"
    "\<And>n. n \<notin> set sdram_names \<or> map_of (kvs (kept_tuples h)) n \<noteq> None \<Longrightarrow>
       nv_map h2 n = map_of (kvs (kept_tuples h)) n"
    "same_part \<lparr>h_mmap = m, h_length = nvram_part_size h, h_offset = h_offset h,
       nvram_hash = [], nvram_dead = [], char_val = cv, h_addr = addr,
       nvram_part_size = nvram_part_size h\<rparr> h2"
proof -
  let ?N = "unat (nvram_part_size h)" and ?off = "unat (h_offset h)"
  let ?h = "\<lparr>h_mmap = m, h_length = nvram_part_size h, h_offset = h_offset h,
       nvram_hash = replicate NVRAM_BUCKETS [], nvram_dead = [], char_val = cv, h_addr = addr,
       nvram_part_size = nvram_part_size h\<rparr>"
  note r = ready [unfolded nv_ready_def]
  obtain rest g where data: "drop (?off + 20) m = ser (kept_tuples h) @ 0 # rest"
    and g: "buf_get m ?off 20 = Some (nv_header_bytes g)" "nh_magic g = NVRAM_MAGIC"
      "nh_len g = of_nat (commit_len h)"
    using com by (auto simp: committed_def)
  have 1: "nv_wf ?h" by (simp add: nv_wf_def)
  have 2: "buf_get (h_mmap ?h) (unat (h_offset ?h)) 20 \<noteq> None" using g by simp
  have 3: "drop (unat (h_offset ?h) + 20) (h_mmap ?h) = ser (kept_tuples h) @ 0 # rest"
    using data by simp
  have sub: "unat (nvram_part_size h - h_offset h) = ?N - ?off"
    using r by (simp add: unat_sub_le unat_le)
  have 5: "length (ser (kept_tuples h)) + 22 \<le> nv_room ?h"
    using kept_tuples_room [OF ready] by (simp add: nv_room_def sub)
  obtain h2 where h2: "nvram_rehash ?h = Some (0, h2)" "nv_wf h2" "same_part ?h h2"
    "\<And>n. n \<notin> set sdram_names \<or> map_of (kvs (kept_tuples h)) n \<noteq> None \<Longrightarrow>
       nv_map h2 n = map_of (kvs (kept_tuples h)) n"
    by (rule rehash_spec [OF 1 2 3 kept_tuples_ok [OF ready] kept_tuples_distinct 5]) (use r in simp, rule that)
  have hdr: "nvram_header ?h = Some g" using g(1) by (simp add: nvram_header_def nv_header_of_bytes)
  have len: "nh_len g < h_length ?h - h_offset ?h \<longleftrightarrow> commit_len h < ?N - ?off"
    using commit_len_fits(3) [OF ready refl] by (simp add: word_less_nat_alt g(3) sub)
  have "nvram_open m (nvram_part_size h) addr cv True rdonly =
      Some (if rdonly \<or> commit_len h < ?N - ?off then Some h2 else None)"
    using committed_found [OF assms(2) com] hdr h2(1) g(2) len
    by (simp add: nvram_open_def Let_def)
  moreover have "same_part (?h\<lparr>nvram_hash := []\<rparr>) h2" using h2(3) by (auto simp: same_part_def)
  ultimately show thesis using h2(2,4) by (intro that [of h2]) simp_all
qed

section \<open>Numbers as text\<close>

definition hex_digits :: "nat \<Rightarrow> u32 \<Rightarrow> u8 list" where
  "hex_digits n w = map (\<lambda>i. hex_digit (drop_bit (4 * (n - 1 - i)) w AND 15)) [0..<n]"

lemma hex_digits_Suc: "hex_digits (Suc n) w = hex_digit (drop_bit (4 * n) w AND 15) # hex_digits n w"
  by (simp add: hex_digits_def map_upt_Suc del: upt_Suc)

lemma digit_val_hex:
  assumes "unat d < 16"
  shows "digit_val (hex_digit d) = Some (unat d)"
proof -
  have l: "[0..<16] = 0 # 1 # [2..<16]" by (simp add: upt_rec)
  have "list_all (\<lambda>i. digit_val (hex_digit (of_nat i)) = Some i) [0..<16]"
    unfolding l by (simp add: upt_rec_numeral digit_val_def hex_digit_def)
  then have "digit_val (hex_digit (of_nat (unat d))) = Some (unat d)"
    using bspec [of "set [0..<16]" _ "unat d"] assms unfolding list_all_iff by fastforce
  then show ?thesis by simp
qed

lemma unat_nibble: "unat (drop_bit (4 * n) (w :: u32) AND 15) = unat w div 16 ^ n mod 16"
proof -
  have m: "x AND 15 = take_bit 4 x" for x :: u32 by (simp add: take_bit_eq_mask mask_eq_exp_minus_1)
  have "unat (drop_bit (4 * n) w) = drop_bit (4 * n) (unat w)"
    using unat32_bound [of w] by (simp add: unsigned_drop_bit_eq take_bit_nat_eq_self)
  then have "unat (drop_bit (4 * n) w) = unat w div 16 ^ n"
    by (simp add: drop_bit_eq_div power_mult)
  then show ?thesis unfolding m unsigned_take_bit_eq by (simp add: take_bit_eq_mod)
qed

lemma strtoul_digits_hex: "strtoul_digits 16 acc (hex_digits n w) = acc * 16 ^ n + unat w mod 16 ^ n"
proof (induction n arbitrary: acc)
  case 0
  show ?case by (simp add: hex_digits_def)
next
  case (Suc n)
  let ?d = "unat w div 16 ^ n mod 16"
  have "unat w mod 16 ^ Suc n = 16 ^ n * ?d + unat w mod 16 ^ n"
    by (simp add: mod_mult2_eq mult.commute [of 16])
  moreover have "digit_val (hex_digit (drop_bit (4 * n) w AND 15)) = Some ?d"
    by (simp add: digit_val_hex unat_nibble)
  ultimately show ?case
    by (simp add: hex_digits_Suc Suc.IH) (simp add: algebra_simps)
qed

lemma strtoul_fmt_hex:
  assumes "0 < n" and "unat w < 16 ^ n"
  shows "strtoul (fmt_hex n w) = w"
proof -
  obtain k where n: "n = Suc k" using assms(1) by (cases n) auto
  let ?c = "hex_digit (drop_bit (4 * k) w AND 15)"
  have hx: "fmt_hex n w = 0x30 # 0x78 # ?c # hex_digits k w"
    using hex_digits_Suc [of k w] by (simp add: fmt_hex_def n hex_digits_def del: upt_Suc)
  have d: "digit_val ?c = Some (unat w div 16 ^ k mod 16)"
    by (simp add: digit_val_hex unat_nibble)
  have "strtoul_base (fmt_hex n w) = strtoul_digits 16 0 (hex_digits n w)"
    by (simp add: strtoul_base_def hx [unfolded n] d n hex_digits_Suc)
  then have b: "strtoul_base (fmt_hex n w) = unat w"
    using assms(2) by (simp add: strtoul_digits_hex)
  then show ?thesis
    using unat32_bound [of w] by (simp add: strtoul_def strto_sign_def hx [symmetric] Let_def) (simp add: hx)
qed

end
