(* ===== verification/Nvram_Session.thy ===== *)
theory Nvram_Session
  imports Nvram_Open
begin

text \<open>
  Sequences of operations on one handle: a step relation of \<open>nvram_set\<close>, whose allocations may
  fail, \<open>nvram_unset\<close> and \<open>nvram_commit\<close>, and the facts that every step from a handle that can be
  committed is defined and leads to such a handle, except that a failed \<open>realloc\<close> loses a value.
\<close>

section \<open>Tuples of an updated table\<close>

lemma chain_update_tuples: "set (chain_update n v ts) \<subseteq> insert \<lparr>tname = n, tvalue = v\<rparr> (set ts)"
  by (induction ts) auto

lemma nv_tuples_put:
  assumes "nv_wf h"
  shows "set (nv_tuples (nv_put n v h)) \<subseteq> insert \<lparr>tname = n, tvalue = Some v\<rparr> (set (nv_tuples h))"
proof -
  let ?i = "bucket_of h n"
  let ?c = "nvram_hash h ! ?i" and ?t = "\<lparr>tname = n, tvalue = Some v\<rparr>"
  define c where "c = (case chain_find n ?c of None \<Rightarrow> ?t # ?c | Some _ \<Rightarrow> chain_update n (Some v) ?c)"
  have "?c \<in> set (nvram_hash h)" using assms by (simp add: nv_wf_def)
  then have "set ?c \<subseteq> set (nv_tuples h)" by (auto simp: nv_tuples_def)
  then have c: "set c \<subseteq> insert ?t (set (nv_tuples h))"
    using chain_update_tuples [of n "Some v" ?c] by (auto simp: c_def split: option.splits)
  have "set ((nvram_hash h)[?i := c]) \<subseteq> insert c (set (nvram_hash h))" by (rule set_update_subset_insert)
  then have "set (concat ((nvram_hash h)[?i := c])) \<subseteq> set c \<union> set (concat (nvram_hash h))" by auto
  then show ?thesis using c by (auto simp: nv_tuples_def nv_put_def Let_def c_def)
qed

lemma nv_ready_put:
  assumes "nv_ready h" and "tuple_ok \<lparr>tname = n, tvalue = Some v\<rparr>"
  shows "nv_ready (nv_put n v h)"
  using assms nv_tuples_put [of h n v] nv_wf_put_wf [of h n v] same_part_fields [OF same_part_put [of h n v]]
  by (auto simp: nv_ready_def)

definition tuples_ok :: "nvram_handle \<Rightarrow> bool" where
  "tuples_ok h \<longleftrightarrow> (\<forall>t \<in> set (nv_tuples h). tuple_ok t)"

lemma tuples_ok_put:
  "nv_wf h \<Longrightarrow> tuples_ok h \<Longrightarrow> tuple_ok \<lparr>tname = n, tvalue = Some v\<rparr> \<Longrightarrow> tuples_ok (nv_put n v h)"
  using nv_tuples_put [of h n v] by (auto simp: tuples_ok_def)

lemma nv_ready_step:
  assumes "nv_ready h" and "nv_wf h'" and "tuples_ok h'" and "same_part (h\<lparr>h_mmap := m\<rparr>) h'"
    and "length m = length (h_mmap h)"
  shows "nv_ready h'"
  using assms(1-3,5) same_part_fields [OF assms(4)] by (simp add: nv_ready_def tuples_ok_def)

section \<open>The table after a rehash\<close>

lemma tuples_ok_put_all:
  assumes "nv_wf h" and "tuples_ok h" and "\<forall>(k, v) \<in> set ps. nv_fits h v \<and> tuple_ok \<lparr>tname = k, tvalue = Some v\<rparr>"
  shows "tuples_ok (nv.put_all ps h)"
  using assms
proof (induction ps arbitrary: h)
  case (Cons kv ps)
  then show ?case
    by (cases kv) (auto simp: nv.put_all_def nv_wf_put_wf nv_fits_upd tuples_ok_put split: prod.splits)
qed (simp add: nv.put_all_def)

lemma hex_digit_nonzero: "hex_digit (w AND 15) \<noteq> 0"
proof -
  have "w AND 15 = take_bit 4 w" by (simp add: take_bit_eq_mask mask_eq_decr_exp)
  then have "unat (w AND 15) < 16" by (simp add: unsigned_take_bit_eq take_bit_nat_def)
  then have "unat (w AND 15) \<in> set [0..<16]" by simp
  moreover have "\<forall>n \<in> set [0..<16]. hex_digit (of_nat n) \<noteq> 0" by (simp add: upt_rec hex_digit_def)
  ultimately have "hex_digit (of_nat (unat (w AND 15))) \<noteq> 0" by blast
  then show ?thesis by simp
qed

lemma sdram_tuple_ok:
  assumes "n \<in> set sdram_names"
  shows "tuple_ok \<lparr>tname = n, tvalue = Some (fmt_hex k w)\<rparr>"
  using assms hex_digit_nonzero by (auto simp: tuple_ok_def fmt_hex_def sdram_names_def cstr_def)

text \<open>A table to which the \<open>sdram_\<close> variables can be added.\<close>

definition takes_sdram :: "nvram_handle \<Rightarrow> bool" where
  "takes_sdram h \<longleftrightarrow> nv_wf h \<and> tuples_ok h \<and> (\<forall>k w. k \<le> 8 \<longrightarrow> nv_fits h (fmt_hex k w))"

lemma set_missing_takes:
  assumes "set_missing n (fmt_hex k w) h = Some h'" and "takes_sdram h" and "n \<in> set sdram_names" and "k \<le> 8"
  shows "takes_sdram h'"
proof -
  note h = assms(2) [unfolded takes_sdram_def]
  show ?thesis
  proof (cases "nv_map h n")
    case None
    with h assms have "h' = nv_put n (fmt_hex k w) h"
      by (simp add: set_missing_def nv_get nv_set_fits)
    then show ?thesis
      using h assms(4) by (simp add: takes_sdram_def nv_wf_put_wf nv_fits_upd tuples_ok_put sdram_tuple_ok [OF assms(3)])
  next
    case (Some x)
    with h assms have "h' = h" by (simp add: set_missing_def nv_get)
    then show ?thesis using assms(2) by simp
  qed
qed

lemma rehash_tuples_ok:
  assumes "nvram_rehash h = Some (r, h')" and wf: "nv_wf h"
    and data: "drop (unat (h_offset h) + 20) (h_mmap h) = ser ts @ 0 # rest"
    and ok: "\<forall>t \<in> set ts. tuple_ok t" and room: "length (ser ts) + 22 \<le> nv_room h"
  shows "tuples_ok h'"
proof -
  let ?h0 = "nvram_free h" and ?h1 = "nv.put_all (kvs ts) (nvram_free h)"
  have wf0: "nv_wf ?h0" by (rule free_wf [OF wf])
  have fits: "\<forall>(k, v) \<in> set (kvs ts). nv_fits ?h0 v"
    using room by (auto simp: nv_fits_def dest: kvs_small)
  have loop: "rehash_loop (ser ts @ 0 # rest) ?h0 = Some ?h1"
    by (rule rehash_loop_ser [OF ok wf0 fits])
  have "tuples_ok ?h0" by (auto simp: tuples_ok_def nv_tuples_def nvram_free_def)
  moreover have "tuple_ok \<lparr>tname = k, tvalue = Some v\<rparr>" if "(k, v) \<in> set (kvs ts)" for k v
    using that ok by (auto simp: kvs_def tuple_ok_def)
  ultimately have "tuples_ok ?h1" using fits by (intro tuples_ok_put_all [OF wf0]) auto
  moreover have "nv_wf ?h1" using nv.put_all_inv [OF wf0 fits] by simp
  moreover have "nv_fits ?h1 v \<longleftrightarrow> length v + 1 \<le> nv_room h" for v
    using nv.put_all_inv [OF wf0 fits] by (simp add: nv_fits_def)
  ultimately have 1: "takes_sdram ?h1" using room by (simp add: takes_sdram_def)
  have names: "cstr ''sdram_init'' \<in> set sdram_names" "cstr ''sdram_config'' \<in> set sdram_names"
    "cstr ''sdram_refresh'' \<in> set sdram_names" "cstr ''sdram_ncdl'' \<in> set sdram_names"
    by (simp_all add: sdram_names_def)
  have "takes_sdram h'"
    using assms(1) 1
    by (auto simp: nvram_rehash_def data loop Let_def bind_eq_Some_conv
        dest!: set_missing_takes [OF _ _ names(1)] set_missing_takes [OF _ _ names(2)]
          set_missing_takes [OF _ _ names(3)] set_missing_takes [OF _ _ names(4)])
  then show ?thesis by (simp add: takes_sdram_def)
qed

section \<open>Steps\<close>

text \<open>The flag of a \<open>nvram_set\<close> is whether the allocations it makes succeed.\<close>

datatype nv_cmd = Cmd_set bool "u8 list" "u8 list" | Cmd_unset "u8 list" | Cmd_commit

text \<open>Names and values are strings, and a name has no \<open>=\<close>.\<close>

fun cmd_ok :: "nv_cmd \<Rightarrow> bool" where
  "cmd_ok (Cmd_set alloc n v) = tuple_ok \<lparr>tname = n, tvalue = Some v\<rparr>"
| "cmd_ok _ = True"

inductive nv_step :: "nvram_handle \<Rightarrow> nv_cmd \<Rightarrow> nvram_handle \<Rightarrow> bool" where
  step_set: "nvram_set h alloc n v = Some (ret, h') \<Longrightarrow> nv_step h (Cmd_set alloc n v) h'"
| step_unset: "nvram_unset h (Some n) = Some (ret, h') \<Longrightarrow> nv_step h (Cmd_unset n) h'"
| step_commit: "nvram_commit h = Some (ret, h') \<Longrightarrow> nv_step h Cmd_commit h'"

inductive_simps nv_step_simps:
  "nv_step h (Cmd_set alloc n v) h'" "nv_step h (Cmd_unset n) h'" "nv_step h Cmd_commit h'"

inductive nv_run :: "nvram_handle \<Rightarrow> nv_cmd list \<Rightarrow> nvram_handle \<Rightarrow> bool" where
  run_nil: "nv_run h [] h"
| run_cons: "nv_step h c h1 \<Longrightarrow> nv_run h1 cs h' \<Longrightarrow> nv_run h (c # cs) h'"

inductive_simps nv_run_simps: "nv_run h [] h'" "nv_run h (c # cs) h'"

definition same_place :: "nvram_handle \<Rightarrow> nvram_handle \<Rightarrow> bool" where
  "same_place h h' \<longleftrightarrow> h_offset h' = h_offset h \<and> nvram_part_size h' = nvram_part_size h \<and>
     take (unat (h_offset h)) (h_mmap h') = take (unat (h_offset h)) (h_mmap h)"

lemma same_place_refl [simp]: "same_place h h"
  by (simp add: same_place_def)

lemma same_place_trans: "same_place h h1 \<Longrightarrow> same_place h1 h2 \<Longrightarrow> same_place h h2"
  by (simp add: same_place_def)

section \<open>Variables that lost their value\<close>

text \<open>
  A failed \<open>realloc\<close> leaves a tuple with a \<open>NULL\<close> value: \<open>nv_lost\<close> are the names of such tuples,
  \<open>failed\<close> the names that a command sequence sets while the allocation fails. \<open>nv_weak\<close> is
  \<^const>\<open>nv_ready\<close> but for the lost values.
\<close>

definition nv_lost :: "nvram_handle \<Rightarrow> u8 list set" where
  "nv_lost h = tname ` {t \<in> set (nv_tuples h). tvalue t = None}"

definition failed :: "nv_cmd list \<Rightarrow> u8 list set" where
  "failed cs = {n. \<exists>v. Cmd_set False n v \<in> set cs}"

definition nv_weak :: "nvram_handle \<Rightarrow> bool" where
  "nv_weak h \<longleftrightarrow> nv_wf h \<and> (\<forall>t \<in> set (nv_tuples h). tvalue t = None \<or> tuple_ok t) \<and>
     length (h_mmap h) = unat (nvram_part_size h) \<and> h_length h = nvram_part_size h \<and>
     unat (h_offset h) + 22 \<le> unat (nvram_part_size h) \<and>
     4 dvd unat (nvram_part_size h) \<and> 4 dvd unat (h_offset h) \<and> 4 dvd unat (h_addr h) \<and>
     unat (h_addr h) + unat (nvram_part_size h) \<le> 2 ^ 31"

lemma nv_ready_weak: "nv_ready h \<longleftrightarrow> nv_weak h \<and> nv_lost h = {}"
proof -
  have "tuple_ok t \<Longrightarrow> tvalue t \<noteq> None" for t by (simp add: tuple_ok_def)
  then have "(\<forall>t \<in> ts. tuple_ok t) \<longleftrightarrow>
      (\<forall>t \<in> ts. tvalue t = None \<or> tuple_ok t) \<and> tname ` {t \<in> ts. tvalue t = None} = {}" for ts
    by blast
  then show ?thesis by (auto simp: nv_ready_def nv_weak_def nv_lost_def)
qed

lemma failed_simps [simp]:
  "failed [] = {}" "failed (Cmd_set True n v # cs) = failed cs"
  "failed (Cmd_set False n v # cs) = insert n (failed cs)"
  "failed (Cmd_unset n # cs) = failed cs" "failed (Cmd_commit # cs) = failed cs"
  by (auto simp: failed_def)

text \<open>What an update of one bucket keeps.\<close>

lemma bucket_weak:
  assumes "nv_weak h" and "nv_wf (h\<lparr>nvram_hash := b\<rparr>)"
    and "set (concat b) \<subseteq> insert t (set (nv_tuples h))" and "tvalue t = None \<or> tuple_ok t"
  shows "nv_weak (h\<lparr>nvram_hash := b\<rparr>) \<and> same_place h (h\<lparr>nvram_hash := b\<rparr>) \<and>
    nv_lost (h\<lparr>nvram_hash := b\<rparr>) \<subseteq> nv_lost h \<union> (if tvalue t = None then {tname t} else {})"
proof -
  have "set (nv_tuples (h\<lparr>nvram_hash := b\<rparr>)) \<subseteq> insert t (set (nv_tuples h))"
    using assms(3) by (simp add: nv_tuples_def)
  moreover from this have "\<forall>u \<in> set (nv_tuples (h\<lparr>nvram_hash := b\<rparr>)). tvalue u = None \<or> tuple_ok u"
    using assms(1,4) by (auto simp: nv_weak_def)
  ultimately show ?thesis using assms(1,2)
    by (auto simp: nv_weak_def nv_lost_def same_place_def)
qed

lemma put_weak:
  assumes "nv_weak h" and "tuple_ok \<lparr>tname = n, tvalue = Some v\<rparr>"
  shows "nv_weak (nv_put n v h) \<and> same_place h (nv_put n v h) \<and> nv_lost (nv_put n v h) \<subseteq> nv_lost h"
proof -
  have wf: "nv_wf h" using assms(1) by (simp add: nv_weak_def)
  show ?thesis
    using bucket_weak [OF assms(1), of _ "\<lparr>tname = n, tvalue = Some v\<rparr>"] nv_wf_put_wf [OF wf, of n v]
      nv_tuples_put [OF wf, of n v] assms(2)
    unfolding nv_put_def nv_tuples_def by simp
qed

lemma set_failing:
  assumes "nv_wf h" and "nv_fits h v" and "c = nvram_hash h ! bucket_of h n"
  shows "nvram_set h False n v = (case chain_find n c of
      None \<Rightarrow> Some (- 12, h)
    | Some t \<Rightarrow> if tvalue t = Some v then Some (0, nv_put n v h)
        else Some (- 12, h\<lparr>nvram_hash := (nvram_hash h)[bucket_of h n := chain_update n None c]\<rparr>))"
  using assms by (auto simp: nvram_set_def nvram_realloc_def arr_get_def arr_set_def nv_wf_def nv_fits_def
      nv_room_def nv_put_def Let_def split: option.splits)

lemma set_weak:
  assumes "nv_weak h" and "tuple_ok \<lparr>tname = n, tvalue = Some v\<rparr>"
  shows "\<exists>ret h'. nvram_set h alloc n v = Some (ret, h') \<and> nv_weak h' \<and> same_place h h' \<and>
    nv_lost h' \<subseteq> nv_lost h \<union> (if alloc then {} else {n})"
proof -
  let ?c = "nvram_hash h ! bucket_of h n"
  have wf: "nv_wf h" using assms(1) by (simp add: nv_weak_def)
  consider "\<not> nv_fits h v" | "nv_fits h v" alloc | "nv_fits h v" "\<not> alloc" by blast
  then show ?thesis
  proof cases
    case 1
    then show ?thesis using nv_set_too_long [OF wf] assms(1) by auto
  next
    case 2
    then show ?thesis using nv_set_fits [OF wf] put_weak [OF assms] by auto
  next
    case 3
    let ?b = "(nvram_hash h)[bucket_of h n := chain_update n None ?c]"
    have "?c \<in> set (nvram_hash h)" using wf by (simp add: nv_wf_def)
    then have "set ?c \<subseteq> set (nv_tuples h)" by (auto simp: nv_tuples_def)
    then have "set (chain_update n None ?c) \<subseteq> insert \<lparr>tname = n, tvalue = None\<rparr> (set (nv_tuples h))"
      using chain_update_tuples [of n None ?c] by blast
    moreover have "set (concat ?b) \<subseteq> set (chain_update n None ?c) \<union> set (nv_tuples h)"
      using set_update_subset_insert [of "nvram_hash h" "bucket_of h n" "chain_update n None ?c"]
      by (auto simp: nv_tuples_def)
    ultimately have "set (concat ?b) \<subseteq> insert \<lparr>tname = n, tvalue = None\<rparr> (set (nv_tuples h))" by blast
    moreover have "nv_wf (h\<lparr>nvram_hash := ?b\<rparr>)"
      by (rule nv_wf_put [OF wf]) (use nv_chain [OF wf, where n = n] in \<open>auto dest!: chain_tnames\<close>)
    ultimately have "nv_weak (h\<lparr>nvram_hash := ?b\<rparr>) \<and> same_place h (h\<lparr>nvram_hash := ?b\<rparr>) \<and>
        nv_lost (h\<lparr>nvram_hash := ?b\<rparr>) \<subseteq> nv_lost h \<union> {n}"
      using bucket_weak [OF assms(1), of ?b "\<lparr>tname = n, tvalue = None\<rparr>"] by simp
    then show ?thesis
      using 3 set_failing [OF wf 3(1) refl, of n] put_weak [OF assms] assms(1)
      by (auto split: option.splits)
  qed
qed

lemma unset_weak:
  assumes "nv_weak h"
  shows "\<exists>ret h'. nvram_unset h (Some n) = Some (ret, h') \<and> nv_weak h' \<and> same_place h h' \<and> nv_lost h' \<subseteq> nv_lost h"
proof -
  let ?c = "nvram_hash h ! bucket_of h n"
  have wf: "nv_wf h" using assms by (simp add: nv_weak_def)
  then have "?c \<in> set (nvram_hash h)" by (simp add: nv_wf_def)
  have "set (concat ((nvram_hash h)[bucket_of h n := chain_unlink n ?c])) \<subseteq> set (concat (nvram_hash h))"
    using set_update_subset_insert [of "nvram_hash h" "bucket_of h n" "chain_unlink n ?c"]
      chain_unlink_subset [of n ?c] \<open>?c \<in> set (nvram_hash h)\<close> by fastforce
  then have sub: "set (nv_tuples (nv_del n h)) \<subseteq> set (nv_tuples h)"
    by (auto simp: nv_unset_eq [OF wf] nv_del_def nv_tuples_def split: option.splits)
  have run: "nvram_unset h (Some n) = Some (0, nv_del n h)" "same_place h (nv_del n h)"
    "nv_weak (nv_del n h)"
    using nv_wf_del [OF wf, of n] assms sub
    by (auto simp: nv_unset_eq [OF wf] nv_del_def nv_weak_def same_place_def split: option.splits)
  then show ?thesis using sub by (auto simp: nv_lost_def)
qed

lemma commit_ready:
  assumes "nv_ready h"
  shows "\<exists>ret h'. nvram_commit h = Some (ret, h') \<and> nv_ready h' \<and> same_place h h'"
proof -
  obtain h' where h': "nvram_commit h = Some (0, h')" "nv_wf h'" "same_part (h\<lparr>h_mmap := h_mmap h'\<rparr>) h'"
    "committed h (h_mmap h')" by (rule commit_spec [OF assms]) (rule that)
  obtain m where m: "nvram_commit h = nvram_rehash (h\<lparr>h_mmap := m\<rparr>)" "committed h m" by (rule commit_body [OF assms])
  obtain rest where data: "drop (unat (h_offset h) + 20) m = ser (kept_tuples h) @ 0 # rest"
    using m(2) by (auto simp: committed_def)
  note r = assms [unfolded nv_ready_def]
  have "tuples_ok h'"
  proof (rule rehash_tuples_ok [OF h'(1) [unfolded m(1)], of "kept_tuples h" rest])
    show "length (ser (kept_tuples h)) + 22 \<le> nv_room (h\<lparr>h_mmap := m\<rparr>)"
      using r kept_tuples_room [OF assms] by (simp add: nv_room_def unat_sub_le unat_le)
  qed (use r data kept_tuples_ok [OF assms] in \<open>simp_all add: nv_wf_def\<close>)
  moreover have "length (h_mmap h') = length (h_mmap h)" using h'(4) by (simp add: committed_def)
  ultimately have "nv_ready h'" by (rule nv_ready_step [OF assms h'(2) _ h'(3)])
  moreover have "same_place h h'"
    using h'(4) same_part_fields [OF h'(3)] by (simp add: same_place_def committed_def)
  ultimately show ?thesis using h'(1) by blast
qed

text \<open>A commit needs every value; every other step is defined, whatever was lost.\<close>

lemma step_weak:
  assumes "nv_weak h" and "cmd_ok c" and "c = Cmd_commit \<Longrightarrow> nv_lost h = {}"
  shows "\<exists>h'. (\<forall>h''. nv_step h c h'' \<longleftrightarrow> h'' = h') \<and> nv_weak h' \<and> same_place h h' \<and> nv_lost h' \<subseteq> nv_lost h \<union> failed [c]"
proof (cases c)
  case (Cmd_set a n v)
  then show ?thesis using set_weak [OF assms(1), of n v a] assms(2) by (cases a) (auto simp: nv_step_simps)
next
  case (Cmd_unset n)
  then show ?thesis using unset_weak [OF assms(1), of n] by (auto simp: nv_step_simps)
next
  case Cmd_commit
  then show ?thesis
    using commit_ready [of h] assms by (auto simp: nv_step_simps nv_ready_weak)
qed

text \<open>The first commit, if any, of a table in which a value is lost.\<close>

definition lossy_commit :: "nvram_handle \<Rightarrow> nv_cmd list \<Rightarrow> u8 list set \<Rightarrow> bool" where
  "lossy_commit h cs ns \<longleftrightarrow> (\<exists>cs1 cs2 h1. cs = cs1 @ Cmd_commit # cs2 \<and> nv_run h cs1 h1 \<and>
     nv_weak h1 \<and> nv_lost h1 \<noteq> {} \<and> nv_lost h1 \<subseteq> ns \<union> failed cs1)"

lemma run_weak:
  assumes "nv_weak h" and "list_all cmd_ok cs"
  shows "(\<exists>h'. (\<forall>h''. nv_run h cs h'' \<longleftrightarrow> h'' = h') \<and> nv_weak h' \<and> same_place h h' \<and>
      nv_lost h' \<subseteq> nv_lost h \<union> failed cs) \<or> lossy_commit h cs (nv_lost h)"
  using assms
proof (induction cs arbitrary: h)
  case Nil
  then show ?case by (auto simp: nv_run_simps)
next
  case (Cons c cs)
  have fail: "failed (c # ds) = failed [c] \<union> failed ds" for ds by (auto simp: failed_def)
  show ?case
  proof (cases "c = Cmd_commit \<and> nv_lost h \<noteq> {}")
    case True
    then have "lossy_commit h (c # cs) (nv_lost h)" unfolding lossy_commit_def
      using Cons.prems(1) by (intro exI [of _ "[]"] exI [of _ cs] exI [of _ h]) (simp add: nv_run_simps)
    then show ?thesis by blast
  next
    case False
    then obtain h1 where h1: "\<And>h''. nv_step h c h'' \<longleftrightarrow> h'' = h1" "nv_weak h1" "same_place h h1"
      "nv_lost h1 \<subseteq> nv_lost h \<union> failed [c]"
      using step_weak [OF Cons.prems(1), of c] Cons.prems(2) by auto
    then have run: "nv_run h (c # ds) h'' \<longleftrightarrow> nv_run h1 ds h''" for ds h'' by (simp add: nv_run_simps)
    from Cons.prems(2) have "list_all cmd_ok cs" by simp
    from Cons.IH [OF h1(2) this] show ?thesis
    proof (elim disjE exE conjE)
      fix h2 assume h2: "\<forall>h''. nv_run h1 cs h'' \<longleftrightarrow> h'' = h2" "nv_weak h2" "same_place h1 h2"
        "nv_lost h2 \<subseteq> nv_lost h1 \<union> failed cs"
      have "nv_lost h2 \<subseteq> nv_lost h \<union> failed (c # cs)"
        using h1(4) h2(4) unfolding fail [of cs] by blast
      then show ?thesis
        using h2 same_place_trans [OF h1(3)] by (intro disjI1 exI [of _ h2]) (simp add: run)
    next
      assume "lossy_commit h1 cs (nv_lost h1)"
      then obtain cs1 cs2 h2 where h2: "cs = cs1 @ Cmd_commit # cs2" "nv_run h1 cs1 h2" "nv_weak h2"
        "nv_lost h2 \<noteq> {}" "nv_lost h2 \<subseteq> nv_lost h1 \<union> failed cs1" unfolding lossy_commit_def by blast
      have "nv_lost h2 \<subseteq> nv_lost h \<union> failed (c # cs1)"
        using h1(4) h2(5) unfolding fail [of cs1] by blast
      then have "lossy_commit h (c # cs) (nv_lost h)" unfolding lossy_commit_def
        using h2 by (intro exI [of _ "c # cs1"] exI [of _ cs2] exI [of _ h2]) (simp add: run)
      then show ?thesis by blast
    qed
  qed
qed

end
