(* ===== verification/Nvram_Theorems.thy ===== *)
theory Nvram_Theorems
  imports Nvram_Session
begin

text \<open>
  The properties of the \<open>nvram\<close> utility, each with its instance on a small partition.
\<close>

section \<open>Tuples that were written\<close>

lemma kept_chain_size: "t \<in> set (kept_chain lim ts p) \<Longrightarrow> p + length (ser1 t) \<le> lim"
  by (induction lim ts p rule: kept_chain.induct) (auto split: if_splits)

lemma kept_size: "t \<in> set (kept lim cs p) \<Longrightarrow> p + length (ser1 t) \<le> lim"
  by (induction lim cs p rule: kept.induct) (auto dest: kept_chain_size)

lemma kept_tuples_size:
  "t \<in> set (kept_tuples h) \<Longrightarrow> unat (h_offset h) + 20 + length (ser1 t) \<le> unat (nvram_part_size h) - 2"
  unfolding kept_tuples_def by (drule kept_size) simp

lemma kept_tuples_map:
  assumes "nv_wf h" and "(k, v) \<in> set (kvs (kept_tuples h))" and "\<forall>t \<in> set (nv_tuples h). tuple_ok t"
  shows "nv_map h k = Some v"
proof -
  obtain t where t: "t \<in> set (kept_tuples h)" "k = tname t" "v = the (tvalue t)"
    using assms(2) by (auto simp: kvs_def)
  then have "t \<in> set (nv_tuples h)" using kept_tuples_subseq [of h] by (auto dest: list_emb_set)
  then have "t \<in> set (concat (nvram_hash h))" "tvalue t = Some v"
    using assms(3) t(3) by (auto simp: nv_tuples_def tuple_ok_def)
  then show ?thesis using nv_map_tuple [OF assms(1), of k v] t(2) by blast
qed

section \<open>A small partition\<close>

text \<open>
  A partition of 64 bytes with the header at its start and an empty table.
\<close>

definition sample_hdr :: nvram_hdr where
  "sample_hdr = \<lparr>nh_magic = NVRAM_MAGIC, nh_len = 24, crc_ver_init = 0x419010B,
     config_refresh = 0x80400062, config_ncdl = 7\<rparr>"

definition sample_nv :: nvram_handle where
  "sample_nv = \<lparr>h_mmap = nv_header_bytes sample_hdr @ replicate 44 0,
     h_length = 64, h_offset = 0, nvram_hash = replicate NVRAM_BUCKETS [], nvram_dead = [],
     char_val = ucast, h_addr = 0x2A000000, nvram_part_size = 64\<rparr>"

lemma sample_nv_ready: "nv_ready sample_nv"
  by (simp add: nv_ready_def sample_nv_def nv_wf_def nv_tuples_def)

lemma sample_nv_found: "found_at sample_nv"
  unfolding found_at_def
  by (subst find_magic.simps)
    (simp add: sample_nv_def buf_get_def le_val_header_magic [unfolded take_append] sample_hdr_def)

definition sample_var :: nvram_handle where
  "sample_var = nv_put (cstr ''lan'') (cstr ''br0'') sample_nv"

lemma cstr_bytes: "cstr ''lan'' = [0x6C, 0x61, 0x6E]" "cstr ''br0'' = [0x62, 0x72, 0x30]"
  by (simp_all add: cstr_def)

lemma sample_var_ready: "nv_ready sample_var"
  unfolding sample_var_def
  by (rule nv_ready_put [OF sample_nv_ready]) (simp add: tuple_ok_def cstr_bytes)

lemma sample_var_map: "nv_map sample_var = (Map.empty)(cstr ''lan'' \<mapsto> cstr ''br0'')"
proof -
  have "nv_map sample_nv m = None" for m by (simp add: nv_map_def sample_nv_def)
  moreover have "nv_wf sample_nv" using sample_nv_ready by (simp add: nv_ready_def)
  ultimately show ?thesis by (auto simp: sample_var_def nv_get_put)
qed

lemma concat_single: "i < k \<Longrightarrow> concat ((replicate k [])[i := c]) = c"
  by (simp add: upd_conv_take_nth_drop)

lemma sample_tuples: "nv_tuples (nv_put n v sample_nv) = [\<lparr>tname = n, tvalue = Some v\<rparr>]"
proof -
  let ?i = "bucket_of sample_nv n"
  have h: "nvram_hash sample_nv = replicate NVRAM_BUCKETS []" by (simp only: sample_nv_def nvram_handle.select_convs)
  have e: "nvram_hash sample_nv ! ?i = []" unfolding h by (rule nth_replicate [OF bucket_bound])
  have sel: "nvram_hash (h\<lparr>nvram_hash := x\<rparr>) = x" for h x by simp
  have "nvram_hash (nv_put n v sample_nv) = (replicate NVRAM_BUCKETS [])[?i := [\<lparr>tname = n, tvalue = Some v\<rparr>]]"
    unfolding nv_put_def Let_def e by (simp only: chain_find.simps option.case sel h)
  then show ?thesis unfolding nv_tuples_def by (simp only: concat_single [OF bucket_bound])
qed

lemma sample_put_fields: "h_offset (nv_put n v sample_nv) = 0" "nvram_part_size (nv_put n v sample_nv) = 64"
  by (simp_all add: nv_put_def sample_nv_def)

section \<open>The checksum\<close>

lemma hndcrc8_short: "length bs < n \<Longrightarrow> hndcrc8 bs n c = None"
  by (induction bs n c rule: hndcrc8.induct) (auto simp: arr_get_def unat_u8_bound)

text \<open>
  C37: The table-driven \<open>hndcrc8\<close> computes the CRC-8 of the reflected polynomial
  \<open>x\<^sup>8 + x\<^sup>7 + x\<^sup>6 + x\<^sup>4 + x\<^sup>2 + 1\<close> bit by bit over the first \<open>nbytes\<close> bytes, whatever the start value; it
  has no defined result exactly when it is given fewer bytes than that.
\<close>

theorem hndcrc8_polynomial:
  "hndcrc8 pdata nbytes crc =
     (if nbytes \<le> length pdata then Some (crc8_bits (take nbytes pdata) crc) else None)"
  by (simp add: hndcrc8_bits hndcrc8_short)

section \<open>The table\<close>

text \<open>
  C38: \<open>nvram_set\<close> on a consistent table. It succeeds when the value with its terminator is no
  longer than the room behind the header and no allocation fails, or the variable has this
  value already; then exactly this variable is changed. It returns \<open>-ENOMEM\<close> otherwise and no
  other variable is touched; the variable itself keeps its value, or loses it when \<open>realloc\<close>
  failed.
\<close>

theorem nvram_set_result:
  assumes "nv_wf h"
  shows "returns (nvram_set h alloc n v) (\<lambda>(ret, h'). nv_wf h' \<and>
    (if nv_fits h v \<and> (alloc \<or> nv_map h n = Some v) then ret = 0 \<and> nv_map h' = (nv_map h)(n \<mapsto> v)
     else ret = - 12 \<and> (nv_map h' = nv_map h \<or> nv_fits h v \<and> nv_map h' = (nv_map h)(n := None))))"
proof -
  let ?i = "bucket_of h n"
  let ?c = "nvram_hash h ! ?i"
  have b: "?i < length (nvram_hash h)" using assms by (simp add: nv_wf_def)
  note ch = nv_chain [OF assms, where n = n]
  have wf: "nv_wf (h\<lparr>nvram_hash := (nvram_hash h)[?i := chain_update n None ?c]\<rparr>)"
    by (rule nv_wf_put [OF assms]) (use ch in \<open>auto dest!: chain_tnames\<close>)
  have lost: "nv_map (h\<lparr>nvram_hash := (nvram_hash h)[?i := chain_update n None ?c]\<rparr>) = (nv_map h)(n := None)"
    if "chain_find n ?c = Some t" for t
  proof
    fix m
    show "nv_map (h\<lparr>nvram_hash := (nvram_hash h)[?i := chain_update n None ?c]\<rparr>) m = ((nv_map h)(n := None)) m"
      unfolding nv_map_put [OF assms] using that by (auto simp: chain_find_update nv_map_def)
  qed
  have put: "nv_map (nv_put n v h) = (nv_map h)(n \<mapsto> v)"
    using nv_get_put [OF assms] by (auto simp: fun_eq_iff)
  consider "\<not> nv_fits h v" | "nv_fits h v" alloc | "nv_fits h v" "\<not> alloc" by blast
  then show ?thesis
  proof cases
    case 1
    then show ?thesis using assms by (simp add: nv_set_too_long)
  next
    case 2
    then show ?thesis using assms put by (simp add: nv_set_fits nv_wf_put_wf)
  next
    case 3
    show ?thesis
    proof (cases "nv_map h n = Some v")
      case True
      then obtain t where t: "chain_find n ?c = Some t" "tvalue t = Some v"
        by (auto simp: nv_map_def bind_eq_Some_conv)
      have "nvram_set h alloc n v = Some (0, nv_put n v h)"
        using 3 t b by (simp add: nvram_set_def nvram_realloc_def arr_get_def arr_set_def nv_fits_def
            nv_room_def nv_put_def Let_def)
      then show ?thesis using 3 True put assms by (simp add: nv_wf_put_wf)
    next
      case False
      then show ?thesis
      proof (cases "chain_find n ?c")
        case None
        then have "nvram_set h alloc n v = Some (- 12, h)"
          using 3 b by (simp add: nvram_set_def nvram_realloc_def arr_get_def arr_set_def nv_fits_def
              nv_room_def Let_def)
        then show ?thesis using 3 False assms by simp
      next
        case (Some t)
        then have "nvram_set h alloc n v =
            Some (- 12, h\<lparr>nvram_hash := (nvram_hash h)[?i := chain_update n None ?c]\<rparr>)"
          using 3 b False by (simp add: nvram_set_def nvram_realloc_def arr_get_def arr_set_def nv_fits_def
              nv_room_def nv_map_def Let_def)
        then show ?thesis using 3 False wf lost [OF Some] by simp
      qed
    qed
  qed
qed

theorem nvram_set_result_witness:
  "returns (nvram_set sample_var False (cstr ''lan'') (cstr ''eth0'')) (\<lambda>(ret, h'). nv_wf h' \<and> ret = - 12)"
proof -
  have wf: "nv_wf sample_var" using sample_var_ready by (simp add: nv_ready_def)
  have "nv_map sample_var (cstr ''lan'') \<noteq> Some (cstr ''eth0'')" by (simp add: sample_var_map cstr_def)
  then show ?thesis
    by (intro returns_mono [OF nvram_set_result [OF wf]]) (auto split: if_splits)
qed

text \<open>
  \<open>nvram_unset\<close> of a name on a consistent table returns 0 and removes exactly this variable;
  a missing one is no error and changes nothing.
\<close>

lemma nvram_unset_result:
  assumes "nv_wf h"
  shows "returns (nvram_unset h (Some n)) (\<lambda>(ret, h'). ret = 0 \<and> nv_wf h' \<and>
    nv_map h' = (nv_map h)(n := None) \<and> (n \<notin> tname ` set (nv_tuples h) \<longrightarrow> h' = h))"
proof -
  let ?c = "nvram_hash h ! bucket_of h n"
  have run: "nvram_unset h (Some n) = Some (0, nv_del n h)"
    by (auto simp: nv_unset_eq [OF assms] nv_del_def split: option.splits)
  have mem: "?c \<in> set (nvram_hash h)" using assms by (simp add: nv_wf_def)
  have "nv_del n h = h" if "n \<notin> tname ` set (nv_tuples h)"
  proof -
    have "chain_find n ?c = None"
      using that mem unfolding chain_find_None nv_tuples_def by auto
    then show ?thesis by (simp add: nv_del_def nv_unset_eq [OF assms])
  qed
  then show ?thesis using nv_wf_del [OF assms] nv_get_del [OF assms] by (auto simp: run fun_eq_iff)
qed

text \<open>
  C29: A sequence of \<open>nvram_set\<close>, \<open>nvram_unset\<close> and \<open>nvram_commit\<close> on a handle that can be
  committed, with names and values that are strings and names without \<open>=\<close>; the allocations of each
  \<open>nvram_set\<close> succeed or fail as its flag says, those inside a rehash are taken to succeed. When
  none fails the sequence has exactly one outcome (no operation accesses anything outside the
  table and the mapping), and the outcome can be committed again: every variable is in its own
  bucket and only once, has a value, and the mapping, the place of the header and the bytes before
  it are as before. When some fail this still holds, except that variables whose \<open>nvram_set\<close> failed
  may have lost their value, unless the sequence commits a table in which such a value is missing,
  where \<open>nvram_commit\<close> may read through the \<open>NULL\<close> pointer.
\<close>

theorem nvram_session:
  assumes "nv_ready h" and "list_all cmd_ok cs"
  shows "if failed cs = {} then \<exists>h'. (\<forall>h''. nv_run h cs h'' \<longleftrightarrow> h'' = h') \<and> nv_ready h' \<and> same_place h h'
    else (\<exists>h'. (\<forall>h''. nv_run h cs h'' \<longleftrightarrow> h'' = h') \<and> nv_weak h' \<and> same_place h h' \<and>
           nv_lost h' \<subseteq> failed cs \<and> (nv_ready h' \<longleftrightarrow> nv_lost h' = {})) \<or>
         (\<exists>cs1 cs2 h1. cs = cs1 @ Cmd_commit # cs2 \<and> nv_run h cs1 h1 \<and> nv_weak h1 \<and>
           nv_lost h1 \<noteq> {} \<and> nv_lost h1 \<subseteq> failed cs1)"
proof -
  have h: "nv_weak h" "nv_lost h = {}" using assms(1) by (simp_all add: nv_ready_weak)
  have sub: "failed cs1 \<subseteq> failed cs" if "cs = cs1 @ Cmd_commit # cs2" for cs1 cs2
    using that by (auto simp: failed_def)
  have "(\<exists>h'. (\<forall>h''. nv_run h cs h'' \<longleftrightarrow> h'' = h') \<and> nv_weak h' \<and> same_place h h' \<and> nv_lost h' \<subseteq> failed cs) \<or>
      lossy_commit h cs {}"
    using run_weak [OF h(1) assms(2)] by (simp only: h(2) Un_empty_left)
  then show ?thesis
  proof
    assume "lossy_commit h cs {}"
    moreover from this have "failed cs \<noteq> {}" using sub by (force simp: lossy_commit_def)
    ultimately show ?thesis by (simp add: lossy_commit_def)
  qed (auto simp: nv_ready_weak)
qed

theorem nvram_session_witness:
  "(\<exists>h'. nv_run sample_nv [Cmd_set True (cstr ''lan'') (cstr ''br0''), Cmd_commit, Cmd_unset (cstr ''lan''), Cmd_commit] h' \<and>
      nv_ready h' \<and> same_place sample_nv h') \<and>
    (\<exists>h'. nv_run sample_var [Cmd_set False (cstr ''lan'') (cstr ''lo''), Cmd_set True (cstr ''lan'') (cstr ''br0'')] h' \<and>
      nv_weak h' \<and> nv_lost h' \<subseteq> {cstr ''lan''})"
proof -
  have no: "[Cmd_set False (cstr ''lan'') (cstr ''lo''), Cmd_set True (cstr ''lan'') (cstr ''br0'')] \<noteq>
      cs1 @ Cmd_commit # cs2" for cs1 cs2
    by (auto simp: Cons_eq_append_conv)
  have ok: "tuple_ok \<lparr>tname = cstr ''lan'', tvalue = Some (cstr v)\<rparr>" if "v \<in> {''br0'', ''lo''}" for v
    using that by (auto simp: tuple_ok_def cstr_def)
  show ?thesis
    using nvram_session [OF sample_nv_ready, of "[Cmd_set True (cstr ''lan'') (cstr ''br0''), Cmd_commit,
          Cmd_unset (cstr ''lan''), Cmd_commit]"]
      nvram_session [OF sample_var_ready, of "[Cmd_set False (cstr ''lan'') (cstr ''lo''),
          Cmd_set True (cstr ''lan'') (cstr ''br0'')]"]
    by (simp add: ok no) blast
qed

text \<open>
  The exception is real: a variable set to another value while the allocation fails, and then a
  commit, which takes the length of the \<open>NULL\<close> value.
\<close>

lemma commit_tuples_lost:
  "tvalue t = None \<Longrightarrow> commit_tuples lim (replicate k [] @ (t # ts) # cs) m p = None"
  by (induction k) simp_all

lemma commit_after_failed_set:
  "returns (nvram_set sample_var False (cstr ''lan'') (cstr ''lo'')) (\<lambda>(ret, h). ret = - 12 \<and> nvram_commit h = None)"
proof -
  let ?n = "cstr ''lan''"
  let ?t = "\<lparr>tname = ?n, tvalue = Some (cstr ''br0'')\<rparr>" and ?i = "bucket_of sample_nv ?n"
  have "nvram_hash sample_nv = replicate NVRAM_BUCKETS []" by (simp only: sample_nv_def nvram_handle.select_convs)
  then have hash: "nvram_hash sample_var = replicate ?i [] @ [?t] # replicate (256 - ?i) []"
    and bucket: "bucket_of sample_var ?n = ?i"
    using bucket_bound [of sample_nv ?n]
    by (simp_all add: sample_var_def nv_put_def upd_conv_take_nth_drop del: bucket_bound)
  have wf: "nv_wf sample_var" using sample_var_ready by (simp add: nv_ready_def)
  have fits: "nv_fits sample_var (cstr ''lo'')"
    by (simp add: nv_fits_def nv_room_def sample_var_def nv_put_def sample_nv_def cstr_def)
  have chain: "nvram_hash sample_var ! bucket_of sample_var ?n = [?t]"
    by (simp add: bucket hash nth_append)
  let ?h = "sample_var\<lparr>nvram_hash := replicate ?i [] @ [?t\<lparr>tvalue := None\<rparr>] # replicate (256 - ?i) []\<rparr>"
  have "cstr ''br0'' \<noteq> cstr ''lo''" by (simp add: cstr_def)
  then have "nvram_set sample_var False ?n (cstr ''lo'') = Some (- 12, ?h)"
    unfolding set_failing [OF wf fits refl] chain by (simp add: bucket hash list_update_append del: cstr_bytes)
  moreover have "nvram_commit ?h = None"
    by (simp add: nvram_commit_def Let_def commit_tuples_lost)
  ultimately show ?thesis by simp
qed

section \<open>The commit\<close>

text \<open>
  \<open>nvram_commit\<close> ends with status 0 and a consistent table that has exactly the variables
  that were written, besides the \<open>sdram_\<close> ones that it adds: the tuples that fit the partition,
  in the order of the buckets. No byte outside the mapping is accessed.
\<close>

theorem commit_keeps_fitting:
  assumes "nv_ready h"
  shows "returns (nvram_commit h) (\<lambda>(ret, h'). ret = 0 \<and> nv_wf h' \<and> committed h (h_mmap h') \<and>
    (\<forall>n. n \<notin> set sdram_names \<or> map_of (kvs (kept_tuples h)) n \<noteq> None \<longrightarrow>
       nv_map h' n = map_of (kvs (kept_tuples h)) n))"
  by (rule commit_spec [OF assms]) simp

theorem commit_keeps_fitting_witness:
  "returns (nvram_commit sample_var) (\<lambda>(ret, h'). ret = 0 \<and> committed sample_var (h_mmap h'))"
  by (rule returns_mono [OF commit_keeps_fitting [OF sample_var_ready]]) auto

text \<open>
  C28: When all variables fit behind the header, a commit keeps every one of them: what is read
  back from the partition is the table that was written.
\<close>

theorem commit_keeps_variables:
  assumes "nv_ready h"
    and "unat (h_offset h) + 22 + length (ser (nv_tuples h)) \<le> unat (nvram_part_size h)"
  shows "returns (nvram_commit h) (\<lambda>(ret, h'). ret = 0 \<and> nv_wf h' \<and>
    (\<forall>n. n \<notin> set sdram_names \<or> nv_map h n \<noteq> None \<longrightarrow> nv_map h' n = nv_map h n))"
proof -
  have "map_of (kvs (kept_tuples h)) n = nv_map h n" for n
    unfolding kept_tuples_all [OF assms(2)]
    by (rule map_of_tuples) (use assms(1) in \<open>auto simp: nv_ready_def tuple_ok_def\<close>)
  then show ?thesis by - (rule commit_spec [OF assms(1)], simp)
qed

theorem commit_keeps_variables_witness:
  "returns (nvram_commit sample_var) (\<lambda>(ret, h'). ret = 0 \<and> nv_map h' (cstr ''lan'') = Some (cstr ''br0''))"
proof -
  have "unat (h_offset sample_var) + 22 + length (ser (nv_tuples sample_var)) \<le> unat (nvram_part_size sample_var)"
    by (simp add: sample_var_def sample_put_fields sample_tuples ser1_def cstr_bytes)
  from commit_keeps_variables [OF sample_var_ready this] show ?thesis
    by (rule returns_mono) (auto simp: sample_var_map)
qed

text \<open>
  The checksum is valid after a commit: \<open>nvram info\<close> then prints the same stored and computed
  checksum, and the length that the header records is a multiple of four within the partition.
\<close>

theorem commit_checksum:
  assumes "nv_ready h"
  shows "returns (do { (ret, h) \<leftarrow> nvram_commit h; do_info h })
    (\<lambda>(ret, out). ret = 0 \<and> (\<exists>len crc rest.
       out = [Info ([NVRAM_MAGIC, len, h_offset h, crc, crc] @ rest)] \<and> 4 dvd unat len \<and>
       unat (h_offset h) + unat len \<le> unat (nvram_part_size h)))"
proof -
  obtain h' where run: "nvram_commit h = Some (0, h')" and c: "committed h (h_mmap h')"
    and sp: "same_part (h\<lparr>h_mmap := h_mmap h'\<rparr>) h'"
    by (rule commit_spec [OF assms])
  have off: "h_offset h' = h_offset h" using same_part_fields [OF sp] by simp
  obtain g where g: "buf_get (h_mmap h') (unat (h_offset h)) 20 = Some (nv_header_bytes g)"
    "nh_magic g = NVRAM_MAGIC" "nh_len g = of_nat (commit_len h)"
    using c by (auto simp: committed_def)
  obtain k where crc: "hndcrc8 (drop (unat (h_offset h) + 9) (h_mmap h')) (unat (nh_len g - of_nat 9)) 0xFF = Some k"
    "crc_ver_init g AND 0xFF = ucast k"
    using c g(1) by (auto simp: committed_def crc_valid_def nv_header_of_bytes)
  have hdr: "nvram_header h' = Some g" using g(1) by (simp add: nvram_header_def off nv_header_of_bytes)
  have len: "unat (nh_len g) = commit_len h" using commit_len_fits(3) [OF assms refl] by (simp add: g(3))
  have "4 dvd commit_len h" by (simp add: commit_len_def)
  moreover have "unat (h_offset h) + commit_len h \<le> unat (nvram_part_size h)"
    using commit_len_fits(2) [OF assms refl] assms unfolding nv_ready_def by linarith
  ultimately show ?thesis
    using crc by (simp add: run do_info_def hdr off len g(2))
qed

theorem commit_checksum_witness:
  "returns (do { (ret, h) \<leftarrow> nvram_commit sample_var; do_info h }) (\<lambda>(ret, out). ret = 0)"
  by (rule returns_mono [OF commit_checksum [OF sample_var_ready]]) auto

text \<open>
  C30: A later program that opens the partition after a commit finds the header where it was and
  the variables that were written. It can always read it; a program that wants to write gets
  the handle exactly when the data do not reach the end of the partition.
\<close>

theorem reopen_after_commit:
  assumes "nv_ready h" and "found_at h"
  shows "returns (do { (ret, h') \<leftarrow> nvram_commit h;
       nvram_open (h_mmap h') (nvram_part_size h) addr cv True rdonly })
    (\<lambda>r. if rdonly \<or> commit_len h < unat (nvram_part_size h) - unat (h_offset h)
      then \<exists>h2. r = Some h2 \<and> nv_wf h2 \<and>
        (\<forall>n. n \<notin> set sdram_names \<or> map_of (kvs (kept_tuples h)) n \<noteq> None \<longrightarrow>
           nv_map h2 n = map_of (kvs (kept_tuples h)) n)
      else r = None)"
proof -
  obtain h' where run: "nvram_commit h = Some (0, h')" and c: "committed h (h_mmap h')"
    by (rule commit_spec [OF assms(1)])
  obtain h2 where "nvram_open (h_mmap h') (nvram_part_size h) addr cv True rdonly =
      Some (if rdonly \<or> commit_len h < unat (nvram_part_size h) - unat (h_offset h) then Some h2 else None)"
    "nv_wf h2"
    "\<And>n. n \<notin> set sdram_names \<or> map_of (kvs (kept_tuples h)) n \<noteq> None \<Longrightarrow>
       nv_map h2 n = map_of (kvs (kept_tuples h)) n"
    by (rule open_committed [OF assms c]) (rule that)
  then show ?thesis by (simp add: run)
qed

lemma found_put: "found_at (nv_put n v h) = found_at h"
  by (simp add: found_at_def nv_put_def)

theorem reopen_after_commit_witness:
  "returns (do { (ret, h') \<leftarrow> nvram_commit sample_var; nvram_open (h_mmap h') 64 0x2A000000 ucast True False })
    (\<lambda>r. r \<noteq> None)"
proof -
  have f: "found_at sample_var" by (simp add: sample_var_def found_put sample_nv_found)
  have k: "kept_tuples sample_var = nv_tuples sample_var"
    by (rule kept_tuples_all)
      (simp add: sample_var_def sample_put_fields sample_tuples ser1_def cstr_bytes)
  have l: "commit_len sample_var < 64 - 0"
    by (simp add: commit_len_def k) (simp add: sample_var_def sample_tuples ser1_def cstr_bytes)
  have p: "nvram_part_size sample_var = 64" "h_offset sample_var = 0"
    by (simp_all add: sample_var_def sample_put_fields)
  show ?thesis
    by (rule returns_mono [OF reopen_after_commit [OF sample_var_ready f, unfolded p]])
      (use l in auto)
qed

text \<open>
  A variable may be accepted and then silently lost. \<open>nvram_set\<close> accepts any value shorter
  than the room behind the header; when the variable with its name, the equals sign, its
  terminator and the final bytes is longer than the data area, \<open>nvram_commit\<close> still returns 0
  and the variable is gone.
\<close>

theorem oversized_variable_lost:
  assumes "nv_ready h" and "tuple_ok \<lparr>tname = n, tvalue = Some v\<rparr>" and "n \<notin> set sdram_names"
    and "length v < unat (nvram_part_size h) - unat (h_offset h)"
    and "unat (nvram_part_size h) - unat (h_offset h) < length n + length v + 24"
  shows "returns (do { (a, h) \<leftarrow> nvram_set h True n v; (b, h) \<leftarrow> nvram_commit h; Some (a, b, h) })
    (\<lambda>(a, b, h'). a = 0 \<and> b = 0 \<and> nv_map h' n = None)"
proof -
  let ?h = "nv_put n v h"
  note r = assms(1) [unfolded nv_ready_def]
  have wf: "nv_wf h" using r by simp
  have ready: "nv_ready ?h" by (rule nv_ready_put [OF assms(1,2)])
  have "nv_fits h v"
    using assms(4) r by (simp add: nv_fits_def nv_room_def unat_sub_le unat_le)
  then have set_: "nvram_set h True n v = Some (0, ?h)" by (rule nv_set_fits [OF wf])
  have "n \<notin> fst ` set (kvs (kept_tuples ?h))"
  proof
    assume "n \<in> fst ` set (kvs (kept_tuples ?h))"
    then obtain t where t: "t \<in> set (kept_tuples ?h)" "tname t = n" by (auto simp: kvs_def)
    then have "(n, the (tvalue t)) \<in> set (kvs (kept_tuples ?h))" by (force simp: kvs_def)
    then have "nv_map ?h n = Some (the (tvalue t))"
      using ready by (intro kept_tuples_map) (auto simp: nv_ready_def)
    then have "the (tvalue t) = v" using nv_get_put [OF wf] by simp
    then show False
      using kept_tuples_size [OF t(1)] t(2) assms(5) r by (simp add: nv_put_def length_ser1)
  qed
  then have none: "map_of (kvs (kept_tuples ?h)) n = None" by (simp add: map_of_eq_None_iff)
  obtain h' where "nvram_commit ?h = Some (0, h')" "nv_map h' n = map_of (kvs (kept_tuples ?h)) n"
    by (rule commit_spec [OF ready]) (use assms(3) in blast)
  then show ?thesis by (simp add: set_ none)
qed

theorem oversized_variable_lost_witness:
  "returns (do { (a, h) \<leftarrow> nvram_set sample_nv True (cstr ''lan'') (replicate 50 0x61);
       (b, h) \<leftarrow> nvram_commit h; Some (a, b, h) })
    (\<lambda>(a, b, h'). a = 0 \<and> b = 0 \<and> nv_map h' (cstr ''lan'') = None)"
proof (rule oversized_variable_lost [OF sample_nv_ready])
  show "tuple_ok \<lparr>tname = cstr ''lan'', tvalue = Some (replicate 50 0x61)\<rparr>"
    by (simp add: tuple_ok_def cstr_bytes)
  show "cstr ''lan'' \<notin> set sdram_names" by (simp add: sdram_names_def cstr_def)
qed (simp_all add: sample_nv_def cstr_bytes)

text \<open>
  A commit can leave a partition that no later program can change: when the written data
  with the terminator and its padding reach the end of the partition, \<open>nvram_open\<close> refuses it for
  writing, since it wants the recorded length below the room, while the commit itself has
  accepted it and returned 0.
\<close>

theorem full_partition_not_writable:
  assumes "nv_ready h" and "found_at h"
    and "unat (nvram_part_size h) - unat (h_offset h) \<le> length (ser (kept_tuples h)) + 25"
  shows "returns (do { (ret, h') \<leftarrow> nvram_commit h;
       r \<leftarrow> nvram_open (h_mmap h') (nvram_part_size h) addr cv True False; Some (ret, r) })
    (\<lambda>(ret, r). ret = 0 \<and> r = None)"
proof -
  have "4 dvd unat (nvram_part_size h) - unat (h_offset h)"
    by (rule dvd_diff_nat) (use assms(1) in \<open>simp_all add: nv_ready_def\<close>)
  then obtain k where k: "unat (nvram_part_size h) - unat (h_offset h) = 4 * k" by (elim dvdE)
  have "4 * k \<le> length (ser (kept_tuples h)) + 25" using assms(3) k by simp
  then have "k \<le> (length (ser (kept_tuples h)) + 25) div 4" by (simp add: less_eq_div_iff_mult_less_eq)
  then have full: "\<not> commit_len h < unat (nvram_part_size h) - unat (h_offset h)"
    by (simp add: commit_len_def k)
  obtain h' where run: "nvram_commit h = Some (0, h')" and c: "committed h (h_mmap h')"
    by (rule commit_spec [OF assms(1)])
  obtain h2 where "nvram_open (h_mmap h') (nvram_part_size h) addr cv True False =
      Some (if False \<or> commit_len h < unat (nvram_part_size h) - unat (h_offset h) then Some h2 else None)"
    by (rule open_committed [OF assms(1,2) c, of addr cv False]) (rule that)
  then show ?thesis using full by (simp add: run)
qed

lemma sample_put_ready:
  assumes "0 \<notin> set v"
  shows "nv_ready (nv_put (cstr ''lan'') v sample_nv)"
  by (rule nv_ready_put [OF sample_nv_ready]) (use assms in \<open>simp add: tuple_ok_def cstr_bytes\<close>)

theorem full_partition_not_writable_witness:
  "returns (do { (ret, h') \<leftarrow> nvram_commit (nv_put (cstr ''lan'') (replicate 36 0x61) sample_nv);
       r \<leftarrow> nvram_open (h_mmap h') 64 0x2A000000 ucast True False; Some (ret, r) })
    (\<lambda>(ret, r). ret = 0 \<and> r = None)"
proof -
  let ?h = "nv_put (cstr ''lan'') (replicate 36 0x61) sample_nv"
  have r: "nv_ready ?h" by (rule sample_put_ready) simp
  have f: "found_at ?h" by (simp add: found_put sample_nv_found)
  have "kept_tuples ?h = nv_tuples ?h"
    by (rule kept_tuples_all) (simp add: sample_put_fields sample_tuples ser1_def cstr_bytes)
  then have "unat (nvram_part_size ?h) - unat (h_offset ?h) \<le> length (ser (kept_tuples ?h)) + 25"
    by (simp add: sample_put_fields sample_tuples ser1_def cstr_bytes)
  from full_partition_not_writable [OF r f this, of "0x2A000000" ucast] show ?thesis
    by (simp only: sample_put_fields)
qed

text \<open>
  \<open>nvram_commit\<close> pads the data with zero bytes up to the next word when the end of the data
  lies below \<open>2 ^ 31\<close>. Above that \<open>(int)ptr % 4\<close> is negative and it pads up to the word after
  that one.
\<close>

theorem commit_pad_words:
  "unat p + commit_pad p =
     (if 4 dvd unat p then unat p
      else (unat p div 4 + (if unat p < 2 ^ 31 then 1 else 2)) * 4)"
proof -
  define a b where "a = unat p div 4" and "b = unat p mod 4"
  have u: "unat p = 4 * a + b" and b: "b < 4" by (simp_all add: a_def b_def)
  have dvd: "4 dvd unat p \<longleftrightarrow> b = 0" by (simp add: b_def dvd_eq_mod_eq_0)
  show ?thesis
  proof (cases "unat p < 2 ^ 31")
    case True
    then have "sint p = int (unat p)" by (simp add: sint_small)
    then have "sint p = 4 * int a + int b" by (simp add: u)
    then have "commit_pad p = (if b = 0 then 0 else 4 - b)"
      using b by (auto simp: commit_pad_def Let_def)
    then show ?thesis using True b by (simp add: dvd a_def [symmetric]) (simp add: u)
  next
    case False
    have hi: "unat p < 2 ^ 32" using unat32_bound [of p] by simp
    have s: "sint p = int (unat p) - 2 ^ 32"
    proof -
      have "take_bit 32 (uint p) = take_bit 32 (uint p - 2 ^ 32)" by (simp add: take_bit_eq_mod)
      then have "signed_take_bit 31 (uint p) = signed_take_bit 31 (uint p - 2 ^ 32)"
        by (simp add: signed_take_bit_eq_iff_take_bit_eq)
      also have "\<dots> = uint p - 2 ^ 32"
      proof (rule signed_take_bit_int_eq_self)
        have "int (2 ^ 31) \<le> int (unat p)" "int (unat p) < int (2 ^ 32)"
          using False hi by (simp_all only: of_nat_le_iff of_nat_less_iff not_less)
        then show "- (2 ^ 31) \<le> uint p - 2 ^ 32" and "uint p - 2 ^ 32 < 2 ^ 31" by simp_all
      qed
      finally show ?thesis by (simp add: sint_uint)
    qed
    then have "- sint p = 4 * (2 ^ 30 - int a - 1) + (4 - int b)" by (simp add: u)
    then have m: "(- sint p) mod 4 = (4 - int b) mod 4" by (simp only: mod_mult_self4)
    have "int (unat p) < int (2 ^ 32)" using hi by (simp only: of_nat_less_iff)
    then have neg: "sint p < 0" using s by simp
    have "commit_pad p = (if b = 0 then 0 else 8 - b)"
    proof -
      from b consider "b = 0" | "b = 1" | "b = 2" | "b = 3" by linarith
      then show ?thesis by cases (use neg in \<open>simp_all add: commit_pad_def Let_def m\<close>)
    qed
    then show ?thesis using False b by (simp add: dvd a_def [symmetric]) (simp add: u)
  qed
qed

lemma halves_join: "((w AND 0xFFFF) AND 0xFFFF) OR push_bit 16 ((drop_bit 16 w AND 0xFFFF) AND 0xFFFF) = (w :: u32)"
proof -
  have m: "(0xFFFF :: u32) = mask 16" by (simp add: mask_eq_exp_minus_1)
  show ?thesis unfolding m
    by (rule bit_word_eqI) (auto simp: bit_simps dest: bit_imp_le_length)
qed

lemma upper_half: "drop_bit 16 (push_bit 8 NVRAM_VERSION OR push_bit 16 (drop_bit 16 w AND 0xFFFF)) = drop_bit 16 (w :: u32)"
proof -
  have m: "(0xFFFF :: u32) = mask 16" by (simp add: mask_eq_exp_minus_1)
  have v: "drop_bit 16 (push_bit 8 NVRAM_VERSION) = 0" by simp
  show ?thesis unfolding m drop_bit_or v
    by (rule bit_word_eqI) (auto simp: bit_simps dest: bit_imp_le_length)
qed

lemma unat_half: "unat (w AND 0xFFFF :: u32) < 16 ^ 4" "unat (drop_bit 16 (w :: u32)) < 16 ^ 4"
proof -
  have m: "(0xFFFF :: u32) = mask 16" by (simp add: mask_eq_exp_minus_1)
  have "unat (w AND mask 16) \<le> unat (mask 16 :: u32)"
    by (simp only: word_le_nat_alt [symmetric]) (rule word_and_le1)
  then show "unat (w AND 0xFFFF) < 16 ^ 4" unfolding m by (simp add: mask_eq_exp_minus_1)
  have "unat (drop_bit 16 w) = drop_bit 16 (unat w)"
    using unat32_bound [of w] by (simp add: unsigned_drop_bit_eq take_bit_nat_eq_self)
  then have "unat (drop_bit 16 w) = unat w div 2 ^ 16" by (simp add: drop_bit_eq_div)
  then show "unat (drop_bit 16 w) < 16 ^ 4"
    using unat32_bound [of w] by (simp add: less_mult_imp_div_less)
qed

text \<open>
  The SDRAM parameters in the header survive the next commit. On a partition whose data have no
  \<open>sdram_\<close> variables, \<open>_nvram_rehash\<close> adds them as hexadecimal text; the header that
  \<open>nvram_commit\<close> builds from this text has the same values again.
\<close>

theorem sdram_header_roundtrip:
  assumes "nv_wf h" and "nvram_header h = Some g"
    and "drop (unat (h_offset h) + NVRAM_HEADER_SIZE) (h_mmap h) = ser ts @ 0 # rest"
    and "\<forall>t \<in> set ts. tuple_ok t" and "distinct (map tname ts)"
    and "set sdram_names \<inter> tname ` set ts = {}" and "length (ser ts) + 22 \<le> nv_room h"
  shows "returns (do { (_, h') \<leftarrow> nvram_rehash h; commit_header h' g0 })
    (\<lambda>g'. drop_bit 16 (crc_ver_init g') = drop_bit 16 (crc_ver_init g) \<and>
       config_refresh g' = config_refresh g \<and> config_ncdl g' = config_ncdl g)"
proof -
  have hd: "buf_get (h_mmap h) (unat (h_offset h)) 20 \<noteq> None" using assms(2) by (auto simp: nvram_header_def)
  let ?a = "drop_bit 16 (crc_ver_init g)" and ?b = "config_refresh g AND 0xFFFF"
  let ?c = "drop_bit 16 (config_refresh g) AND 0xFFFF" and ?d = "config_ncdl g"
  obtain h' where run: "nvram_rehash h = Some (0, h')" and wf: "nv_wf h'"
    and mp: "nv_map h' = with_sdram ?a ?b ?c ?d (map_of (kvs ts))"
    by (rule rehash_spec [OF assms(1) hd assms(3,4,5,7)]) (use assms(2) in blast)
  have "\<forall>n \<in> set sdram_names. map_of (kvs ts) n = None"
    using assms(6) by (auto simp: map_of_eq_None_iff kvs_def)
  from with_sdram_new [OF this, of ?a ?b ?c ?d]
  have vals: "nv_map h' (cstr ''sdram_init'') = Some (fmt_hex 4 ?a)" "nv_map h' (cstr ''sdram_config'') = Some (fmt_hex 4 ?b)"
    "nv_map h' (cstr ''sdram_refresh'') = Some (fmt_hex 4 ?c)" "nv_map h' (cstr ''sdram_ncdl'') = Some (fmt_hex 8 ?d)"
    by (simp_all add: sdram_names_def mp)
  have nums: "strtoul (fmt_hex 4 ?a) = ?a" "strtoul (fmt_hex 4 ?b) = ?b" "strtoul (fmt_hex 4 ?c) = ?c"
    "strtoul (fmt_hex 8 ?d) = ?d"
    using unat_half unat32_bound [of ?d] by (intro strtoul_fmt_hex; simp)+
  have sel: "crc_ver_init (x\<lparr>config_refresh := r, config_ncdl := n\<rparr>) = crc_ver_init x"
    "crc_ver_init (x\<lparr>crc_ver_init := c\<rparr>) = c" "config_refresh (x\<lparr>config_refresh := r, config_ncdl := n\<rparr>) = r"
    "config_ncdl (x\<lparr>config_ncdl := n\<rparr>) = n" for x :: nvram_hdr and c r n
    by simp_all
  show ?thesis
    unfolding run Option.bind.simps prod.case commit_header_def Let_def nv_get [OF wf] vals option.case nums
    by (simp only: returns_def option.case sel halves_join upper_half simp_thms)
qed

theorem sdram_header_roundtrip_witness:
  "returns (do { (_, h') \<leftarrow> nvram_rehash sample_nv; commit_header h' sample_hdr })
    (\<lambda>g'. config_refresh g' = 0x80400062 \<and> config_ncdl g' = 7)"
proof -
  have wf: "nv_wf sample_nv" using sample_nv_ready by (simp add: nv_ready_def)
  have hdr: "nvram_header sample_nv = Some sample_hdr"
    by (simp add: nvram_header_def sample_nv_def buf_get_def nv_header_of_bytes)
  have data: "drop (unat (h_offset sample_nv) + NVRAM_HEADER_SIZE) (h_mmap sample_nv) = ser [] @ 0 # replicate 43 0"
    by (simp add: sample_nv_def numeral_eq_Suc)
  show ?thesis
    by (rule returns_mono [OF sdram_header_roundtrip [OF wf hdr data]])
      (simp_all add: sample_hdr_def, simp add: nv_room_def sample_nv_def)
qed

section \<open>The command line\<close>

text \<open>What the parser of the partition keeps: every step of it is an \<open>nvram_set\<close>.\<close>

definition tuple_read :: "nvram_tuple \<Rightarrow> bool" where
  "tuple_read t \<longleftrightarrow> tvalue t \<noteq> None \<and> 0 \<notin> set (tname t) \<and> 0x3D \<notin> set (tname t) \<and>
     0 \<notin> set (the (tvalue t))"

definition set_keeps :: "(nvram_handle \<Rightarrow> bool) \<Rightarrow> bool" where
  "set_keeps P \<longleftrightarrow> (\<forall>h n v r h'. P h \<and> tuple_read \<lparr>tname = n, tvalue = Some v\<rparr> \<and>
     nvram_set h True n v = Some (r, h') \<longrightarrow> P h')"

lemma set_keepsD:
  "set_keeps P \<Longrightarrow> nvram_set h True n v = Some (r, h') \<Longrightarrow> tuple_read \<lparr>tname = n, tvalue = Some v\<rparr> \<Longrightarrow>
   P h \<Longrightarrow> P h'"
  unfolding set_keeps_def by blast

lemma parsed_read:
  assumes "c_string bs = Some s"
  shows "tuple_read \<lparr>tname = takeWhile (\<lambda>c. c \<noteq> 0x3D) s, tvalue = Some (tl (dropWhile (\<lambda>c. c \<noteq> 0x3D) s))\<rparr>"
proof -
  have s: "0 \<notin> set s" using assms by (auto simp: c_string_def split: if_splits dest: set_takeWhileD)
  have "set (tl xs) \<subseteq> set xs" for xs :: "u8 list" by (cases xs) auto
  then have "set (tl (dropWhile (\<lambda>c. c \<noteq> 0x3D) s)) \<subseteq> set s"
    using set_dropWhileD [of _ "\<lambda>c. c \<noteq> 0x3D" s] by blast
  then show ?thesis using s by (auto simp: tuple_read_def dest: set_takeWhileD)
qed

lemma rehash_loop_keeps:
  assumes "set_keeps P" and "rehash_loop bs h = Some h'" and "P h"
  shows "P h'"
  using assms(2,3)
proof (induction bs h rule: rehash_loop.induct [case_names step])
  case (step bs h)
  show ?case
  proof (cases "\<exists>s. c_string bs = Some s \<and> s \<noteq> [] \<and> 0x3D \<in> set s")
    case True
    then obtain s r b where s: "c_string bs = Some s" "\<not> (s = [] \<or> 0x3D \<notin> set s)"
      and set_: "nvram_set h True (takeWhile (\<lambda>c. c \<noteq> 0x3D) s) (tl (dropWhile (\<lambda>c. c \<noteq> 0x3D) s)) = Some (r, b)"
      and loop: "rehash_loop (drop (length s + 1) bs) b = Some h'"
      using step.prems(1) by (subst (asm) rehash_loop.simps) (auto simp: Let_def bind_eq_Some_conv)
    have "P b" by (rule set_keepsD [OF assms(1) set_ parsed_read [OF s(1)] step.prems(2)])
    then show ?thesis by (rule step.IH [OF s refl refl set_ refl loop])
  next
    case False
    then show ?thesis using step.prems
      by (subst (asm) rehash_loop.simps) (auto split: option.split_asm if_split_asm)
  qed
qed

lemma hex_read: "tuple_read \<lparr>tname = n, tvalue = Some (fmt_hex k w)\<rparr>" if "n \<in> set sdram_names"
proof -
  have "hex_digit d \<noteq> 0" if "unat d < 16" for d using digit_val_hex [OF that] by (auto simp: digit_val_def)
  then have "0 \<notin> set (fmt_hex k w)" by (auto simp: fmt_hex_def unat_nibble image_iff dest!: sym [of 0])
  then show ?thesis using that by (auto simp: tuple_read_def sdram_names_def cstr_def)
qed

lemma set_missing_keeps:
  "set_keeps P \<Longrightarrow> set_missing n (fmt_hex k w) h = Some h' \<Longrightarrow> n \<in> set sdram_names \<Longrightarrow> P h \<Longrightarrow> P h'"
  by (auto simp: set_missing_def bind_eq_Some_conv split: if_split_asm dest: set_keepsD hex_read)

lemma rehash_keeps:
  assumes "set_keeps P" and "nvram_rehash h = Some (r, h')" and "P (nvram_free h)"
  shows "P h'"
proof -
  obtain h1 h2 h3 h4 l a b c d where loop: "rehash_loop l (nvram_free h) = Some h1"
    and sets: "set_missing (cstr ''sdram_init'') (fmt_hex 4 a) h1 = Some h2"
    "set_missing (cstr ''sdram_config'') (fmt_hex 4 b) h2 = Some h3"
    "set_missing (cstr ''sdram_refresh'') (fmt_hex 4 c) h3 = Some h4"
    "set_missing (cstr ''sdram_ncdl'') (fmt_hex 8 d) h4 = Some h'"
    using assms(2) by (auto simp: nvram_rehash_def bind_eq_Some_conv Let_def)
  have "P h1" by (rule rehash_loop_keeps [OF assms(1) loop assms(3)])
  then show ?thesis
    by (auto simp: sdram_names_def intro!: set_missing_keeps [OF assms(1) sets(4)]
        set_missing_keeps [OF assms(1) sets(3)] set_missing_keeps [OF assms(1) sets(2)]
        set_missing_keeps [OF assms(1) sets(1)])
qed

definition table_read :: "nvram_handle \<Rightarrow> bool" where
  "table_read h \<longleftrightarrow> nv_wf h \<and> (\<forall>t \<in> set (nv_tuples h). tuple_read t)"

lemma table_read_kept: "set_keeps table_read"
  unfolding set_keeps_def
proof (intro allI impI, elim conjE)
  fix h n v r h'
  assume h: "table_read h" and t: "tuple_read \<lparr>tname = n, tvalue = Some v\<rparr>"
    and set_: "nvram_set h True n v = Some (r, h')"
  have wf: "nv_wf h" using h by (simp add: table_read_def)
  show "table_read h'"
  proof (cases "nv_fits h v")
    case True
    then have "h' = nv_put n v h" using set_ by (simp add: nv_set_fits [OF wf])
    then show ?thesis
      using h t nv_tuples_put [OF wf, of n v] nv_wf_put_wf [OF wf] by (auto simp: table_read_def)
  next
    case False
    then show ?thesis using set_ h by (simp add: nv_set_too_long [OF wf])
  qed
qed

lemma same_part_kept: "set_keeps (same_part h0)"
proof -
  have hash: "same_part h (h\<lparr>nvram_hash := b\<rparr>)" for h b
    unfolding same_part_def by (intro exI [of _ "nvram_dead h"] exI [of _ b]) simp
  have "same_part h h'" if "nvram_set h True n v = Some (r, h')" for h h' n v r
    using that by (clarsimp simp: nvram_set_def bind_eq_Some_conv Let_def)
      (auto simp: bind_eq_Some_conv hash split: option.split_asm)
  then show ?thesis unfolding set_keeps_def by (blast intro: same_part_trans)
qed

lemma find_magic_bound: "find_magic m n i = Some (Some off) \<Longrightarrow> off + 4 \<le> length m \<and> 4 dvd off"
proof (induction m n i rule: find_magic.induct [case_names step])
  case (step m n i)
  from step.prems obtain w where le: "i \<le> n" and w: "buf_get m (4 * i) 4 = Some w"
    by (subst (asm) find_magic.simps) (auto simp: bind_eq_Some_conv split: if_splits)
  show ?case
  proof (cases "le_val w = NVRAM_MAGIC")
    case True
    then have "off = 4 * i" using step.prems le w by (subst (asm) find_magic.simps) simp
    then show ?thesis using w by (auto simp: buf_get_def split: if_splits)
  next
    case False
    then have "find_magic m n (i + 1) = Some (Some off)"
      using step.prems le w by (subst (asm) find_magic.simps) simp
    then show ?thesis by (rule step.IH [OF le w False])
  qed
qed

text \<open>What an opened handle is: the parsed partition with the header where the search stopped.\<close>

lemma open_handle:
  assumes "nvram_open m ps addr cv True rdonly = Some (Some h)" and "length m = unat ps"
  shows "found_at h" and "h_mmap h = m" and "h_length h = ps" and "nvram_part_size h = ps"
    and "h_addr h = addr" and "4 dvd unat (h_offset h)" and "table_read h"
proof -
  obtain off h0 r where off: "find_magic m (last_word ps) 0 = Some (Some off)"
    and h0: "h0 = \<lparr>h_mmap = m, h_length = ps, h_offset = of_nat off,
       nvram_hash = replicate NVRAM_BUCKETS [], nvram_dead = [], char_val = cv, h_addr = addr,
       nvram_part_size = ps\<rparr>"
    and run: "nvram_rehash h0 = Some (r, h)"
    using assms(1) by (auto simp: nvram_open_def bind_eq_Some_conv Let_def split: option.split_asm if_split_asm)
  have sp: "same_part h0 h"
    by (rule rehash_keeps [OF same_part_kept run]) (rule same_part_free)
  have "table_read (nvram_free h0)"
    by (simp add: table_read_def nvram_free_def h0 nv_wf_def nv_tuples_def)
  then show "table_read h" by (rule rehash_keeps [OF table_read_kept run])
  have "off + 4 \<le> length m \<and> 4 dvd off" by (rule find_magic_bound [OF off])
  then have "unat (of_nat off :: u32) = off" "4 dvd off"
    using assms(2) unat32_bound [of ps] by (auto intro!: unat_of_nat32)
  then show "found_at h" and "h_mmap h = m" and "h_length h = ps" and "nvram_part_size h = ps"
    and "h_addr h = addr" and "4 dvd unat (h_offset h)"
    using same_part_fields [OF sp] off by (simp_all add: h0 found_at_def)
qed

text \<open>The space that the variables take in the partition.\<close>

definition space_of :: "nvram_handle \<Rightarrow> nat" where
  "space_of h = (\<Sum>n \<in> dom (nv_map h). length n + length (the (nv_map h n)) + 2)"

lemma ser_space:
  assumes "nv_wf h" and "\<forall>t \<in> set (nv_tuples h). tvalue t \<noteq> None"
  shows "length (ser (nv_tuples h)) = space_of h"
proof -
  let ?ts = "nv_tuples h" and ?f = "\<lambda>n. length n + length (the (nv_map h n)) + 2"
  have dist: "distinct (map tname ?ts)" using nv_tuples_distinct [OF assms(1)] by (simp add: nv_tuples_def)
  have val: "nv_map h (tname t) = tvalue t" if "t \<in> set ?ts" for t
  proof -
    from that assms(2) obtain v where v: "tvalue t = Some v" by blast
    then have "nv_map h (tname t) = Some v"
      using that unfolding nv_map_tuple [OF assms(1)] nv_tuples_def by blast
    then show ?thesis using v by simp
  qed
  have "length (ser ?ts) = sum_list (map (\<lambda>t. length (ser1 t)) ?ts)"
    by (simp add: ser_def length_concat comp_def)
  also have "\<dots> = sum_list (map ?f (map tname ?ts))"
    by (auto simp: val length_ser1 intro!: arg_cong [where f = sum_list])
  also have "\<dots> = sum ?f (set (map tname ?ts))" by (rule sum_list_distinct_conv_sum_set [OF dist])
  also have "set (map tname ?ts) = dom (nv_map h)"
  proof -
    have "tname t \<in> dom (nv_map h)" if "t \<in> set ?ts" for t using val [OF that] assms(2) that by auto
    moreover have "n \<in> tname ` set ?ts" if "n \<in> dom (nv_map h)" for n
    proof -
      from that obtain v where "nv_map h n = Some v" by auto
      then show ?thesis unfolding nv_map_tuple [OF assms(1)] nv_tuples_def by blast
    qed
    ultimately show ?thesis by auto
  qed
  finally show ?thesis by (simp add: space_of_def)
qed

lemma write_front_take: "length buf \<le> length f \<Longrightarrow> take (length buf) (write_front f buf) = buf"
  by (simp add: write_front_def)

text \<open>
  C27: What \<open>nvram set NAME=VALUE\<close> stores, \<open>nvram get NAME\<close> prints: on a staged partition that opens for
  writing and has room for the variable, both runs exit with status 0, the first prints nothing
  and the second the value, although each run opens the file anew.
\<close>

theorem cli_set_then_get:
  assumes "fs_staging w = Some f" and "fs_mtd w \<noteq> None" and "unat (fs_part_size w) \<le> length f"
    and "4 dvd unat (fs_part_size w)" and "4 dvd unat (fs_addr w)"
    and "unat (fs_addr w) + unat (fs_part_size w) \<le> 2 ^ 31"
    and "nvram_open_file w f False = Some (Some h)" and "nv_map h [] = None"
    and "tuple_ok \<lparr>tname = n, tvalue = Some v\<rparr>"
    and "unat (h_offset h) + 22 + space_of (nv_put n v h) \<le> unat (fs_part_size w)"
  shows "returns (do {
       (s1, out1, w1) \<leftarrow> cli_main u [cstr ''set'', n @ 0x3D # v] w;
       (s2, out2, w2) \<leftarrow> cli_main u [cstr ''get'', n] w1;
       Some (s1, out1, s2, out2, w1, w2) })
    (\<lambda>(s1, out1, s2, out2, w1, w2). s1 = 0 \<and> out1 = [] \<and> s2 = 0 \<and> out2 = [Line v] \<and> w2 = w1 \<and>
       fs_mtd w1 = fs_mtd w)"
proof -
  let ?ps = "fs_part_size w" and ?h = "nv_put n v h"
  let ?m = "take (unat ?ps) f"
  have ps: "?ps \<noteq> 0" using assms(10) by auto
  have op: "nvram_open ?m ?ps (fs_addr w) (fs_char_val w) True False = Some (Some h)"
    using assms(2,7) ps by (auto simp: nvram_open_file_def split: if_splits)
  have lm: "length ?m = unat ?ps" using assms(3) by simp
  note o = open_handle [OF op lm]
  have wf: "nv_wf h" using o(7) by (simp add: table_read_def)
  have ok: "tuple_ok t" if "t \<in> set (nv_tuples h)" for t
  proof -
    have r: "tuple_read t" using o(7) that by (simp add: table_read_def)
    then obtain x where x: "tvalue t = Some x" by (auto simp: tuple_read_def)
    then have "nv_map h (tname t) = Some x"
      using that unfolding nv_map_tuple [OF wf] nv_tuples_def by blast
    then have "tname t \<noteq> []" using assms(8) by auto
    then show ?thesis using r by (auto simp: tuple_ok_def tuple_read_def)
  qed
  have ready: "nv_ready ?h"
  proof (rule nv_ready_put [OF _ assms(9)])
    show "nv_ready h"
      using wf ok o lm assms(4-6,10) by (simp add: nv_ready_def)
  qed
  have sp: "same_part h ?h" by (rule same_part_put)
  note fl = same_part_fields [OF sp]
  have all: "kept_tuples ?h = nv_tuples ?h"
    by (rule kept_tuples_all) (use ready assms(10) fl o in \<open>simp add: ser_space nv_ready_def tuple_ok_def\<close>)
  have mp: "map_of (kvs (kept_tuples ?h)) n = Some v"
    unfolding all using map_of_tuples [of ?h n] ready nv_get_put [OF wf]
    by (simp add: nv_ready_def tuple_ok_def)
  have "nv_fits h v"
    using kvs_small [OF map_of_SomeD [OF mp]] kept_tuples_room [OF ready] ready fl o
    by (simp add: nv_fits_def nv_room_def nv_ready_def unat_sub_le unat_le)
  then have set_: "nvram_set h True n v = Some (0, ?h)" by (rule nv_set_fits [OF wf])
  obtain h' where com: "nvram_commit ?h = Some (0, h')" and c: "committed ?h (h_mmap h')"
    by (rule commit_spec [OF ready])
  let ?w = "w\<lparr>fs_staging := Some (write_front f (h_mmap h'))\<rparr>"
  have n: "takeWhile (\<lambda>c. c \<noteq> 0x3D) (n @ 0x3D # v) = n" "tl (dropWhile (\<lambda>c. c \<noteq> 0x3D) (n @ 0x3D # v)) = v"
    using assms(9) by (simp_all add: tuple_ok_def takeWhile_neq_append dropWhile_neq_append)
  have run1: "cli_main u [cstr ''set'', n @ 0x3D # v] w = Some (0, [], ?w)"
    using assms(1,7) by (simp add: cli_main_def cli_writes_def nvram_open_staging_def do_set_def n set_ com Let_def cstr_def)
  have found: "found_at ?h" using o(1) by (simp add: found_put)
  obtain h2 where "nvram_open (h_mmap h') (nvram_part_size ?h) (fs_addr w) (fs_char_val w) True True =
      Some (if True \<or> commit_len ?h < unat (nvram_part_size ?h) - unat (h_offset ?h) then Some h2 else None)"
    and wf2: "nv_wf h2"
    and map2: "\<And>n. n \<notin> set sdram_names \<or> map_of (kvs (kept_tuples ?h)) n \<noteq> None \<Longrightarrow>
       nv_map h2 n = map_of (kvs (kept_tuples ?h)) n"
    by (rule open_committed [OF ready found c, of "fs_addr w" "fs_char_val w" True]) (rule that)
  then have "nvram_open (h_mmap h') ?ps (fs_addr w) (fs_char_val w) True True = Some (Some h2)"
    using fl o by simp
  moreover have "length (h_mmap h') = unat ?ps" using c fl o lm by (simp add: committed_def)
  then have "take (unat ?ps) (write_front f (h_mmap h')) = h_mmap h'"
    using write_front_take [of "h_mmap h'" f] assms(3) by simp
  ultimately have "nvram_open_rdonly ?w = Some (Some h2)"
    using assms(2) ps by (simp add: nvram_open_rdonly_def nvram_open_file_def)
  moreover have "nvram_get h2 (Some n) = Some (Some v)" using map2 mp by (simp add: nv_get [OF wf2])
  ultimately have run2: "cli_main u [cstr ''get'', n] ?w = Some (0, [Line v], ?w)"
    by (simp add: cli_main_def cli_writes_def do_get_def Let_def cstr_def)
  show ?thesis by (simp add: run1 run2)
qed

definition sample_part :: "u8 list" where
  "sample_part = nv_header_bytes sample_hdr @ replicate 236 0"

definition sample_fs :: nvram_fs where
  "sample_fs = \<lparr>fs_mtd = Some sample_part, fs_staging = Some sample_part, fs_part_size = 256,
     fs_addr = 0x2A000000, fs_char_val = ucast\<rparr>"

lemma sample_open:
  obtains h where "nvram_open_file sample_fs sample_part False = Some (Some h)" "nv_wf h" "h_offset h = 0"
    "nv_map h = with_sdram 0x419 0x62 0x8040 7 Map.empty"
proof -
  let ?h = "\<lparr>h_mmap = sample_part, h_length = 256, h_offset = 0, nvram_hash = replicate NVRAM_BUCKETS [],
     nvram_dead = [], char_val = ucast, h_addr = 0x2A000000, nvram_part_size = 256\<rparr>"
  have len: "length sample_part = 256" by (simp add: sample_part_def)
  have hdr: "nvram_header ?h = Some sample_hdr"
    by (simp add: nvram_header_def sample_part_def buf_get_def nv_header_of_bytes)
  have 1: "nv_wf ?h" by (simp add: nv_wf_def)
  have 2: "buf_get (h_mmap ?h) (unat (h_offset ?h)) 20 \<noteq> None" by (simp add: sample_part_def buf_get_def)
  have 3: "drop (unat (h_offset ?h) + 20) (h_mmap ?h) = ser [] @ 0 # replicate 235 0"
    by (simp add: sample_part_def numeral_eq_Suc)
  have 5: "length (ser []) + 22 \<le> nv_room ?h" by (simp add: nv_room_def)
  obtain h where h: "nvram_rehash ?h = Some (0, h)" "nv_wf h" "same_part ?h h"
    "\<And>g. nvram_header ?h = Some g \<Longrightarrow> nv_map h = with_sdram (drop_bit 16 (crc_ver_init g))
       (config_refresh g AND 0xFFFF) (drop_bit 16 (config_refresh g) AND 0xFFFF) (config_ncdl g)
       (map_of (kvs []))"
    by (rule rehash_spec [OF 1 2 3 _ _ 5]) (simp, simp, rule that)
  have "find_magic sample_part (last_word 256) 0 = Some (Some 0)"
    by (subst find_magic.simps)
      (simp add: sample_part_def buf_get_def le_val_header_magic [unfolded take_append] sample_hdr_def)
  moreover have "nh_magic sample_hdr = NVRAM_MAGIC" "nh_len sample_hdr < 256" by (simp_all add: sample_hdr_def)
  ultimately have "nvram_open_file sample_fs sample_part False = Some (Some h)"
    using hdr h(1) by (simp add: nvram_open_file_def sample_fs_def nvram_open_def Let_def len)
  moreover have "nv_map h = with_sdram 0x419 0x62 0x8040 7 Map.empty"
    using h(4) [OF hdr] by (simp add: sample_hdr_def kvs_def)
  ultimately show thesis using h(2) same_part_fields [OF h(3)] by (intro that) simp_all
qed

lemma sample_space:
  assumes "nv_wf h" and "nv_map h = with_sdram a b c d Map.empty"
  shows "space_of (nv_put (cstr ''lan'') (cstr ''br0'') h) = 89"
proof -
  let ?m = "nv_map (nv_put (cstr ''lan'') (cstr ''br0'') h)"
  have m: "?m = (with_sdram a b c d Map.empty)(cstr ''lan'' \<mapsto> cstr ''br0'')"
    using nv_get_put [OF assms(1)] by (auto simp: assms(2) fun_eq_iff)
  have sub: "dom (with_sdram a b c d Map.empty) \<subseteq> set sdram_names"
    using with_sdram_other [of _ Map.empty a b c d] by fastforce
  have v: "map (with_sdram a b c d Map.empty) sdram_names =
      map Some [fmt_hex 4 a, fmt_hex 4 b, fmt_hex 4 c, fmt_hex 8 d]"
    by (rule with_sdram_new) simp
  then have "set sdram_names \<subseteq> dom (with_sdram a b c d Map.empty)" by (simp add: sdram_names_def domIff)
  then have "dom ?m = set (cstr ''lan'' # sdram_names)"
    using sub by (simp add: m subset_antisym)
  then show ?thesis using v unfolding space_of_def m
    by (simp add: sdram_names_def cstr_def)
qed

theorem cli_set_then_get_witness:
  "returns (do {
       (s1, out1, w1) \<leftarrow> cli_main True [cstr ''set'', cstr ''lan'' @ 0x3D # cstr ''br0''] sample_fs;
       (s2, out2, w2) \<leftarrow> cli_main True [cstr ''get'', cstr ''lan''] w1;
       Some (s1, out1, s2, out2, w1, w2) })
    (\<lambda>(s1, out1, s2, out2, w1, w2). s1 = 0 \<and> out1 = [] \<and> s2 = 0 \<and> out2 = [Line (cstr ''br0'')] \<and>
       w2 = w1 \<and> fs_mtd w1 = Some sample_part)"
proof -
  obtain h where h: "nvram_open_file sample_fs sample_part False = Some (Some h)" "nv_wf h" "h_offset h = 0"
    "nv_map h = with_sdram 0x419 0x62 0x8040 7 Map.empty"
    by (rule sample_open)
  have e: "nv_map h [] = None"
    using with_sdram_other [of "[]" Map.empty] by (simp add: h(4) sdram_names_def cstr_def)
  have l: "length sample_part = 256" by (simp add: sample_part_def)
  have t: "tuple_ok \<lparr>tname = cstr ''lan'', tvalue = Some (cstr ''br0'')\<rparr>"
    by (simp add: tuple_ok_def cstr_bytes)
  show ?thesis
    by (rule returns_mono [OF cli_set_then_get [where w = sample_fs and f = sample_part and h = h]])
      (use h e l t sample_space [OF h(2,4)] in \<open>auto simp: sample_fs_def\<close>)
qed

end
