(* ===== verification/Pad_Image.thy ===== *)
theory Pad_Image
  imports C_Text
begin

text \<open>
  \<open>padjffs2.c\<close>: a host program that pads a firmware image to the next boundary of each requested
  erase block size and writes a mark there, where the flash file system on the device begins or
  stops to look. \<open>ssize_t\<close> has 64 bits and is an \<open>int\<close> here; \<open>unsigned int\<close> has 32. The files and the
  results of the system calls are parameters, a \<open>write\<close> may be short or fail.
\<close>

section \<open>Data of the program\<close>

definition eof_mark :: "u8 list" where
  "eof_mark = [0xDE, 0xAD, 0xC0, 0xDE]"

definition jffs2_pad_be :: "u8 list" where
  "jffs2_pad_be = [0x19, 0x85, 0x20, 0x04, 0x04, 0, 0, 0, 0xC4, 0x94, 0xDB, 0xF4]"

definition jffs2_pad_le :: "u8 list" where
  "jffs2_pad_le = [0x85, 0x19, 0x04, 0x20, 0, 0, 0, 0x04, 0xA8, 0xFB, 0xA0, 0xB4]"

abbreviation BUF_SIZE :: int where "BUF_SIZE \<equiv> 65536"

text \<open>
  What the system answers: whether \<open>malloc\<close> succeeds, the size of the file (\<open>None\<close> when it cannot be
  opened, negative when it cannot be sought), and the result of a write of \<open>data\<close> after \<open>out\<close>, to the
  file or to the standard output.
\<close>

record pad_sys =
  buf_alloc :: bool
  image_size :: "int option"
  sys_write :: "bool \<Rightarrow> u8 list \<Rightarrow> u8 list \<Rightarrow> int"

record pad_opts =
  xtra_offset :: u32
  pad_mark :: "u8 list"
  pad_to_stdout :: bool

definition do_write :: "(u8 list \<Rightarrow> u8 list \<Rightarrow> int) \<Rightarrow> u8 list \<Rightarrow> u8 list \<Rightarrow> int \<times> u8 list" where
  "do_write wr out data = (let t = wr out data in (t, out @ take (nat t) data))"

section \<open>Padding\<close>

text \<open>\<open>~((_y) - 1)\<close> is an \<open>unsigned int\<close>: the upper half of the aligned number is cleared.\<close>

definition pad_align :: "int \<Rightarrow> u32 \<Rightarrow> int" where
  "pad_align x y = (x + uint (y - 1)) AND uint (NOT (y - 1))"

function pad_find :: "nat \<Rightarrow> u32 \<Rightarrow> u32 \<Rightarrow> u32" where
  "pad_find i pad_mask m =
     (if i < 32 then
        let m = push_bit i 1 in if pad_mask AND m \<noteq> 0 then m else pad_find (i + 1) pad_mask m
      else m)"
  by pat_completeness auto
termination
  by (relation "measure (\<lambda>(i, pm, m). 32 - i)") auto

function pad_clear :: "nat \<Rightarrow> int \<Rightarrow> u32 \<Rightarrow> u32" where
  "pad_clear i in_len pad_mask =
     (if i < 32 then
        let m = push_bit i 1
        in pad_clear (i + 1) in_len
             (if in_len AND uint (m - 1) = 0 then pad_mask AND NOT m else pad_mask)
      else pad_mask)"
  by pat_completeness auto
termination
  by (relation "measure (\<lambda>(i, l, pm). 32 - i)") auto

function pad_fill :: "(u8 list \<Rightarrow> u8 list \<Rightarrow> int) \<Rightarrow> int \<Rightarrow> int \<Rightarrow> u8 list \<Rightarrow> bool \<times> int \<times> u8 list" where
  "pad_fill wr in_len out_len out =
     (if out_len < in_len then
        let len = in_len - out_len;
            len = (if len > BUF_SIZE then BUF_SIZE else len);
            (t, out) = do_write wr out (replicate (nat len) 0xFF)
        in if t \<noteq> len then (False, out_len, out) else pad_fill wr in_len (out_len + len) out
      else (True, out_len, out))"
  by pat_completeness auto
termination
  by (relation "measure (\<lambda>(wr, i, l, out). nat (i - l))") auto

declare pad_find.simps [simp del] pad_clear.simps [simp del] pad_fill.simps [simp del]

partial_function (option) pad_loop ::
  "(u8 list \<Rightarrow> u8 list \<Rightarrow> int) \<Rightarrow> u8 list \<Rightarrow> u32 \<Rightarrow> int \<Rightarrow> int \<Rightarrow> u8 list \<Rightarrow> (int \<times> u8 list) option" where
  "pad_loop wr pad pad_mask in_len out_len out =
     (if pad_mask \<noteq> 0 then
        let in_len = pad_align in_len (pad_find 10 pad_mask 0);
            pad_mask = pad_clear 10 in_len pad_mask;
            (ok, out_len, out) = pad_fill wr in_len out_len out
        in if \<not> ok then Some (- 1, out)
           else
             let (t, out) = do_write wr out pad
             in if t \<noteq> int (length pad) then Some (- 1, out)
                else pad_loop wr pad pad_mask in_len (out_len + int (length pad)) out
      else Some (0, out))"

text \<open>The status and the bytes written, behind the image or to the standard output.\<close>

definition pad_image :: "pad_sys \<Rightarrow> pad_opts \<Rightarrow> u32 \<Rightarrow> (int \<times> u8 list) option" where
  "pad_image sys opts pad_mask =
     (if \<not> buf_alloc sys then Some (- 1, [])
      else case image_size sys of
        None \<Rightarrow> Some (- 1, [])
      | Some in_len \<Rightarrow>
          if in_len < 0 then Some (- 1, [])
          else
            let in_len = in_len + uint (xtra_offset opts)
            in pad_loop (sys_write sys (pad_to_stdout opts)) (pad_mark opts) pad_mask in_len in_len [])"

section \<open>The command line\<close>

text \<open>What \<open>getopt\<close> makes of the options.\<close>

datatype pad_arg = Opt_x "u8 list" | Opt_J | Opt_j | Opt_c | Opt_unknown

definition pad_defaults :: pad_opts where
  "pad_defaults = \<lparr>xtra_offset = 0, pad_mark = eof_mark, pad_to_stdout = False\<rparr>"

fun pad_options :: "pad_arg list \<Rightarrow> pad_opts \<Rightarrow> pad_opts option" where
  "pad_options [] opts = Some opts"
| "pad_options (a # as) opts =
     (case a of
        Opt_x optarg \<Rightarrow> pad_options as (opts\<lparr>xtra_offset := ucast (strtoul optarg :: u64)\<rparr>)
      | Opt_J \<Rightarrow> pad_options as (opts\<lparr>pad_mark := jffs2_pad_be\<rparr>)
      | Opt_j \<Rightarrow> pad_options as (opts\<lparr>pad_mark := jffs2_pad_le\<rparr>)
      | Opt_c \<Rightarrow> pad_options as (opts\<lparr>pad_to_stdout := True\<rparr>)
      | Opt_unknown \<Rightarrow> None)"

fun pad_sizes :: "u8 list list \<Rightarrow> u32 \<Rightarrow> u32" where
  "pad_sizes [] pad_mask = pad_mask"
| "pad_sizes (a # as) pad_mask = pad_sizes as (pad_mask OR ucast ((strtoul a :: u64) * 1024))"

text \<open>
  \<open>main\<close> with the file named: its options and the sizes behind them. The exit status and what was
  written; a usage error writes nothing.
\<close>

definition pad_main :: "pad_sys \<Rightarrow> (pad_arg list \<times> u8 list list) option \<Rightarrow> (int \<times> u8 list) option" where
  "pad_main sys args =
     (case args of
        None \<Rightarrow> Some (1, [])
      | Some (flags, sizes) \<Rightarrow>
          (case pad_options flags pad_defaults of
             None \<Rightarrow> Some (1, [])
           | Some opts \<Rightarrow>
               let pad_mask = pad_sizes sizes 0;
                   pad_mask = (if pad_mask = 0
                     then 4 * 1024 OR 8 * 1024 OR 64 * 1024 OR 128 * 1024 else pad_mask)
               in do {
                 (err, out) \<leftarrow> pad_image sys opts pad_mask;
                 Some (if err \<noteq> 0 then 1 else 0, out)
               }))"

end
