(* ===== verification/Pad_Marks.thy ===== *)
theory Pad_Marks
  imports Pad_Image
begin

text \<open>
  What \<open>pad_image\<close> writes: a mark at the next boundary of every requested size, and bytes of ones
  between. First its two loops over the bits of the mask, then one round of the outer loop.
\<close>

section \<open>Rounding up\<close>

definition up :: "nat \<Rightarrow> nat \<Rightarrow> nat" where
  "up n i = (n + 2 ^ i - 1) div 2 ^ i * 2 ^ i"

lemma up_dvd [simp]: "2 ^ i dvd up n i"
  by (simp add: up_def)

lemma up_ge: "n \<le> up n i" and up_less: "up n i < n + 2 ^ i"
proof -
  let ?x = "n + 2 ^ i - 1"
  have "?x = up n i + ?x mod 2 ^ i" unfolding up_def by (rule div_mult_mod_eq [symmetric])
  moreover have "?x mod 2 ^ i < 2 ^ i" by simp
  moreover have "n + 2 ^ i = ?x + 1" by simp
  ultimately show "n \<le> up n i" "up n i < n + 2 ^ i" by linarith+
qed

lemma up_least:
  assumes "2 ^ i dvd k" and "n \<le> k"
  shows "up n i \<le> k"
proof -
  obtain q where q: "k = 2 ^ i * q" using assms(1) by (rule dvdE)
  have "n + p - 1 < (q + 1) * p" if "0 < p" "n \<le> p * q" for p
    using that by (simp add: algebra_simps)
  from this [of "2 ^ i"] have "n + 2 ^ i - 1 < (q + 1) * 2 ^ i" using assms(2) q by simp
  then have "(n + 2 ^ i - 1) div 2 ^ i < q + 1" by (simp add: less_mult_imp_div_less)
  then show ?thesis by (simp add: up_def q)
qed

lemma up_up:
  assumes "i \<le> j"
  shows "up (up n i) j = up n j"
proof (rule antisym)
  have "(2 :: nat) ^ i dvd 2 ^ j" using assms by (rule le_imp_power_dvd)
  then have "2 ^ i dvd up n j" by (rule dvd_trans) simp
  then show "up (up n i) j \<le> up n j" by (intro up_least) (auto intro: up_ge)
  show "up n j \<le> up (up n i) j" by (rule up_least) (auto intro: up_ge order_trans)
qed

lemma up_between: "n \<le> k \<Longrightarrow> k \<le> up n j \<Longrightarrow> 2 ^ j dvd k \<Longrightarrow> up n j = k"
  using up_least [of j k n] by simp

lemma exp_word_mask: "i < 32 \<Longrightarrow> push_bit i 1 - 1 = (mask i :: u32)"
  by (simp add: push_bit_eq_mult mask_eq_exp_minus_1)

lemma pad_align_up:
  assumes "i < 32" and "up a i < 2 ^ 32"
  shows "pad_align (int a) (push_bit i 1) = int (up a i)"
proof -
  let ?x = "int a + uint (mask i :: u32)"
  have "uint (mask i :: u32) = mask i"
    by (rule bit_eqI) (use assms(1) in \<open>auto simp: bit_simps\<close>)
  then have m: "uint (mask i :: u32) = 2 ^ i - 1" by (simp add: mask_eq_exp_minus_1)
  have x: "?x = int (a + 2 ^ i - 1)" 
  proof -
    have "int (p - 1) = int p - 1" if "0 < p" for p using that by linarith
    from this [of "a + 2 ^ i"] show ?thesis by (simp add: m)
  qed
  have "up a i + 2 ^ i \<le> 2 ^ 32"
  proof -
    have "(2 :: nat) ^ i dvd 2 ^ 32" using assms(1) by (intro le_imp_power_dvd) simp
    then have "2 ^ i dvd 2 ^ 32 - up a i" by (intro dvd_diff_nat up_dvd)
    then have "2 ^ i \<le> 2 ^ 32 - up a i" using assms(2) by (intro dvd_imp_le) simp_all
    then show ?thesis using assms(2) by linarith
  qed
  moreover have "a \<le> up a i" by (rule up_ge)
  ultimately have "a + 2 ^ i \<le> 2 ^ 32" by linarith
  then have small: "take_bit 32 ?x = ?x"
    unfolding x by (intro take_bit_int_eq_self) auto
  have "pad_align (int a) (push_bit i 1) = push_bit i (drop_bit i (take_bit 32 ?x))"
    unfolding pad_align_def exp_word_mask [OF assms(1)]
    by (rule bit_eqI) (use assms(1) in \<open>auto simp: bit_simps\<close>)
  then show ?thesis
    unfolding small unfolding x by (simp add: push_bit_eq_mult drop_bit_eq_div up_def zdiv_int)
qed

section \<open>The bits of the mask\<close>

abbreviation sizes :: "u32 \<Rightarrow> nat set" where
  "sizes pm \<equiv> {i. bit pm i}"

text \<open>No size below 1 KiB; \<open>main\<close> multiplies every one by 1024.\<close>

definition whole_kib :: "u32 \<Rightarrow> bool" where
  "whole_kib pm \<longleftrightarrow> sizes pm \<subseteq> {10..<32}"

lemma sizes_bound: "bit (pm :: u32) i \<Longrightarrow> i < 32"
  using bit_imp_le_length by force

lemma find_least_size:
  assumes "k \<le> j" and "bit pm j" and "\<And>i. k \<le> i \<Longrightarrow> i < j \<Longrightarrow> \<not> bit pm i"
  shows "pad_find k pm m = push_bit j 1"
  using assms
proof (induction "j - k" arbitrary: k m)
  case 0
  then show ?case
    using sizes_bound [of pm j]
    by (subst pad_find.simps) (simp add: push_bit_eq_mult and_exp_eq_0_iff_not_bit)
next
  case (Suc d)
  then have "pad_find (k + 1) pm (push_bit k 1) = push_bit j 1" by (intro Suc.hyps) auto
  moreover have "pm AND push_bit k 1 = 0"
    using Suc.prems(3) [of k] Suc.hyps(2) by (simp add: push_bit_eq_mult and_exp_eq_0_iff_not_bit)
  ultimately show ?case
    using Suc.hyps(2) Suc.prems(1) sizes_bound [OF Suc.prems(2)]
    by (subst pad_find.simps) (simp add: Let_def)
qed

lemma bit_pad_clear:
  "bit (pad_clear k (int a) pm) j \<longleftrightarrow> bit pm j \<and> \<not> (k \<le> j \<and> 2 ^ j dvd a)"
proof (induction k "int a" pm rule: pad_clear.induct)
  case (1 k pm)
  have m: "int a AND uint (push_bit k 1 - 1 :: u32) = 0 \<longleftrightarrow> 2 ^ k dvd a" if "k < 32"
  proof -
    have "int a AND uint (push_bit k 1 - 1 :: u32) = take_bit k (int a)"
      unfolding exp_word_mask [OF that]
      by (rule bit_eqI) (use that in \<open>auto simp: bit_simps\<close>)
    also have "\<dots> = 0 \<longleftrightarrow> int (2 ^ k) dvd int a" by (simp add: take_bit_eq_mod dvd_eq_mod_eq_0)
    also have "\<dots> \<longleftrightarrow> 2 ^ k dvd a" by (rule int_dvd_int_iff)
    finally show ?thesis .
  qed
  have bit_k: "bit (pm AND NOT (push_bit k 1)) j \<longleftrightarrow> bit pm j \<and> j \<noteq> k" if "k < 32"
    using that by (auto simp: bit_simps dest: sizes_bound)
  show ?case
  proof (cases "k < 32")
    case True
    note ih = 1 [OF True refl]
    have "bit (pad_clear k (int a) pm) j \<longleftrightarrow>
        bit (if 2 ^ k dvd a then pm AND NOT (push_bit k 1) else pm) j \<and> \<not> (k + 1 \<le> j \<and> 2 ^ j dvd a)"
      using ih True by (subst pad_clear.simps) (simp only: Let_def if_True m [OF True])
    then show ?thesis using bit_k [OF True] by (auto simp: le_less Suc_le_eq)
  next
    case False
    then show ?thesis by (subst pad_clear.simps) (auto dest: sizes_bound)
  qed
qed

section \<open>The bytes written\<close>

text \<open>The writes that take everything.\<close>

definition writes_all :: "(u8 list \<Rightarrow> u8 list \<Rightarrow> int) \<Rightarrow> bool" where
  "writes_all wr \<longleftrightarrow> (\<forall>out d. wr out d = int (length d))"

lemma do_write_all: "writes_all wr \<Longrightarrow> do_write wr out d = (int (length d), out @ d)"
  by (simp add: writes_all_def do_write_def)

lemma pad_fill_all:
  assumes "writes_all wr" and "a \<le> b"
  shows "pad_fill wr (int b) (int a) out = (True, int b, out @ replicate (b - a) 0xFF)"
  using assms(2)
proof (induction "b - a" arbitrary: a out rule: less_induct)
  case less
  show ?case
  proof (cases "a < b")
    case True
    let ?n = "min 65536 (b - a)"
    have len: "(if BUF_SIZE < int b - int a then BUF_SIZE else int b - int a) = int ?n"
      using less.prems by auto
    have ih: "pad_fill wr (int b) (int (a + ?n)) (out @ replicate ?n 0xFF) =
        (True, int b, (out @ replicate ?n 0xFF) @ replicate (b - (a + ?n)) 0xFF)"
      using True by (intro less.hyps) auto
    have "replicate ?n 0xFF @ replicate (b - (a + ?n)) 0xFF = replicate (b - a) (0xFF :: u8)"
      by (simp flip: replicate_add)
    moreover have "int a + int ?n = int (a + ?n)" by simp
    ultimately show ?thesis
      using True ih by (subst pad_fill.simps)
        (simp only: Let_def len do_write_all [OF assms(1)] nat_int length_replicate, simp)
  next
    case False
    then show ?thesis using less.prems by (subst pad_fill.simps) simp
  qed
qed

text \<open>
  The bytes written behind an image that ends at \<open>L\<close> when the sizes \<open>S\<close> are done: a mark at the
  boundary of each, ones elsewhere, nothing behind the last mark.
\<close>

definition marked :: "nat \<Rightarrow> u8 list \<Rightarrow> nat set \<Rightarrow> u8 list \<Rightarrow> bool" where
  "marked L pad S out \<longleftrightarrow>
     (\<forall>i\<in>S. up L i - L + length pad \<le> length out \<and>
        take (length pad) (drop (up L i - L) out) = pad) \<and>
     (\<forall>x<length out. (\<forall>i\<in>S. x < up L i - L \<or> up L i - L + length pad \<le> x) \<longrightarrow> out ! x = 0xFF) \<and>
     (if S = {} then out = [] else \<exists>i\<in>S. length out = up L i - L + length pad)"

text \<open>One more mark, for the sizes \<open>T\<close> whose boundary is \<open>b\<close>.\<close>

lemma marked_next:
  assumes "marked L pad S out" and "L + length out \<le> b" and "T \<noteq> {}" and "\<And>i. i \<in> T \<Longrightarrow> up L i = b"
  shows "marked L pad (S \<union> T) (out @ replicate (b - (L + length out)) 0xFF @ pad)"
proof -
  obtain r where b: "b = L + length out + r" using assms(2) by (auto simp: le_iff_add)
  let ?new = "out @ replicate r 0xFF @ pad"
  have pos: "b - L = length out + r" by (simp add: b)
  have n1: "up L i - L + length pad \<le> length ?new \<and> take (length pad) (drop (up L i - L) ?new) = pad"
    if "i \<in> S \<union> T" for i
  proof (cases "i \<in> T")
    case True
    then show ?thesis using assms(4) pos by simp
  next
    case False
    then have "up L i - L + length pad \<le> length out" "take (length pad) (drop (up L i - L) out) = pad"
      using that assms(1) by (auto simp: marked_def)
    then show ?thesis by simp
  qed
  have n2: "?new ! x = 0xFF"
    if "x < length ?new" and free: "\<forall>i\<in>S \<union> T. x < up L i - L \<or> up L i - L + length pad \<le> x" for x
  proof -
    obtain i where "i \<in> T" using assms(3) by blast
    then have "x < b - L \<or> b - L + length pad \<le> x" using free assms(4) by auto
    then have x: "x < length out + r" using pos that(1) by simp
    show ?thesis
    proof (cases "x < length out")
      case True
      then show ?thesis using free assms(1) by (simp add: marked_def nth_append)
    next
      case False
      then have "x - length out < r" using x by linarith
      then show ?thesis using False by (simp add: nth_append)
    qed
  qed
  have n3: "\<exists>i\<in>S \<union> T. length ?new = up L i - L + length pad"
  proof -
    obtain i where "i \<in> T" using assms(3) by blast
    then show ?thesis using assms(4) pos by (intro bexI [of _ i]) auto
  qed
  have ne: "S \<union> T \<noteq> {}" using assms(3) by blast
  show ?thesis
    unfolding marked_def b add_diff_cancel_left' if_not_P [OF ne]
    by (intro conjI [OF ballI conjI [OF allI n3]] impI) (rule n1 n2; assumption)+
qed

text \<open>
  The state of the outer loop: \<open>in_len\<close> is where the last mark is, and every size that is left has
  its boundary beyond it.
\<close>

definition pad_inv :: "nat \<Rightarrow> u8 list \<Rightarrow> u32 \<Rightarrow> u32 \<Rightarrow> nat \<Rightarrow> u8 list \<Rightarrow> bool" where
  "pad_inv L pad pm0 pm a out \<longleftrightarrow>
     sizes pm \<subseteq> sizes pm0 \<and> marked L pad (sizes pm0 - sizes pm) out \<and> L \<le> a \<and>
     (\<forall>i\<in>sizes pm. up a i = up L i) \<and>
     (if sizes pm = sizes pm0 then a = L
      else a + length pad = L + length out \<and> 2 ^ 10 dvd a \<and> (\<forall>i\<in>sizes pm. \<not> 2 ^ i dvd a))"

lemma pad_inv_next:
  assumes "pad_inv L pad pm0 pm a out" and "whole_kib pm0" and "bit pm i" and "\<And>j. j < i \<Longrightarrow> \<not> bit pm j"
    and "length pad \<le> 1024"
  shows "L + length out \<le> up a i"
    and "pad_inv L pad pm0 (pad_clear 10 (int (up a i)) pm) (up a i)
      (out @ replicate (up a i - (L + length out)) 0xFF @ pad)"
proof -
  let ?b = "up a i" and ?pm = "pad_clear 10 (int (up a i)) pm"
  note inv = assms(1) [unfolded pad_inv_def]
  have least: "i \<le> j" if "bit pm j" for j using assms(4) that by (meson not_less)
  have ten: "10 \<le> j" if "bit pm0 j" for j using assms(2) that by (auto simp: whole_kib_def)
  have i0: "bit pm0 i" using inv assms(3) by blast
  have dvd10: "2 ^ 10 dvd ?b"
    by (rule dvd_trans [OF le_imp_power_dvd [OF ten [OF i0]] up_dvd])
  have left: "sizes ?pm = {j. bit pm j \<and> \<not> 2 ^ j dvd ?b}"
    using inv ten by (auto simp: bit_pad_clear)
  show room: "L + length out \<le> ?b"
  proof (cases "sizes pm = sizes pm0")
    case True
    then have "out = []" "a = L" using inv by (auto simp: marked_def)
    then show ?thesis using up_ge [of a i] by simp
  next
    case False
    then have a: "a + length pad = L + length out" "2 ^ 10 dvd a" "\<not> 2 ^ i dvd a" using inv assms(3) by auto
    have "a < ?b" using up_ge [of a i] a(3) up_dvd [of i a] by (metis le_neq_implies_less)
    moreover have "2 ^ 10 dvd ?b - a" using dvd10 a(2) by (rule dvd_diff_nat)
    ultimately have "1024 \<le> ?b - a" by (intro dvd_imp_le) (simp_all add: dvd_imp_le)
    then show ?thesis using a(1) assms(5) \<open>a < ?b\<close> by linarith
  qed
  have here: "up L j = ?b" if "bit pm j" "2 ^ j dvd ?b" for j
  proof -
    have "up a i \<le> up a j" using up_up [OF least [OF that(1)], of a] up_ge [of "up a i" j] by simp
    then have "up a j = ?b" using that(2) by (intro up_between) (auto simp: up_ge)
    then show ?thesis using inv that(1) by auto
  qed
  have new: "sizes pm0 - sizes ?pm = (sizes pm0 - sizes pm) \<union> {j. bit pm j \<and> 2 ^ j dvd ?b}"
    using inv unfolding left by blast
  have m: "marked L pad ((sizes pm0 - sizes pm) \<union> {j. bit pm j \<and> 2 ^ j dvd ?b})
      (out @ replicate (?b - (L + length out)) 0xFF @ pad)"
  proof (rule marked_next [OF _ room])
    show "marked L pad (sizes pm0 - sizes pm) out" using inv by (elim conjE)
    show "{j. bit pm j \<and> 2 ^ j dvd ?b} \<noteq> {}" using assms(3) up_dvd [of i a] by blast
    show "up L j = ?b" if "j \<in> {j. bit pm j \<and> 2 ^ j dvd ?b}" for j using that here by blast
  qed
  have rest: "up ?b j = up L j" "\<not> 2 ^ j dvd ?b" if "j \<in> sizes ?pm" for j
  proof -
    have j: "bit pm j" "\<not> 2 ^ j dvd ?b" using that left by auto
    then show "\<not> 2 ^ j dvd ?b" by simp
    show "up ?b j = up L j" using up_up [OF least [OF j(1)], of a] inv j(1) by auto
  qed
  have "i \<notin> sizes ?pm" unfolding left by simp
  moreover have "i \<in> sizes pm0" using i0 by simp
  ultimately have ne: "sizes ?pm \<noteq> sizes pm0" by metis
  let ?out = "out @ replicate (?b - (L + length out)) 0xFF @ pad"
  have sub: "sizes ?pm \<subseteq> sizes pm0" using left inv by blast
  have len: "?b + length pad = L + length ?out" using room by simp
  have "?b + length pad = L + length ?out \<and> 2 ^ 10 dvd ?b \<and> (\<forall>j\<in>sizes ?pm. \<not> 2 ^ j dvd ?b)"
    by (rule conjI [OF len conjI [OF dvd10 ballI]]) (erule rest)
  then have tail: "if sizes ?pm = sizes pm0 then ?b = L
      else ?b + length pad = L + length ?out \<and> 2 ^ 10 dvd ?b \<and> (\<forall>j\<in>sizes ?pm. \<not> 2 ^ j dvd ?b)"
    unfolding if_not_P [OF ne] .
  have "L \<le> ?b" using room by simp
  moreover have "\<forall>j\<in>sizes ?pm. up ?b j = up L j" by (rule ballI) (erule rest)
  moreover have "marked L pad (sizes pm0 - sizes ?pm) ?out" unfolding new by (rule m)
  ultimately show "pad_inv L pad pm0 ?pm ?b ?out"
    unfolding pad_inv_def using sub tail by (intro conjI)
qed

section \<open>The outer loop\<close>

lemma sizes_zero: "pm \<noteq> 0 \<longleftrightarrow> sizes pm \<noteq> {}"
  by (auto simp: bit_eq_iff dest: sizes_bound)

lemma finite_sizes: "finite (sizes pm)"
  by (rule finite_subset [of _ "{..<32}"]) (auto dest: sizes_bound)

lemma least_size:
  assumes "pm \<noteq> 0" and "whole_kib pm"
  obtains i where "bit pm i" "\<And>j. j < i \<Longrightarrow> \<not> bit pm j" "i < 32" "pad_find 10 pm 0 = push_bit i 1"
proof -
  let ?i = "LEAST i. bit pm i"
  have i: "bit pm ?i" using assms(1) sizes_zero by (auto intro: LeastI_ex)
  moreover have low: "\<not> bit pm j" if "j < ?i" for j using not_less_Least [OF that] .
  moreover have "10 \<le> ?i" using i assms(2) by (auto simp: whole_kib_def)
  ultimately show ?thesis using that [of ?i] find_least_size [of 10 ?i pm 0] sizes_bound by blast
qed

lemma pad_clear_fewer:
  assumes "bit pm i" and "10 \<le> i" and "2 ^ i dvd a"
  shows "sizes (pad_clear 10 (int a) pm) \<subset> sizes pm"
  using assms by (auto simp: bit_pad_clear)

lemma pad_loop_marks:
  assumes "writes_all wr" and "whole_kib pm0" and "length pad \<le> 1024" and "\<And>i. bit pm0 i \<Longrightarrow> up L i < 2 ^ 32"
    and "pad_inv L pad pm0 pm a out"
  shows "\<exists>out'. pad_loop wr pad pm (int a) (int (L + length out)) out = Some (0, out') \<and>
    marked L pad (sizes pm0) out'"
  using assms(5)
proof (induction "card (sizes pm)" arbitrary: pm a out rule: less_induct)
  case less
  have sub: "sizes pm \<subseteq> sizes pm0" using less.prems by (simp add: pad_inv_def)
  show ?case
  proof (cases "pm = 0")
    case True
    then show ?thesis
      using less.prems by (subst pad_loop.simps) (simp add: pad_inv_def sizes_zero)
  next
    case False
    have "whole_kib pm" using sub assms(2) by (auto simp: whole_kib_def)
    from least_size [OF False this] obtain i where i: "bit pm i" "\<And>j. j < i \<Longrightarrow> \<not> bit pm j" "i < 32"
      and find: "pad_find 10 pm 0 = push_bit i 1" by blast
    have "up a i = up L i" using less.prems i(1) by (simp add: pad_inv_def)
    then have "up a i < 2 ^ 32" using assms(4) sub i(1) by auto
    note align = pad_align_up [OF i(3) this]
    let ?pm = "pad_clear 10 (int (up a i)) pm"
      and ?fill = "out @ replicate (up a i - (L + length out)) 0xFF"
    note step = pad_inv_next [OF less.prems assms(2) i(1,2) assms(3)]
    have "card (sizes ?pm) < card (sizes pm)"
      using i(1) sub assms(2) by (intro psubset_card_mono pad_clear_fewer finite_sizes) (auto simp: whole_kib_def)
    from less.hyps [OF this step(2)] obtain out' where
      ih: "pad_loop wr pad ?pm (int (up a i)) (int (L + length (?fill @ pad))) (?fill @ pad) = Some (0, out')"
      and m: "marked L pad (sizes pm0) out'" by auto
    have "int (L + length (?fill @ pad)) = int (up a i) + int (length pad)" using step(1) by simp
    note ih' = ih [unfolded this]
    have "pad_loop wr pad pm (int a) (int (L + length out)) out = Some (0, out')"
      using False ih' by (subst pad_loop.simps)
        (simp add: find align pad_fill_all [OF assms(1) step(1)] do_write_all [OF assms(1)] Let_def
          del: of_nat_add append_assoc push_bit_of_1)
    then show ?thesis using m by blast
  qed
qed

text \<open>Whatever a write returns, every round takes at least one size from the mask.\<close>

lemma pad_align_clears:
  assumes "i < 32"
  obtains a where "pad_align x (push_bit i 1) = int a" "2 ^ i dvd a"
proof -
  let ?y = "pad_align x (push_bit i 1)"
  have "0 \<le> ?y" by (simp add: pad_align_def)
  then obtain a where a: "?y = int a" by (metis nonneg_int_cases)
  have "take_bit i ?y = 0"
    unfolding pad_align_def exp_word_mask [OF assms] by (rule bit_eqI) (auto simp: bit_simps)
  then have "int (2 ^ i) dvd int a" unfolding a by (simp add: take_bit_eq_mod dvd_eq_mod_eq_0)
  then have "2 ^ i dvd a" by (simp only: int_dvd_int_iff)
  with a show ?thesis by (rule that)
qed

lemma pad_loop_ends:
  assumes "whole_kib pm"
  shows "\<exists>r. pad_loop wr pad pm in_len out_len out = Some r"
  using assms
proof (induction "card (sizes pm)" arbitrary: pm in_len out_len out rule: less_induct)
  case less
  show ?case
  proof (cases "pm = 0")
    case True
    then show ?thesis by (subst pad_loop.simps) simp
  next
    case False
    from least_size [OF False less.prems] obtain i where i: "bit pm i" "i < 32"
      and find: "pad_find 10 pm 0 = push_bit i 1" by blast
    obtain a where a: "pad_align in_len (push_bit i 1) = int a" "2 ^ i dvd a"
      using pad_align_clears [OF i(2)] by blast
    let ?pm = "pad_clear 10 (int a) pm"
    have fewer: "sizes ?pm \<subset> sizes pm"
      using i less.prems a(2) by (intro pad_clear_fewer) (auto simp: whole_kib_def)
    then have "card (sizes ?pm) < card (sizes pm)" by (intro psubset_card_mono finite_sizes)
    moreover have "whole_kib ?pm" using fewer less.prems by (auto simp: whole_kib_def)
    ultimately have "\<exists>r. pad_loop wr pad ?pm x y z = Some r" for x y z by (rule less.hyps)
    then show ?thesis
      using False by (subst pad_loop.simps) (simp add: find a Let_def split: prod.split del: push_bit_of_1)
  qed
qed

section \<open>The program\<close>

lemma whole_kib_or: "whole_kib a \<Longrightarrow> whole_kib b \<Longrightarrow> whole_kib (a OR b)"
  by (auto simp: whole_kib_def bit_simps)

lemma whole_kib_times: "whole_kib (ucast (w * 1024 :: u64))"
proof -
  have "w * 1024 = push_bit 10 w" by (simp add: push_bit_eq_mult)
  then show ?thesis by (auto simp: whole_kib_def bit_simps)
qed

lemma whole_kib_sizes: "whole_kib pm \<Longrightarrow> whole_kib (pad_sizes args pm)"
  by (induction args pm rule: pad_sizes.induct) (auto intro: whole_kib_or whole_kib_times)

text \<open>The sizes that \<open>main\<close> pads to.\<close>

definition pad_mask_of :: "u8 list list \<Rightarrow> u32" where
  "pad_mask_of args = (if pad_sizes args 0 = 0 then 0x33000 else pad_sizes args 0)"

lemma whole_kib_mask: "whole_kib (pad_mask_of args)"
proof -
  have "whole_kib 0x33000"
    using whole_kib_times [of "0xCC"] by simp
  moreover have "whole_kib (pad_sizes args 0)" by (rule whole_kib_sizes) (simp add: whole_kib_def)
  ultimately show ?thesis by (simp add: pad_mask_of_def)
qed

lemma pad_main_eq:
  "pad_main sys (Some (flags, args)) =
     (case pad_options flags pad_defaults of
        None \<Rightarrow> Some (1, [])
      | Some opts \<Rightarrow> map_option (\<lambda>(err, out). (if err \<noteq> 0 then 1 else 0, out)) (pad_image sys opts (pad_mask_of args)))"
  by (auto simp: pad_main_def pad_mask_of_def Let_def map_option_case split: option.split bind_splits)

lemma pad_options_mark:
  "pad_options flags opts = Some opts' \<Longrightarrow> length (pad_mark opts) \<le> 1024 \<Longrightarrow> length (pad_mark opts') \<le> 1024"
  by (induction flags opts rule: pad_options.induct)
    (auto simp: jffs2_pad_be_def jffs2_pad_le_def split: pad_arg.splits)

text \<open>
  C35: \<open>padjffs2\<close> ends for every command line, every file and whatever the system calls return: the
  loop \<open>while (pad_mask)\<close> takes at least one size from the mask in each round, because \<open>main\<close>
  multiplies every size by 1024 and the loop looks at the bits from 10 on.
\<close>

theorem pad_main_ends: "\<exists>status out. pad_main sys args = Some (status, out) \<and> status \<in> {0, 1}"
proof (cases args)
  case None
  then show ?thesis by (simp add: pad_main_def)
next
  case (Some a)
  obtain flags sizes where a: "a = (flags, sizes)" by (cases a)
  have "\<exists>r. pad_image sys opts (pad_mask_of sizes) = Some r" for opts
    using pad_loop_ends [OF whole_kib_mask] by (auto simp: pad_image_def Let_def split: option.split)
  then show ?thesis
    unfolding Some a pad_main_eq by (auto split: option.split) (metis (no_types, lifting) option.simps(9) case_prod_beta)
qed

text \<open>
  C34: When the system calls succeed, \<open>padjffs2\<close> exits with status 0 and every requested size has its
  mark: at the first multiple of the size at or behind the end of the image (counted from the extra
  offset). The bytes between are ones, and nothing follows the last mark. The positions are below
  4 GiB, since \<open>ALIGN\<close> clears the upper bits of larger ones.
\<close>

theorem pad_main_marks:
  assumes "pad_options flags pad_defaults = Some opts" and "buf_alloc sys" and "image_size sys = Some (int n)"
    and "writes_all (sys_write sys (pad_to_stdout opts))" and "L = n + unat (xtra_offset opts)"
    and "\<And>i. bit (pad_mask_of args) i \<Longrightarrow> up L i < 2 ^ 32"
  shows "\<exists>out. pad_main sys (Some (flags, args)) = Some (0, out) \<and>
    (\<forall>i. bit (pad_mask_of args) i \<longrightarrow>
       take (length (pad_mark opts)) (drop (up L i - L) out) = pad_mark opts) \<and>
    (\<forall>x<length out. (\<forall>i. bit (pad_mask_of args) i \<longrightarrow>
       x < up L i - L \<or> up L i - L + length (pad_mark opts) \<le> x) \<longrightarrow> out ! x = 0xFF) \<and>
    (\<exists>i. bit (pad_mask_of args) i \<and> length out = up L i - L + length (pad_mark opts))"
proof -
  let ?pm = "pad_mask_of args" and ?pad = "pad_mark opts"
  have "length ?pad \<le> 1024"
    using pad_options_mark [OF assms(1)] by (simp add: pad_defaults_def eof_mark_def)
  moreover have "pad_inv L ?pad ?pm ?pm L []" by (simp add: pad_inv_def marked_def)
  ultimately obtain out where
    "pad_loop (sys_write sys (pad_to_stdout opts)) ?pad ?pm (int L) (int (L + length ([] :: u8 list))) [] = Some (0, out)"
    and m: "marked L ?pad (sizes ?pm) out"
    using pad_loop_marks [OF assms(4) whole_kib_mask _ assms(6)] by blast
  moreover have "int n + uint (xtra_offset opts) = int L" by (simp add: assms(5))
  ultimately have "pad_main sys (Some (flags, args)) = Some (0, out)"
    using assms(1-3) by (simp add: pad_main_eq pad_image_def)
  moreover have "?pm \<noteq> 0" by (simp add: pad_mask_of_def)
  then have ne: "sizes ?pm \<noteq> {}" by (rule iffD1 [OF sizes_zero])
  ultimately show ?thesis using m [unfolded marked_def if_not_P [OF ne]] by blast
qed

definition sample_pad_sys :: pad_sys where
  "sample_pad_sys = \<lparr>buf_alloc = True, image_size = Some 5000, sys_write = \<lambda>_ _ d. int (length d)\<rparr>"

theorem pad_main_marks_witness:
  "\<exists>out. pad_main sample_pad_sys (Some ([Opt_J], [cstr ''4'', cstr ''64''])) = Some (0, out) \<and>
    take 12 (drop 3192 out) = jffs2_pad_be \<and> take 12 (drop 60536 out) = jffs2_pad_be \<and>
    length out = 60548"
proof -
  let ?args = "[cstr ''4'', cstr ''64'']"
  have "strtoul (cstr ''4'') = (4 :: u64)" "strtoul (cstr ''64'') = (64 :: u64)"
    by (simp_all add: strtoul_def strto_sign_def cstr_def strtoul_base_def digit_val_def Let_def)
  then have pm: "pad_mask_of ?args = 0x11000" by (simp add: pad_mask_of_def)
  have bits: "bit (pad_mask_of ?args) i \<longleftrightarrow> i = 12 \<or> i = 16" for i
  proof
    assume b: "bit (pad_mask_of ?args) i"
    then have "i \<in> set [0..<32]" using sizes_bound by auto
    with b [unfolded pm] show "i = 12 \<or> i = 16" by (auto simp: upt_rec)
  next
    assume "i = 12 \<or> i = 16"
    then show "bit (pad_mask_of ?args) i" unfolding pm by auto
  qed
  have ups: "up 5000 12 = 8192" "up 5000 16 = 65536" by (simp_all add: up_def)
  have o: "pad_options [Opt_J] pad_defaults = Some (pad_defaults\<lparr>pad_mark := jffs2_pad_be\<rparr>)" by simp
  have n: "image_size sample_pad_sys = Some (int 5000)" "buf_alloc sample_pad_sys"
    "writes_all (sys_write sample_pad_sys st)" for st by (simp_all add: sample_pad_sys_def writes_all_def)
  have "up 5000 i < 2 ^ 32" if "i = 12 \<or> i = 16" for i using that ups by auto
  moreover have "(5000 :: nat) = 5000 + unat (xtra_offset (pad_defaults\<lparr>pad_mark := jffs2_pad_be\<rparr>))"
    by (simp add: pad_defaults_def)
  ultimately obtain out where out: "pad_main sample_pad_sys (Some ([Opt_J], ?args)) = Some (0, out)"
    and at: "\<And>i. i = 12 \<or> i = 16 \<Longrightarrow> take (length jffs2_pad_be) (drop (up 5000 i - 5000) out) = jffs2_pad_be"
    and len: "\<exists>i. (i = 12 \<or> i = 16) \<and> length out = up 5000 i - 5000 + length jffs2_pad_be"
    using pad_main_marks [OF o n(2,1,3), of 5000 ?args, unfolded bits] by auto
  have "length jffs2_pad_be = 12" by (simp add: jffs2_pad_be_def)
  then have "take 12 (drop 3192 out) = jffs2_pad_be" "take 12 (drop 60536 out) = jffs2_pad_be"
    using at [of 12] at [of 16] by (simp_all add: ups)
  moreover from this have "length (take 12 (drop 60536 out)) = 12" by (simp add: jffs2_pad_be_def)
  moreover have "length out = 3204 \<or> length out = 60548" using len ups by (auto simp: jffs2_pad_be_def)
  ultimately show ?thesis using out by (auto simp: jffs2_pad_be_def)
qed

end
