(* ===== verification/Boot_Config.thy ===== *)
theory Boot_Config
  imports C_Text
begin

text \<open>
  \<open>zyxel-bootconfig.c\<close>: the program that reads and sets which of the two firmware images the boot
  loader starts. The state is two bytes at the start of an MTD partition of one erase block; the
  partition and the results of the system calls are parameters. \<open>None\<close> is an access outside the
  buffer or an \<open>atoi\<close> of a number that is no \<open>int\<close>.
\<close>

section \<open>Data\<close>

datatype image_status =
  IMAGE_STATUS_NONE | IMAGE_STATUS_NEW | IMAGE_STATUS_VALID | IMAGE_STATUS_INVALID | IMAGE_STATUS_EINVAL

fun status_code :: "image_status \<Rightarrow> u32" where
  "status_code IMAGE_STATUS_NONE = 0"
| "status_code IMAGE_STATUS_NEW = 1"
| "status_code IMAGE_STATUS_VALID = 2"
| "status_code IMAGE_STATUS_INVALID = 3"
| "status_code IMAGE_STATUS_EINVAL = 4"

definition status_of :: "u32 \<Rightarrow> image_status" where
  "status_of c =
     (if c = 0 then IMAGE_STATUS_NONE else if c = 1 then IMAGE_STATUS_NEW
      else if c = 2 then IMAGE_STATUS_VALID else if c = 3 then IMAGE_STATUS_INVALID
      else IMAGE_STATUS_EINVAL)"

record zyxel_bootconfig =
  image0_status :: image_status
  image1_status :: image_status
  active_image :: u32

abbreviation BOOTCONFIG_IMAGE_STATUS :: nat where "BOOTCONFIG_IMAGE_STATUS \<equiv> 0"
abbreviation BOOTCONFIG_ACTIVE_IMAGE :: nat where "BOOTCONFIG_ACTIVE_IMAGE \<equiv> 1"
abbreviation ACTIVE_IMAGE_MASK :: u32 where "ACTIVE_IMAGE_MASK \<equiv> 1"

text \<open>The macro \<open>IMAGE_STATUS\<close>.\<close>

definition image_status_byte :: "image_status \<Rightarrow> image_status \<Rightarrow> u32" where
  "image_status_byte img0 img1 =
     (push_bit 2 (status_code img0) AND 0x0C) OR (push_bit 6 (status_code img1) AND 0xC0)"

definition image_status_codes :: "(image_status \<times> u8 list) list" where
  "image_status_codes =
     [(IMAGE_STATUS_NONE, cstr ''none''), (IMAGE_STATUS_NEW, cstr ''new''),
      (IMAGE_STATUS_VALID, cstr ''valid''), (IMAGE_STATUS_INVALID, cstr ''invalid'')]"

fun status_parse :: "(image_status \<times> u8 list) list \<Rightarrow> u8 list \<Rightarrow> image_status" where
  "status_parse [] status = IMAGE_STATUS_EINVAL"
| "status_parse ((code, name) # s) status = (if status = name then code else status_parse s status)"

fun status_name :: "(image_status \<times> u8 list) list \<Rightarrow> image_status \<Rightarrow> u8 list" where
  "status_name [] st = cstr ''N/A''"
| "status_name ((code, name) # s) st = (if st = code then name else status_name s st)"

section \<open>The partition\<close>

text \<open>
  The system calls: \<open>open\<close>, \<open>MEMGETINFO\<close> (the size of an erase block), the \<open>n\<close>-th \<open>calloc\<close>, the bytes
  that a \<open>pread\<close> of the block transfers, \<open>MEMERASE\<close> of the block and a \<open>pwrite\<close> of it.
\<close>

record 'd boot_sys =
  sys_open :: "'d \<Rightarrow> bool"
  sys_info :: "'d \<Rightarrow> u32 option"
  sys_calloc :: "nat \<Rightarrow> bool"
  sys_pread :: "'d \<Rightarrow> nat \<Rightarrow> u8 list"
  sys_erase :: "'d \<Rightarrow> u32 \<Rightarrow> int \<times> 'd"
  sys_pwrite :: "'d \<Rightarrow> u8 list \<Rightarrow> int \<times> 'd"

text \<open>The zeroed buffer after the \<open>pread\<close>, whose result the program does not look at.\<close>

definition boot_block :: "'d boot_sys \<Rightarrow> nat \<Rightarrow> 'd \<Rightarrow> u8 list option" where
  "boot_block sys len d = buf_put (replicate len 0) 0 (sys_pread sys d len)"

definition zyxel_bootconfig_mtd_open :: "'d boot_sys \<Rightarrow> 'd \<Rightarrow> u32 option" where
  "zyxel_bootconfig_mtd_open sys d = (if sys_open sys d then sys_info sys d else None)"

definition zyxel_bootconfig_read ::
  "'d boot_sys \<Rightarrow> u32 \<Rightarrow> 'd \<Rightarrow> zyxel_bootconfig option option" where
  "zyxel_bootconfig_read sys erasesize d =
     (if \<not> sys_calloc sys 0 then Some None
      else do {
        args \<leftarrow> boot_block sys (unat erasesize) d;
        status \<leftarrow> arr_get args BOOTCONFIG_IMAGE_STATUS;
        active \<leftarrow> arr_get args BOOTCONFIG_ACTIVE_IMAGE;
        Some (Some
          \<lparr>image0_status = status_of (drop_bit 2 (ucast status AND 0x0C)),
           image1_status = status_of (drop_bit 6 (ucast status AND 0xC0)),
           active_image = ucast active AND ACTIVE_IMAGE_MASK\<rparr>)
      })"

definition zyxel_bootconfig_write ::
  "'d boot_sys \<Rightarrow> u32 \<Rightarrow> zyxel_bootconfig \<Rightarrow> 'd \<Rightarrow> (int \<times> 'd) option" where
  "zyxel_bootconfig_write sys erasesize config d =
     (if \<not> sys_calloc sys 1 then Some (- 1, d)
      else do {
        args \<leftarrow> boot_block sys (unat erasesize) d;
        let img_status = (ucast (image_status_byte (image0_status config) (image1_status config)) :: u8);
        let img_active = (ucast (active_image config AND ACTIVE_IMAGE_MASK) :: u8);
        status \<leftarrow> arr_get args BOOTCONFIG_IMAGE_STATUS;
        active \<leftarrow> arr_get args BOOTCONFIG_ACTIVE_IMAGE;
        if status = img_status \<and> active = img_active then Some (0, d)
        else do {
          let (ret, d) = sys_erase sys d erasesize;
          if ret < 0 then Some (ret, d)
          else do {
            args \<leftarrow> arr_set args BOOTCONFIG_IMAGE_STATUS img_status;
            args \<leftarrow> arr_set args BOOTCONFIG_ACTIVE_IMAGE img_active;
            let (n, d) = sys_pwrite sys d args;
            Some (if n \<noteq> uint erasesize then - 1 else ret, d)
          }
        }
      })"

section \<open>The command line\<close>

datatype boot_line = Usage | Active_image u32 | Image_status nat "u8 list"

text \<open>The lines of \<open>get-status\<close>.\<close>

definition status_lines :: "zyxel_bootconfig \<Rightarrow> boot_line list" where
  "status_lines config =
     [Active_image (active_image config),
      Image_status 0 (status_name image_status_codes (image0_status config)),
      Image_status 1 (status_name image_status_codes (image1_status config))]"

text \<open>
  What a command makes of the configuration: \<open>Inl\<close> ends the program with status 1 and the lines,
  \<open>Inr\<close> gives the lines, the configuration and whether it is to be written. An unknown command does
  nothing.
\<close>

definition boot_command ::
  "u8 list list \<Rightarrow> zyxel_bootconfig \<Rightarrow> (boot_line list + boot_line list \<times> zyxel_bootconfig \<times> bool) option" where
  "boot_command argv config =
     (if argv ! 2 = cstr ''set-image-status'' then
        if length argv < 5 then Some (Inl [Usage])
        else do {
          image_idx \<leftarrow> atoi (argv ! 3);
          if image_idx > 1 \<or> image_idx < 0 then Some (Inl [])
          else
            let image_status = status_parse image_status_codes (argv ! 4)
            in if image_status = IMAGE_STATUS_EINVAL then Some (Inl [])
               else if image_idx = 0
               then Some (Inr ([], config\<lparr>image0_status := image_status\<rparr>, True))
               else Some (Inr ([], config\<lparr>image1_status := image_status\<rparr>, True))
        }
      else if argv ! 2 = cstr ''set-active-image'' then
        if length argv < 4 then Some (Inl [Usage])
        else do {
          image_idx \<leftarrow> atoi (argv ! 3);
          if image_idx > 1 \<or> image_idx < 0 then Some (Inl [])
          else Some (Inr ([], config\<lparr>active_image := word_of_int image_idx\<rparr>, True))
        }
      else if argv ! 2 = cstr ''get-status'' then Some (Inr (status_lines config, config, False))
      else Some (Inr ([], config, False)))"

text \<open>\<open>main\<close>: the exit status, the lines printed and the partition.\<close>

definition boot_main ::
  "'d boot_sys \<Rightarrow> u8 list list \<Rightarrow> 'd \<Rightarrow> (int \<times> boot_line list \<times> 'd) option" where
  "boot_main sys argv d =
     (if length argv < 3 then Some (1, [Usage], d)
      else case zyxel_bootconfig_mtd_open sys d of
        None \<Rightarrow> Some (1, [], d)
      | Some erasesize \<Rightarrow> do {
          r \<leftarrow> zyxel_bootconfig_read sys erasesize d;
          (case r of
             None \<Rightarrow> Some (1, [], d)
           | Some config \<Rightarrow> do {
               c \<leftarrow> boot_command argv config;
               (case c of
                  Inl out \<Rightarrow> Some (1, out, d)
                | Inr (out, config, writeback) \<Rightarrow>
                    if writeback then do {
                      (ret, d) \<leftarrow> zyxel_bootconfig_write sys erasesize config d;
                      Some (if ret \<noteq> 0 then 1 else 0, out, d)
                    }
                    else Some (0, out, d))
             })
        })"

end
