(* ===== verification/Boot_Theorems.thy ===== *)
theory Boot_Theorems
  imports Boot_Config
begin

text \<open>
  Properties of \<open>zyxel-bootconfig\<close>: on a partition that works (the locale \<open>boot_partition\<close>) what is set
  is read back and nothing else of the block changes, a command that changes nothing does not
  erase, and what a failing read costs.
\<close>

section \<open>A partition that works\<close>

locale boot_partition =
  fixes sys :: "'d boot_sys" and es :: u32 and content :: "'d \<Rightarrow> u8 list"
  assumes opens: "sys_open sys d" and info: "sys_info sys d = Some es" and alloc: "sys_calloc sys n"
    and block: "length (content d) = unat es" and room: "2 \<le> unat es"
    and read: "sys_pread sys d (unat es) = content d"
    and erase: "fst (sys_erase sys d es) = 0"
    and erased: "content (snd (sys_erase sys d es)) = replicate (unat es) 0xFF"
    and pwrite: "length a = unat es \<Longrightarrow> content d = replicate (unat es) 0xFF \<Longrightarrow>
      fst (sys_pwrite sys d a) = uint es \<and> content (snd (sys_pwrite sys d a)) = a"

text \<open>The configuration that two bytes hold, and the configurations that they can hold.\<close>

definition config_of :: "u8 list \<Rightarrow> zyxel_bootconfig" where
  "config_of args =
     \<lparr>image0_status = status_of (drop_bit 2 (ucast (args ! 0) AND 0x0C)),
      image1_status = status_of (drop_bit 6 (ucast (args ! 0) AND 0xC0)),
      active_image = ucast (args ! 1) AND ACTIVE_IMAGE_MASK\<rparr>"

definition config_ok :: "zyxel_bootconfig \<Rightarrow> bool" where
  "config_ok c \<longleftrightarrow> image0_status c \<noteq> IMAGE_STATUS_EINVAL \<and> image1_status c \<noteq> IMAGE_STATUS_EINVAL \<and>
     active_image c \<in> {0, 1}"

definition config_bytes :: "zyxel_bootconfig \<Rightarrow> u8 list" where
  "config_bytes c =
     [ucast (image_status_byte (image0_status c) (image1_status c)),
      ucast (active_image c AND ACTIVE_IMAGE_MASK)]"

lemma config_bytes_roundtrip: "config_ok c \<Longrightarrow> config_of (config_bytes c @ rest) = c"
  by (cases c; cases "image0_status c"; cases "image1_status c")
    (auto simp: config_ok_def config_of_def config_bytes_def image_status_byte_def status_of_def)

lemma two_bits: "unat (w AND 3 :: u32) < 4"
proof -
  have "w AND 3 = take_bit 2 w" by (simp add: take_bit_eq_mask mask_eq_exp_minus_1)
  then show ?thesis using take_bit_nat_less_exp [of 2 "unat w"] by (simp add: unsigned_take_bit_eq)
qed

lemma below_four: "unat (x :: u32) < 4 \<Longrightarrow> x \<in> {0, 1, 2, 3}"
  by (simp add: word_unat_eq_iff) linarith

lemma status_of_ok: "status_of (w AND 3) \<noteq> IMAGE_STATUS_EINVAL"
  using below_four [OF two_bits [of w]] by (auto simp: status_of_def)

lemma config_of_ok: "config_ok (config_of args)"
proof -
  have "drop_bit 2 (w AND 0x0C) = drop_bit 2 w AND 3" "drop_bit 6 (w AND 0xC0) = drop_bit 6 w AND 3" for w :: u32
    by (simp_all add: drop_bit_and)
  moreover have "w AND 1 \<in> {0, 1}" for w :: u32 by (simp add: and_one_eq mod_2_eq_odd)
  ultimately show ?thesis by (simp add: config_ok_def config_of_def status_of_ok)
qed

context boot_partition
begin

lemma block_bytes:
  obtains b0 b1 rest where "content d = b0 # b1 # rest" and "unat es = Suc (Suc (length rest))"
  using block [of d] room by (cases "content d"; cases "tl (content d)") auto

lemma block_read: "boot_block sys (unat es) d = Some (content d)"
  using block [of d] by (simp add: boot_block_def buf_put_def read)

lemma config_read: "zyxel_bootconfig_read sys es d = Some (Some (config_of (content d)))"
proof -
  obtain b0 b1 rest where "content d = b0 # b1 # rest" by (rule block_bytes)
  then show ?thesis
    using block_read [of d] by (simp add: zyxel_bootconfig_read_def alloc arr_get_def config_of_def)
qed

text \<open>Writing a configuration: nothing when the bytes are the same, the two bytes otherwise.\<close>

lemma config_write:
  obtains d' where "zyxel_bootconfig_write sys es c d = Some (0, d')"
    and "content d' = config_bytes c @ drop 2 (content d)"
    and "take 2 (content d) = config_bytes c \<longrightarrow> d' = d"
proof -
  obtain b0 b1 rest where d: "content d = b0 # b1 # rest" and es: "unat es = Suc (Suc (length rest))"
    by (rule block_bytes)
  obtain x y where c: "config_bytes c = [x, y]" by (simp add: config_bytes_def)
  show ?thesis
  proof (cases "b0 = x \<and> b1 = y")
    case True
    show ?thesis
      by (rule that [of d]) (use True d c in
        \<open>simp_all add: zyxel_bootconfig_write_def alloc block_read arr_get_def Let_def config_bytes_def\<close>)
  next
    case False
    obtain d1 where er: "sys_erase sys d es = (0, d1)" and c1: "content d1 = replicate (unat es) 0xFF"
      using erase [of d] erased [of d] by (metis prod.collapse)
    obtain d2 where wr: "sys_pwrite sys d1 (x # y # rest) = (uint es, d2)" and c2: "content d2 = x # y # rest"
      using pwrite [OF _ c1, of "x # y # rest"] es by (metis length_Cons prod.collapse)
    show ?thesis
      by (rule that [of d2]) (use False d c er wr c2 in
        \<open>auto simp: zyxel_bootconfig_write_def alloc block_read arr_get_def arr_set_def Let_def config_bytes_def\<close>)
  qed
qed

text \<open>A command that changes the configuration, and asking for it.\<close>

lemma main_set:
  assumes "3 \<le> length argv" and "boot_command argv (config_of (content d)) = Some (Inr (out, c, True))"
    and "config_ok c"
  obtains d' where "boot_main sys argv d = Some (0, out, d')" and "config_of (content d') = c"
    and "drop 2 (content d') = drop 2 (content d)" and "take 2 (content d) = config_bytes c \<longrightarrow> d' = d"
proof -
  obtain d' where wr: "zyxel_bootconfig_write sys es c d = Some (0, d')"
    and c: "content d' = config_bytes c @ drop 2 (content d)"
    and same: "take 2 (content d) = config_bytes c \<longrightarrow> d' = d"
    by (rule config_write [of c d])
  show ?thesis
  proof (rule that [of d'])
    show "boot_main sys argv d = Some (0, out, d')"
      using assms(1,2) wr by (simp add: boot_main_def zyxel_bootconfig_mtd_open_def opens info config_read)
    show "config_of (content d') = c" unfolding c by (rule config_bytes_roundtrip [OF assms(3)])
    show "drop 2 (content d') = drop 2 (content d)" unfolding c by (simp add: config_bytes_def)
  qed (rule same)
qed

lemma main_get: "boot_main sys [prog, dev, cstr ''get-status''] d = Some (0, status_lines (config_of (content d)), d)"
  by (simp add: boot_main_def zyxel_bootconfig_mtd_open_def opens info config_read boot_command_def cstr_def)

end

text \<open>A partition of one block of 16 bytes works.\<close>

definition sample_boot :: "(nat \<Rightarrow> u8) boot_sys" where
  "sample_boot =
     \<lparr>sys_open = \<lambda>_. True, sys_info = \<lambda>_. Some 16, sys_calloc = \<lambda>_. True,
      sys_pread = \<lambda>d n. map d [0..<n], sys_erase = \<lambda>d n. (0, \<lambda>_. 0xFF),
      sys_pwrite = \<lambda>d a. (int (length a), \<lambda>i. if i < length a then d i AND a ! i else d i)\<rparr>"

lemma all_ones_and: "0xFF AND x = (x :: u8)"
proof -
  have "(0xFF :: u8) = - 1" by simp
  then show ?thesis by (simp only: and.left_neutral)
qed

interpretation sample_boot: boot_partition sample_boot 16 "\<lambda>d. map d [0..<16]"
proof
  fix d :: "nat \<Rightarrow> u8" and a :: "u8 list"
  assume a: "length a = unat (16 :: u32)" and d: "map d [0..<16] = replicate (unat (16 :: u32)) 0xFF"
  have "d i = 0xFF" if "i < 16" for i using that arg_cong [OF d, of "\<lambda>l. l ! i"] by simp
  then show "fst (sys_pwrite sample_boot d a) = uint (16 :: u32) \<and>
      map (snd (sys_pwrite sample_boot d a)) [0..<16] = a"
    using a by (auto simp: sample_boot_def all_ones_and intro!: nth_equalityI)
qed (simp_all add: sample_boot_def map_replicate_const)

section \<open>Setting and getting\<close>

lemma parse_name: "(st, name) \<in> set image_status_codes \<Longrightarrow>
    status_parse image_status_codes name = st \<and> status_name image_status_codes st = name \<and> st \<noteq> IMAGE_STATUS_EINVAL"
  by (auto simp: image_status_codes_def cstr_def)

lemma atoi_slot: "atoi (cstr ''0'') = Some 0" "atoi (cstr ''1'') = Some 1"
  by (simp_all add: atoi_def strto_sign_def cstr_def digit_val_def)

lemma commands_differ: "cstr ''get-status'' \<noteq> cstr ''set-image-status''" "cstr ''get-status'' \<noteq> cstr ''set-active-image''"
  "cstr ''set-active-image'' \<noteq> cstr ''set-image-status''"
  by (simp_all add: cstr_def)

text \<open>
  C36: \<open>set-image-status\<close> of a slot with one of the four names exits with status 0, and \<open>get-status\<close>
  afterwards prints this name for the slot and for the other slot and the active image what it
  would have printed before. The bytes behind the two of the configuration are unchanged.
\<close>

theorem boot_set_status:
  fixes idx :: nat
  assumes "boot_partition sys es content" and "(st, name) \<in> set image_status_codes" and "idx = 0 \<or> idx = 1"
  shows "\<exists>d'. boot_main sys [prog, dev, cstr ''set-image-status'', if idx = 0 then cstr ''0'' else cstr ''1'', name] d =
      Some (0, [], d') \<and>
    boot_main sys [prog, dev, cstr ''get-status''] d' = Some (0,
      (let c = config_of (content d)
       in [Active_image (active_image c),
           Image_status 0 (if idx = 0 then name else status_name image_status_codes (image0_status c)),
           Image_status 1 (if idx = 0 then status_name image_status_codes (image1_status c) else name)]), d') \<and>
    drop 2 (content d') = drop 2 (content d)"
proof -
  let ?c = "config_of (content d)" and ?s = "if idx = 0 then cstr ''0'' else cstr ''1''"
  let ?new = "if idx = 0 then ?c\<lparr>image0_status := st\<rparr> else ?c\<lparr>image1_status := st\<rparr>"
  note st = parse_name [OF assms(2)]
  have cmd: "boot_command [prog, dev, cstr ''set-image-status'', ?s, name] ?c = Some (Inr ([], ?new, True))"
    using st assms(3) by (auto simp: boot_command_def atoi_slot Let_def)
  have "config_ok ?new" using config_of_ok [of "content d"] st by (simp add: config_ok_def)
  from boot_partition.main_set [OF assms(1) _ cmd this]
  obtain d' where "boot_main sys [prog, dev, cstr ''set-image-status'', ?s, name] d = Some (0, [], d')"
    "config_of (content d') = ?new" "drop 2 (content d') = drop 2 (content d)" by auto
  moreover have "status_lines ?new = (let c = ?c
       in [Active_image (active_image c),
           Image_status 0 (if idx = 0 then name else status_name image_status_codes (image0_status c)),
           Image_status 1 (if idx = 0 then status_name image_status_codes (image1_status c) else name)])"
    using st assms(3) by (auto simp: status_lines_def Let_def)
  moreover have "boot_main sys [prog, dev, cstr ''get-status''] d' = Some (0, status_lines (config_of (content d')), d')"
    by (rule boot_partition.main_get [OF assms(1)])
  ultimately show ?thesis by (intro exI [of _ d']) simp
qed

theorem boot_set_status_witness:
  "\<exists>d'. boot_main sample_boot [[], [], cstr ''set-image-status'', cstr ''1'', cstr ''valid''] (\<lambda>_. 0) = Some (0, [], d') \<and>
    boot_main sample_boot [[], [], cstr ''get-status''] d' =
      Some (0, [Active_image 0, Image_status 0 (cstr ''none''), Image_status 1 (cstr ''valid'')], d')"
proof -
  have "config_of (map (\<lambda>_. 0) [0..<16]) = \<lparr>image0_status = IMAGE_STATUS_NONE, image1_status = IMAGE_STATUS_NONE, active_image = 0\<rparr>"
    by (simp add: config_of_def status_of_def)
  then show ?thesis
    using boot_set_status [OF sample_boot.boot_partition_axioms, of IMAGE_STATUS_VALID "cstr ''valid''" 1 "[]" "[]" "\<lambda>_. 0"]
    by (auto simp: image_status_codes_def Let_def)
qed

text \<open>
  \<open>set-active-image\<close> makes the slot the active one and keeps the status of both images. When the
  two bytes hold this configuration already, and no other bits, the partition is not erased.
\<close>

theorem boot_set_active:
  assumes "boot_partition sys es content" and "idx = 0 \<or> idx = 1"
  shows "\<exists>d'. boot_main sys [prog, dev, cstr ''set-active-image'', if idx = 0 then cstr ''0'' else cstr ''1''] d =
      Some (0, [], d') \<and>
    config_of (content d') = (config_of (content d))\<lparr>active_image := idx\<rparr> \<and>
    drop 2 (content d') = drop 2 (content d) \<and>
    (take 2 (content d) = config_bytes ((config_of (content d))\<lparr>active_image := idx\<rparr>) \<longrightarrow> d' = d)"
proof -
  let ?new = "(config_of (content d))\<lparr>active_image := idx\<rparr>" and ?s = "if idx = 0 then cstr ''0'' else cstr ''1''"
  have "boot_command [prog, dev, cstr ''set-active-image'', ?s] (config_of (content d)) = Some (Inr ([], ?new, True))"
    using assms(2) commands_differ by (auto simp: boot_command_def atoi_slot)
  moreover have "config_ok ?new" using config_of_ok [of "content d"] assms(2) by (auto simp: config_ok_def)
  ultimately obtain d' where "boot_main sys [prog, dev, cstr ''set-active-image'', ?s] d = Some (0, [], d')"
    "config_of (content d') = ?new" "drop 2 (content d') = drop 2 (content d)"
    "take 2 (content d) = config_bytes ?new \<longrightarrow> d' = d"
    by (rule boot_partition.main_set [OF assms(1), rotated]) simp_all
  then show ?thesis by blast
qed

theorem boot_set_active_witness:
  "boot_main sample_boot [[], [], cstr ''set-active-image'', cstr ''1''] (\<lambda>i. if i = 1 then 1 else 0) =
    Some (0, [], \<lambda>i. if i = 1 then 1 else 0)"
proof -
  let ?d = "\<lambda>i. if i = (1 :: nat) then 1 else 0"
  have "config_of (map ?d [0..<16]) = \<lparr>image0_status = IMAGE_STATUS_NONE, image1_status = IMAGE_STATUS_NONE, active_image = 1\<rparr>"
    by (simp add: config_of_def status_of_def)
  moreover have "take 2 (map ?d [0..<16]) = [0, 1]" by (simp add: take_map upt_rec)
  ultimately show ?thesis
    using boot_set_active [OF sample_boot.boot_partition_axioms, of 1 "[]" "[]" ?d]
    by (auto simp: config_bytes_def image_status_byte_def)
qed

text \<open>
  The result of \<open>pread\<close> is not looked at. When it fails, a command that sets something takes the
  block for zeros: it erases the block, writes zeros over everything but its own byte, and exits
  with status 0.
\<close>

theorem boot_read_failure:
  assumes "sys_open sys d" and "sys_info sys d = Some es" and "sys_calloc sys 0" and "sys_calloc sys 1"
    and "2 \<le> unat es" and "sys_pread sys d (unat es) = []"
    and "sys_erase sys d es = (0, d1)" and "sys_pwrite sys d1 ([0, 1] @ replicate (unat es - 2) 0) = (uint es, d2)"
  shows "boot_main sys [prog, dev, cstr ''set-active-image'', cstr ''1''] d = Some (0, [], d2)"
proof -
  obtain k where k: "unat es = Suc (Suc k)" using assms(5) by (metis Suc_le_D numeral_2_eq_2 Suc_le_mono)
  have "boot_block sys (unat es) d = Some (replicate (unat es) 0)"
    using assms(6) by (simp add: boot_block_def buf_put_def)
  then show ?thesis
    using assms commands_differ
    by (simp add: boot_main_def zyxel_bootconfig_mtd_open_def zyxel_bootconfig_read_def zyxel_bootconfig_write_def
        boot_command_def atoi_slot k arr_get_def arr_set_def status_of_def image_status_byte_def Let_def)
qed

theorem boot_read_failure_witness:
  "boot_main (sample_boot\<lparr>sys_pread := \<lambda>_ _. []\<rparr>) [[], [], cstr ''set-active-image'', cstr ''1''] (\<lambda>_. 0x2A) =
    Some (0, [], \<lambda>i. if i < 16 then 0xFF AND (if i = 1 then 1 else 0) else 0xFF)"
  by (rule boot_read_failure [where es = 16 and ?d1.0 = "\<lambda>_. 0xFF"])
    (auto simp: sample_boot_def fun_eq_iff nth_Cons' simp flip: replicate_Suc)

end
