(* ===== verification/Map_Bits.thy ===== *)
theory Map_Bits
  imports Flash_Prelude
begin

text \<open>
  The bit copying functions of \<open>mapcalc.c\<close>: comparing and copying the first bits of two addresses and
  extracting a field of bits at any place. An address is a list of bytes whose bits are numbered
  from the most significant one of the first byte; each function is shown to do on bits what it
  does with bytes, shifts and masks.
\<close>

section \<open>The functions\<close>

text \<open>\<open>memcmp\<close>: the sign of the first difference; the callers look at whether it is 0 only.\<close>

fun memcmp :: "u8 list \<Rightarrow> u8 list \<Rightarrow> int" where
  "memcmp (x # xs) (y # ys) = (if x = y then memcmp xs ys else if x < y then - 1 else 1)"
| "memcmp _ _ = 0"

definition bmemcmp :: "u8 list \<Rightarrow> u8 list \<Rightarrow> nat \<Rightarrow> int option" where
  "bmemcmp a b bits = do {
     let bytes = bits div 8;
     let bits = bits mod 8;
     xs \<leftarrow> buf_get a 0 bytes;
     ys \<leftarrow> buf_get b 0 bytes;
     let res = memcmp xs ys;
     if res = 0 \<and> bits > 0 then do {
       x \<leftarrow> arr_get a bytes;
       y \<leftarrow> arr_get b bytes;
       Some (uint (drop_bit (8 - bits) x) - uint (drop_bit (8 - bits) y))
     }
     else Some res
   }"

definition bmemcpy :: "u8 list \<Rightarrow> u8 list \<Rightarrow> nat \<Rightarrow> u8 list option" where
  "bmemcpy a b bits = do {
     let bytes = bits div 8;
     let bits = bits mod 8;
     xs \<leftarrow> buf_get b 0 bytes;
     a \<leftarrow> buf_put a 0 xs;
     if bits > 0 then do {
       let m = (push_bit (8 - bits) 1 - 1 :: u8);
       x \<leftarrow> arr_get a bytes;
       y \<leftarrow> arr_get b bytes;
       arr_set a bytes ((x AND m) OR (NOT m AND y))
     }
     else Some a
   }"

text \<open>Words in network byte order.\<close>

definition be_val :: "u8 list \<Rightarrow> 'a::len word" where
  "be_val bs = le_val (rev bs)"

definition be_bytes :: "nat \<Rightarrow> 'a::len word \<Rightarrow> u8 list" where
  "be_bytes n w = rev (le_bytes n w)"

text \<open>The byte behind the field is read too, when the field ends with a byte and when it is empty.\<close>

definition bmemcpys64 :: "u8 list \<Rightarrow> u8 list \<Rightarrow> nat \<Rightarrow> nat \<Rightarrow> u8 list option" where
  "bmemcpys64 a b frombits nbits = do {
     let frombyte = frombits div 8;
     let tobyte = (frombits + nbits) div 8;
     xs \<leftarrow> buf_get b frombyte (tobyte - frombyte + 1);
     buf \<leftarrow> buf_put (replicate 8 0) 0 xs;
     let buf = be_bytes 8 (push_bit (frombits mod 8) (be_val buf :: u64));
     bmemcpy a buf nbits
   }"

section \<open>Bits of an address\<close>

definition bit_at :: "u8 list \<Rightarrow> nat \<Rightarrow> bool" where
  "bit_at bs i = bit (bs ! (i div 8)) (7 - i mod 8)"

lemma byte_eqI: "(\<And>j. j < 8 \<Longrightarrow> bit (x :: u8) (7 - j) = bit y (7 - j)) \<Longrightarrow> x = y"
proof (rule bit_word_eqI)
  fix n assume eq: "\<And>j. j < 8 \<Longrightarrow> bit x (7 - j) = bit y (7 - j)" and n: "n < LENGTH(8)"
  then have "7 - (7 - n) = n" by simp
  then show "bit x n = bit y n" using eq [of "7 - n"] n by simp
qed

lemma bit_at_byte: "j < 8 \<Longrightarrow> bit_at bs (8 * k + j) = bit (bs ! k) (7 - j)"
  by (simp add: bit_at_def)

lemma split_bits: "(\<forall>i < 8 * n + r. P i) \<longleftrightarrow> (\<forall>k < n. \<forall>j < 8. P (8 * k + j)) \<and> (\<forall>j < r. P (8 * n + j))" for P :: "nat \<Rightarrow> bool"
proof safe
  fix i assume P: "\<forall>k<n. \<forall>j<8. P (8 * k + j)" "\<forall>j<r. P (8 * n + j)" and i: "i < 8 * n + r"
  show "P i"
  proof (cases "i < 8 * n")
    case True
    then have "i div 8 < n" by (simp add: less_mult_imp_div_less)
    then show ?thesis using P(1) [rule_format, of "i div 8" "i mod 8"] by simp
  next
    case False
    then show ?thesis using P(2) i by (metis add_diff_inverse_nat nat_add_left_cancel_less)
  qed
qed auto

lemma bit_le_val:
  "bit (le_val bs :: 'a::len word) k \<longleftrightarrow> k < LENGTH('a) \<and> k div 8 < length bs \<and> bit (bs ! (k div 8)) (k mod 8)"
proof (induction bs arbitrary: k)
  case (Cons b bs)
  show ?case
  proof (cases "k < 8")
    case True
    then show ?thesis by (auto simp: bit_simps)
  next
    case False
    then have "k div 8 = Suc ((k - 8) div 8)" "k mod 8 = (k - 8) mod 8"
      by (simp_all add: le_div_geq le_mod_geq)
    then show ?thesis using False Cons.IH [of "k - 8"] by (auto simp: bit_simps dest: bit_imp_le_length)
  qed
qed simp

lemma bit_le_bytes: "k < n \<Longrightarrow> j < 8 \<Longrightarrow> bit (le_bytes n w ! k) j \<longleftrightarrow> bit w (8 * k + j)"
proof (induction n arbitrary: k w)
  case (Suc n)
  then show ?case
    by (cases k) (auto simp: bit_simps add.assoc dest: bit_imp_le_length)
qed simp

lemma mirror_byte: "i < 8 * n \<Longrightarrow> i div (8 :: nat) < n"
  by (simp add: less_mult_imp_div_less)

lemma mirror: "i < 8 * n \<Longrightarrow> 8 * n - 1 - i = 8 * (n - 1 - i div 8) + (7 - i mod (8 :: nat))"
proof -
  have "8 * n - 1 - (8 * q + r) = 8 * (n - 1 - q) + (7 - r)" if "q < n" "r < 8" for q r :: nat
    using that by (auto simp: less_iff_Suc_add)
  from this [of "i div 8" "i mod 8"] show "i < 8 * n \<Longrightarrow> ?thesis" using mirror_byte [of i n] by simp
qed

lemma bit_at_be_bytes: "i < 8 * n \<Longrightarrow> bit_at (be_bytes n w) i \<longleftrightarrow> bit w (8 * n - 1 - i)"
proof -
  assume i: "i < 8 * n"
  have "rev (le_bytes n w) ! (i div 8) = le_bytes n w ! (n - 1 - i div 8)"
    using mirror_byte [OF i] by (simp add: rev_nth)
  moreover have "n - 1 - i div 8 < n" using mirror_byte [OF i] by simp
  ultimately show ?thesis
    unfolding mirror [OF i] by (simp add: bit_at_def be_bytes_def bit_le_bytes)
qed

lemma bit_be_val:
  assumes "length bs = n" and "LENGTH('a) = 8 * n" and "i < 8 * n"
  shows "bit (be_val bs :: 'a::len word) (8 * n - 1 - i) \<longleftrightarrow> bit_at bs i"
proof -
  have "(8 * a + b) div 8 = a" "(8 * a + b) mod 8 = b" if "b < 8" for a b :: nat using that by simp_all
  from this [of "7 - i mod 8" "n - 1 - i div 8"]
  have d: "(8 * n - 1 - i) div 8 = n - 1 - i div 8" "(8 * n - 1 - i) mod 8 = 7 - i mod 8"
    unfolding mirror [OF assms(3)] by simp_all
  have "8 * n - 1 - i < 8 * n" "n - 1 - i div 8 < n" using assms(3) mirror_byte [OF assms(3)] by linarith+
  moreover have "rev bs ! (n - 1 - i div 8) = bs ! (i div 8)"
    using assms(1) mirror_byte [OF assms(3)] by (simp add: rev_nth)
  ultimately show ?thesis
    using assms(1,2) by (simp only: be_val_def bit_le_val bit_at_def d length_rev) simp
qed

lemma length_be_bytes [simp]: "length (be_bytes n w) = n"
  by (simp add: be_bytes_def)

section \<open>What the functions do on bits\<close>

lemma memcmp_zero: "length xs = length ys \<Longrightarrow> memcmp xs ys = 0 \<longleftrightarrow> xs = ys"
  by (induction xs ys rule: memcmp.induct) auto

lemma top_bits_eq:
  assumes "r < 8"
  shows "drop_bit (8 - r) (x :: u8) = drop_bit (8 - r) y \<longleftrightarrow> (\<forall>j<r. bit x (7 - j) = bit y (7 - j))"
proof
  assume eq: "drop_bit (8 - r) x = drop_bit (8 - r) y"
  show "\<forall>j<r. bit x (7 - j) = bit y (7 - j)"
  proof (intro allI impI)
    fix j assume j: "j < r"
    then have "7 - j = 8 - r + (r - 1 - j)" using assms by simp
    then show "bit x (7 - j) = bit y (7 - j)" using eq by (metis bit_drop_bit_eq comp_apply)
  qed
next
  assume eq: "\<forall>j<r. bit x (7 - j) = bit y (7 - j)"
  show "drop_bit (8 - r) x = drop_bit (8 - r) y"
  proof (rule bit_word_eqI)
    fix n assume "n < LENGTH(8)"
    show "bit (drop_bit (8 - r) x) n = bit (drop_bit (8 - r) y) n"
    proof (cases "n < r")
      case True
      then have "7 - (r - 1 - n) = 8 - r + n" "r - 1 - n < r" using assms by simp_all
      then show ?thesis using eq [rule_format, of "r - 1 - n"] by (simp add: bit_drop_bit_eq)
    next
      case False
      then have "8 \<le> 8 - r + n" by simp
      then have "\<not> bit x (8 - r + n)" "\<not> bit y (8 - r + n)" using bit_imp_le_length [where 'a = 8] by force+
      then show ?thesis by (simp add: bit_drop_bit_eq)
    qed
  qed
qed

lemma take_bytes_eq:
  assumes "n \<le> length a" and "n \<le> length b"
  shows "take n a = take n b \<longleftrightarrow> (\<forall>k<n. \<forall>j<8. bit_at a (8 * k + j) = bit_at b (8 * k + j))"
proof -
  have "take n a = take n b \<longleftrightarrow> (\<forall>k<n. a ! k = b ! k)"
    using assms by (auto simp: list_eq_iff_nth_eq)
  also have "\<dots> \<longleftrightarrow> (\<forall>k<n. \<forall>j<8. bit_at a (8 * k + j) = bit_at b (8 * k + j))"
    by (auto simp: bit_at_byte intro: byte_eqI)
  finally show ?thesis .
qed

lemma part_byte: "n mod 8 \<noteq> 0 \<Longrightarrow> n \<le> 8 * l \<Longrightarrow> n div 8 < (l :: nat)"
  by presburger

lemma div_mod_less: "i < n \<longleftrightarrow> i div 8 < n div 8 \<or> i div 8 = n div 8 \<and> i mod 8 < n mod (8 :: nat)"
proof -
  have "8 * p + q < 8 * s + t \<longleftrightarrow> p < s \<or> p = s \<and> q < t" if "q < 8" "t < 8" for p q s t :: nat
    using that by auto
  from this [of "i mod 8" "n mod 8" "i div 8" "n div 8"] show ?thesis by simp
qed

lemma bmemcmp_bits:
  assumes "n \<le> 8 * length a" and "n \<le> 8 * length b"
  shows "\<exists>r. bmemcmp a b n = Some r \<and> (r = 0 \<longleftrightarrow> (\<forall>i<n. bit_at a i = bit_at b i))"
proof -
  let ?k = "n div 8" and ?r = "n mod 8"
  have n: "n = 8 * ?k + ?r" by simp
  have k: "?k \<le> length a" "?k \<le> length b" using assms by simp_all
  have bytes: "memcmp (take ?k a) (take ?k b) = 0 \<longleftrightarrow> (\<forall>i<?k. \<forall>j<8. bit_at a (8 * i + j) = bit_at b (8 * i + j))"
    using k by (simp add: memcmp_zero take_bytes_eq)
  have split: "(\<forall>i<n. bit_at a i = bit_at b i) \<longleftrightarrow>
      (\<forall>i<?k. \<forall>j<8. bit_at a (8 * i + j) = bit_at b (8 * i + j)) \<and>
      (\<forall>j<?r. bit (a ! ?k) (7 - j) = bit (b ! ?k) (7 - j))"
    using split_bits [of ?k ?r "\<lambda>i. bit_at a i = bit_at b i"] by (auto simp: bit_at_byte)
  show ?thesis
  proof (cases "?r = 0")
    case True
    then show ?thesis using k bytes split by (simp add: bmemcmp_def buf_get_def Let_def)
  next
    case False
    then have "?k < length a" "?k < length b" using assms part_byte by blast+
    then show ?thesis
      using False k bytes split top_bits_eq [of ?r "a ! ?k" "b ! ?k"]
      by (auto simp: bmemcmp_def buf_get_def arr_get_def Let_def simp flip: word_uint_eq_iff)
  qed
qed

lemma bit_merge_byte:
  assumes "0 < r" and "r < 8" and "j < 8"
  shows "bit ((x AND (push_bit (8 - r) 1 - 1)) OR (NOT (push_bit (8 - r) 1 - 1) AND y) :: u8) (7 - j) \<longleftrightarrow>
    (if j < r then bit y (7 - j) else bit x (7 - j))"
proof -
  have "push_bit (8 - r) 1 - 1 = (mask (8 - r) :: u8)"
    by (simp add: push_bit_eq_mult mask_eq_exp_minus_1)
  then show ?thesis using assms by (auto simp: bit_simps)
qed

text \<open>\<open>bmemcpy\<close> replaces the first \<open>n\<close> bits and keeps the others.\<close>

lemma bmemcpy_bits:
  assumes "n \<le> 8 * length a" and "n \<le> 8 * length b"
  shows "\<exists>a'. bmemcpy a b n = Some a' \<and> length a' = length a \<and>
    (\<forall>i < 8 * length a. bit_at a' i = (if i < n then bit_at b i else bit_at a i))"
proof -
  let ?k = "n div 8" and ?r = "n mod 8"
  have k: "?k \<le> length a" "?k \<le> length b" using assms by simp_all
  let ?c = "take ?k b @ drop ?k a"
  have put: "buf_put a 0 (take ?k b) = Some ?c" "buf_get b 0 ?k = Some (take ?k b)"
    using k by (simp_all add: buf_put_def buf_get_def)
  have c: "?c ! q = (if q < ?k then b ! q else a ! q)" for q using k by (simp add: nth_append)
  show ?thesis
  proof (cases "?r = 0")
    case True
    then have "bmemcpy a b n = Some ?c" by (simp add: bmemcpy_def put Let_def)
    moreover have "i div 8 < ?k \<longleftrightarrow> i < n" for i using True by (auto simp: div_less_iff_less_mult)
    ultimately show ?thesis using k by (auto simp: bit_at_def c)
  next
    case False
    then have k': "?k < length a" "?k < length b" using assms part_byte by blast+
    let ?m = "push_bit (8 - ?r) 1 - 1 :: u8"
    let ?x = "(a ! ?k AND ?m) OR (NOT ?m AND b ! ?k)"
    have "bmemcpy a b n = Some (?c[?k := ?x])"
      using False k k' by (simp add: bmemcpy_def put arr_get_def arr_set_def c Let_def)
    moreover have "bit_at (?c[?k := ?x]) i = (if i < n then bit_at b i else bit_at a i)"
      if "i < 8 * length a" for i
    proof -
      have i: "i < n \<longleftrightarrow> i div 8 < ?k \<or> i div 8 = ?k \<and> i mod 8 < ?r"
        by (rule div_mod_less)
      show ?thesis
      proof (cases "i div 8 = ?k")
        case True
        then have "bit_at (?c[?k := ?x]) i = bit ?x (7 - i mod 8)" using k' by (simp add: bit_at_def)
        also have "\<dots> = (if i mod 8 < ?r then bit (b ! ?k) (7 - i mod 8) else bit (a ! ?k) (7 - i mod 8))"
          using False by (intro bit_merge_byte) simp_all
        finally show ?thesis using True i by (simp add: bit_at_def)
      next
        case ne: False
        then have "bit_at (?c[?k := ?x]) i = bit_at ?c i" by (simp add: bit_at_def)
        then show ?thesis using ne i c by (simp add: bit_at_def)
      qed
    qed
    ultimately show ?thesis using k by auto
  qed
qed

text \<open>
  \<open>bmemcpys64\<close> puts the \<open>n\<close> bits from bit \<open>m\<close> of \<open>b\<close> in front of \<open>a\<close>, provided that the byte behind them
  is inside \<open>b\<close> and the bytes that hold them are at most eight.
\<close>

lemma bmemcpys64_bits:
  assumes "m + n < 8 * length b" and "n \<le> 56" and "n \<le> 8 * length a"
  shows "\<exists>a'. bmemcpys64 a b m n = Some a' \<and> length a' = length a \<and>
    (\<forall>i < 8 * length a. bit_at a' i = (if i < n then bit_at b (m + i) else bit_at a i))"
proof -
  let ?f = "m div 8" and ?s = "m mod 8"
  let ?l = "(m + n) div 8 - ?f + 1"
  have tb: "(m + n) div 8 < length b" using assms(1) by (simp add: div_less_iff_less_mult)
  have fl: "?f \<le> (m + n) div 8" by (rule div_le_mono) simp
  have "m + n < 8 * (q + 8)" if "m = 8 * q + r" "r < 8" for q r using that assms(2) by simp
  from this [of ?f ?s] have "m + n < 8 * (?f + 8)" by simp
  then have "(m + n) div 8 < ?f + 8" by (simp add: div_less_iff_less_mult)
  then have l: "?l \<le> 8" using fl by linarith
  let ?xs = "take ?l (drop ?f b)"
  let ?buf = "?xs @ replicate (8 - ?l) 0"
  have xl: "length ?xs = ?l" using tb fl by simp
  have get: "buf_get b ?f ?l = Some ?xs" using tb fl by (simp add: buf_get_def)
  have put: "buf_put (replicate 8 0) 0 ?xs = Some ?buf"
    using l xl by (simp add: buf_put_def)
  have blen: "length ?buf = 8" using l xl by simp
  let ?v = "be_val ?buf :: u64"
  let ?w = "be_bytes 8 (push_bit ?s ?v)"
  have w: "bit_at ?w i = bit_at b (m + i)" if "i < n" for i
  proof -
    have i: "?s + i < 8 * 8" "i < 8 * 8" using that assms(2) add_less_le_mono [of ?s 8 i 55] by auto
    have "bit_at ?w i \<longleftrightarrow> bit (push_bit ?s ?v) (8 * 8 - 1 - i)" by (rule bit_at_be_bytes [OF i(2)])
    also have "\<dots> \<longleftrightarrow> bit ?v (8 * 8 - 1 - (?s + i))"
      using i by (auto simp: bit_simps diff_diff_left add.commute)
    also have "\<dots> \<longleftrightarrow> bit_at ?buf (?s + i)" by (rule bit_be_val [OF blen _ i(1)]) simp
    also have "\<dots> \<longleftrightarrow> bit_at b (m + i)"
    proof -
      have mi: "m + i = 8 * ?f + (?s + i)" by simp
      have dv: "(m + i) div 8 = ?f + (?s + i) div 8" "(m + i) mod 8 = (?s + i) mod 8"
        unfolding mi by (simp_all only: div_mult_self4 mod_mult_self4)
      have "(m + i) div 8 \<le> (m + n) div 8" using that by (intro div_le_mono) simp
      then have q: "(?s + i) div 8 < ?l" using dv(1) by linarith
      then have "?buf ! ((?s + i) div 8) = ?xs ! ((?s + i) div 8)" by (simp only: nth_append xl if_True)
      also have "\<dots> = b ! (?f + (?s + i) div 8)" using q tb fl by simp
      finally have "?buf ! ((?s + i) div 8) = b ! (?f + (?s + i) div 8)" .
      then show ?thesis by (simp only: bit_at_def dv)
    qed
    finally show ?thesis .
  qed
  have "length ?w = 8" by (rule length_be_bytes)
  then have "n \<le> 8 * length ?w" using assms(2) by (simp only:)
  then obtain a' where a': "bmemcpy a ?w n = Some a'" "length a' = length a"
    "\<forall>i < 8 * length a. bit_at a' i = (if i < n then bit_at ?w i else bit_at a i)"
    using bmemcpy_bits [OF assms(3)] by blast
  have "bmemcpys64 a b m n = Some a'"
    by (simp only: bmemcpys64_def Let_def get put bind.bind_lunit a'(1))
  then show ?thesis using a' w by auto
qed

end
