(* ===== verification/Map_Rule.thy ===== *)
theory Map_Rule
  imports Map_Bits C_Text
begin

text \<open>
  \<open>mapcalc.c\<close>: the program that turns the MAP rules of a provider into the IPv4 address, the port
  sets and the IPv6 address of a router. The functions of the C library that read addresses
  (\<open>inet_pton\<close>) and the interfaces that the network daemon reports are parameters. \<open>None\<close> is an access
  outside an object, a \<open>NULL\<close> that is read, or a shift by a negative number.
\<close>

section \<open>Data\<close>

datatype map_opt =
  OPT_TYPE | OPT_FMR | OPT_EALEN | OPT_PREFIX4LEN | OPT_PREFIX6LEN | OPT_IPV6PREFIX | OPT_IPV4PREFIX |
  OPT_OFFSET | OPT_PSIDLEN | OPT_PSID | OPT_BR | OPT_DMR | OPT_PD | OPT_PDLEN

definition token :: "(u8 list \<times> map_opt) list" where
  "token =
     [(cstr ''type'', OPT_TYPE), (cstr ''fmr'', OPT_FMR), (cstr ''ealen'', OPT_EALEN),
      (cstr ''prefix4len'', OPT_PREFIX4LEN), (cstr ''prefix6len'', OPT_PREFIX6LEN),
      (cstr ''ipv6prefix'', OPT_IPV6PREFIX), (cstr ''ipv4prefix'', OPT_IPV4PREFIX),
      (cstr ''offset'', OPT_OFFSET), (cstr ''psidlen'', OPT_PSIDLEN), (cstr ''psid'', OPT_PSID),
      (cstr ''br'', OPT_BR), (cstr ''dmr'', OPT_DMR), (cstr ''pd'', OPT_PD), (cstr ''pdlen'', OPT_PDLEN)]"

text \<open>An interface: its name, and its prefixes and addresses with their masks, where they are given.\<close>

type_synonym dump_addr = "u8 list option \<times> u32 option"

record dump_iface =
  if_name :: "u8 list option"
  if_prefix :: "dump_addr list option"
  if_address :: "dump_addr list option"

text \<open>
  The surroundings: \<open>inet_pton\<close> for both families, the interfaces, the environment variable \<open>LEGACY\<close>,
  and what a shift of a 32-bit number by 32 gives on the machine (C leaves it open).
\<close>

record map_env =
  pton4 :: "u8 list \<Rightarrow> u8 list option"
  pton6 :: "u8 list \<Rightarrow> u8 list option"
  dump :: "dump_iface list"
  legacy :: bool
  shift_out :: "u32 \<Rightarrow> u32"

text \<open>The local variables of the loop over the rules.\<close>

record map_rule =
  lw4o6 :: bool
  fmr :: bool
  ealen :: int
  prefix4len :: int
  prefix6len :: int
  pdlen :: int
  ipv4prefix :: "u8 list"
  ipv6prefix :: "u8 list"
  pd :: "u8 list"
  offset :: int
  psidlen :: int
  psid :: int
  dmr :: "u8 list option"
  br :: "u8 list option"

definition map_rule_init :: map_rule where
  "map_rule_init =
     \<lparr>lw4o6 = False, fmr = False, ealen = - 1, prefix4len = 32, prefix6len = - 1, pdlen = - 1,
      ipv4prefix = replicate 4 0, ipv6prefix = replicate 16 0, pd = replicate 16 0, offset = - 1,
      psidlen = - 1, psid = - 1, dmr = None, br = None\<rparr>"

text \<open>An \<open>int\<close> that is passed as a \<open>size_t\<close>.\<close>

definition size_of_int :: "int \<Rightarrow> nat" where
  "size_of_int n = nat (n mod 2 ^ 64)"

section \<open>The options of a rule\<close>

text \<open>\<open>getsubopt\<close>: the options between commas, each with its token and the text behind the first \<open>=\<close>.\<close>

function subopts :: "u8 list \<Rightarrow> u8 list list" where
  "subopts rule =
     (if rule = [] then []
      else takeWhile (\<lambda>c. c \<noteq> 0x2C) rule # subopts (tl (dropWhile (\<lambda>c. c \<noteq> 0x2C) rule)))"
  by pat_completeness auto
termination
proof (relation "measure length")
  fix rule :: "u8 list" assume "rule \<noteq> []"
  then show "(tl (dropWhile (\<lambda>c. c \<noteq> 0x2C) rule), rule) \<in> measure length"
    using length_dropWhile_le [of "\<lambda>c. c \<noteq> 0x2C" rule] by (cases rule) (auto simp: less_Suc_eq_le intro: diff_le_self order_trans)
qed simp

declare subopts.simps [simp del]

definition getsubopt :: "u8 list \<Rightarrow> map_opt option \<times> u8 list option" where
  "getsubopt s =
     (case map_of token (takeWhile (\<lambda>c. c \<noteq> 0x3D) s) of
        None \<Rightarrow> (None, Some s)
      | Some opt \<Rightarrow>
          (Some opt, if 0x3D \<in> set s then Some (tl (dropWhile (\<lambda>c. c \<noteq> 0x3D) s)) else None))"

text \<open>
  \<open>(intval = strtoul(value, NULL, 0)) <= limit && !errno\<close>; the number is narrowed to an \<open>int\<close>. The C
  library sets \<open>errno\<close> for a number out of range only, and not when there are no digits.
\<close>

definition opt_number :: "u8 list \<Rightarrow> int \<Rightarrow> int option" where
  "opt_number s limit =
     (let intval = sint (ucast (strtoul s :: u64) :: u32)
      in if intval \<le> limit \<and> strtoul_range s then Some intval else None)"

definition set_number :: "u8 list option \<Rightarrow> int \<Rightarrow> (int \<Rightarrow> map_rule) \<Rightarrow> map_rule \<Rightarrow> map_rule option" where
  "set_number v limit upd r = do {
     s \<leftarrow> v;
     Some (case opt_number s limit of Some n \<Rightarrow> upd n | None \<Rightarrow> r)
   }"

definition set_address ::
  "(u8 list \<Rightarrow> u8 list option) \<Rightarrow> u8 list option \<Rightarrow> (u8 list \<Rightarrow> map_rule) \<Rightarrow> map_rule \<Rightarrow> map_rule option" where
  "set_address pton v upd r = do {
     s \<leftarrow> v;
     Some (case pton s of Some a \<Rightarrow> upd a | None \<Rightarrow> r)
   }"

text \<open>One option; an invalid value is reported and skipped.\<close>

definition map_option_step :: "map_env \<Rightarrow> map_opt option \<times> u8 list option \<Rightarrow> map_rule \<Rightarrow> map_rule option" where
  "map_option_step env ov r =
     (case ov of
        (None, v) \<Rightarrow> Some r
      | (Some opt, v) \<Rightarrow>
          (case opt of
             OPT_TYPE \<Rightarrow> Some (r\<lparr>lw4o6 := (v = Some (cstr ''lw4o6''))\<rparr>)
           | OPT_FMR \<Rightarrow> Some (r\<lparr>fmr := True\<rparr>)
           | OPT_EALEN \<Rightarrow> set_number v 48 (\<lambda>n. r\<lparr>ealen := n\<rparr>) r
           | OPT_PREFIX4LEN \<Rightarrow> set_number v 32 (\<lambda>n. r\<lparr>prefix4len := n\<rparr>) r
           | OPT_PREFIX6LEN \<Rightarrow> set_number v 128 (\<lambda>n. r\<lparr>prefix6len := n\<rparr>) r
           | OPT_IPV4PREFIX \<Rightarrow> set_address (pton4 env) v (\<lambda>a. r\<lparr>ipv4prefix := a\<rparr>) r
           | OPT_IPV6PREFIX \<Rightarrow> set_address (pton6 env) v (\<lambda>a. r\<lparr>ipv6prefix := a\<rparr>) r
           | OPT_PD \<Rightarrow> set_address (pton6 env) v (\<lambda>a. r\<lparr>pd := a\<rparr>) r
           | OPT_OFFSET \<Rightarrow> set_number v 16 (\<lambda>n. r\<lparr>offset := n\<rparr>) r
           | OPT_PSIDLEN \<Rightarrow> set_number v 16 (\<lambda>n. r\<lparr>psidlen := n\<rparr>) r
           | OPT_PDLEN \<Rightarrow> set_number v 128 (\<lambda>n. r\<lparr>pdlen := n\<rparr>) r
           | OPT_PSID \<Rightarrow> set_number v 65535 (\<lambda>n. r\<lparr>psid := n\<rparr>) r
           | OPT_DMR \<Rightarrow> Some (r\<lparr>dmr := v\<rparr>)
           | OPT_BR \<Rightarrow> Some (r\<lparr>br := v\<rparr>)))"

fun map_options :: "map_env \<Rightarrow> u8 list list \<Rightarrow> map_rule \<Rightarrow> map_rule option" where
  "map_options env [] r = Some r"
| "map_options env (s # ss) r = do {
     r \<leftarrow> map_option_step env (getsubopt s) r;
     map_options env ss r
   }"

section \<open>The delegated prefix\<close>

text \<open>The loop of \<open>match_prefix\<close> over the prefixes of an interface; \<open>pdlen\<close> and \<open>pd\<close> are its results.\<close>

fun match_prefix_loop ::
  "map_env \<Rightarrow> dump_addr list \<Rightarrow> u8 list \<Rightarrow> int \<Rightarrow> bool \<Rightarrow> int \<times> u8 list \<Rightarrow> (int \<times> u8 list) option" where
  "match_prefix_loop env [] v6 len6 lw st = Some st"
| "match_prefix_loop env ((Some a, Some m) # ds) v6 len6 lw (plen, p) = do {
     let prefix = (case pton6 env a of Some x \<Rightarrow> x | None \<Rightarrow> replicate 16 0);
     let m = (if lw \<and> sint m = 128 then 64 else sint m);
     r \<leftarrow> (if plen < m \<and> m \<ge> len6 then bmemcmp prefix v6 (size_of_int len6) else Some 1);
     st \<leftarrow> (if r = 0 then do {
              p \<leftarrow> bmemcpy p prefix (size_of_int m);
              Some (m, p)
            }
            else do {
              r \<leftarrow> (if lw \<and> plen < len6 \<and> m < len6 then bmemcmp prefix v6 (size_of_int m) else Some 1);
              if r = 0 then do {
                p \<leftarrow> bmemcpy p v6 (size_of_int len6);
                Some (len6, p)
              }
              else Some (plen, p)
            });
     match_prefix_loop env ds v6 len6 lw st
   }"
| "match_prefix_loop env (_ # ds) v6 len6 lw st = match_prefix_loop env ds v6 len6 lw st"

definition match_prefix ::
  "map_env \<Rightarrow> dump_addr list option \<Rightarrow> map_rule \<Rightarrow> int \<times> u8 list \<Rightarrow> (int \<times> u8 list) option" where
  "match_prefix env cur r st =
     (case cur of
        None \<Rightarrow> Some st
      | Some ds \<Rightarrow> match_prefix_loop env ds (ipv6prefix r) (prefix6len r) (lw4o6 r) st)"

text \<open>The loop over the interfaces; it stops at the first one that has a match and remembers its name.\<close>

fun find_pd ::
  "map_env \<Rightarrow> u8 list \<Rightarrow> dump_iface list \<Rightarrow> map_rule \<Rightarrow> u8 list \<Rightarrow> (map_rule \<times> u8 list) option" where
  "find_pd env arg [] r iface = Some (r, iface)"
| "find_pd env arg (c # cs) r iface =
     (case if_name c of
        None \<Rightarrow> find_pd env arg cs r iface
      | Some name \<Rightarrow>
          if arg \<noteq> cstr ''*'' \<and> arg \<noteq> name then find_pd env arg cs r iface
          else do {
            st \<leftarrow> match_prefix env (if_prefix c) r (pdlen r, pd r);
            (len, p) \<leftarrow> (if lw4o6 r then match_prefix env (if_address c) r st else Some st);
            let r = r\<lparr>pdlen := len, pd := p\<rparr>;
            if len \<ge> 0 then Some (r, name) else find_pd env arg cs r iface
          })"

end
