(* ===== verification/Map_Calc.thy ===== *)
theory Map_Calc
  imports Map_Rule
begin

text \<open>
  \<open>mapcalc.c\<close>, the calculation of a rule: the lengths of its fields, the port set identifier, the
  IPv4 and the IPv6 address, the port sets, and the loop over the rules.
\<close>

section \<open>The fields of a rule\<close>

definition map_defaults :: "map_env \<Rightarrow> map_rule \<Rightarrow> map_rule" where
  "map_defaults env r =
     (let r = (if offset r < 0 then r\<lparr>offset := if lw4o6 r then 0 else if legacy env then 4 else 6\<rparr> else r)
      in if lw4o6 r then
           let r = (if psidlen r < 0 then r\<lparr>psidlen := 0\<rparr> else r) in r\<lparr>ealen := psidlen r\<rparr>
         else r)"

definition map_lengths :: "map_rule \<Rightarrow> map_rule" where
  "map_lengths r =
     (let r = (if ealen r < 0 \<and> pdlen r \<ge> 0 then r\<lparr>ealen := pdlen r - prefix6len r\<rparr> else r)
      in if psidlen r \<le> 0
         then r\<lparr>psidlen := max 0 (ealen r - (32 - prefix4len r)), psid := - 1\<rparr>
         else r)"

definition map_invalid :: "map_rule \<Rightarrow> bool" where
  "map_invalid r \<longleftrightarrow> prefix4len r < 0 \<or> prefix6len r < 0 \<or> ealen r < 0 \<or> psidlen r > 16 \<or> ealen r < psidlen r"

text \<open>The identifier from the delegated prefix, its 16 bits as bytes, and its left-aligned value.\<close>

definition map_psid :: "map_rule \<Rightarrow> (int \<times> u8 list) option" where
  "map_psid r = do {
     (ident, ident16) \<leftarrow> (if psid r < 0 \<and> psidlen r \<ge> 0 \<and> pdlen r \<ge> 0 then do {
          ident16 \<leftarrow> bmemcpys64 [0, 0] (pd r) (nat (prefix6len r + ealen r - psidlen r)) (nat (psidlen r));
          Some (uint (be_val ident16 :: u16), ident16)
        } else Some (psid r, [0, 0]));
     Some (if psidlen r > 0 then
             let ident = drop_bit (nat (16 - psidlen r)) ident
             in (push_bit (nat (16 - psidlen r)) ident, be_bytes 2 (word_of_int ident :: u16))
           else (ident, ident16))
   }"

text \<open>The IPv4 address and the length of the prefix that the router has.\<close>

definition map_addr4 :: "map_env \<Rightarrow> map_rule \<Rightarrow> (u8 list \<times> int) option" where
  "map_addr4 env r =
     (if pdlen r \<ge> 0 \<or> ealen r = psidlen r then do {
        a \<leftarrow> bmemcpys64 (replicate 4 0) (pd r) (nat (prefix6len r)) (nat (ealen r - psidlen r));
        let w = (be_val a :: u32);
        let w = (if prefix4len r < 32 then drop_bit (nat (prefix4len r)) w else shift_out env w);
        a \<leftarrow> bmemcpy (be_bytes 4 w) (ipv4prefix r) (nat (prefix4len r));
        Some (a, if prefix4len r + ealen r < 32 then prefix4len r + ealen r else 32)
      }
      else Some (replicate 4 0, 32))"

definition map_addr6 :: "map_env \<Rightarrow> map_rule \<Rightarrow> u8 list \<Rightarrow> u8 list \<Rightarrow> u8 list option" where
  "map_addr6 env r addr4 ident16 = do {
     let v4offset = (if legacy env then 9 else 10);
     a \<leftarrow> buf_put (replicate 16 0) v4offset addr4;
     a \<leftarrow> buf_put a (v4offset + 4) ident16;
     bmemcpy a (pd r) (nat (pdlen r))
   }"

section \<open>The port sets\<close>

text \<open>
  The ranges of ports from number \<open>k\<close> on; \<open>offset\<close> and \<open>psidlen\<close> are \<open>a\<close> and \<open>len\<close>. The shift by
  \<open>16 - offset - psidlen\<close> is undefined when that is negative.
\<close>

function map_ports_loop :: "int \<Rightarrow> int \<Rightarrow> int \<Rightarrow> int \<Rightarrow> (int \<times> int) list option" where
  "map_ports_loop a len ident k =
     (if k < push_bit (nat a) 1 then
        if 16 - a - len < 0 then None
        else do {
          let start = push_bit (nat (16 - a)) k OR drop_bit (nat a) ident;
          let stop = start + push_bit (nat (16 - a - len)) 1 - 1;
          let start = (if start = 0 then 1 else start);
          rest \<leftarrow> map_ports_loop a len ident (k + 1);
          Some (if start \<le> stop then (start, stop) # rest else rest)
        }
      else Some [])"
  by pat_completeness auto
termination
  by (relation "measure (\<lambda>(a, len, ident, k). nat (push_bit (nat a) 1 - k))") auto

declare map_ports_loop.simps [simp del]

definition map_ports :: "int \<Rightarrow> int \<Rightarrow> int \<Rightarrow> (int \<times> int) list option" where
  "map_ports a len ident = map_ports_loop a len ident (if a \<noteq> 0 then 1 else 0)"

section \<open>A rule and all rules\<close>

text \<open>
  What is printed for a rule: the rule as far as it was completed, and the parts that depend on the
  prefix, on the address, and on the port set.
\<close>

record map_out =
  out_rule :: map_rule
  out_pd :: "(u8 list \<times> int \<times> u8 list \<times> u8 list) option"
  out_addr4 :: "(u8 list \<times> int) option"
  out_ports :: "(int \<times> int) list option"

datatype map_result = Skipped_incomplete | Skipped_no_pd | Printed map_out

definition map_calc :: "map_env \<Rightarrow> map_rule \<Rightarrow> u8 list \<Rightarrow> map_result option" where
  "map_calc env r iface =
     (let r = map_lengths r
      in if map_invalid r then Some Skipped_incomplete
         else do {
           (ident, ident16) \<leftarrow> map_psid r;
           (addr4, addr4len) \<leftarrow> map_addr4 env r;
           if pdlen r < 0 \<and> \<not> fmr r then Some Skipped_no_pd
           else do {
             p \<leftarrow> (if pdlen r \<ge> 0 then do {
                     addr6 \<leftarrow> map_addr6 env r addr4 ident16;
                     Some (Some (pd r, pdlen r, iface, addr6))
                   } else Some None);
             ports \<leftarrow> (if psidlen r > 0 \<and> ident \<ge> 0 then map_option Some (map_ports (offset r) (psidlen r) ident)
                      else Some None);
             Some (Printed
               \<lparr>out_rule = r, out_pd = p,
                out_addr4 = (if addr4 = replicate 4 0 then None else Some (addr4, addr4len)),
                out_ports = ports\<rparr>)
           }
         })"

text \<open>A rule as given: its options, the defaults, the search for the prefix, the calculation.\<close>

definition map_one :: "map_env \<Rightarrow> u8 list \<Rightarrow> u8 list \<Rightarrow> u8 list \<Rightarrow> (map_result \<times> u8 list) option" where
  "map_one env arg iface rule = do {
     r \<leftarrow> map_options env (subopts rule) map_rule_init;
     let r = map_defaults env r;
     (r, iface) \<leftarrow> (if pdlen r < 0 then find_pd env arg (dump env) r iface else Some (r, iface));
     res \<leftarrow> map_calc env r iface;
     Some (res, iface)
   }"

text \<open>The exit status and the rules that were printed; their number is the last line.\<close>

fun map_rules ::
  "map_env \<Rightarrow> u8 list \<Rightarrow> u8 list list \<Rightarrow> u8 list \<Rightarrow> int \<Rightarrow> map_out list \<Rightarrow> (int \<times> map_out list) option" where
  "map_rules env arg [] iface status outs = Some (status, outs)"
| "map_rules env arg (rule # rules) iface status outs = do {
     (res, iface) \<leftarrow> map_one env arg iface rule;
     (case res of
        Printed out \<Rightarrow> map_rules env arg rules iface status (outs @ [out])
      | _ \<Rightarrow> map_rules env arg rules iface 1 outs)
   }"

definition map_main :: "map_env \<Rightarrow> u8 list list \<Rightarrow> (int \<times> map_out list) option" where
  "map_main env argv =
     (if length argv < 3 then Some (1, [])
      else map_rules env (argv ! 1) (drop 2 argv) (argv ! 1) 0 [])"

end
