(* ===== verification/Map_Theorems.thy ===== *)
theory Map_Theorems
  imports Map_Calc
begin

text \<open>
  Properties of \<open>mapcalc\<close>: the port sets are those of the algorithm of MAP, different identifiers
  get different ports, and the addresses hold the bits of the rule and of the delegated prefix that
  they have to.
\<close>

section \<open>Port sets\<close>

lemma or_disjoint:
  assumes "0 \<le> x" and "x < 2 ^ n"
  shows "push_bit n k OR x = k * 2 ^ n + (x :: int)"
proof -
  have x: "take_bit n x = x" using assms by (intro take_bit_int_eq_self)
  have "push_bit n k OR x = push_bit n k OR take_bit n x" by (simp only: x)
  also have "\<dots> = push_bit n k + take_bit n x"
    by (rule disjunctive_add [symmetric]) (auto simp: bit_simps)
  finally show ?thesis by (simp add: x push_bit_eq_mult)
qed

lemma in_port_range:
  fixes x m len p k :: int
  assumes "0 < m" and "0 \<le> x"
  shows "k * (m * n) + p * m \<le> x \<and> x \<le> k * (m * n) + p * m + m - 1 \<longleftrightarrow> x div m = k * n + p"
proof -
  have eq: "k * (m * n) + p * m = (k * n + p) * m" by (simp add: algebra_simps)
  show ?thesis
  proof
    assume r: "k * (m * n) + p * m \<le> x \<and> x \<le> k * (m * n) + p * m + m - 1"
    have "x = (k * n + p) * m + (x - (k * n + p) * m)" by simp
    moreover have "0 \<le> x - (k * n + p) * m" "x - (k * n + p) * m < m" using r unfolding eq by linarith+
    ultimately show "x div m = k * n + p"
      by (metis add.right_neutral add_diff_cancel_left' assms(1) div_mult_self3 div_pos_pos_trivial less_irrefl)
  next
    assume d: "x div m = k * n + p"
    have "x = (k * n + p) * m + x mod m" using div_mult_mod_eq [of x m] d by simp
    moreover have "0 \<le> x mod m" "x mod m < m" using assms(1) by simp_all
    ultimately show "k * (m * n) + p * m \<le> x \<and> x \<le> k * (m * n) + p * m + m - 1" unfolding eq by linarith
  qed
qed

text \<open>The ports of the ranges that the loop prints.\<close>

definition covers_port :: "(int \<times> int) list \<Rightarrow> int \<Rightarrow> bool" where
  "covers_port rs x \<longleftrightarrow> (\<exists>(s, e)\<in>set rs. s \<le> x \<and> x \<le> e)"

lemma covers_port_Cons: "covers_port ((s, e) # rs) x \<longleftrightarrow> s \<le> x \<and> x \<le> e \<or> covers_port rs x"
  by (simp add: covers_port_def)

lemma ports_loop:
  assumes "a + len \<le> 16" and "P < 2 ^ len" and "0 \<le> k"
  shows "\<exists>rs. map_ports_loop (int a) (int len) (int P * 2 ^ (16 - len)) k = Some rs \<and>
    (\<forall>x. covers_port rs x \<longleftrightarrow> 1 \<le> x \<and> (\<exists>j. k \<le> j \<and> j < 2 ^ a \<and> x div 2 ^ (16 - a - len) = j * 2 ^ len + int P))"
  using assms(3)
proof (induction "nat (2 ^ a - k)" arbitrary: k rule: less_induct)
  case less
  let ?m = "2 ^ (16 - a - len) :: int" and ?id = "int P * 2 ^ (16 - len)"
  show ?case
  proof (cases "k < 2 ^ a")
    case False
    have "map_ports_loop (int a) (int len) ?id k = Some []"
      using False by (subst map_ports_loop.simps) simp
    then show ?thesis using False by (auto simp: covers_port_def)
  next
    case True
    obtain rs where ih: "map_ports_loop (int a) (int len) ?id (k + 1) = Some rs"
      and rs: "\<And>x. covers_port rs x \<longleftrightarrow> 1 \<le> x \<and> (\<exists>j. k + 1 \<le> j \<and> j < 2 ^ a \<and> x div ?m = j * 2 ^ len + int P)"
      using less.hyps [of "k + 1"] less.prems True by auto
    have e: "(2 :: int) ^ (16 - len) = ?m * 2 ^ a" "(2 :: int) ^ (16 - a) = ?m * 2 ^ len"
      using assms(1) by (simp_all flip: power_add)
    have low: "drop_bit a ?id = int P * ?m"
      unfolding e by (simp add: drop_bit_eq_div flip: mult.assoc)
    have "int P * ?m < 2 ^ len * ?m" using assms(2) by (intro mult_strict_right_mono) simp_all
    then have start: "push_bit (16 - a) k OR drop_bit a ?id = k * (?m * 2 ^ len) + int P * ?m"
      unfolding low by (subst or_disjoint) (simp_all add: e mult.commute)
    let ?s = "k * (?m * 2 ^ len) + int P * ?m"
    have s0: "0 \<le> ?s" using less.prems by simp
    have n: "nat (16 - int a) = 16 - a" "nat (16 - int a - int len) = 16 - a - len" by linarith+
    have "map_ports_loop (int a) (int len) ?id k =
        Some (if (if ?s = 0 then 1 else ?s) \<le> ?s + ?m - 1 then (if ?s = 0 then 1 else ?s, ?s + ?m - 1) # rs else rs)"
      using True assms(1) ih
      by (subst map_ports_loop.simps) (simp add: n start Let_def)
    moreover have "covers_port (if (if ?s = 0 then 1 else ?s) \<le> ?s + ?m - 1
          then (if ?s = 0 then 1 else ?s, ?s + ?m - 1) # rs else rs) x \<longleftrightarrow>
        1 \<le> x \<and> (?s \<le> x \<and> x \<le> ?s + ?m - 1) \<or> covers_port rs x" for x
      using s0 by (auto simp: covers_port_Cons)
    moreover have "?s \<le> x \<and> x \<le> ?s + ?m - 1 \<longleftrightarrow> x div ?m = k * 2 ^ len + int P" if "1 \<le> x" for x
      using that by (intro in_port_range) simp_all
    moreover have "(\<exists>j. k \<le> j \<and> j < 2 ^ a \<and> Q j) \<longleftrightarrow> Q k \<or> (\<exists>j. k + 1 \<le> j \<and> j < 2 ^ a \<and> Q j)" for Q
      using True by (metis le_less zless_add1_eq add1_zle_eq order_refl)
    ultimately show ?thesis using rs by (auto simp del: split_paired_Ex)
  qed
qed

lemma quotient_form:
  fixes q n P k u :: int
  assumes "0 < n" and "0 \<le> P" and "P < n"
  shows "(\<exists>j. k \<le> j \<and> j < u \<and> q = j * n + P) \<longleftrightarrow> q mod n = P \<and> k \<le> q div n \<and> q div n < u"
proof
  assume "\<exists>j. k \<le> j \<and> j < u \<and> q = j * n + P"
  then obtain j where "k \<le> j" "j < u" "q = j * n + P" by blast
  moreover from this have "q mod n = P" "q div n = j" using assms by simp_all
  ultimately show "q mod n = P \<and> k \<le> q div n \<and> q div n < u" by simp
next
  assume r: "q mod n = P \<and> k \<le> q div n \<and> q div n < u"
  then have "q = (q div n) * n + P" using div_mult_mod_eq [of q n] by simp
  then show "\<exists>j. k \<le> j \<and> j < u \<and> q = j * n + P" using r by blast
qed

lemma int_div_less: "0 < c \<Longrightarrow> x div c < d \<longleftrightarrow> x < d * (c :: int)"
proof -
  assume c: "0 < c"
  have x: "x = x div c * c + x mod c" "0 \<le> x mod c" "x mod c < c" using c by simp_all
  show ?thesis
  proof
    assume "x div c < d"
    then have "(x div c + 1) * c \<le> d * c" using c by (intro mult_right_mono) simp_all
    then have "x div c * c + c \<le> d * c" by (simp add: distrib_right)
    then show "x < d * c" using x by linarith
  next
    assume lt: "x < d * c"
    show "x div c < d"
    proof (rule ccontr)
      assume "\<not> x div c < d"
      then have "d * c \<le> x div c * c" using c by (intro mult_right_mono) simp_all
      then show False using lt x by linarith
    qed
  qed
qed

lemma ports_of_id:
  assumes "a + len \<le> 16" and "P < 2 ^ len"
  shows "\<exists>rs. map_ports (int a) (int len) (int P * 2 ^ (16 - len)) = Some rs \<and>
    (\<forall>x. covers_port rs x \<longleftrightarrow> 1 \<le> x \<and> x < 65536 \<and>
       x div 2 ^ (16 - a - len) mod 2 ^ len = int P \<and> (a = 0 \<or> 2 ^ (16 - a) \<le> x))"
proof -
  let ?k = "if a = 0 then 0 else 1 :: int" and ?m = "2 ^ (16 - a - len) :: int"
  obtain rs where rs: "map_ports (int a) (int len) (int P * 2 ^ (16 - len)) = Some rs"
    and c: "\<And>x. covers_port rs x \<longleftrightarrow> 1 \<le> x \<and> (\<exists>j. ?k \<le> j \<and> j < 2 ^ a \<and> x div ?m = j * 2 ^ len + int P)"
    using ports_loop [OF assms, of ?k] by (cases "a = 0") (auto simp: map_ports_def)
  have m: "(\<exists>j. ?k \<le> j \<and> j < 2 ^ a \<and> x div ?m = j * 2 ^ len + int P) \<longleftrightarrow>
      x < 65536 \<and> x div ?m mod 2 ^ len = int P \<and> (a = 0 \<or> 2 ^ (16 - a) \<le> x)" if "1 \<le> x" for x
  proof -
    have "x div ?m div 2 ^ len = x div 2 ^ (16 - a)"
      using assms(1) by (simp add: zdiv_zmult2_eq [symmetric] flip: power_add)
    moreover have "x div 2 ^ (16 - a) < 2 ^ a \<longleftrightarrow> x < 65536"
    proof -
      have "(2 :: int) ^ a * 2 ^ (16 - a) = 65536" using assms(1) by (simp flip: power_add)
      then show ?thesis using int_div_less [of "2 ^ (16 - a)" x "2 ^ a"] by simp
    qed
    moreover have "?k \<le> x div 2 ^ (16 - a) \<longleftrightarrow> a = 0 \<or> 2 ^ (16 - a) \<le> x"
    proof (cases "a = 0")
      case True
      then show ?thesis using that by (simp add: pos_imp_zdiv_nonneg_iff)
    next
      case False
      have "x div 2 ^ (16 - a) < 1 \<longleftrightarrow> x < 1 * 2 ^ (16 - a)" by (rule int_div_less) simp
      then show ?thesis using False by auto
    qed
    ultimately show ?thesis
      using quotient_form [of "2 ^ len" "int P" ?k "2 ^ a" "x div ?m"] assms(2) by auto
  qed
  have "covers_port rs x \<longleftrightarrow> 1 \<le> x \<and> x < 65536 \<and> x div ?m mod 2 ^ len = int P \<and> (a = 0 \<or> 2 ^ (16 - a) \<le> x)" for x
    using c [of x] m [of x] by blast
  then show ?thesis using rs by blast
qed

text \<open>
  C32: The port sets of an identifier \<open>P\<close> of \<open>psidlen\<close> bits are those of the MAP algorithm: a port
  belongs to one of the printed ranges exactly when the bits behind its first \<open>offset\<close> bits are \<open>P\<close>,
  and, for an offset above 0, its first \<open>offset\<close> bits are not all zero. Port 0 never does.
\<close>

theorem map_ports_algorithm:
  assumes "a + len \<le> 16" and "P < 2 ^ len"
  shows "\<exists>rs. map_ports (int a) (int len) (int P * 2 ^ (16 - len)) = Some rs \<and>
    (\<forall>x. (\<exists>(s, e)\<in>set rs. s \<le> x \<and> x \<le> e) \<longleftrightarrow> 1 \<le> x \<and> x < 65536 \<and>
       x div 2 ^ (16 - a - len) mod 2 ^ len = int P \<and> (a = 0 \<or> 2 ^ (16 - a) \<le> x))"
  using ports_of_id [OF assms] by (simp only: covers_port_def)

theorem map_ports_algorithm_witness:
  "\<exists>rs. map_ports 6 8 (0x34 * 256) = Some rs \<and> (\<exists>(s, e)\<in>set rs. s \<le> 1233 \<and> 1233 \<le> e) \<and>
    \<not> (\<exists>(s, e)\<in>set rs. s \<le> 1236 \<and> 1236 \<le> e)"
proof -
  obtain rs where rs: "map_ports 6 8 (0x34 * 256) = Some rs"
    and c: "\<And>x. (\<exists>(s, e)\<in>set rs. s \<le> x \<and> x \<le> e) \<longleftrightarrow> 1 \<le> x \<and> x < 65536 \<and> x div 4 mod 256 = 0x34 \<and> 1024 \<le> x"
    using map_ports_algorithm [of 6 8 "0x34"] by auto
  show ?thesis using rs by (intro exI [of _ rs]) (simp add: c)
qed

text \<open>
  C33: Two routers that share an IPv4 address never share a port: the port sets of different
  identifiers have no port in common, and together they are all ports, from 1 or from the first
  behind the reserved ones.
\<close>

theorem map_ports_partition:
  assumes "a + len \<le> 16"
  shows "\<exists>rs. (\<forall>P < 2 ^ len. map_ports (int a) (int len) (int P * 2 ^ (16 - len)) = Some (rs P)) \<and>
    (\<forall>P < 2 ^ len. \<forall>Q < 2 ^ len. \<forall>x. covers_port (rs P) x \<and> covers_port (rs Q) x \<longrightarrow> P = Q) \<and>
    (\<forall>x. (\<exists>P < 2 ^ len. covers_port (rs P) x) \<longleftrightarrow>
       1 \<le> x \<and> x < 65536 \<and> (a = 0 \<or> 2 ^ (16 - a) \<le> x))"
proof -
  let ?ok = "\<lambda>x. 1 \<le> x \<and> x < 65536 \<and> (a = 0 \<or> 2 ^ (16 - a) \<le> (x :: int))"
  let ?id = "\<lambda>x :: int. x div 2 ^ (16 - a - len) mod 2 ^ len"
  have "\<exists>rs. \<forall>P < 2 ^ len. map_ports (int a) (int len) (int P * 2 ^ (16 - len)) = Some (rs P) \<and>
      (\<forall>x. covers_port (rs P) x \<longleftrightarrow> ?ok x \<and> ?id x = int P)"
    using ports_of_id [OF assms] by (intro choice) meson
  then obtain rs where rs: "\<And>P. P < 2 ^ len \<Longrightarrow> map_ports (int a) (int len) (int P * 2 ^ (16 - len)) = Some (rs P)"
    and c: "\<And>P x. P < 2 ^ len \<Longrightarrow> covers_port (rs P) x \<longleftrightarrow> ?ok x \<and> ?id x = int P" by blast
  have "\<exists>P < 2 ^ len. ?id x = int P" for x
  proof (intro exI conjI)
    have "0 \<le> ?id x" "?id x < 2 ^ len" by simp_all
    then show "?id x = int (nat (?id x))" "nat (?id x) < 2 ^ len" by (simp_all add: nat_less_iff)
  qed
  then have "(\<exists>P < 2 ^ len. covers_port (rs P) x) \<longleftrightarrow> ?ok x" for x using c by metis
  moreover have "P = Q" if "P < 2 ^ len" "Q < 2 ^ len" "covers_port (rs P) x \<and> covers_port (rs Q) x" for P Q x
    using that c by (metis of_nat_eq_iff)
  ultimately show ?thesis using rs by (intro exI [of _ rs]) blast
qed

theorem map_ports_partition_witness:
  "\<exists>rs. (\<forall>P < 256. map_ports 6 8 (int P * 256) = Some (rs P)) \<and> (\<exists>P < 256. covers_port (rs P) 5000)"
  using map_ports_partition [of 6 8] by auto

end
