(* ===== verification/Map_Address.thy ===== *)
theory Map_Address
  imports Map_Theorems
begin

text \<open>
  The addresses and the port set identifier that \<open>mapcalc\<close> computes, bit by bit: where each field of
  the rule and of the delegated prefix goes.
\<close>

section \<open>Rules whose fields fit\<close>

text \<open>
  The lengths of a rule once they are completed: \<open>p4\<close>, \<open>p6\<close> of the two prefixes, \<open>e\<close> of the embedded
  address bits, \<open>l\<close> of the identifier among them.
\<close>

definition rule_fits :: "map_rule \<Rightarrow> nat \<Rightarrow> nat \<Rightarrow> nat \<Rightarrow> nat \<Rightarrow> bool" where
  "rule_fits r p4 p6 e l \<longleftrightarrow>
     prefix4len r = int p4 \<and> prefix6len r = int p6 \<and> ealen r = int e \<and> psidlen r = int l \<and>
     p4 \<le> 32 \<and> l \<le> 16 \<and> l \<le> e \<and> e - l \<le> 32 \<and> p6 + e < 128 \<and> 0 \<le> pdlen r \<and> pdlen r \<le> 128 \<and>
     length (ipv4prefix r) = 4 \<and> length (pd r) = 16"

lemma bits_list_eqI:
  assumes "length xs = length ys" and "\<And>i. i < 8 * length xs \<Longrightarrow> bit_at xs i = bit_at ys i"
  shows "xs = ys"
proof (rule nth_equalityI [OF assms(1)])
  fix k assume k: "k < length xs"
  show "xs ! k = ys ! k"
    by (rule byte_eqI) (use assms(2) k in \<open>auto simp: bit_at_byte [symmetric] intro!: assms(2)\<close>)
qed

lemma bit_at_zeros: "i < 8 * n \<Longrightarrow> bit_at (replicate n 0) i \<longleftrightarrow> False"
  by (simp add: bit_at_def less_mult_imp_div_less)

text \<open>A field of \<open>k\<close> bits in front of zeros.\<close>

lemma field_bits:
  assumes "m + k < 8 * length b" and "k \<le> 56" and "k \<le> 8 * n"
  shows "\<exists>x. bmemcpys64 (replicate n 0) b m k = Some x \<and> length x = n \<and>
    (\<forall>i < 8 * n. bit_at x i \<longleftrightarrow> i < k \<and> bit_at b (m + i))"
  using bmemcpys64_bits [OF assms(1,2), of "replicate n 0"] assms(3) by (auto simp: bit_at_zeros)

section \<open>The IPv4 address\<close>

lemma addr4_bits:
  assumes "rule_fits r p4 p6 e l"
  shows "\<exists>a. map_addr4 env r = Some (a, min 32 (int (p4 + e))) \<and> length a = 4 \<and>
    (\<forall>i<32. bit_at a i = (if i < p4 then bit_at (ipv4prefix r) i
                           else i - p4 < e - l \<and> bit_at (pd r) (p6 + (i - p4))))"
proof -
  note f = assms [unfolded rule_fits_def]
  obtain x where x: "bmemcpys64 (replicate 4 0) (pd r) p6 (e - l) = Some x" "length x = 4"
    and xb: "\<And>i. i < 32 \<Longrightarrow> bit_at x i = (i < e - l \<and> bit_at (pd r) (p6 + i))"
  proof -
    have "p6 + (e - l) < 8 * 16" "length (pd r) = 16" using f by (elim conjE, linarith)+
    then show ?thesis using field_bits [of p6 "e - l" "pd r" 4] f that by auto
  qed
  let ?w = "be_val x :: u32"
  have wb: "bit ?w (31 - i) = bit_at x i" if "i < 32" for i
    using bit_be_val [OF x(2), where 'a = 32] that by simp
  let ?y = "if p4 < 32 then drop_bit p4 ?w else shift_out env ?w"
  obtain a where a: "bmemcpy (be_bytes 4 ?y) (ipv4prefix r) p4 = Some a" "length a = 4"
    and ab: "\<And>i. i < 32 \<Longrightarrow> bit_at a i = (if i < p4 then bit_at (ipv4prefix r) i else bit_at (be_bytes 4 ?y) i)"
    using bmemcpy_bits [of p4 "be_bytes 4 ?y" "ipv4prefix r"] f by auto
  have "bit_at (be_bytes 4 ?y) i = (i - p4 < e - l \<and> bit_at (pd r) (p6 + (i - p4)))" if i: "i < 32" "p4 \<le> i" for i
  proof -
    have "bit_at (be_bytes 4 ?y) i = bit (drop_bit p4 ?w) (31 - i)"
      using bit_at_be_bytes [of i 4 ?y] i by simp
    also have "\<dots> = bit ?w (31 - (i - p4))" using i by (simp add: bit_drop_bit_eq add.commute)
    also have "\<dots> = bit_at x (i - p4)" using i by (intro wb) simp
    also have "\<dots> = (i - p4 < e - l \<and> bit_at (pd r) (p6 + (i - p4)))" using i by (intro xb) simp
    finally show ?thesis .
  qed
  moreover have "nat (int e - int l) = e - l" by simp
  then have "map_addr4 env r = Some (a, min 32 (int (p4 + e)))"
    using f x(1) a(1) by (cases "p4 < 32") (auto simp: map_addr4_def min_def Let_def)
  ultimately show ?thesis using a(2) ab by auto
qed

section \<open>The port set identifier\<close>

lemma psid_bits:
  assumes "rule_fits r p4 p6 e l" and "psid r < 0"
  shows "\<exists>P. map_psid r = Some (int P * 2 ^ (16 - l), be_bytes 2 (of_nat P :: u16)) \<and> P < 2 ^ l \<and>
    (\<forall>i<l. bit P (l - 1 - i) = bit_at (pd r) (p6 + e - l + i))"
proof -
  note f = assms(1) [unfolded rule_fits_def]
  have m: "nat (prefix6len r + ealen r - psidlen r) = p6 + e - l" "nat (psidlen r) = l" using f by simp_all
  obtain x where x: "bmemcpys64 [0, 0] (pd r) (p6 + e - l) l = Some x" "length x = 2"
    and xb: "\<And>i. i < 16 \<Longrightarrow> bit_at x i = (i < l \<and> bit_at (pd r) (p6 + e - l + i))"
    using field_bits [of "p6 + e - l" l "pd r" 2] f by (auto simp: numeral_2_eq_2)
  let ?w = "be_val x :: u16"
  have wb: "bit ?w (15 - i) = bit_at x i" if "i < 16" for i
    using bit_be_val [OF x(2), where 'a = 16] that by simp
  have l16: "l \<le> 16" using f by simp
  let ?P = "unat (drop_bit (16 - l) ?w)"
  have low: "\<not> bit ?w k" if "k < 16 - l" for k
  proof -
    have "\<not> 15 - k < l" "15 - k < 16" "15 - (15 - k) = k" using that by linarith+
    then show ?thesis using wb [of "15 - k"] xb [of "15 - k"] by simp
  qed
  have uw: "push_bit (16 - l) (drop_bit (16 - l) (uint ?w)) = uint ?w"
  proof (rule bit_eqI)
    fix n
    have "bit ?w n \<Longrightarrow> 16 - l \<le> n" using low not_le by blast
    then show "bit (push_bit (16 - l) (drop_bit (16 - l) (uint ?w))) n = bit (uint ?w) n"
      by (auto simp: bit_simps)
  qed
  have small: "?P < 2 ^ l"
  proof -
    have "unat ?w < 2 ^ 16" using unsigned_less [where 'a = nat, of ?w] by simp
    also have "(2 :: nat) ^ 16 = 2 ^ l * 2 ^ (16 - l)" using l16 by (simp flip: power_add)
    finally have "unat ?w div 2 ^ (16 - l) < 2 ^ l" by (rule less_mult_imp_div_less)
    then show ?thesis by (simp only: unat_drop_bit_eq) (simp add: drop_bit_eq_div)
  qed
  have P: "int ?P = drop_bit (16 - l) (uint ?w)"
    by (simp only: unat_drop_bit_eq) (simp add: drop_bit_eq_div zdiv_int)
  have "bit ?P (l - 1 - i) = bit_at (pd r) (p6 + e - l + i)" if "i < l" for i
  proof -
    have "bit ?P (l - 1 - i) = bit ?w (15 - i)"
      using that l16 by (simp only: unat_drop_bit_eq bit_drop_bit_eq comp_apply) (simp add: bit_simps)
    then show ?thesis using wb [of i] xb [of i] that l16 by simp
  qed
  moreover have "map_psid r = Some (int ?P * 2 ^ (16 - l), be_bytes 2 (of_nat ?P :: u16))"
  proof (cases "l = 0")
    case True
    have "x = [0, 0]" using x(2) xb True by (intro bits_list_eqI) (auto simp: bit_at_def nth_Cons')
    then show ?thesis
      using f assms(2) x(1) m True by (simp add: map_psid_def be_val_def be_bytes_def numeral_2_eq_2)
  next
    case False
    have n: "nat (16 - int l) = 16 - l" by linarith
    have u: "uint (drop_bit (16 - l) ?w) = drop_bit (16 - l) (uint ?w)" using P by simp
    then have "word_of_int (drop_bit (16 - l) (uint ?w)) = drop_bit (16 - l) ?w" by (simp flip: u)
    then show ?thesis
      using f assms(2) x(1) m False by (simp add: map_psid_def Let_def n u push_bit_eq_mult)
  qed
  ultimately show ?thesis using small by blast
qed

section \<open>The IPv6 address\<close>

text \<open>
  The interface identifier: the IPv4 address and the identifier of the port set behind 16 zero bits
  (one byte earlier in the older format).
\<close>

definition interface_id :: "map_env \<Rightarrow> u8 list \<Rightarrow> u16 \<Rightarrow> u8 list" where
  "interface_id env addr4 P =
     (let k = (if legacy env then 9 else 10) in replicate k 0 @ addr4 @ be_bytes 2 P @ replicate (10 - k) 0)"

lemma addr6_bits:
  assumes "length (pd r) = 16" and "0 \<le> pdlen r" and "pdlen r \<le> 128" and "length addr4 = 4"
  shows "\<exists>a. map_addr6 env r addr4 (be_bytes 2 P) = Some a \<and> length a = 16 \<and>
    (\<forall>i<128. bit_at a i = (if int i < pdlen r then bit_at (pd r) i else bit_at (interface_id env addr4 P) i))"
proof -
  let ?k = "if legacy env then 9 else 10 :: nat" and ?x = "interface_id env addr4 P"
  have x: "length ?x = 16" using assms(4) by (simp add: interface_id_def Let_def)
  have put: "buf_put (replicate 16 0) ?k addr4 = Some (replicate ?k 0 @ addr4 @ replicate (12 - ?k) 0)"
    using assms(4) by (simp add: buf_put_def)
  have put2: "buf_put (replicate ?k 0 @ addr4 @ replicate (12 - ?k) 0) (?k + 4) (be_bytes 2 P) = Some ?x"
    using assms(4) by (auto simp: buf_put_def interface_id_def Let_def)
  have n: "nat (pdlen r) \<le> 8 * length ?x" "nat (pdlen r) \<le> 8 * length (pd r)" using assms x by simp_all
  obtain a where "bmemcpy ?x (pd r) (nat (pdlen r)) = Some a" "length a = 16"
    "\<And>i. i < 128 \<Longrightarrow> bit_at a i = (if i < nat (pdlen r) then bit_at (pd r) i else bit_at ?x i)"
    using bmemcpy_bits [OF n] x by auto
  moreover have "i < nat (pdlen r) \<longleftrightarrow> int i < pdlen r" for i by linarith
  moreover have "map_addr6 env r addr4 (be_bytes 2 P) = bmemcpy ?x (pd r) (nat (pdlen r))"
    by (simp only: map_addr6_def Let_def put put2 bind.bind_lunit)
  ultimately show ?thesis by auto
qed

section \<open>The rule of the router\<close>

text \<open>
  C31: What \<open>mapcalc\<close> prints for a rule whose lengths fit and that has a delegated prefix, with the
  identifier taken from the prefix: the IPv4 address is the prefix of the rule followed by the
  embedded bits of the delegated prefix and zeros; the identifier of the port set is the last
  \<open>psidlen\<close> embedded bits and the ports are its port sets; the IPv6 address is the delegated prefix
  followed by the interface identifier of these two.
\<close>

theorem map_calc_router:
  assumes "rule_fits (map_lengths r) p4 p6 e l" and "psid (map_lengths r) < 0" and "offset r + int l \<le> 16" and "0 \<le> offset r"
  shows "\<exists>out addr4 addr6 P. map_calc env r iface = Some (Printed out) \<and> length addr4 = 4 \<and> length addr6 = 16 \<and>
    (\<forall>i<32. bit_at addr4 i = (if i < p4 then bit_at (ipv4prefix r) i else i - p4 < e - l \<and> bit_at (pd r) (p6 + (i - p4)))) \<and>
    P < 2 ^ l \<and> (\<forall>i<l. bit P (l - 1 - i) = bit_at (pd r) (p6 + e - l + i)) \<and>
    (\<forall>i<128. bit_at addr6 i =
       (if int i < pdlen r then bit_at (pd r) i else bit_at (interface_id env addr4 (of_nat P)) i)) \<and>
    out_addr4 out = (if addr4 = replicate 4 0 then None else Some (addr4, min 32 (int (p4 + e)))) \<and>
    out_pd out = Some (pd r, pdlen r, iface, addr6) \<and>
    out_ports out = (if l = 0 then None else map_ports (offset r) (int l) (int P * 2 ^ (16 - l)))"
proof -
  let ?r = "map_lengths r"
  note f = assms(1) [unfolded rule_fits_def]
  have same: "ipv4prefix ?r = ipv4prefix r" "pd ?r = pd r" "pdlen ?r = pdlen r" "offset ?r = offset r" "fmr ?r = fmr r"
    by (simp_all add: map_lengths_def Let_def)
  obtain P where P: "map_psid ?r = Some (int P * 2 ^ (16 - l), be_bytes 2 (of_nat P :: u16))" "P < 2 ^ l"
    "\<forall>i<l. bit P (l - 1 - i) = bit_at (pd r) (p6 + e - l + i)"
    using psid_bits [OF assms(1,2), unfolded same] by blast
  obtain addr4 where a4: "map_addr4 env ?r = Some (addr4, min 32 (int (p4 + e)))" "length addr4 = 4"
    "\<forall>i<32. bit_at addr4 i = (if i < p4 then bit_at (ipv4prefix r) i else i - p4 < e - l \<and> bit_at (pd r) (p6 + (i - p4)))"
    using addr4_bits [OF assms(1), of env, unfolded same] by blast
  obtain addr6 where a6: "map_addr6 env ?r addr4 (be_bytes 2 (of_nat P :: u16)) = Some addr6"
    "length addr6 = 16"
    "\<forall>i<128. bit_at addr6 i = (if int i < pdlen r then bit_at (pd r) i else bit_at (interface_id env addr4 (of_nat P)) i)"
    using addr6_bits [of ?r addr4 env "of_nat P", unfolded same] f [unfolded same] a4(2) by blast
  have "nat (offset r) + l \<le> 16" using assms(3,4) by linarith
  then have "\<exists>rs. map_ports (offset r) (int l) (int P * 2 ^ (16 - l)) = Some rs"
    using ports_of_id [of "nat (offset r)" l P] assms(3,4) P(2) by auto
  then obtain rs where rs: "map_ports (offset r) (int l) (int P * 2 ^ (16 - l)) = Some rs" by blast
  let ?out = "\<lparr>out_rule = ?r, out_pd = Some (pd r, pdlen r, iface, addr6),
      out_addr4 = (if addr4 = replicate 4 0 then None else Some (addr4, min 32 (int (p4 + e)))),
      out_ports = (if l = 0 then None else Some rs)\<rparr>"
  have "\<not> map_invalid ?r" "psidlen ?r = int l" "0 \<le> pdlen ?r" using f by (simp_all add: map_invalid_def)
  then have "map_calc env r iface = Some (Printed ?out)"
    using same P(1) a4(1) a6(1) rs by (cases "l = 0") (simp_all add: map_calc_def Let_def)
  then show ?thesis
    using a4(2,3) P(2,3) a6(2,3) rs
    by (intro exI [of _ ?out] exI [of _ addr4] exI [of _ addr6] exI [of _ P]) simp
qed

text \<open>The example of RFC 7597, section 5.3: 192.0.2.18, identifier 0x34.\<close>

definition sample_env :: map_env where
  "sample_env = \<lparr>pton4 = \<lambda>_. None, pton6 = \<lambda>_. None, dump = [], legacy = False, shift_out = \<lambda>w. w\<rparr>"

definition sample_rule :: map_rule where
  "sample_rule = map_rule_init
     \<lparr>ealen := 16, prefix4len := 24, prefix6len := 40, pdlen := 56, offset := 6,
      ipv4prefix := [192, 0, 2, 0], pd := [0x20, 1, 0x0D, 0xB8, 0, 0x12, 0x34, 0, 0, 0, 0, 0, 0, 0, 0, 0]\<rparr>"

lemma sample_rule_fits: "rule_fits (map_lengths sample_rule) 24 40 16 8" "psid (map_lengths sample_rule) < 0"
  by (simp_all add: rule_fits_def map_lengths_def sample_rule_def map_rule_init_def)

lemma less_bits: "(\<forall>i < Suc n. P i) \<longleftrightarrow> (\<forall>i < n. P i) \<and> P n"
  by (auto simp: less_Suc_eq)

theorem map_calc_router_witness:
  "\<exists>out addr6. map_calc sample_env sample_rule [] = Some (Printed out) \<and>
    out_addr4 out = Some ([192, 0, 2, 18], 32) \<and> out_ports out = map_ports 6 8 (0x34 * 256) \<and>
    out_pd out = Some (pd sample_rule, 56, [], addr6)"
proof -
  obtain out addr4 addr6 P where out: "map_calc sample_env sample_rule [] = Some (Printed out)" "length addr4 = 4"
      "out_addr4 out = (if addr4 = replicate 4 0 then None else Some (addr4, min 32 (int (24 + 16))))"
      "out_pd out = Some (pd sample_rule, pdlen sample_rule, [], addr6)"
      "out_ports out = map_ports (offset sample_rule) 8 (int P * 2 ^ (16 - 8))"
    and a: "\<And>i. i < 32 \<Longrightarrow> bit_at addr4 i = (if i < 24 then bit_at (ipv4prefix sample_rule) i
      else i - 24 < 16 - 8 \<and> bit_at (pd sample_rule) (40 + (i - 24)))"
    and P: "P < 2 ^ 8" "\<And>i. i < 8 \<Longrightarrow> bit P (8 - 1 - i) = bit_at (pd sample_rule) (40 + 16 - 8 + i)"
    using map_calc_router [OF sample_rule_fits, of sample_env "[]"]
    by (auto simp: sample_rule_def map_rule_init_def)
  have "addr4 = [192, 0, 2, 18]"
  proof (rule bits_list_eqI)
    fix i assume "i < 8 * length addr4"
    then have "i \<in> set [0..<32]" using out(2) by simp
    then show "bit_at addr4 i = bit_at [192, 0, 2, 18] i"
      using a [of i] by (auto simp: upt_rec bit_at_def sample_rule_def)
  qed (use out(2) in simp)
  moreover have "P = 0x34"
  proof (rule bit_eqI)
    fix n
    show "bit P n = bit (0x34 :: nat) n"
    proof (cases "n < 8")
      case True
      then have "n = 0 \<or> n = 1 \<or> n = 2 \<or> n = 3 \<or> n = 4 \<or> n = 5 \<or> n = 6 \<or> n = 7" by linarith
      then show ?thesis using P(2) [of "7 - n"] by (elim disjE) (simp_all add: bit_at_def sample_rule_def bit_0)
    next
      case False
      have "take_bit 8 P = P" "take_bit 8 (0x34 :: nat) = 0x34" using P(1) by (simp_all add: take_bit_nat_eq_self)
      then show ?thesis using False by (metis bit_take_bit_iff)
    qed
  qed
  moreover have "replicate 4 (0 :: u8) = [0, 0, 0, 0]" by (simp add: numeral_eq_Suc)
  ultimately show ?thesis using out by (auto simp: sample_rule_def map_rule_init_def)
qed

section \<open>Fields that do not fit\<close>

text \<open>
  C40: The lengths of a rule are not checked against the IPv4 address: when more than 32 bits of the
  delegated prefix are left for it (as with \<open>ealen=48,psidlen=1\<close>), \<open>bmemcpys64\<close> writes beyond the
  four bytes of \<open>ipv4addr\<close>.
\<close>

theorem map_address_overrun:
  assumes "\<not> map_invalid (map_lengths r)" and "0 \<le> pdlen r" and "32 < ealen (map_lengths r) - psidlen (map_lengths r)"
  shows "map_calc env r iface = None"
proof -
  let ?r = "map_lengths r"
  have "pdlen ?r = pdlen r" by (simp add: map_lengths_def Let_def)
  have "bmemcpy (replicate 4 0) b n = None" if "32 < n" for b n
  proof (cases "n div 8 = 4")
    case True
    then have "0 < n mod 8" using that by presburger
    then show ?thesis using True by (auto simp: bmemcpy_def buf_get_def buf_put_def arr_get_def Let_def)
  next
    case False
    then have "4 < n div 8" using that by presburger
    then show ?thesis by (auto simp: bmemcpy_def buf_get_def buf_put_def Let_def)
  qed
  then have "bmemcpys64 (replicate 4 0) b m n = None" if "32 < n" for b m n
    using that by (auto simp: bmemcpys64_def Let_def bind_eq_None_conv)
  then have "map_addr4 env ?r = None"
    using assms(2,3) \<open>pdlen ?r = pdlen r\<close> by (simp add: map_addr4_def)
  then show ?thesis using assms(1) by (cases "map_psid ?r") (auto simp: map_calc_def Let_def)
qed

theorem map_address_overrun_witness:
  "map_calc sample_env (sample_rule\<lparr>ealen := 48, psidlen := 1\<rparr>) [] = None"
  by (rule map_address_overrun) (simp_all add: sample_rule_def map_rule_init_def map_lengths_def map_invalid_def)

end
