(* ===== verification/Spec2Isabelle.thy ===== *)
theory Spec2Isabelle
  imports Nmbm_Remap Nmbm_Sample Bmt_Start Bmt_Core_Theorems Bmt_Live En75_Io Nvram_Theorems
    Pad_Marks Boot_Theorems Map_Theorems Map_Address
begin

text \<open>
  Verification development for the flash storage stack of the router firmware, and
  for three small programs around it.

  \<^bold>\<open>The program.\<close> The development covers the parts of the repository that keep persistent
  state on flash, and two calculations that decide how a router boots and which addresses it has.

  \<^item> The bad block managers of the MediaTek NAND driver
  (\<open>target/linux/generic/files/drivers/mtd/nand/\<close>). The core \<open>mtk_bmt.c\<close> replaces the operations
  of an MTD device; a read, write or erase of a logical block asks a scheme, through a table of
  three operations (\<open>struct mtk_bmt_ops\<close>), for the physical block, and asks it to remap the block
  when the chip reports an error. There are three schemes in this directory: NMBM
  (\<open>mtk_bmt_nmbm.c\<close>), v2 (\<open>mtk_bmt_v2.c\<close>) and BBT (\<open>mtk_bmt_bbt.c\<close>). A fourth,
  \<open>target/linux/econet/files/drivers/mtd/nand/en75_bmt.c\<close>, reads and writes the tables of the vendor of
  the EcoNet chips: factory bad blocks shift the blocks behind them, worn blocks are mapped to a
  reserve area at the end of the chip.
  \<^item> The NVRAM utility (\<open>package/utils/nvram/src/\<close>): a hash table of variables in \<open>nvram.c\<close>, kept in
  a partition with a header and a CRC-8 (\<open>crc.c\<close>), and the command line \<open>cli.c\<close>.
  \<^item> \<open>tools/padjffs2/src/padjffs2.c\<close>, which pads an image to the erase blocks on which the file system
  of the device may begin, and marks them.
  \<^item> \<open>package/utils/zyxel-bootconfig/src/zyxel-bootconfig.c\<close>, which reads and sets which of two images
  the boot loader starts.
  \<^item> \<open>package/network/ipv6/map/src/mapcalc.c\<close>, which computes the IPv4 address, the port sets and the
  IPv6 address of a router from the rules of its provider (MAP-E, MAP-T, lw4over6).

  \<^bold>\<open>Theories and code.\<close>

  \<^item> \<open>Flash_Prelude\<close>: the types, results (\<open>option\<close>: \<open>None\<close> is an access outside a buffer or another
  undefined behaviour, or a loop that does not end; \<open>returns\<close> is total correctness over it),
  buffers of bytes and little-endian encodings. \<open>Cell_Table\<close> and \<open>Kv_Table\<close> hold the two interfaces
  of tables as locales: packed cells (interpreted on the block states of NMBM, the 16-bit words of v2
  and the two-bit marks of BBT) and finite maps with a capacity (interpreted on the variables).
  \<^item> \<open>Mtd_Device\<close>: the record \<open>bmtd\<close> of the chip's geometry and of the driver's operations, which are
  parameters, with the steps that programming, erasing and marking may make, and a small simulated
  chip for the witnesses. \<open>Flash_Addr\<close> and \<open>Bmt_Nand\<close>: addresses of blocks and pages, and
  the helpers of \<open>mtk_bmt.h\<close>.
  \<^item> \<open>Bmt_Core\<close>: reading, writing, erasing, marking and the debug entry points of \<open>mtk_bmt.c\<close> over a
  record of scheme operations, and the locale \<open>bmt_scheme\<close> of the laws that each scheme is shown to
  have. \<open>Bmt_Copy\<close>: \<open>bbt_nand_copy\<close>. \<open>Bmt_Attach\<close>: attaching and detaching;
  \<open>Bmt_Start\<close>: the \<open>init\<close> operations of the three schemes that it calls, and its properties. \<open>Bmt_Scheme\<close>: the locales
  \<open>working_chip\<close> and \<open>working_core\<close>, in which reads, writes and erases through any scheme are related
  to the bytes of the chip. \<open>Bmt_Core_Theorems\<close>: the properties of the core.
  \<^item> \<open>Nmbm_Base\<close>, \<open>Nmbm_Io\<close>, \<open>Nmbm_Write\<close>, \<open>Nmbm_Table\<close>, \<open>Nmbm_Map\<close>, \<open>Nmbm_Attach\<close>, \<open>Nmbm_Init\<close>: the functions of
  \<open>mtk_bmt_nmbm.c\<close> in the order of the file, over the record \<open>nmbm\<close> (\<open>struct nmbm_instance\<close>).
  \<open>Nmbm_Steps\<close> and \<open>Nmbm_Update\<close>: what each operation may do to the chip and to the instance, up to the
  update of the info tables. \<open>Nmbm_Theorems\<close> and \<open>Nmbm_Remap\<close>: the properties. \<open>Nmbm_Sample\<close>: an
  instance for the witnesses.
  \<^item> \<open>Bmt_V2\<close> and \<open>Bmt_V2_Init\<close>: the functions of \<open>mtk_bmt_v2.c\<close> over the record \<open>bmt_v2\<close>, whose table is the
  byte buffer of the code. \<open>Bmt_V2_Words\<close> and \<open>Bmt_V2_Pool\<close>: the table as words, its pool and the upload
  of it. \<open>Bmt_V2_Theorems\<close>: the properties.
  \<^item> \<open>Bmt_Bbt\<close>: the functions of \<open>mtk_bmt_bbt.c\<close>. \<open>Bmt_Bbt_Map\<close>: the marks as a table and the mapping as an
  enumeration of good blocks before bad ones. \<open>Bmt_Bbt_Theorems\<close>: the properties.
  \<^item> \<open>En75_Tables\<close>, \<open>En75_Write\<close>, \<open>En75_Init\<close>: the functions of \<open>en75_bmt.c\<close> in the order of the file, over
  the record \<open>en75\<close> (\<open>struct en75_bmt_m\<close>). \<open>En75_Map\<close>: the mapping as an enumeration followed by a
  finite map. \<open>En75_Codec\<close>: the tables as bytes. \<open>En75_Steps\<close> and \<open>En75_Sync\<close>: what writing and erasing
  leave alone (\<open>quiet\<close>), and the update of the tables. \<open>En75_Remap\<close>, \<open>En75_Unmap\<close> and \<open>En75_Ops\<close>: the
  invariant \<open>en75_ok\<close> and what remapping and unmapping make of it. \<open>En75_Scan\<close>: the reserve area.
  \<open>En75_Theorems\<close> and \<open>En75_Io\<close>: the properties; \<open>En75_Io\<close> shows the contracts of the core.
  \<^item> \<open>Nvram_Crc\<close> (\<open>crc.c\<close>), \<open>Nvram_Table\<close> and \<open>Nvram_Commit\<close> (\<open>nvram.c\<close>), \<open>Nvram_Cli\<close> (the staging files and
  \<open>cli.c\<close>). \<open>Nvram_Roundtrip\<close>, \<open>Nvram_Persist\<close> and \<open>Nvram_Open\<close>: serialised variables, a commit and
  opening again. \<open>Nvram_Session\<close>: sequences of operations. \<open>Nvram_Theorems\<close>: the properties.
  \<^item> \<open>Nvram_Session\<close>: sequences of operations on a handle as an inductive step relation.
  \<open>Bmt_Live\<close>: the locale \<open>live_scheme\<close> of what the repeating loops of the core rely on, interpreted on the
  BBT scheme.
  \<^item> \<open>C_Text\<close>: strings and the numbers that \<open>strtoul\<close> and \<open>atoi\<close> read, for the command lines.
  \<^item> \<open>Pad_Image\<close> (\<open>padjffs2.c\<close>) and \<open>Pad_Marks\<close>, its properties. \<open>Boot_Config\<close> (\<open>zyxel-bootconfig.c\<close>) and
  \<open>Boot_Theorems\<close>, with the locale \<open>boot_partition\<close> of a partition that works.
  \<^item> \<open>Map_Bits\<close>, \<open>Map_Rule\<close>, \<open>Map_Calc\<close>: the functions of \<open>mapcalc.c\<close> in the order of the file: copies of
  bits, the options of a rule and the search for the delegated prefix, the calculation.
  \<open>Map_Theorems\<close>: the port sets. \<open>Map_Address\<close>: the addresses.

  \<^bold>\<open>What is shown.\<close> For NMBM: the update of the info tables terminates on every chip, touches the
  management area only and keeps the instance well-formed; retiring a block maps it to a good spare
  block; a table that is built passes the checks of the loading code and is restored by it; the state
  walks and the initial mapping compute the blocks of an enumeration. For the core: attaching and
  detaching undo each other on every path but for an overridden out-of-band size; reading implements the abstract
  address space of a scheme, and what is written after an erase is read back through the v2 and BBT
  schemes. For v2 and BBT: remapping refines the update of a map and the mapping is a
  bijection. For NVRAM: committing and opening again keep the variables, from the command line down,
  and the checksum is the CRC of its polynomial. Several theorems state what the code does where
  that is not what it means to do (a mapping used twice, a search without end, writes beyond a
  buffer, lost variables, a commit that reads through \<open>NULL\<close>, the first block of the device erased); they stand beside the others.
  For the programs: every requested boundary is marked and the loop over the sizes ends; what is
  set in the boot configuration is what is read; the addresses and port sets of a rule are
  those of the MAP algorithm, and routers that share an address share no port. Requests to the
  block managers come to an end whatever the chip returns, and every sequence of operations on
  the variables is defined and keeps them consistent.
  For the EcoNet scheme: the mapping loop is the enumeration of the usable blocks and gives no block
  twice; remapping and unmapping update it at one block and keep the context consistent on every
  chip; tables that are stored are read back; the reserve area is the shortest that has enough good
  blocks; data are read back through it and requests come to an end. The invariant \<open>en75_ok\<close> asks
  that no block has two entries in the table of mappings and that each entry names a mapped block of
  the reserve area; the operations keep it, but a table that is read from flash or reconstructed
  from marks is not checked for it, so it is a hypothesis of the theorems. Those about updates of the tables assume a reserve area of at most 256 blocks, and it is
  shown that the code writes beyond the table otherwise.
  \<^bold>\<open>Bounds.\<close> Machine integers are words of the width of the code; conversions between signed and
  unsigned ones are written out. Loops that end are total functions with a measure; the loops whose
  end depends on the chip or a scheme are \<open>partial_function (option)\<close>, and the theorems about them show
  that the result is defined. No fuel is used. The retries of the code (\<open>NMBM_TRY_COUNT\<close>, ten rounds
  in the core) are counters of the code.

  \<^bold>\<open>Not modelled.\<close> Messages of the kernel log and debugfs nodes. The chip driver, the kernel's CRC-32,
  memory allocation and files are parameters; the theorems name what they assume of them. The rest
  of the repository is listed in the manifest: hardware drivers, vendored programs (kconfig, ead's
  cryptography), bindings to programs that are not in the repository, and separate programs of
  single devices.
\<close>

section \<open>Updating the info tables\<close>

text \<open>
  C1: On a well-formed instance \<open>nmbm_update_info_table\<close> ends with a defined result, whatever
  the chip's operations return: no buffer is accessed outside its bounds and the loop that
  repeats the update while it retires blocks terminates. The instance stays well-formed, and
  on success both change counters are zero unless the instance is write-protected.
\<close>

theorem update_info_table_total:
  assumes "env_ok env" and "tables_ok env s"
  shows "returns (nmbm_update_info_table env s)
    (\<lambda>(ok, s'). tables_ok env s' \<and> (ok \<longrightarrow> tables_clean s' \<or> protected s))"
  using update_info_table_spec [OF assms] by (auto elim!: returns_mono simp: upd_step_def)

theorem update_info_table_total_witness:
  "returns (nmbm_update_info_table sim_bmtd sample_nmbm)
    (\<lambda>(ok, s'). tables_ok sim_bmtd s' \<and> (ok \<longrightarrow> tables_clean s' \<or> protected sample_nmbm))"
  by (rule update_info_table_total [OF sim_env_ok sample_tables_ok])

text \<open>
  C2: An update of the info tables only touches the management area: every property of the
  chip that programming, erasing and marking between \<open>mgmt_start_ba\<close> and
  \<open>mapping_blocks_top_ba\<close> keep holds after it when it held before, and the logical mapping,
  the signature and the area bounds are the same.
\<close>

theorem update_info_table_safe:
  assumes "env_ok env" and "tables_ok env s"
    and "chip_keeps env (in_blocks env (mgmt_start_ba s) (mapping_blocks_top_ba s)) I" and "I (dev s)"
  shows "returns (nmbm_update_info_table env s) (\<lambda>(ok, s'). I (dev s') \<and> same_map s s')"
  using update_info_table_spec [OF assms(1,2)] assms(3,4)
  by (auto elim!: returns_mono simp: upd_step_def intro: dev_steps_keep)

theorem update_info_table_safe_witness:
  "returns (nmbm_update_info_table sim_bmtd sample_nmbm)
    (\<lambda>(ok, s'). cells (dev s') 1023 = 0xFF \<and> same_map sample_nmbm s')"
proof (rule update_info_table_safe [OF sim_env_ok sample_tables_ok])
  show "chip_keeps sim_bmtd (in_blocks sim_bmtd (mgmt_start_ba sample_nmbm)
      (mapping_blocks_top_ba sample_nmbm)) (\<lambda>d. cells d 1023 = 0xFF)"
    by (rule sim_keeps_cell) (simp add: in_blocks_def sample_nmbm_def sim_bmtd_def)
  show "cells (dev sample_nmbm) 1023 = 0xFF"
    by (simp add: sample_nmbm_def sample_init_def nmbm_init_structure_def nmbm_zeroed_def Let_def
        sim_blank_def)
qed

end
